(* ===== verification/C_Prelude.thy ===== *)
theory C_Prelude
  imports Main "HOL-Library.Word" "HOL-Library.Char_ord" "HOL-Library.List_Lexorder"
begin

text \<open>
  What every component of the development shares: the ways a C program can go wrong, memory as
  lists of bytes, the C library's string functions on such memory, decimal numbers, and the
  heap of strings that \<open>strdup\<close> and \<open>free\<close> work on.

  A byte is an Isabelle \<^typ>\<open>char\<close> (exactly eight bits); the order on characters and on
  lists of characters is the unsigned lexicographic one, as \<open>strcmp\<close> compares.
  An \<open>unsigned\<close> is a 32-bit word; an \<open>int\<close> that the code keeps non-negative and
  below the size of a buffer is a natural number.
\<close>

section \<open>Failures as values\<close>

text \<open>
  Undefined behaviour and program exits are values, so that the absence of both is something
  to prove. \<open>Bad_Unlock\<close> is the release of a mutex (or a wait that releases it) by a thread that
  does not hold it, \<open>Bad_Conversion\<close> the conversion of a floating-point number to an integer type it
  does not fit, \<open>Exit n\<close> a call of \<open>exit(n)\<close>.
\<close>

datatype c_error =
    Null_Deref
  | Bad_Deref
  | Out_Of_Bounds
  | Bad_Free
  | Bad_Unlock
  | Signed_Overflow
  | Div_By_Zero
  | Bad_Conversion
  | Exit int

type_synonym 'a result = "c_error + 'a"
type_synonym u32 = "32 word"

definition bind_res :: "'a result \<Rightarrow> ('a \<Rightarrow> 'b result) \<Rightarrow> 'b result" where
  "bind_res m f = (case m of Inl e \<Rightarrow> Inl e | Inr x \<Rightarrow> f x)"

lemma bind_res_simps [simp]:
  "bind_res (Inl e) f = Inl e"
  "bind_res (Inr x) f = f x"
  by (simp_all add: bind_res_def)

lemma bind_res_eq_Inr:
  "(bind_res m f = Inr y) = (\<exists>x. m = Inr x \<and> f x = Inr y)"
  by (cases m) simp_all

lemma bind_res_cong [fundef_cong]:
  "m = m' \<Longrightarrow> (\<And>x. m' = Inr x \<Longrightarrow> f x = f' x) \<Longrightarrow> bind_res m f = bind_res m' f'"
  by (cases m') auto

lemma bind_res_assoc: "bind_res (bind_res m f) g = bind_res m (\<lambda>x. bind_res (f x) g)"
  by (cases m) simp_all

text \<open>
  Every normal result satisfies \<open>P\<close>: a partial-correctness predicate with a rule for
  sequencing, which carries the frame lemmas of the larger programs.
\<close>

definition res_all :: "('a \<Rightarrow> bool) \<Rightarrow> 'a result \<Rightarrow> bool" where
  "res_all P m = (case m of Inl e \<Rightarrow> True | Inr x \<Rightarrow> P x)"

lemma res_all_simps [simp]:
  "res_all P (Inl e)"
  "res_all P (Inr x) = P x"
  by (simp_all add: res_all_def)

lemma res_all_bindI:
  "(\<And>x. m = Inr x \<Longrightarrow> res_all P (f x)) \<Longrightarrow> res_all P (bind_res m f)"
  by (cases m) simp_all

lemma res_all_bind_rule:
  "res_all Q m \<Longrightarrow> (\<And>x. Q x \<Longrightarrow> res_all P (f x)) \<Longrightarrow> res_all P (bind_res m f)"
  by (cases m) simp_all

lemma res_allD: "res_all P m \<Longrightarrow> m = Inr x \<Longrightarrow> P x"
  by simp

definition int_max :: int where
  "int_max = 2 ^ 31 - 1"

text \<open>The sum of two \<open>int\<close>s, and the conversions of an \<open>int\<close> to \<open>size_t\<close> and of an \<open>ssize_t\<close> to \<open>int\<close>.\<close>

definition int_add :: "int \<Rightarrow> int \<Rightarrow> int result" where
  "int_add a b =
     (if - int_max - 1 \<le> a + b \<and> a + b \<le> int_max then Inr (a + b) else Inl Signed_Overflow)"

definition size_t_of :: "int \<Rightarrow> nat" where
  "size_t_of n = nat (n mod 2 ^ 64)"

definition int_of_ssize :: "int \<Rightarrow> int" where
  "int_of_ssize n = sint (word_of_int n :: 32 word)"

lemma size_t_of_nat: "n < 2 ^ 31 \<Longrightarrow> size_t_of (int n) = n"
  by (simp add: size_t_of_def)

lemma int_of_ssize_nat: "n < 2 ^ 31 \<Longrightarrow> int_of_ssize (int n) = int n"
  unfolding int_of_ssize_def int_word_sint by simp

lemma int_add_nat: "m + n < 2 ^ 31 \<Longrightarrow> int_add (int m) (int n) = Inr (int (m + n))"
  by (simp add: int_add_def int_max_def)

section \<open>Bytes and memory\<close>

abbreviation NUL :: char where "NUL \<equiv> CHR 0x00"
abbreviation TAB :: char where "TAB \<equiv> CHR 0x09"
abbreviation LF :: char where "LF \<equiv> CHR 0x0A"
abbreviation CR :: char where "CR \<equiv> CHR 0x0D"
abbreviation SP :: char where "SP \<equiv> CHR 0x20"
abbreviation CRLF2 :: string where "CRLF2 \<equiv> [CR, LF, CR, LF]"

text \<open>A string literal as it lies in memory, and reads and writes that check the bounds.\<close>

definition cstr :: "string \<Rightarrow> string" where
  "cstr s = s @ [NUL]"

definition mem_get :: "string \<Rightarrow> nat \<Rightarrow> char result" where
  "mem_get m i = (if i < length m then Inr (m ! i) else Inl Out_Of_Bounds)"

definition mem_slice :: "string \<Rightarrow> nat \<Rightarrow> nat \<Rightarrow> string result" where
  "mem_slice m i n = (if i + n \<le> length m then Inr (take n (drop i m)) else Inl Out_Of_Bounds)"

definition mem_put :: "string \<Rightarrow> nat \<Rightarrow> string \<Rightarrow> string result" where
  "mem_put m i bs =
     (if i + length bs \<le> length m then Inr (take i m @ bs @ drop (i + length bs) m)
      else Inl Out_Of_Bounds)"

text \<open>The first position from \<open>i\<close> on whose byte does not satisfy \<open>P\<close>.\<close>

definition mem_span :: "string \<Rightarrow> (char \<Rightarrow> bool) \<Rightarrow> nat \<Rightarrow> nat result" where
  "mem_span m P i =
     (let j = i + length (takeWhile P (drop i m))
      in if j < length m then Inr j else Inl Out_Of_Bounds)"

lemma mem_get_Inr [simp]: "i < length m \<Longrightarrow> mem_get m i = Inr (m ! i)"
  by (simp add: mem_get_def)

lemma mem_slice_length: "mem_slice m i n = Inr s \<Longrightarrow> length s = n"
  by (auto simp: mem_slice_def split: if_splits)

lemma mem_put_length: "mem_put m i bs = Inr m' \<Longrightarrow> length m' = length m"
  by (auto simp: mem_put_def split: if_splits)

lemma mem_put_0: "length bs \<le> length m \<Longrightarrow> mem_put m 0 bs = Inr (bs @ drop (length bs) m)"
  by (simp add: mem_put_def)

lemma mem_put_slice:
  assumes "mem_put m i bs = Inr m'"
  shows "mem_slice m' i (length bs) = Inr bs"
  using assms by (auto simp: mem_put_def mem_slice_def split: if_splits)

lemma mem_span_append:
  assumes "\<forall>c \<in> set xs. P c" and "\<not> P y"
  shows "mem_span (pre @ xs @ y # zs) P (length pre) = Inr (length pre + length xs)"
  using assms by (simp add: mem_span_def takeWhile_tail)

section \<open>The C library on byte memory\<close>

text \<open>The NUL-terminated string at the start of a piece of memory.\<close>

fun scan_nul :: "string \<Rightarrow> string result" where
  "scan_nul [] = Inl Out_Of_Bounds"
| "scan_nul (c # cs) =
     (if c = NUL then Inr []
      else (case scan_nul cs of Inl e \<Rightarrow> Inl e | Inr s \<Rightarrow> Inr (c # s)))"

definition cstr_at :: "string \<Rightarrow> nat \<Rightarrow> string result" where
  "cstr_at m i = scan_nul (drop i m)"

lemma scan_nul_append [simp]: "NUL \<notin> set s \<Longrightarrow> scan_nul (s @ NUL # m) = Inr s"
  by (induction s) auto

lemma scan_nul_cstr [simp]: "NUL \<notin> set s \<Longrightarrow> scan_nul (cstr s) = Inr s"
  by (simp add: cstr_def)

lemma scan_nul_no_nul: "scan_nul m = Inr s \<Longrightarrow> NUL \<notin> set s"
  by (induction m arbitrary: s) (auto split: if_splits sum.splits)

text \<open>The value of a byte, as the comparison functions see it (\<open>unsigned char\<close>).\<close>

definition byte_val :: "char \<Rightarrow> int" where
  "byte_val c = int (of_char c)"

lemma byte_val_less_iff [simp]: "byte_val c < byte_val d \<longleftrightarrow> c < d"
  by (simp add: byte_val_def less_char_def)

lemma byte_val_eq_iff [simp]: "byte_val c = byte_val d \<longleftrightarrow> c = d"
  by (simp add: byte_val_def)

lemma NUL_less_iff [simp]: "NUL < c \<longleftrightarrow> c \<noteq> NUL"
  by (auto simp: less_char_def of_char_eq_iff [where ?'a = nat, symmetric] simp del: of_char_eq_iff)

lemma not_less_NUL [simp]: "\<not> c < NUL"
  by (simp add: less_char_def)

text \<open>
  \<open>strcmp\<close> and \<open>strncmp\<close> read both strings up to the first difference, the common
  NUL or, for \<open>strncmp\<close>, the count; running off either memory is a failure.
\<close>

fun strncmp :: "nat \<Rightarrow> string \<Rightarrow> string \<Rightarrow> int result" where
  "strncmp 0 xs ys = Inr 0"
| "strncmp (Suc n) (x # xs) (y # ys) =
     (if x \<noteq> y then Inr (byte_val x - byte_val y)
      else if x = NUL then Inr 0
      else strncmp n xs ys)"
| "strncmp (Suc n) xs ys = Inl Out_Of_Bounds"

fun strcmp :: "string \<Rightarrow> string \<Rightarrow> int result" where
  "strcmp (x # xs) (y # ys) =
     (if x \<noteq> y then Inr (byte_val x - byte_val y)
      else if x = NUL then Inr 0
      else strcmp xs ys)"
| "strcmp xs ys = Inl Out_Of_Bounds"

text \<open>
  \<open>strtok\<close> with its hidden static pointer made explicit: the call resumes at \<open>i\<close>
  and returns the token, the memory with the delimiter overwritten and the new position.
\<close>

definition strtok_at ::
  "string \<Rightarrow> nat \<Rightarrow> char \<Rightarrow> (string option \<times> string \<times> nat) result" where
  "strtok_at m i d =
     (case mem_span m (\<lambda>c. c = d) i of
        Inl e \<Rightarrow> Inl e
      | Inr s \<Rightarrow>
          if m ! s = NUL then Inr (None, m, s)
          else (case mem_span m (\<lambda>c. c \<noteq> d \<and> c \<noteq> NUL) s of
                  Inl e \<Rightarrow> Inl e
                | Inr t \<Rightarrow>
                    if m ! t = NUL then Inr (Some (take (t - s) (drop s m)), m, t)
                    else Inr (Some (take (t - s) (drop s m)), m[t := NUL], Suc t)))"

text \<open>\<open>strtok (NULL, d)\<close>: with no saved position there is nothing to resume.\<close>

definition strtok_next ::
  "string \<Rightarrow> nat option \<Rightarrow> char \<Rightarrow> (string option \<times> string \<times> nat) result" where
  "strtok_next m sv d = (case sv of None \<Rightarrow> Inl Null_Deref | Some i \<Rightarrow> strtok_at m i d)"


subsection \<open>What the library functions compute on well-formed strings\<close>

lemma strcmp_cstr:
  assumes "NUL \<notin> set s" and "NUL \<notin> set t"
  shows "\<exists>c. strcmp (cstr s) (cstr t) = Inr c \<and> (c < 0 \<longleftrightarrow> s < t) \<and> (c = 0 \<longleftrightarrow> s = t)"
  using assms
proof (induction s arbitrary: t)
  case Nil
  then show ?case
    by (cases t) (auto simp: cstr_def)
next
  case (Cons x s)
  show ?case
  proof (cases t)
    case Nil
    with Cons.prems show ?thesis by (auto simp: cstr_def)
  next
    case (Cons y t')
    with Cons.prems Cons.IH [of t'] show ?thesis
      by (cases "x = y") (auto simp: cstr_def)
  qed
qed


lemma mem_span_at:
  assumes "\<forall>c \<in> set xs. P c" and "\<not> P y" and "i = length pre" and "j = i + length xs"
  shows "mem_span (pre @ xs @ y # zs) P i = Inr j"
  using assms mem_span_append [of xs P y pre zs] by simp

lemma strtok_at_token:
  assumes "tok \<noteq> []" and "NUL \<notin> set tok" and "d \<notin> set tok" and "d \<noteq> NUL"
    and "i = length pre"
  shows "strtok_at (pre @ tok @ d # zs) i d =
    Inr (Some tok, pre @ tok @ NUL # zs, Suc (i + length tok))"
proof -
  obtain a as where tok: "tok = a # as" using assms(1) by (cases tok) auto
  have "mem_span (pre @ tok @ d # zs) (\<lambda>c. c = d) i = Inr i"
    using mem_span_at [of "[]" "\<lambda>c. c = d" a i pre i "as @ d # zs"] assms tok by auto
  moreover have "mem_span (pre @ tok @ d # zs) (\<lambda>c. c \<noteq> d \<and> c \<noteq> NUL) i = Inr (i + length tok)"
    using assms by (intro mem_span_at) auto
  ultimately show ?thesis
    using assms tok by (auto simp: strtok_at_def nth_append list_update_append)
qed

lemma strtok_at_last:
  assumes "tok \<noteq> []" and "NUL \<notin> set tok" and "d \<notin> set tok" and "d \<noteq> NUL"
    and "i = length pre"
  shows "strtok_at (pre @ tok @ NUL # zs) i d =
    Inr (Some tok, pre @ tok @ NUL # zs, i + length tok)"
proof -
  obtain a as where tok: "tok = a # as" using assms(1) by (cases tok) auto
  have "mem_span (pre @ tok @ NUL # zs) (\<lambda>c. c = d) i = Inr i"
    using mem_span_at [of "[]" "\<lambda>c. c = d" a i pre i "as @ NUL # zs"] assms tok by auto
  moreover have "mem_span (pre @ tok @ NUL # zs) (\<lambda>c. c \<noteq> d \<and> c \<noteq> NUL) i = Inr (i + length tok)"
    using assms by (intro mem_span_at) auto
  ultimately show ?thesis
    using assms tok by (auto simp: strtok_at_def nth_append)
qed

lemma strtok_at_none:
  assumes "d \<noteq> NUL" and "i = length pre"
  shows "strtok_at (pre @ NUL # zs) i d = Inr (None, pre @ NUL # zs, i)"
  using mem_span_at [of "[]" "\<lambda>c. c = d" NUL i pre i zs] assms
  by (auto simp: strtok_at_def nth_append)

lemma strncmp_prefix_eq:
  assumes "NUL \<notin> set s" and "n = length s"
  shows "strncmp n (s @ m) (cstr s) = Inr 0"
  using assms by (induction s arbitrary: n) (auto simp: cstr_def)

lemma strncmp_eq_0D:
  assumes "strncmp n m (cstr s) = Inr 0" and "NUL \<notin> set s" and "n = length s"
  shows "take n m = s"
  using assms
proof (induction s arbitrary: n m)
  case (Cons x s)
  then show ?case
    by (cases m) (auto simp: cstr_def byte_val_def split: if_splits)
qed simp

lemma strncmp_differ:
  assumes "length s = length t" and "s \<noteq> t" and "NUL \<notin> set t" and "n = length t"
  shows "\<exists>c. strncmp n (s @ m) (cstr t) = Inr c \<and> c \<noteq> 0"
  using assms
proof (induction s t arbitrary: n rule: list_induct2)
  case (Cons x xs y ys)
  then show ?case by (cases "x = y") (auto simp: cstr_def)
qed simp

lemma strncmp_defined:
  "n \<le> length xs \<Longrightarrow> n \<le> length ys \<Longrightarrow> \<exists>c. strncmp n xs ys = Inr c"
  by (induction n xs ys rule: strncmp.induct) auto

subsection \<open>Tokens in a buffer whose end is cleared\<close>

text \<open>
  The memory is \<open>NUL\<close> from position \<open>k\<close> on, and there is such a position: the
  tokeniser stops inside it.
\<close>

definition cleared :: "string \<Rightarrow> nat \<Rightarrow> bool" where
  "cleared m k \<longleftrightarrow> k < length m \<and> (\<forall>j. k \<le> j \<and> j < length m \<longrightarrow> m ! j = NUL)"

lemma cleared_mono: "cleared m k \<Longrightarrow> k \<le> k' \<Longrightarrow> k' < length m \<Longrightarrow> cleared m k'"
  by (auto simp: cleared_def)

lemma cleared_replicate: "k < n \<Longrightarrow> cleared (replicate n NUL) k"
  by (auto simp: cleared_def)

lemma cleared_update: "cleared m k \<Longrightarrow> cleared (m[t := NUL]) k"
  by (cases "t < length m") (auto simp: cleared_def nth_list_update)

lemma cleared_put:
  assumes "cleared m k" and "h \<le> k" and "k + length bs < length m"
  shows "\<exists>m'. mem_put m h bs = Inr m' \<and> cleared m' (k + length bs) \<and> length m' = length m"
  using assms by (auto simp: mem_put_def cleared_def nth_append)

lemma mem_span_bounded:
  assumes "cleared m k" and "i \<le> k" and "\<not> P NUL"
  shows "\<exists>s. mem_span m P i = Inr s \<and> i \<le> s \<and> s \<le> k \<and> \<not> P (m ! s) \<and>
    (\<forall>c \<in> set (take (s - i) (drop i m)). P c)"
proof -
  let ?n = "length (takeWhile P (drop i m))"
  have len: "?n \<le> k - i"
  proof (rule ccontr)
    assume "\<not> ?n \<le> k - i"
    then have "takeWhile P (drop i m) ! (k - i) = m ! k"
      using assms(1,2) by (simp add: takeWhile_nth cleared_def)
    moreover have "takeWhile P (drop i m) ! (k - i) \<in> set (takeWhile P (drop i m))"
      using \<open>\<not> ?n \<le> k - i\<close> by simp
    ultimately have "P (m ! k)" using set_takeWhileD by fastforce
    then show False using assms by (simp add: cleared_def)
  qed
  moreover have "k < length m" using assms(1) by (simp add: cleared_def)
  ultimately have lt: "i + ?n < length m" using assms(2) by linarith
  then have "\<not> P (drop i m ! ?n)"
    using nth_length_takeWhile [of P "drop i m"] by simp
  moreover have "take ?n (drop i m) = takeWhile P (drop i m)"
    by (rule takeWhile_eq_take [symmetric])
  moreover have "\<forall>c \<in> set (takeWhile P (drop i m)). P c"
    using set_takeWhileD by fast
  moreover have "i + ?n \<le> k" using len assms(2) by simp
  ultimately show ?thesis
    using lt by (intro exI [of _ "i + ?n"]) (simp add: mem_span_def Let_def)
qed

lemma strtok_bounded:
  assumes cl: "cleared m k" and ik: "i \<le> k" and d: "d \<noteq> NUL"
  shows "\<exists>tok m' sv. strtok_at m i d = Inr (tok, m', sv) \<and> i \<le> sv \<and> sv \<le> k \<and> cleared m' k \<and>
    length m' = length m \<and>
    (case tok of
       None \<Rightarrow> m' = m \<and> m ! sv = NUL
     | Some t \<Rightarrow> m ! i \<noteq> NUL \<and> t \<noteq> [] \<and> NUL \<notin> set t \<and>
         (m' = m \<and> m ! sv = NUL \<and> i + length t \<le> sv \<or>
          m' = m[sv - 1 := NUL] \<and> i + length t < sv))"
proof -
  obtain s where s: "mem_span m (\<lambda>c. c = d) i = Inr s" "i \<le> s" "s \<le> k" "m ! s \<noteq> d"
      "\<forall>c \<in> set (take (s - i) (drop i m)). c = d"
    using mem_span_bounded [OF cl ik, of "\<lambda>c. c = d"] d by auto
  show ?thesis
  proof (cases "m ! s = NUL")
    case True
    with s(1-3) cl show ?thesis by (auto simp: strtok_at_def)
  next
    case ns: False
    obtain t where t: "mem_span m (\<lambda>c. c \<noteq> d \<and> c \<noteq> NUL) s = Inr t" "s \<le> t" "t \<le> k"
        "\<not> (m ! t \<noteq> d \<and> m ! t \<noteq> NUL)"
        "\<forall>c \<in> set (take (t - s) (drop s m)). c \<noteq> d \<and> c \<noteq> NUL"
      using mem_span_bounded [OF cl s(3), of "\<lambda>c. c \<noteq> d \<and> c \<noteq> NUL"] by auto
    have km: "k < length m" "m ! k = NUL" using cl by (auto simp: cleared_def)
    have "s \<noteq> t" using t(4) s(4) ns by auto
    with t(2) have st: "s < t" by simp
    have i0: "m ! i \<noteq> NUL"
    proof (cases "s = i")
      case False
      have "drop i m = m ! i # drop (Suc i) m"
        using ik km(1) by (simp add: Cons_nth_drop_Suc)
      then have "m ! i \<in> set (take (s - i) (drop i m))"
        using False s(2) by (cases "s - i") simp_all
      with s(5) have "m ! i = d" by fast
      with d show ?thesis by simp
    qed (use ns in simp)
    have len: "length (take (t - s) (drop s m)) = t - s" using t(3) km(1) by simp
    have tk: "t < k" if "m ! t \<noteq> NUL" using that t(3) km(2) by (cases "t = k") auto
    have ne: "take (t - s) (drop s m) \<noteq> []"
      using st len by force
    have nn: "NUL \<notin> set (take (t - s) (drop s m))"
      using t(5) by blast
    show ?thesis
    proof (cases "m ! t = NUL")
      case True
      then have "strtok_at m i d = Inr (Some (take (t - s) (drop s m)), m, t)"
        using s(1) t(1) ns by (simp add: strtok_at_def)
      moreover have "i + t - s \<le> t" using s(2) by simp
      ultimately show ?thesis
        using cl t(3) i0 ne nn len True s(2) st
        by (intro exI [of _ "Some (take (t - s) (drop s m))"] exI [of _ m] exI [of _ t])
          (simp del: length_take)
    next
      case False
      then have "strtok_at m i d = Inr (Some (take (t - s) (drop s m)), m[t := NUL], Suc t)"
        using s(1) t(1) ns by (simp add: strtok_at_def)
      moreover have "i + (t - s) < Suc t" "i \<le> Suc t" "Suc t \<le> k"
        using s(2) st tk [OF False] by simp_all
      moreover have "i + t - s < Suc t" using s(2) by simp
      ultimately show ?thesis
        using cleared_update [OF cl, of t] i0 ne nn len s(2) st
        by (intro exI [of _ "Some (take (t - s) (drop s m))"] exI [of _ "m[t := NUL]"]
            exI [of _ "Suc t"]) (simp del: length_take)
    qed
  qed
qed


section \<open>Decimal numbers\<close>

definition isdigit :: "char \<Rightarrow> bool" where
  "isdigit c = (CHR ''0'' \<le> c \<and> c \<le> CHR ''9'')"

definition isspace :: "char \<Rightarrow> bool" where
  "isspace c = (c = SP \<or> (TAB \<le> c \<and> c \<le> CR))"

definition digit_val :: "char \<Rightarrow> int" where
  "digit_val c = byte_val c - 48"

definition dec_val :: "string \<Rightarrow> int" where
  "dec_val s = foldl (\<lambda>a c. 10 * a + digit_val c) 0 s"

text \<open>
  \<open>strtol (s, NULL, 10)\<close>, which saturates at the ends of a 64-bit \<open>long\<close>, and
  \<open>atoi\<close>, which the C library defines as its conversion to \<open>int\<close>.
\<close>

definition clamp_long :: "int \<Rightarrow> int" where
  "clamp_long v = max (- (2 ^ 63)) (min (2 ^ 63 - 1) v)"

definition strtol10 :: "string \<Rightarrow> int" where
  "strtol10 s =
     (case dropWhile isspace s of
        [] \<Rightarrow> 0
      | c # cs \<Rightarrow>
          if c = CHR ''-'' then clamp_long (- dec_val (takeWhile isdigit cs))
          else if c = CHR ''+'' then clamp_long (dec_val (takeWhile isdigit cs))
          else clamp_long (dec_val (takeWhile isdigit (c # cs))))"

definition atoi :: "string \<Rightarrow> int" where
  "atoi s = sint (word_of_int (strtol10 s) :: u32)"

text \<open>The digits that \<open>%zu\<close> and \<open>%d\<close> print for a number that is not negative.\<close>

definition digit_char :: "nat \<Rightarrow> char" where
  "digit_char d = char_of (48 + d)"

fun dec_of_nat :: "nat \<Rightarrow> string" where
  "dec_of_nat n =
     (if n < 10 then [digit_char n] else dec_of_nat (n div 10) @ [digit_char (n mod 10)])"

declare dec_of_nat.simps [simp del]

lemma digit_char_facts:
  assumes "d < 10"
  shows "isdigit (digit_char d)" and "digit_val (digit_char d) = int d"
    and "digit_char d \<noteq> NUL" and "digit_char d \<noteq> SP" and "\<not> isspace (digit_char d)"
proof -
  have v: "of_char (digit_char d) = 48 + d"
    using assms by (simp add: digit_char_def)
  then show "isdigit (digit_char d)" and "digit_val (digit_char d) = int d"
    and "\<not> isspace (digit_char d)"
    using assms by (auto simp: isdigit_def isspace_def digit_val_def byte_val_def
        less_eq_char_def)
  have "of_char (digit_char d) \<noteq> (of_char NUL :: nat)" and
    "of_char (digit_char d) \<noteq> (of_char SP :: nat)"
    using v by simp_all
  then show "digit_char d \<noteq> NUL" and "digit_char d \<noteq> SP" by metis+
qed

lemma dec_val_snoc [simp]: "dec_val (s @ [c]) = 10 * dec_val s + digit_val c"
  by (simp add: dec_val_def)

lemma dec_val_Nil [simp]: "dec_val [] = 0"
  by (simp add: dec_val_def)

lemma dec_val_dec_of_nat: "dec_val (dec_of_nat n) = int n"
proof (induction n rule: dec_of_nat.induct)
  case (1 n)
  show ?case
  proof (cases "n < 10")
    case True
    then show ?thesis
      using dec_val_snoc [of "[]" "digit_char n"]
      by (simp add: dec_of_nat.simps [of n] digit_char_facts)
  next
    case False
    then have "dec_val (dec_of_nat n) = 10 * int (n div 10) + int (n mod 10)"
      using 1 by (subst dec_of_nat.simps) (simp add: digit_char_facts)
    also have "\<dots> = int n" by presburger
    finally show ?thesis .
  qed
qed

lemma dec_of_nat_digits: "c \<in> set (dec_of_nat n) \<Longrightarrow> \<exists>d < 10. c = digit_char d"
proof (induction n rule: dec_of_nat.induct)
  case (1 n)
  then show ?case
    by (cases "n < 10") (auto simp: dec_of_nat.simps [of n] intro: exI [of _ "n mod 10"])
qed

lemma dec_of_nat_nonempty [simp]: "dec_of_nat n \<noteq> []"
  by (subst dec_of_nat.simps) simp

lemma dec_of_nat_isdigit: "c \<in> set (dec_of_nat n) \<Longrightarrow> isdigit c"
  using dec_of_nat_digits digit_char_facts(1) by blast

lemma dec_of_nat_no_NUL [simp]: "NUL \<notin> set (dec_of_nat n)"
  using dec_of_nat_digits digit_char_facts(3) by metis

lemma dec_of_nat_no_SP [simp]: "SP \<notin> set (dec_of_nat n)"
  using dec_of_nat_digits digit_char_facts(4) by metis


lemma takeWhile_digits:
  assumes "rest = [] \<or> \<not> isdigit (hd rest)"
  shows "takeWhile isdigit (dec_of_nat n @ rest) = dec_of_nat n"
proof -
  have "takeWhile isdigit (dec_of_nat n @ rest) = dec_of_nat n @ takeWhile isdigit rest"
    using dec_of_nat_isdigit by (intro takeWhile_append2) auto
  also have "takeWhile isdigit rest = []"
    using assms by (cases rest) auto
  finally show ?thesis by simp
qed

lemma strtol10_dec:
  assumes "rest = [] \<or> \<not> isdigit (hd rest)"
  shows "strtol10 (dec_of_nat n @ rest) = clamp_long (int n)"
proof -
  obtain c cs where c: "dec_of_nat n = c # cs"
    by (cases "dec_of_nat n") auto
  then obtain d where d: "d < 10" "c = digit_char d"
    using dec_of_nat_digits [of c n] by auto
  have "of_char c = 48 + d" using d by (simp add: digit_char_def)
  then have "c \<noteq> CHR ''-''" and "c \<noteq> CHR ''+''" by auto
  moreover have "\<not> isspace c" using d digit_char_facts by simp
  moreover have "dec_val (takeWhile isdigit (c # cs @ rest)) = int n"
    using takeWhile_digits [OF assms, of n] dec_val_dec_of_nat [of n] c by simp
  ultimately show ?thesis
    using c by (simp add: strtol10_def)
qed

lemma sint_word_of_int_small:
  "0 \<le> v \<Longrightarrow> v < 2 ^ 31 \<Longrightarrow> sint (word_of_int v :: u32) = v"
  by (simp add: int_word_sint)

text \<open>A number that fits an \<open>int\<close> survives printing and \<open>atoi\<close>.\<close>

lemma atoi_dec:
  assumes "n < 2 ^ 31" and "rest = [] \<or> \<not> isdigit (hd rest)"
  shows "atoi (dec_of_nat n @ rest) = int n"
proof -
  have "strtol10 (dec_of_nat n @ rest) = int n"
    using assms by (simp add: strtol10_dec clamp_long_def)
  then show ?thesis
    using sint_word_of_int_small [of "int n"] assms(1)
    by (simp add: atoi_def del: of_int_of_nat_eq)
qed

lemma length_dec_of_nat: "n < 10 ^ Suc k \<Longrightarrow> length (dec_of_nat n) \<le> Suc k"
proof (induction k arbitrary: n)
  case 0
  then show ?case by (simp add: dec_of_nat.simps [of n])
next
  case (Suc k)
  show ?case
  proof (cases "n < 10")
    case False
    then have "n div 10 < 10 ^ Suc k" using Suc.prems by simp
    with Suc.IH [of "n div 10"] False show ?thesis
      by (simp add: dec_of_nat.simps [of n])
  qed (simp add: dec_of_nat.simps [of n])
qed


section \<open>Unsigned arithmetic on small numbers\<close>

lemma unat_u32 [simp]: "n < 2 ^ 32 \<Longrightarrow> unat (of_nat n :: u32) = n"
  by (simp add: unat_of_nat take_bit_eq_mod)

lemma u32_less_iff: "a < 2 ^ 32 \<Longrightarrow> b < 2 ^ 32 \<Longrightarrow> ((of_nat a :: u32) < of_nat b) = (a < b)"
  by (simp add: word_less_nat_alt unat_of_nat take_bit_eq_mod)

lemma u32_le_iff: "a < 2 ^ 32 \<Longrightarrow> b < 2 ^ 32 \<Longrightarrow> ((of_nat a :: u32) \<le> of_nat b) = (a \<le> b)"
  by (simp add: word_le_nat_alt unat_of_nat take_bit_eq_mod)

lemma u32_diff: "b \<le> a \<Longrightarrow> (of_nat a :: u32) - of_nat b = of_nat (a - b)"
  by simp

lemma u32_sint: "n < 2 ^ 31 \<Longrightarrow> sint (of_nat n :: u32) = int n"
  using sint_word_of_int_small [of "int n"] by simp

lemma u32_of_int: "(word_of_int (int n) :: u32) = of_nat n"
  by simp

lemmas u32_arith = u32_less_iff u32_le_iff u32_diff u32_sint u32_of_int unat_u32

section \<open>Integers as bytes\<close>

lemma bytes_sum:
  fixes n :: int
  shows "n mod 2 ^ 8 + 2 ^ 8 * (n div 2 ^ 8 mod 2 ^ 8) + 2 ^ 16 * (n div 2 ^ 16 mod 2 ^ 8) +
    2 ^ 24 * (n div 2 ^ 24 mod 2 ^ 8) = n mod 2 ^ 32"
proof -
  have s: "n mod (256 * b) = 256 * (n div 256 mod b) + n mod 256" if "0 < b" for n b :: int
    using that by (intro zmod_zmult2_eq) simp
  have d: "n div 256 div 256 = n div 65536" "n div 65536 div 256 = n div 16777216" for n :: int
    by (simp_all add: zdiv_zmult2_eq [symmetric])
  have p: "(2 :: int) ^ 8 = 256" "(2 :: int) ^ 16 = 65536" "(2 :: int) ^ 24 = 16777216"
    "(2 :: int) ^ 32 = 256 * 16777216" "(16777216 :: int) = 256 * 65536" "(65536 :: int) = 256 * 256"
    by simp_all
  have "n mod (256 * 16777216) = 256 * (n div 256 mod 16777216) + n mod 256" by (rule s) simp
  moreover have "n div 256 mod 16777216 = 256 * (n div 65536 mod 65536) + n div 256 mod 256"
    unfolding d(1) [symmetric] p(5) by (rule s) simp
  moreover have "n div 65536 mod 65536 = 256 * (n div 16777216 mod 256) + n div 65536 mod 256"
    unfolding d(2) [symmetric] using s [of 256 "n div 65536"] by (simp only: p(6))
  ultimately show ?thesis unfolding p(1-4) by linarith
qed

lemma of_char_of_int: "(of_char (char_of (n :: int)) :: int) = n mod 2 ^ 8"
  by (simp add: of_char_of)

end
