(* ===== verification/Os_Model.thy ===== *)
theory Os_Model
  imports C_Prelude
begin

text \<open>
  The operating system as the program sees it: a heap of strings, stream sockets and open
  files. What the environment chooses (how the network cuts a stream into pieces, when a
  timeout fires, how much a \<open>write\<close> or a \<open>pread\<close> accepts) is data of the model,
  so that a theorem quantifies over it.
\<close>

section \<open>The heap of strings\<close>

text \<open>
  A \<open>char*\<close> is null, points to memory that did not come from \<open>malloc\<close> (a literal,
  an element of \<open>argv\<close>, an array) or points to a heap cell. \<open>malloc\<close> succeeds:
  no caller in the program tests its result.
\<close>

datatype cptr = Null | Static string | Heap nat

record cheap =
  cells :: "nat \<rightharpoonup> string"
  next_cell :: nat

definition heap_ok :: "cheap \<Rightarrow> bool" where
  "heap_ok h \<longleftrightarrow> (\<forall>a \<ge> next_cell h. cells h a = None)"

definition strdup :: "cheap \<Rightarrow> string \<Rightarrow> cptr \<times> cheap" where
  "strdup h s =
     (Heap (next_cell h),
      h\<lparr>cells := (cells h)(next_cell h \<mapsto> s), next_cell := Suc (next_cell h)\<rparr>)"

fun deref :: "cheap \<Rightarrow> cptr \<Rightarrow> string result" where
  "deref h Null = Inl Null_Deref"
| "deref h (Static s) = Inr s"
| "deref h (Heap a) = (case cells h a of None \<Rightarrow> Inl Bad_Deref | Some s \<Rightarrow> Inr s)"

fun free_ptr :: "cheap \<Rightarrow> cptr \<Rightarrow> cheap result" where
  "free_ptr h Null = Inr h"
| "free_ptr h (Static s) = Inl Bad_Free"
| "free_ptr h (Heap a) =
     (case cells h a of
        None \<Rightarrow> Inl Bad_Free
      | Some s \<Rightarrow> Inr (h\<lparr>cells := (cells h)(a := None)\<rparr>))"

lemma strdup_fresh: "strdup h s = (p, h') \<Longrightarrow> deref h' p = Inr s"
  by (auto simp: strdup_def)

section \<open>Stream sockets\<close>

text \<open>
  What a peer sends arrives as a list of events: \<open>Chunk c\<close> is data that becomes readable
  together (an empty chunk or the end of the list is the end of the stream), \<open>Sock_error\<close>
  is a failing read, such as the receive timeout the program sets. A read takes at most the
  bytes it asks for; what is left of a chunk stays readable.
\<close>

datatype sock_event = Chunk string | Sock_error

type_synonym input = "sock_event list"

fun sock_read :: "nat \<Rightarrow> input \<Rightarrow> string option \<times> input" where
  "sock_read k [] = (Some [], [])"
| "sock_read k (Sock_error # es) = (if k = 0 then (Some [], Sock_error # es) else (None, es))"
| "sock_read k (Chunk c # es) =
     (Some (take k c), if k < length c then Chunk (drop k c) # es else es)"

fun input_size :: "input \<Rightarrow> nat" where
  "input_size [] = 0"
| "input_size (Chunk c # es) = Suc (length c) + input_size es"
| "input_size (Sock_error # es) = Suc (input_size es)"

text \<open>All the bytes the environment will deliver, whatever the ends and failures between them.\<close>

fun input_bytes :: "input \<Rightarrow> nat" where
  "input_bytes [] = 0"
| "input_bytes (Chunk c # es) = length c + input_bytes es"
| "input_bytes (Sock_error # es) = input_bytes es"

lemma sock_read_input_bytes:
  "sock_read n es = (Some bs, es') \<Longrightarrow> length bs + input_bytes es' \<le> input_bytes es"
  by (induction n es rule: sock_read.induct) (auto split: if_splits)

text \<open>The bytes that will arrive before the stream ends or fails.\<close>

fun pending :: "input \<Rightarrow> string" where
  "pending [] = []"
| "pending (Chunk c # es) = (if c = [] then [] else c @ pending es)"
| "pending (Sock_error # es) = []"

lemma sock_read_decreases:
  assumes "sock_read k es = (Some bs, es')" and "bs \<noteq> []"
  shows "input_size es' < input_size es"
  using assms
  by (induction k es rule: sock_read.induct) (auto split: if_splits)

lemma sock_read_pending:
  assumes "pending es \<noteq> []" and "0 < k"
  shows "\<exists>bs es'. sock_read k es = (Some bs, es') \<and> bs \<noteq> [] \<and> length bs \<le> k \<and>
    pending es = bs @ pending es'"
proof -
  from assms(1) obtain c rest where es: "es = Chunk c # rest" and c: "c \<noteq> []"
    by (cases es rule: pending.cases) (auto split: if_splits)
  show ?thesis
  proof (cases "k < length c")
    case True
    then have "pending es = take k c @ pending (Chunk (drop k c) # rest)"
      using es c by simp
    with True es c assms(2) show ?thesis by auto
  next
    case False
    with es c show ?thesis by auto
  qed
qed

lemma sock_read_stuck:
  assumes "pending es = []" and "0 < k"
  shows "\<exists>es'. sock_read k es = (Some [], es') \<or> sock_read k es = (None, es')"
  using assms by (cases es rule: pending.cases) (auto split: if_splits)

lemma sock_read_0: "\<exists>es'. sock_read 0 es = (Some [], es')"
  by (cases "(0 :: nat, es)" rule: sock_read.cases) auto

text \<open>
  The connection a server writes to: what has been accepted for sending, and the results of
  the coming writes (a negative entry fails, another accepts at most so many bytes; with no
  entry left a write accepts everything). After \<open>shutdown\<close> every write fails.
\<close>

record conn =
  rx :: input
  tx :: string
  wlimits :: "int list"
  closed :: bool

definition new_conn :: "input \<Rightarrow> int list \<Rightarrow> conn" where
  "new_conn inp ws = \<lparr>rx = inp, tx = [], wlimits = ws, closed = False\<rparr>"

definition sock_write :: "conn \<Rightarrow> string \<Rightarrow> int \<times> conn" where
  "sock_write c bs =
     (if closed c then (-1, c)
      else case wlimits c of
        [] \<Rightarrow> (int (length bs), c\<lparr>tx := tx c @ bs\<rparr>)
      | w # ws \<Rightarrow>
          if w < 0 then (-1, c\<lparr>wlimits := ws\<rparr>)
          else (min w (int (length bs)),
                c\<lparr>tx := tx c @ take (nat w) bs, wlimits := ws\<rparr>))"

definition sock_shutdown :: "conn \<Rightarrow> conn" where
  "sock_shutdown c = c\<lparr>closed := True\<rparr>"

lemma sock_write_all:
  "\<not> closed c \<Longrightarrow> wlimits c = [] \<Longrightarrow>
     sock_write c bs = (int (length bs), c\<lparr>tx := tx c @ bs\<rparr>)"
  by (simp add: sock_write_def)

lemma sock_write_bound: "sock_write c bs = (n, c') \<Longrightarrow> n \<le> int (length bs)"
  by (auto simp: sock_write_def split: if_splits list.splits)

section \<open>Open files\<close>

text \<open>
  The data behind each descriptor, its offset, and the results of the coming positioned
  reads, limited in the same way as writes.
\<close>

record file_env =
  fdata :: "int \<Rightarrow> string"
  foffset :: "int \<Rightarrow> nat"
  rlimits :: "int list"

definition lseek_set :: "file_env \<Rightarrow> int \<Rightarrow> nat \<Rightarrow> file_env" where
  "lseek_set f fd n = f\<lparr>foffset := (foffset f)(fd := n)\<rparr>"

definition lseek_end :: "file_env \<Rightarrow> int \<Rightarrow> int \<times> file_env" where
  "lseek_end f fd = (int (length (fdata f fd)), lseek_set f fd (length (fdata f fd)))"

definition pread :: "file_env \<Rightarrow> int \<Rightarrow> nat \<Rightarrow> nat \<Rightarrow> string option \<times> file_env" where
  "pread f fd n off =
     (let bs = take n (drop off (fdata f fd))
      in case rlimits f of
           [] \<Rightarrow> (Some bs, f)
         | r # rs \<Rightarrow>
             if r < 0 then (None, f\<lparr>rlimits := rs\<rparr>)
             else (Some (take (nat r) bs), f\<lparr>rlimits := rs\<rparr>))"

lemma pread_fdata: "pread f fd n off = (r, f') \<Longrightarrow> fdata f' = fdata f"
  by (auto simp: pread_def Let_def split: list.splits if_splits)

lemma lseek_fdata [simp]: "fdata (lseek_set f fd n) = fdata f"
  by (simp add: lseek_set_def)

end
