(* ===== verification/Gfclient.thy ===== *)
theory Gfclient
  imports Os_Model
begin

text \<open>
  The client library of \<open>project1/ud923-project1-gflib/gfclient.c\<close>: a request object, its
  setters, the request it sends, and the state machine \<open>process_response\<close> that parses the
  reply as it arrives. The read buffer is a list of \<open>RDBUFSIZE\<close> bytes, every access to it
  is checked, the counters are 32-bit words, and the hidden static pointer of \<open>strtok\<close> is
  the field \<open>strtok_pt\<close>. The header's and the body's callbacks are functions on the
  objects their arguments point to.
\<close>

section \<open>Data\<close>

definition RDBUFSIZE :: nat where "RDBUFSIZE = 8192"

definition BUFSIZE :: nat where "BUFSIZE = 255 + 5 + 7 + 16"

datatype gfstatus_t = GF_OK | GF_FILE_NOT_FOUND | GF_ERROR | GF_INVALID

datatype gfc_sm =
    SM_SCHEME
  | SM_METHOD
  | SM_LENGTH
  | SM_PATH
  | SM_CONTENT
  | SM_ERROR
  | SM_NOT_FOUND
  | SM_DONE

text \<open>The enumeration's order is the one of its integer codes.\<close>

fun gfc_sm_code :: "gfc_sm \<Rightarrow> nat" where
  "gfc_sm_code SM_SCHEME = 0"
| "gfc_sm_code SM_METHOD = 1"
| "gfc_sm_code SM_LENGTH = 2"
| "gfc_sm_code SM_PATH = 3"
| "gfc_sm_code SM_CONTENT = 4"
| "gfc_sm_code SM_ERROR = 5"
| "gfc_sm_code SM_NOT_FOUND = 6"
| "gfc_sm_code SM_DONE = 7"

lemma gfc_sm_code_inj: "gfc_sm_code a = gfc_sm_code b \<Longrightarrow> a = b"
  by (cases a; cases b) auto

instantiation gfc_sm :: linorder
begin

definition less_eq_gfc_sm :: "gfc_sm \<Rightarrow> gfc_sm \<Rightarrow> bool" where
  "less_eq_gfc_sm a b = (gfc_sm_code a \<le> gfc_sm_code b)"

definition less_gfc_sm :: "gfc_sm \<Rightarrow> gfc_sm \<Rightarrow> bool" where
  "less_gfc_sm a b = (gfc_sm_code a < gfc_sm_code b)"

instance
  by standard (auto simp: less_eq_gfc_sm_def less_gfc_sm_def intro: gfc_sm_code_inj)

end

record ('h, 'w) gfcrequest =
  server :: cptr
  path :: cptr
  port :: "16 word"
  scheme :: cptr
  meth :: cptr
  end_sequence :: cptr
  status :: gfstatus_t
  file_length :: u32
  file_length_valid :: bool
  rx_bytes :: u32
  total_rx_bytes :: u32
  bytes_written :: u32
  header_arg :: 'h
  write_arg :: 'w
  sock :: conn
  buffer :: string
  header_pt :: nat
  req_length :: u32
  length_start_idx :: nat
  content_pt :: nat
  sm :: gfc_sm
  write_callback :: "(string \<Rightarrow> 'w \<Rightarrow> 'w) option"
  header_callback :: "(string \<Rightarrow> 'h \<Rightarrow> 'h) option"
  strtok_pt :: "nat option"

section \<open>Creating and configuring a request\<close>

text \<open>
  \<open>gfc_create\<close> gets uninitialised memory from \<open>malloc\<close> (the argument \<open>mem\<close>) and
  assigns the fields the code assigns; the others keep whatever the memory held. The write
  argument is set to \<open>NULL\<close>, here the object \<open>null_arg\<close>.
\<close>

definition gfc_create ::
  "'w \<Rightarrow> ('h, 'w) gfcrequest \<Rightarrow> cheap \<Rightarrow> ('h, 'w) gfcrequest \<times> cheap" where
  "gfc_create null_arg mem h0 =
     (let (p_server, h1) = strdup h0 ''localhost'';
          (p_scheme, h2) = strdup h1 ''GETFILE'';
          (p_method, h3) = strdup h2 ''GET'';
          (p_end, h4) = strdup h3 CRLF2
      in (mem\<lparr>rx_bytes := 0, total_rx_bytes := 0, file_length := 0,
              file_length_valid := False, status := GF_INVALID, port := 80,
              path := Null, write_arg := null_arg,
              header_callback := None, write_callback := None,
              server := p_server, scheme := p_scheme, meth := p_method,
              end_sequence := p_end,
              header_pt := 0, length_start_idx := 0, sm := SM_SCHEME,
              content_pt := 0, bytes_written := 0,
              buffer := replicate RDBUFSIZE NUL\<rparr>,
          h4))"

definition gfc_set_server ::
  "cheap \<Rightarrow> ('h, 'w) gfcrequest \<Rightarrow> cptr \<Rightarrow> (('h, 'w) gfcrequest \<times> cheap) result" where
  "gfc_set_server h g p =
     (case free_ptr h (server g) of Inl e \<Rightarrow> Inl e | Inr h' \<Rightarrow> Inr (g\<lparr>server := p\<rparr>, h'))"

definition gfc_set_path ::
  "cheap \<Rightarrow> ('h, 'w) gfcrequest \<Rightarrow> cptr \<Rightarrow> (('h, 'w) gfcrequest \<times> cheap) result" where
  "gfc_set_path h g p =
     (case free_ptr h (path g) of Inl e \<Rightarrow> Inl e | Inr h' \<Rightarrow> Inr (g\<lparr>path := p\<rparr>, h'))"

definition gfc_set_port :: "('h, 'w) gfcrequest \<Rightarrow> 16 word \<Rightarrow> ('h, 'w) gfcrequest" where
  "gfc_set_port g p = g\<lparr>port := p\<rparr>"

definition gfc_set_headerfunc ::
  "('h, 'w) gfcrequest \<Rightarrow> (string \<Rightarrow> 'h \<Rightarrow> 'h) option \<Rightarrow> ('h, 'w) gfcrequest" where
  "gfc_set_headerfunc g f = g\<lparr>header_callback := f\<rparr>"

definition gfc_set_headerarg :: "('h, 'w) gfcrequest \<Rightarrow> 'h \<Rightarrow> ('h, 'w) gfcrequest" where
  "gfc_set_headerarg g a = g\<lparr>header_arg := a\<rparr>"

definition gfc_set_writefunc ::
  "('h, 'w) gfcrequest \<Rightarrow> (string \<Rightarrow> 'w \<Rightarrow> 'w) option \<Rightarrow> ('h, 'w) gfcrequest" where
  "gfc_set_writefunc g f = g\<lparr>write_callback := f\<rparr>"

definition gfc_set_writearg :: "('h, 'w) gfcrequest \<Rightarrow> 'w \<Rightarrow> ('h, 'w) gfcrequest" where
  "gfc_set_writearg g a = g\<lparr>write_arg := a\<rparr>"

definition gfc_get_status :: "('h, 'w) gfcrequest \<Rightarrow> gfstatus_t" where
  "gfc_get_status g = status g"

definition gfc_get_filelen :: "('h, 'w) gfcrequest \<Rightarrow> nat" where
  "gfc_get_filelen g = unat (file_length g)"

definition gfc_get_bytesreceived :: "('h, 'w) gfcrequest \<Rightarrow> nat" where
  "gfc_get_bytesreceived g = unat (total_rx_bytes g)"

fun gfc_strstatus :: "gfstatus_t \<Rightarrow> string" where
  "gfc_strstatus GF_OK = ''GF_OK''"
| "gfc_strstatus GF_FILE_NOT_FOUND = ''GF_FILE_NOT_FOUND''"
| "gfc_strstatus GF_ERROR = ''GF_ERROR''"
| "gfc_strstatus GF_INVALID = ''GF_INVALID''"

text \<open>
  \<open>gfc_cleanup\<close> frees the path, the server and the end sequence, in this order; the
  request itself is gone afterwards, so only the heap is returned.
\<close>

definition gfc_cleanup :: "cheap \<Rightarrow> ('h, 'w) gfcrequest \<Rightarrow> cheap result" where
  "gfc_cleanup h g =
     bind_res (free_ptr h (path g)) (\<lambda>h1.
     bind_res (free_ptr h1 (server g)) (\<lambda>h2.
     free_ptr h2 (end_sequence g)))"


section \<open>Connecting and sending the request\<close>

text \<open>
  What the network answers: whether a socket can be had, which host names resolve, whether
  the connection is accepted, and the connection it gives.
\<close>

record net_env =
  socket_ok :: bool
  resolves :: "string \<Rightarrow> bool"
  connect_ok :: bool
  connection :: conn

text \<open>
  An unknown host is only reported on \<open>stderr\<close>; the code then reads
  \<open>server->h_addr\<close> through the null result.
\<close>

definition connect_to_server :: "net_env \<Rightarrow> string \<Rightarrow> 16 word \<Rightarrow> conn result" where
  "connect_to_server env host pt =
     (if \<not> socket_ok env then Inl (Exit 0)
      else if \<not> resolves env host then Inl Null_Deref
      else if \<not> connect_ok env then Inl (Exit 0)
      else Inr (connection env))"

text \<open>
  The four strings with single spaces between them; \<open>sprintf\<close> writes them with the final
  NUL into a buffer of \<open>BUFSIZE\<close> bytes.
\<close>

definition send_request :: "cheap \<Rightarrow> ('h, 'w) gfcrequest \<Rightarrow> ('h, 'w) gfcrequest result" where
  "send_request h g =
     bind_res (deref h (scheme g)) (\<lambda>sc.
     bind_res (deref h (meth g)) (\<lambda>me.
     bind_res (deref h (path g)) (\<lambda>pa.
     bind_res (deref h (end_sequence g)) (\<lambda>en.
       let line = sc @ [SP] @ me @ [SP] @ pa @ [SP] @ en
       in bind_res (mem_put (replicate BUFSIZE NUL) 0 (cstr line)) (\<lambda>buf.
          bind_res (cstr_at buf 0) (\<lambda>req.
            let (n, c) = sock_write (sock g) req
            in Inr (g\<lparr>req_length := of_nat (length req), sock := c\<rparr>)))))))"

section \<open>Parsing the response\<close>

text \<open>
  The constants of the parser are compared as 32-bit unsigned values: \<open>SCHEME_SZ\<close>,
  \<open>OK\<close>, \<open>ERROR_SZ\<close>, \<open>NOT_FOUND_SZ\<close> and \<open>ENDSEQ\<close>. A difference of an
  \<open>unsigned\<close> and an \<open>int\<close> wraps around.
\<close>

definition gfc_parse_scheme ::
  "('h, 'w) gfcrequest \<Rightarrow> (int \<times> ('h, 'w) gfcrequest) result" where
  "gfc_parse_scheme g =
     (if rx_bytes g \<ge> 7 then
        bind_res (strtok_at (buffer g) 0 SP) (\<lambda>(tok, m, sv).
          let g1 = g\<lparr>buffer := m, strtok_pt := Some sv\<rparr>
          in case tok of
               None \<Rightarrow> Inr (-1, g1)
             | Some t \<Rightarrow>
                 bind_res (strncmp 7 (buffer g1) (cstr ''GETFILE'')) (\<lambda>c.
                   if c \<noteq> 0 then Inr (-1, g1)
                   else Inr (0, g1\<lparr>header_pt := length t + 1, sm := SM_METHOD\<rparr>)))
      else Inr (0, g))"

text \<open>The first half of \<open>parse_method\<close>: the status \<open>OK\<close>.\<close>

definition gfc_parse_ok :: "('h, 'w) gfcrequest \<Rightarrow> ('h, 'w) gfcrequest result" where
  "gfc_parse_ok g =
     (if rx_bytes g - of_nat (header_pt g) > 3 then
        bind_res (strtok_next (buffer g) (strtok_pt g) SP) (\<lambda>(tok, m, sv).
          let g1 = g\<lparr>buffer := m, strtok_pt := Some sv\<rparr>
          in case tok of
               None \<Rightarrow> Inr g1
             | Some t \<Rightarrow>
                 bind_res (strcmp (cstr t) (cstr ''OK'')) (\<lambda>c.
                   if c \<noteq> 0 then Inr g1
                   else Inr (g1\<lparr>header_pt := header_pt g1 + (length t + 1),
                               sm := SM_LENGTH,
                               length_start_idx := header_pt g1 + (length t + 1),
                               status := GF_OK\<rparr>)))
      else Inr g)"

text \<open>The second half: the statuses \<open>ERROR\<close> and \<open>FILE_NOT_FOUND\<close>.\<close>

definition gfc_parse_err :: "('h, 'w) gfcrequest \<Rightarrow> ('h, 'w) gfcrequest result" where
  "gfc_parse_err g =
     (if sm g = SM_METHOD then
        let method_bytes = sint (rx_bytes g - of_nat (header_pt g))
        in bind_res
             (if method_bytes > 5 then
                bind_res (strncmp 5 (drop (header_pt g) (buffer g)) (cstr ''ERROR'')) (\<lambda>c.
                  Inr (if c = 0 then g\<lparr>sm := SM_ERROR\<rparr> else g))
              else Inr g) (\<lambda>g1.
             if method_bytes > 14 then
               bind_res
                 (strncmp 14 (drop (header_pt g1) (buffer g1)) (cstr ''FILE_NOT_FOUND'')) (\<lambda>c.
                 Inr (if c = 0 then g1\<lparr>sm := SM_NOT_FOUND\<rparr> else g1\<lparr>sm := SM_ERROR\<rparr>))
             else Inr g1)
      else Inr g)"

definition gfc_parse_method :: "('h, 'w) gfcrequest \<Rightarrow> ('h, 'w) gfcrequest result" where
  "gfc_parse_method g = bind_res (gfc_parse_ok g) gfc_parse_err"

text \<open>The loop that moves the header position past the digits.\<close>

function scan_digits :: "string \<Rightarrow> u32 \<Rightarrow> nat \<Rightarrow> nat result" where
  "scan_digits m rxb i =
     (if rxb \<ge> of_nat i then
        if i < length m then
          if isdigit (m ! i) then scan_digits m rxb (Suc i) else Inr i
        else Inl Out_Of_Bounds
      else Inr i)"
  by pat_completeness auto
termination
  by (relation "measure (\<lambda>(m, rxb, i). length m - i)") auto

declare scan_digits.simps [simp del]

definition gfc_parse_length :: "('h, 'w) gfcrequest \<Rightarrow> ('h, 'w) gfcrequest result" where
  "gfc_parse_length g =
     bind_res (scan_digits (buffer g) (rx_bytes g) (header_pt g)) (\<lambda>i.
       let g1 = g\<lparr>header_pt := i\<rparr>
       in if rx_bytes g1 < of_nat (header_pt g1) then Inr g1
          else Inr (g1\<lparr>sm := SM_PATH\<rparr>))"

text \<open>
  \<open>strndup\<close> copies up to the given length or a NUL; \<open>atoi\<close> reads the digits. The loop
  over the spaces compares one byte at a time.
\<close>

definition strndup :: "string \<Rightarrow> nat \<Rightarrow> nat \<Rightarrow> string result" where
  "strndup m i n =
     (let s = takeWhile (\<lambda>c. c \<noteq> NUL) (take n (drop i m))
      in if length s < n \<and> length m \<le> i + length s then Inl Out_Of_Bounds else Inr s)"

definition gfc_parse_path ::
  "('h, 'w) gfcrequest \<Rightarrow> (int \<times> ('h, 'w) gfcrequest) result" where
  "gfc_parse_path g =
     bind_res (strndup (buffer g) (length_start_idx g) (header_pt g - length_start_idx g))
       (\<lambda>length_str.
       let g1 = g\<lparr>file_length := word_of_int (atoi length_str), file_length_valid := True\<rparr>
       in bind_res (mem_span (buffer g1) (\<lambda>c. c = SP) (header_pt g1)) (\<lambda>i.
            let g2 = g1\<lparr>header_pt := i\<rparr>
            in if rx_bytes g2 - of_nat (header_pt g2) \<ge> 4 then
                 bind_res (strncmp 4 (drop (header_pt g2) (buffer g2)) (cstr CRLF2)) (\<lambda>c.
                   if c = 0 then
                     let g3 = g2\<lparr>header_pt := header_pt g2 + 4\<rparr>
                     in bind_res (mem_slice (buffer g3) 0 (header_pt g3)) (\<lambda>hdr.
                          let g4 = (case header_callback g3 of
                                      None \<Rightarrow> g3
                                    | Some f \<Rightarrow> g3\<lparr>header_arg := f hdr (header_arg g3)\<rparr>)
                          in Inr (0, g4\<lparr>sm := SM_CONTENT,
                                       total_rx_bytes :=
                                         total_rx_bytes g4 - of_nat (header_pt g4),
                                       content_pt := header_pt g4\<rparr>))
                   else Inr (-1, g2\<lparr>status := GF_ERROR\<rparr>))
               else Inr (0, g2)))"

definition gfc_parse_content :: "('h, 'w) gfcrequest \<Rightarrow> ('h, 'w) gfcrequest result" where
  "gfc_parse_content g =
     (if rx_bytes g > of_nat (content_pt g) then
        let packet_length = unat (rx_bytes g - of_nat (content_pt g))
        in bind_res (mem_slice (buffer g) (content_pt g) packet_length) (\<lambda>data.
           case write_callback g of
             None \<Rightarrow> Inl Null_Deref
           | Some f \<Rightarrow>
               let g1 = g\<lparr>write_arg := f data (write_arg g),
                          bytes_written := bytes_written g + of_nat packet_length,
                          content_pt := content_pt g + packet_length\<rparr>;
                   g2 = (if content_pt g1 = RDBUFSIZE
                         then g1\<lparr>content_pt := 0, rx_bytes := 0\<rparr> else g1)
               in Inr (if bytes_written g2 \<ge> file_length g2
                       then g2\<lparr>sm := SM_DONE\<rparr> else g2))
      else Inr g)"


section \<open>The receive loop\<close>

text \<open>
  The size of the next read: the room left in the buffer, cut to what the file still needs
  once its length is known. The comparison is unsigned; the result is an \<open>int\<close>.
\<close>

definition gfc_request_size :: "('h, 'w) gfcrequest \<Rightarrow> int" where
  "gfc_request_size g =
     (let room = int RDBUFSIZE - int (content_pt g)
      in if sm g > SM_PATH \<and> word_of_int room + total_rx_bytes g > file_length g
         then sint (file_length g - total_rx_bytes g)
         else room)"

text \<open>What \<open>read\<close> is asked for: the \<open>int\<close> converted to a \<open>size_t\<close>.\<close>

definition size_t_of_int :: "int \<Rightarrow> nat" where
  "size_t_of_int i = unat (word_of_int i :: 64 word)"

text \<open>One pass of the parser over the states, and the verdict it leaves in \<open>r\<close>.\<close>

definition gfc_parse ::
  "int \<Rightarrow> ('h, 'w) gfcrequest \<Rightarrow> (int \<times> ('h, 'w) gfcrequest) result" where
  "gfc_parse r g =
     bind_res (if sm g = SM_SCHEME then gfc_parse_scheme g else Inr (r, g)) (\<lambda>(r1, g1).
     bind_res (if sm g1 = SM_METHOD then gfc_parse_method g1 else Inr g1) (\<lambda>g2.
     bind_res (if sm g2 = SM_LENGTH then gfc_parse_length g2 else Inr g2) (\<lambda>g3.
     bind_res (if sm g3 = SM_PATH then gfc_parse_path g3 else Inr (r1, g3)) (\<lambda>(r4, g4).
     bind_res (if sm g4 = SM_CONTENT then gfc_parse_content g4 else Inr g4) (\<lambda>g5.
       Inr (case sm g5 of
              SM_DONE \<Rightarrow> (1, g5)
            | SM_ERROR \<Rightarrow> (1, g5\<lparr>status := GF_ERROR\<rparr>)
            | SM_NOT_FOUND \<Rightarrow> (1, g5\<lparr>status := GF_FILE_NOT_FOUND\<rparr>)
            | _ \<Rightarrow> (r4, g5)))))))"

text \<open>
  One round of the loop: the read, the bookkeeping and the pass over the states. \<open>Inl\<close>
  carries the value the function returns, \<open>Inr\<close> the state the next round starts from.
\<close>

definition gfc_round ::
  "int \<Rightarrow> ('h, 'w) gfcrequest \<Rightarrow>
     (int \<times> ('h, 'w) gfcrequest + int \<times> ('h, 'w) gfcrequest) result" where
  "gfc_round r g =
     (case sock_read (size_t_of_int (gfc_request_size g)) (rx (sock g)) of
        (None, es) \<Rightarrow> Inr (Inl (-1, g\<lparr>sock := (sock g)\<lparr>rx := es\<rparr>\<rparr>))
      | (Some bs, es) \<Rightarrow>
          if bs = [] then Inr (Inl (-1, g\<lparr>sock := (sock g)\<lparr>rx := es\<rparr>\<rparr>))
          else
            bind_res (mem_put (buffer g) (content_pt g) bs) (\<lambda>m.
            bind_res (gfc_parse r
                (g\<lparr>sock := (sock g)\<lparr>rx := es\<rparr>, buffer := m,
                   rx_bytes := rx_bytes g + of_nat (length bs),
                   total_rx_bytes := total_rx_bytes g + of_nat (length bs)\<rparr>)) (\<lambda>(r1, g1).
              Inr (if r1 = 1 then Inl (0, g1)
                   else if r1 < 0 then Inl (r1, g1)
                   else Inr (r1, g1)))))"

text \<open>The parser never touches the socket, so a round that continues has consumed input.\<close>

named_theorems gfc_defs \<open>definitions of the parser's stages\<close>

lemmas gfc_stage_defs [gfc_defs] =
  gfc_parse_scheme_def gfc_parse_method_def gfc_parse_ok_def gfc_parse_err_def
  gfc_parse_length_def gfc_parse_path_def gfc_parse_content_def

lemma gfc_parse_scheme_sock: "res_all (\<lambda>(r, g'). sock g' = sock g) (gfc_parse_scheme g)"
  by (auto simp: gfc_parse_scheme_def Let_def intro!: res_all_bindI split: option.split)

lemma gfc_parse_ok_sock: "res_all (\<lambda>g'. sock g' = sock g) (gfc_parse_ok g)"
  by (auto simp: gfc_parse_ok_def Let_def intro!: res_all_bindI split: option.split)

lemma gfc_parse_err_sock: "res_all (\<lambda>g'. sock g' = sock g) (gfc_parse_err g)"
  by (auto simp: gfc_parse_err_def Let_def bind_res_eq_Inr intro!: res_all_bindI)

lemma gfc_parse_method_sock: "res_all (\<lambda>g'. sock g' = sock g) (gfc_parse_method g)"
  unfolding gfc_parse_method_def
  by (rule res_all_bind_rule [OF gfc_parse_ok_sock]) (metis gfc_parse_err_sock)

lemma gfc_parse_length_sock: "res_all (\<lambda>g'. sock g' = sock g) (gfc_parse_length g)"
  by (auto simp: gfc_parse_length_def Let_def intro!: res_all_bindI)

lemma gfc_parse_path_sock: "res_all (\<lambda>(r, g'). sock g' = sock g) (gfc_parse_path g)"
  by (auto simp: gfc_parse_path_def Let_def intro!: res_all_bindI split: option.split)

lemma gfc_parse_content_sock: "res_all (\<lambda>g'. sock g' = sock g) (gfc_parse_content g)"
  by (auto simp: gfc_parse_content_def Let_def intro!: res_all_bindI split: option.split)

lemma gfc_parse_sock: "res_all (\<lambda>(r', g'). sock g' = sock g) (gfc_parse r g)"
proof -
  have stage: "res_all (\<lambda>g'. sock g' = sock g) (if b then m else Inr g0)"
    if "sock g0 = sock g" and "res_all (\<lambda>g'. sock g' = sock g0) m" for b m and g0 :: "('a, 'b) gfcrequest"
    using that by simp
  have stage2: "res_all (\<lambda>(r, g'). sock g' = sock g) (if b then m else Inr (r0, g0))"
    if "sock g0 = sock g" and "res_all (\<lambda>(r, g'). sock g' = sock g0) m"
    for b m r0 and g0 :: "('a, 'b) gfcrequest"
    using that by simp
  show ?thesis
    unfolding gfc_parse_def
    apply (rule res_all_bind_rule [OF stage2 [OF refl gfc_parse_scheme_sock]], clarify)
    apply (rule res_all_bind_rule [OF stage [OF _ gfc_parse_method_sock]], assumption)
    apply (rule res_all_bind_rule [OF stage [OF _ gfc_parse_length_sock]], assumption)
    apply (rule res_all_bind_rule [OF stage2 [OF _ gfc_parse_path_sock]], assumption, clarify)
    apply (rule res_all_bind_rule [OF stage [OF _ gfc_parse_content_sock]], assumption)
    apply (simp split: gfc_sm.split)
    done
qed

lemma gfc_round_decreases:
  assumes "gfc_round r g = Inr (Inr (r', g'))"
  shows "input_size (rx (sock g')) < input_size (rx (sock g))"
proof -
  obtain o1 es where rd: "sock_read (size_t_of_int (gfc_request_size g)) (rx (sock g)) = (o1, es)"
    by fastforce
  with assms obtain bs where bs: "o1 = Some bs" "bs \<noteq> []"
    by (auto simp: gfc_round_def split: option.splits if_splits)
  with rd have "input_size es < input_size (rx (sock g))"
    by (auto dest: sock_read_decreases)
  moreover have "res_all (\<lambda>x. case x of Inl v \<Rightarrow> True | Inr (r', g') \<Rightarrow> rx (sock g') = es)
      (gfc_round r g)"
    using rd bs
    by (auto simp: gfc_round_def intro!: res_all_bindI dest!: res_allD [OF gfc_parse_sock])
  ultimately show ?thesis
    using assms by simp
qed

function gfc_loop ::
  "int \<Rightarrow> ('h, 'w) gfcrequest \<Rightarrow> (int \<times> ('h, 'w) gfcrequest) result" where
  "gfc_loop r g =
     (case gfc_round r g of
        Inl e \<Rightarrow> Inl e
      | Inr (Inl res) \<Rightarrow> Inr res
      | Inr (Inr (r', g')) \<Rightarrow> gfc_loop r' g')"
  by pat_completeness auto
termination
  by (relation "measure (\<lambda>(r, g). input_size (rx (sock g)))") (auto dest: gfc_round_decreases)

declare gfc_loop.simps [simp del]

definition process_response ::
  "('h, 'w) gfcrequest \<Rightarrow> (int \<times> ('h, 'w) gfcrequest) result" where
  "process_response g = (if write_callback g = None then Inr (0, g) else gfc_loop 0 g)"

definition gfc_perform ::
  "net_env \<Rightarrow> cheap \<Rightarrow> ('h, 'w) gfcrequest \<Rightarrow> (int \<times> ('h, 'w) gfcrequest) result" where
  "gfc_perform env h g =
     bind_res (deref h (server g)) (\<lambda>host.
     bind_res (connect_to_server env host (port g)) (\<lambda>c.
     bind_res (send_request h (g\<lparr>sock := c\<rparr>)) process_response))"


text \<open>
  The write callback of the download programs: \<open>fwrite\<close> appends to the file the argument
  points to.
\<close>

definition writecb :: "string \<Rightarrow> string \<Rightarrow> string" where
  "writecb data f = f @ data"

end
