(* ===== verification/Gfclient_Response.thy ===== *)
theory Gfclient_Response
  imports Gfclient
begin

text \<open>
  What the client library does with a response: the stages of the parser on well-formed
  headers, the receive loop on the body however the network cuts it, the other statuses, the
  responses the parser does not cope with, the request line and the ownership of the strings.
\<close>

section \<open>Receiving the body\<close>

text \<open>
  The state between two reads of the body: \<open>b\<close> of \<open>n\<close> bytes have been handed to
  the write callback, and the buffer position is in step with the counters.
\<close>

definition streaming ::
  "('h, 'w) gfcrequest \<Rightarrow> (string \<Rightarrow> 'w \<Rightarrow> 'w) \<Rightarrow> nat \<Rightarrow> nat \<Rightarrow> bool" where
  "streaming g cb n b \<longleftrightarrow>
     sm g = SM_CONTENT \<and> write_callback g = Some cb \<and> length (buffer g) = RDBUFSIZE \<and>
     content_pt g < RDBUFSIZE \<and> rx_bytes g = of_nat (content_pt g) \<and>
     total_rx_bytes g = of_nat b \<and> bytes_written g = of_nat b \<and>
     file_length g = of_nat n \<and> b < n \<and> n < 2 ^ 31"

lemma size_t_of_int_nat: "k < 2 ^ 64 \<Longrightarrow> size_t_of_int (int k) = k"
  by (simp add: size_t_of_int_def unat_of_nat take_bit_eq_mod)

lemma streaming_request_size:
  assumes "streaming g cb n b"
  shows "gfc_request_size g = int (min (RDBUFSIZE - content_pt g) (n - b))"
proof -
  have room: "int RDBUFSIZE - int (content_pt g) = int (RDBUFSIZE - content_pt g)"
    and small: "RDBUFSIZE - content_pt g \<le> 8192" "sm g > SM_PATH"
    using assms by (auto simp: streaming_def RDBUFSIZE_def less_gfc_sm_def)
  have "word_of_int (int (RDBUFSIZE - content_pt g)) + total_rx_bytes g =
      (of_nat (RDBUFSIZE - content_pt g + b) :: u32)"
    using assms by (simp add: streaming_def)
  then show ?thesis
    using assms small unfolding gfc_request_size_def room Let_def
    by (auto simp: streaming_def u32_arith simp del: of_nat_add of_nat_diff)
qed

lemma parse_content_step:
  assumes "sm g = SM_CONTENT" and "write_callback g = Some cb"
    and "mem_slice (buffer g) p (length bs) = Inr bs" and "content_pt g = p"
    and "rx_bytes g = of_nat (p + length bs)" and "bs \<noteq> []"
    and "p + length bs \<le> RDBUFSIZE"
    and "bytes_written g = of_nat b" and "file_length g = of_nat n"
    and "b + length bs \<le> n" and "n < 2 ^ 31"
  shows "gfc_parse_content g =
    Inr (g\<lparr>write_arg := cb bs (write_arg g), bytes_written := of_nat (b + length bs),
           content_pt := (if p + length bs = RDBUFSIZE then 0 else p + length bs),
           rx_bytes := (if p + length bs = RDBUFSIZE then 0 else rx_bytes g),
           sm := (if b + length bs = n then SM_DONE else SM_CONTENT)\<rparr>)"
proof -
  have pl: "rx_bytes g - of_nat (content_pt g) = of_nat (length bs)"
    using assms(4,5) by simp
  have gt: "of_nat (content_pt g) < rx_bytes g"
    using assms(4-7) by (simp add: u32_arith RDBUFSIZE_def del: of_nat_add)
  have un: "unat (rx_bytes g - of_nat (content_pt g)) = length bs"
    unfolding pl using assms(7) by (simp add: RDBUFSIZE_def)
  have dn: "(of_nat n \<le> (of_nat (b + length bs) :: u32)) = (b + length bs = n)"
    using assms(10,11) by (subst u32_le_iff) auto
  show ?thesis
    unfolding gfc_parse_content_def Let_def un
    using gt assms(1-4,8,9) dn by (auto simp: RDBUFSIZE_def)
qed

lemma gfc_parse_streaming:
  assumes "sm g = SM_CONTENT"
  shows "gfc_parse r g = bind_res (gfc_parse_content g) (\<lambda>g5.
       Inr (case sm g5 of
              SM_DONE \<Rightarrow> (1, g5)
            | SM_ERROR \<Rightarrow> (1, g5\<lparr>status := GF_ERROR\<rparr>)
            | SM_NOT_FOUND \<Rightarrow> (1, g5\<lparr>status := GF_FILE_NOT_FOUND\<rparr>)
            | _ \<Rightarrow> (r, g5)))"
  using assms by (simp add: gfc_parse_def)

lemma streaming_round:
  assumes st: "streaming g cb n b" and pend: "pending (rx (sock g)) \<noteq> []"
  shows "\<exists>bs es g'. bs \<noteq> [] \<and> length bs \<le> n - b \<and>
    pending (rx (sock g)) = bs @ pending es \<and>
    rx (sock g') = es \<and> write_arg g' = cb bs (write_arg g) \<and> status g' = status g \<and>
    header_arg g' = header_arg g \<and> total_rx_bytes g' = of_nat (b + length bs) \<and>
    bytes_written g' = of_nat (b + length bs) \<and> file_length g' = file_length g \<and>
    (if b + length bs = n then gfc_round 0 g = Inr (Inl (0, g'))
     else gfc_round 0 g = Inr (Inr (0, g')) \<and> streaming g' cb n (b + length bs))"
proof -
  let ?k = "min (RDBUFSIZE - content_pt g) (n - b)"
  have k: "0 < ?k" "?k < 2 ^ 64" and size: "size_t_of_int (gfc_request_size g) = ?k"
    using st streaming_request_size [OF st] size_t_of_int_nat [of ?k]
    by (auto simp: streaming_def RDBUFSIZE_def)
  obtain bs es where rd: "sock_read ?k (rx (sock g)) = (Some bs, es)" and bs: "bs \<noteq> []"
      "length bs \<le> ?k" and pe: "pending (rx (sock g)) = bs @ pending es"
    using sock_read_pending [OF pend k(1)] by blast
  have fits: "content_pt g + length bs \<le> length (buffer g)" "content_pt g + length bs \<le> RDBUFSIZE"
    using bs(2) st by (auto simp: streaming_def)
  then obtain m where m: "mem_put (buffer g) (content_pt g) bs = Inr m"
    by (simp add: mem_put_def)
  define g0 where "g0 = g\<lparr>sock := (sock g)\<lparr>rx := es\<rparr>, buffer := m,
    rx_bytes := rx_bytes g + of_nat (length bs),
    total_rx_bytes := total_rx_bytes g + of_nat (length bs)\<rparr>"
  define g1 where "g1 = g0\<lparr>write_arg := cb bs (write_arg g0),
    bytes_written := of_nat (b + length bs),
    content_pt := (if content_pt g + length bs = RDBUFSIZE then 0 else content_pt g + length bs),
    rx_bytes := (if content_pt g + length bs = RDBUFSIZE then 0 else rx_bytes g0),
    sm := (if b + length bs = n then SM_DONE else SM_CONTENT)\<rparr>"
  have g0: "sm g0 = SM_CONTENT" using st by (simp add: g0_def streaming_def)
  have pc: "gfc_parse_content g0 = Inr g1"
    unfolding g1_def using st fits bs mem_put_slice [OF m]
    by (intro parse_content_step) (auto simp: streaming_def g0_def)
  have parse: "gfc_parse 0 g0 = Inr (if b + length bs = n then 1 else 0, g1)"
    unfolding gfc_parse_streaming [OF g0] pc by (simp add: g1_def)
  have round: "gfc_round 0 g = Inr (if b + length bs = n then Inl (0, g1) else Inr (0, g1))"
    using bs(1) m parse by (simp add: gfc_round_def size rd flip: g0_def)
  have "streaming g1 cb n (b + length bs)" if "b + length bs \<noteq> n"
    using st that bs(2) fits mem_put_length [OF m]
    by (auto simp: streaming_def RDBUFSIZE_def g0_def g1_def)
  then show ?thesis
    using bs pe round st
    by (intro exI [of _ bs] exI [of _ es] exI [of _ g1]) (auto simp: streaming_def g0_def g1_def)
qed

lemma streaming_round_stuck:
  assumes st: "streaming g cb n b" and pend: "pending (rx (sock g)) = []"
  shows "\<exists>es. gfc_round 0 g = Inr (Inl (-1, g\<lparr>sock := (sock g)\<lparr>rx := es\<rparr>\<rparr>))"
proof -
  let ?k = "min (RDBUFSIZE - content_pt g) (n - b)"
  have k: "0 < ?k" "?k < 2 ^ 64" and size: "size_t_of_int (gfc_request_size g) = ?k"
    using st streaming_request_size [OF st] size_t_of_int_nat [of ?k]
    by (auto simp: streaming_def RDBUFSIZE_def)
  then show ?thesis
    using sock_read_stuck [OF pend k(1)] by (auto simp: gfc_round_def size)
qed

lemma streaming_loop:
  assumes "streaming g cb n b"
  shows "\<exists>g' chunks. gfc_loop 0 g =
      Inr (if n - b \<le> length (pending (rx (sock g))) then 0 else -1, g') \<and>
    concat chunks = take (n - b) (pending (rx (sock g))) \<and>
    write_arg g' = fold cb chunks (write_arg g) \<and> status g' = status g \<and>
    header_arg g' = header_arg g \<and> file_length g' = file_length g \<and>
    total_rx_bytes g' = of_nat (b + length (concat chunks)) \<and>
    bytes_written g' = of_nat (b + length (concat chunks))"
  using assms
proof (induction "n - b" arbitrary: g b rule: less_induct)
  case less
  show ?case
  proof (cases "pending (rx (sock g)) = []")
    case True
    then obtain es where "gfc_round 0 g = Inr (Inl (-1, g\<lparr>sock := (sock g)\<lparr>rx := es\<rparr>\<rparr>))"
      using streaming_round_stuck less.prems by blast
    then have "gfc_loop 0 g = Inr (-1, g\<lparr>sock := (sock g)\<lparr>rx := es\<rparr>\<rparr>)"
      by (simp add: gfc_loop.simps [of 0 g])
    moreover have "\<not> n - b \<le> length (pending (rx (sock g)))"
      using True less.prems by (simp add: streaming_def)
    ultimately show ?thesis
      using True less.prems
      by (intro exI [of _ "g\<lparr>sock := (sock g)\<lparr>rx := es\<rparr>\<rparr>"] exI [of _ "[]"])
        (simp add: streaming_def)
  next
    case False
    from streaming_round [OF less.prems False] obtain bs es g1 where bs: "bs \<noteq> []"
        "length bs \<le> n - b" and pe: "pending (rx (sock g)) = bs @ pending es"
      and g1: "rx (sock g1) = es" "write_arg g1 = cb bs (write_arg g)" "status g1 = status g"
        "header_arg g1 = header_arg g" "total_rx_bytes g1 = of_nat (b + length bs)"
        "bytes_written g1 = of_nat (b + length bs)" "file_length g1 = file_length g"
      and rnd: "if b + length bs = n then gfc_round 0 g = Inr (Inl (0, g1))
          else gfc_round 0 g = Inr (Inr (0, g1)) \<and> streaming g1 cb n (b + length bs)"
      by blast
    show ?thesis
    proof (cases "b + length bs = n")
      case True
      with rnd have "gfc_loop 0 g = Inr (0, g1)"
        by (simp add: gfc_loop.simps [of 0 g])
      with True g1 pe bs show ?thesis
        by (intro exI [of _ g1] exI [of _ "[bs]"]) auto
    next
      case False
      with rnd have loop: "gfc_loop 0 g = gfc_loop 0 g1" and st1: "streaming g1 cb n (b + length bs)"
        by (simp_all add: gfc_loop.simps [of 0 g])
      have "n - (b + length bs) < n - b"
        using bs by (cases bs) auto
      from less.hyps [OF this st1] obtain g' chunks where
        "gfc_loop 0 g1 = Inr (if n - (b + length bs) \<le> length (pending es) then 0 else -1, g')"
        "concat chunks = take (n - (b + length bs)) (pending es)"
        "write_arg g' = fold cb chunks (write_arg g1)" "status g' = status g1"
        "header_arg g' = header_arg g1" "file_length g' = file_length g1"
        "total_rx_bytes g' = of_nat (b + length bs + length (concat chunks))"
        "bytes_written g' = of_nat (b + length bs + length (concat chunks))"
        unfolding g1(1) by blast
      with loop g1 pe bs False show ?thesis
        by (intro exI [of _ g'] exI [of _ "bs # chunks"]) (auto simp: algebra_simps)
    qed
  qed
qed


section \<open>Parsing a well-formed header\<close>

lemma parse_scheme_step:
  assumes "buffer g = ''GETFILE'' @ SP # rest" and "rx_bytes g \<ge> 7"
  shows "gfc_parse_scheme g =
    Inr (0, g\<lparr>buffer := ''GETFILE'' @ NUL # rest, strtok_pt := Some 8, header_pt := 8,
               sm := SM_METHOD\<rparr>)"
proof -
  have tok: "strtok_at (buffer g) 0 SP = Inr (Some ''GETFILE'', ''GETFILE'' @ NUL # rest, 8)"
    using strtok_at_token [of "''GETFILE''" SP 0 "[]" rest] assms(1) by simp
  have cmp: "strncmp 7 (''GETFILE'' @ NUL # rest) (cstr ''GETFILE'') = Inr 0"
    by (rule strncmp_prefix_eq) auto
  show ?thesis
    using assms(2) cmp by (simp add: gfc_parse_scheme_def tok)
qed

lemma parse_ok_step:
  assumes "buffer g = pre @ ''OK'' @ SP # rest" and "length pre = 8" and "header_pt g = 8"
    and "strtok_pt g = Some 8" and "rx_bytes g - 8 > 3" and "sm g = SM_METHOD"
  shows "gfc_parse_method g =
    Inr (g\<lparr>buffer := pre @ ''OK'' @ NUL # rest, strtok_pt := Some 11, header_pt := 11,
           sm := SM_LENGTH, length_start_idx := 11, status := GF_OK\<rparr>)"
proof -
  have tok: "strtok_next (buffer g) (Some 8) SP = Inr (Some ''OK'', pre @ ''OK'' @ NUL # rest, 11)"
    using strtok_at_token [of "''OK''" SP 8 pre rest] assms(1,2) by (simp add: strtok_next_def)
  have cmp: "strcmp (cstr ''OK'') (cstr ''OK'') = Inr 0"
    by (simp add: cstr_def)
  show ?thesis
    using assms(2-) tok cmp
    by (simp add: gfc_parse_method_def gfc_parse_ok_def gfc_parse_err_def)
qed

lemma scan_digits_run:
  assumes "\<forall>c \<in> set ds. isdigit c" and "\<not> isdigit c" and "i = length pre"
    and "length pre + length ds \<le> k" and "k < 2 ^ 32"
  shows "scan_digits (pre @ ds @ c # rest) (of_nat k) i = Inr (i + length ds)"
  using assms
proof (induction ds arbitrary: pre i)
  case Nil
  then show ?case
    by (simp add: scan_digits.simps [of _ _ "length pre"] u32_le_iff)
next
  case (Cons d ds)
  have "scan_digits ((pre @ [d]) @ ds @ c # rest) (of_nat k) (Suc i) = Inr (Suc i + length ds)"
    using Cons.prems by (intro Cons.IH) auto
  then show ?case
    using Cons.prems by (simp add: scan_digits.simps [of _ _ "length pre"] u32_le_iff)
qed

lemma parse_length_step:
  assumes "buffer g = pre @ ds @ c # rest" and "\<forall>c \<in> set ds. isdigit c" and "\<not> isdigit c"
    and "header_pt g = length pre" and "rx_bytes g = of_nat k"
    and "length pre + length ds \<le> k" and "k < 2 ^ 32"
  shows "gfc_parse_length g = Inr (g\<lparr>header_pt := length pre + length ds, sm := SM_PATH\<rparr>)"
proof -
  have "scan_digits (buffer g) (rx_bytes g) (header_pt g) = Inr (length pre + length ds)"
    using assms scan_digits_run [of ds c "length pre" pre k rest] by simp
  then show ?thesis
    using assms(5-7) by (simp add: gfc_parse_length_def Let_def u32_less_iff del: of_nat_add)
qed

lemma parse_path_step:
  assumes buf: "buffer g = pre @ dec_of_nat n @ replicate j SP @ CRLF2 @ rest"
    and start: "length_start_idx g = length pre"
    and hp: "header_pt g = length pre + length (dec_of_nat n)"
    and rxb: "rx_bytes g = of_nat k" "length pre + length (dec_of_nat n) + j + 4 \<le> k" "k < 2 ^ 31"
    and n: "n < 2 ^ 31"
    and hdr: "hdr = pre @ dec_of_nat n @ replicate j SP @ CRLF2"
  shows "gfc_parse_path g =
    Inr (0, g\<lparr>file_length := of_nat n, file_length_valid := True,
               header_pt := length hdr,
               header_arg := (case header_callback g of None \<Rightarrow> header_arg g
                              | Some f \<Rightarrow> f hdr (header_arg g)),
               sm := SM_CONTENT, total_rx_bytes := total_rx_bytes g - of_nat (length hdr),
               content_pt := length hdr\<rparr>)"
proof -
  let ?d = "dec_of_nat n"
  have dup: "strndup (buffer g) (length pre) (length ?d) = Inr ?d"
  proof -
    have tw: "takeWhile (\<lambda>c. c \<noteq> NUL) ?d = ?d"
      using dec_of_nat_no_NUL [of n] by (auto simp: takeWhile_eq_all_conv)
    show ?thesis by (simp add: strndup_def buf tw Let_def)
  qed
  have at: "word_of_int (atoi ?d) = (of_nat n :: u32)"
    using atoi_dec [of n "[]"] n by simp
  have span: "mem_span (buffer g) (\<lambda>c. c = SP) (length pre + length ?d) =
      Inr (length pre + length ?d + j)"
    using mem_span_at [of "replicate j SP" "\<lambda>c. c = SP" CR "length pre + length ?d" "pre @ ?d"
        "length pre + length ?d + j" "[LF, CR, LF] @ rest"] by (simp add: buf)
  have diff: "rx_bytes g - of_nat (length pre + length ?d + j) =
      of_nat (k - (length pre + length ?d + j))"
    unfolding rxb(1) using rxb(2) by (intro u32_diff) simp
  have "(of_nat 4 :: u32) \<le> of_nat (k - (length pre + length ?d + j))"
    using rxb(2,3) by (subst u32_le_iff) auto
  then have room: "4 \<le> rx_bytes g - of_nat (length pre + length ?d + j)"
    unfolding diff by simp
  have cmp: "strncmp 4 (drop (length pre + length ?d + j) (buffer g)) (cstr CRLF2) = Inr 0"
    using strncmp_prefix_eq [of CRLF2 4 rest] by (simp add: buf)
  have sl: "mem_slice (buffer g) 0 (length pre + length ?d + j + 4) = Inr hdr"
    by (simp add: mem_slice_def buf hdr)
  have len: "length hdr = length pre + length ?d + j + 4"
    by (simp add: hdr)
  show ?thesis
    unfolding gfc_parse_path_def
    using start hp dup at span room cmp sl len
    by (simp add: Let_def del: of_nat_add split: option.split)
qed


text \<open>
  The header of a successful response, with any number of spaces after the length, and what
  the parser leaves of it in the buffer.
\<close>

definition ok_header :: "nat \<Rightarrow> nat \<Rightarrow> string" where
  "ok_header n j = ''GETFILE'' @ SP # ''OK'' @ SP # dec_of_nat n @ replicate j SP @ CRLF2"

definition cut_header :: "nat \<Rightarrow> nat \<Rightarrow> string" where
  "cut_header n j = ''GETFILE'' @ NUL # ''OK'' @ NUL # dec_of_nat n @ replicate j SP @ CRLF2"

definition gfc_fresh :: "('h, 'w) gfcrequest \<Rightarrow> (string \<Rightarrow> 'w \<Rightarrow> 'w) \<Rightarrow> bool" where
  "gfc_fresh g cb \<longleftrightarrow>
     sm g = SM_SCHEME \<and> write_callback g = Some cb \<and> buffer g = replicate RDBUFSIZE NUL \<and>
     rx_bytes g = 0 \<and> total_rx_bytes g = 0 \<and> bytes_written g = 0 \<and> content_pt g = 0"

definition run_header :: "(string \<Rightarrow> 'h \<Rightarrow> 'h) option \<Rightarrow> string \<Rightarrow> 'h \<Rightarrow> 'h" where
  "run_header f hdr a = (case f of None \<Rightarrow> a | Some f \<Rightarrow> f hdr a)"

lemma length_cut_header: "length (cut_header n j) = length (ok_header n j)"
  by (simp add: cut_header_def ok_header_def)

text \<open>The pass over the states up to \<open>SM_PATH\<close>, on a buffer that holds the whole header.\<close>

lemma parse_header:
  assumes "sm g = SM_SCHEME" and "buffer g = ok_header n j @ rest"
    and "rx_bytes g = of_nat k" "length (ok_header n j) \<le> k" "k < 2 ^ 31" and "n < 2 ^ 31"
    and g1: "g1 = g\<lparr>buffer := cut_header n j @ rest, strtok_pt := Some 11,
      header_pt := length (ok_header n j), length_start_idx := 11, status := GF_OK,
      file_length := of_nat n, file_length_valid := True,
      header_arg := run_header (header_callback g) (cut_header n j) (header_arg g),
      sm := SM_CONTENT, total_rx_bytes := total_rx_bytes g - of_nat (length (ok_header n j)),
      content_pt := length (ok_header n j)\<rparr>"
  shows "gfc_parse r g =
    bind_res (gfc_parse_content g1) (\<lambda>g5.
       Inr (case sm g5 of
              SM_DONE \<Rightarrow> (1, g5)
            | SM_ERROR \<Rightarrow> (1, g5\<lparr>status := GF_ERROR\<rparr>)
            | SM_NOT_FOUND \<Rightarrow> (1, g5\<lparr>status := GF_FILE_NOT_FOUND\<rparr>)
            | _ \<Rightarrow> (0, g5)))"
proof -
  define t where "t = dec_of_nat n @ replicate j SP @ CRLF2 @ rest"
  define ga where "ga = g\<lparr>buffer := (''GETFILE'' @ [NUL]) @ ''OK'' @ SP # t,
    strtok_pt := Some 8, header_pt := 8, sm := SM_METHOD\<rparr>"
  define gb where "gb = ga\<lparr>buffer := cut_header n j @ rest, strtok_pt := Some 11,
    header_pt := 11, sm := SM_LENGTH, length_start_idx := 11, status := GF_OK\<rparr>"
  define gc where "gc = gb\<lparr>header_pt := 11 + length (dec_of_nat n), sm := SM_PATH\<rparr>"
  have cut: "cut_header n j @ rest = (''GETFILE'' @ NUL # ''OK'' @ [NUL]) @ t"
    by (simp add: cut_header_def t_def)
  have k: "11 + length (dec_of_nat n) + j + 4 \<le> k"
    using assms(4) by (simp add: ok_header_def)
  have seven: "rx_bytes g \<ge> 7"
    using k assms(3,5) u32_le_iff [of 7 k] by simp
  have three: "rx_bytes g - 8 > 3"
    using k assms(3,5) u32_less_iff [of 3 "k - 8"] u32_diff [of 8 k] by simp
  have a: "gfc_parse_scheme g = Inr (0, ga)"
    using parse_scheme_step [of g "''OK'' @ SP # t"] seven assms(2)
    by (simp add: ga_def t_def ok_header_def)
  have b: "gfc_parse_method ga = Inr gb"
    using parse_ok_step [of ga "''GETFILE'' @ [NUL]" t] three by (simp add: gb_def ga_def cut)
  have c: "gfc_parse_length gb = Inr gc"
  proof -
    obtain x xs where x: "replicate j SP @ CRLF2 @ rest = x # xs" "\<not> isdigit x"
      by (cases j) (auto simp: isdigit_def less_eq_char_def)
    show ?thesis
      using parse_length_step [of gb "''GETFILE'' @ NUL # ''OK'' @ [NUL]" "dec_of_nat n" x xs k]
        x k assms(3,5) dec_of_nat_isdigit
      by (simp add: gc_def gb_def ga_def t_def cut)
  qed
  have d: "gfc_parse_path gc = Inr (0, g1)"
  proof -
    have "gfc_parse_path gc =
      Inr (0, gc\<lparr>file_length := of_nat n, file_length_valid := True,
               header_pt := length (cut_header n j),
               header_arg := (case header_callback gc of None \<Rightarrow> header_arg gc
                              | Some f \<Rightarrow> f (cut_header n j) (header_arg gc)),
               sm := SM_CONTENT,
               total_rx_bytes := total_rx_bytes gc - of_nat (length (cut_header n j)),
               content_pt := length (cut_header n j)\<rparr>)"
      using k assms(3,5,6)
      by (intro parse_path_step [where pre = "''GETFILE'' @ NUL # ''OK'' @ [NUL]" and k = k])
        (auto simp: gc_def gb_def ga_def cut_header_def)
    also have "\<dots> = Inr (0, g1)"
      by (simp, rule gfcrequest.equality)
        (simp_all add: gc_def gb_def ga_def g1 length_cut_header run_header_def split: option.split)
    finally show ?thesis .
  qed
  have sms: "sm ga = SM_METHOD" "sm gb = SM_LENGTH" "sm gc = SM_PATH" "sm g1 = SM_CONTENT"
    by (simp_all add: ga_def gb_def gc_def g1)
  show ?thesis
    unfolding gfc_parse_def using assms(1) by (simp add: a b c d sms)
qed


text \<open>The first round, when the first read brings the whole header and \<open>c0\<close> of the body.\<close>

lemma fresh_request_size: "gfc_fresh g cb \<Longrightarrow> size_t_of_int (gfc_request_size g) = RDBUFSIZE"
  using size_t_of_int_nat [of RDBUFSIZE]
  by (simp add: gfc_fresh_def gfc_request_size_def less_gfc_sm_def RDBUFSIZE_def)

lemma fresh_round:
  assumes "gfc_fresh g cb" and "rx (sock g) = Chunk bs # es" and "bs \<noteq> []"
    and "length bs \<le> RDBUFSIZE"
    and g0: "g0 = g\<lparr>sock := (sock g)\<lparr>rx := es\<rparr>,
      buffer := bs @ replicate (RDBUFSIZE - length bs) NUL,
      rx_bytes := of_nat (length bs), total_rx_bytes := of_nat (length bs)\<rparr>"
  shows "gfc_round r g =
    bind_res (gfc_parse r g0) (\<lambda>(r1, g1).
      Inr (if r1 = 1 then Inl (0, g1) else if r1 < 0 then Inl (r1, g1) else Inr (r1, g1)))"
proof -
  have "mem_put (buffer g) (content_pt g) bs = Inr (bs @ replicate (RDBUFSIZE - length bs) NUL)"
    using assms by (simp add: gfc_fresh_def mem_put_0)
  then show ?thesis
    using assms fresh_request_size [OF assms(1)]
    by (simp add: gfc_round_def gfc_fresh_def)
qed

lemma header_round:
  assumes fr: "gfc_fresh g cb" and inp: "rx (sock g) = Chunk (ok_header n j @ c0) # es"
    and fits: "length (ok_header n j) + length c0 \<le> RDBUFSIZE"
    and hb: "length (ok_header n j) < RDBUFSIZE"
    and n: "length c0 \<le> n" "0 < n" "n < 2 ^ 31"
  shows "\<exists>g'. rx (sock g') = es \<and> status g' = GF_OK \<and> file_length g' = of_nat n \<and>
    write_arg g' = (if c0 = [] then write_arg g else cb c0 (write_arg g)) \<and>
    header_arg g' = run_header (header_callback g) (cut_header n j) (header_arg g) \<and>
    total_rx_bytes g' = of_nat (length c0) \<and> bytes_written g' = of_nat (length c0) \<and>
    (if length c0 = n then gfc_round 0 g = Inr (Inl (0, g'))
     else gfc_round 0 g = Inr (Inr (0, g')) \<and> streaming g' cb n (length c0))"
proof -
  let ?h = "length (ok_header n j)"
  let ?rest = "c0 @ replicate (RDBUFSIZE - (?h + length c0)) NUL"
  define g0 where "g0 = g\<lparr>sock := (sock g)\<lparr>rx := es\<rparr>, buffer := ok_header n j @ ?rest,
      rx_bytes := of_nat (?h + length c0), total_rx_bytes := of_nat (?h + length c0)\<rparr>"
  define g1 where "g1 = g0\<lparr>buffer := cut_header n j @ ?rest, strtok_pt := Some 11,
      header_pt := ?h, length_start_idx := 11, status := GF_OK,
      file_length := of_nat n, file_length_valid := True,
      header_arg := run_header (header_callback g0) (cut_header n j) (header_arg g0),
      sm := SM_CONTENT, total_rx_bytes := total_rx_bytes g0 - of_nat ?h, content_pt := ?h\<rparr>"
  have round: "gfc_round 0 g =
    bind_res (gfc_parse 0 g0) (\<lambda>(r1, g1).
      Inr (if r1 = 1 then Inl (0, g1) else if r1 < 0 then Inl (r1, g1) else Inr (r1, g1)))"
    by (rule fresh_round [OF fr inp]) (use fits in \<open>auto simp: g0_def ok_header_def\<close>)
  have parse: "gfc_parse 0 g0 = bind_res (gfc_parse_content g1) (\<lambda>g5.
       Inr (case sm g5 of
              SM_DONE \<Rightarrow> (1, g5)
            | SM_ERROR \<Rightarrow> (1, g5\<lparr>status := GF_ERROR\<rparr>)
            | SM_NOT_FOUND \<Rightarrow> (1, g5\<lparr>status := GF_FILE_NOT_FOUND\<rparr>)
            | _ \<Rightarrow> (0, g5)))"
    by (rule parse_header [where n = n and j = j and rest = ?rest and k = "?h + length c0"])
      (use fr fits n in \<open>auto simp: g0_def g1_def gfc_fresh_def RDBUFSIZE_def\<close>)
  have tot: "total_rx_bytes g1 = of_nat (length c0)"
    by (simp add: g1_def g0_def)
  have len: "length (buffer g1) = RDBUFSIZE"
    using fits by (simp add: g1_def length_cut_header)
  show ?thesis
  proof (cases "c0 = []")
    case True
    have rx1: "rx_bytes g1 = of_nat ?h"
      using True by (simp add: g1_def g0_def)
    then have "gfc_parse_content g1 = Inr g1"
      by (simp add: gfc_parse_content_def g1_def)
    then have rd: "gfc_round 0 g = Inr (Inr (0, g1))"
      unfolding round parse by (simp add: g1_def)
    have "streaming g1 cb n 0"
      unfolding streaming_def using tot len rx1 fr n hb True
      by (simp add: g1_def g0_def gfc_fresh_def)
    with rd True n tot show ?thesis
      by (intro exI [of _ g1]) (auto simp: g1_def g0_def streaming_def)
  next
    case False
    define g2 where "g2 = g1\<lparr>write_arg := cb c0 (write_arg g1), bytes_written := of_nat (0 + length c0),
           content_pt := (if ?h + length c0 = RDBUFSIZE then 0 else ?h + length c0),
           rx_bytes := (if ?h + length c0 = RDBUFSIZE then 0 else rx_bytes g1),
           sm := (if 0 + length c0 = n then SM_DONE else SM_CONTENT)\<rparr>"
    have "gfc_parse_content g1 = Inr g2"
      unfolding g2_def
      by (rule parse_content_step [where p = ?h])
        (use fr fits n False in \<open>auto simp: g1_def g0_def gfc_fresh_def mem_slice_def length_cut_header\<close>)
    then have rd: "gfc_round 0 g = Inr (if length c0 = n then Inl (0, g2) else Inr (0, g2))"
      unfolding round parse by (auto simp: g2_def)
    have "streaming g2 cb n (length c0)" if "length c0 \<noteq> n"
      unfolding streaming_def using that tot len fr n fits
      by (auto simp: g2_def g1_def g0_def gfc_fresh_def RDBUFSIZE_def)
    with rd False tot show ?thesis
      by (intro exI [of _ g2]) (auto simp: g2_def g1_def g0_def)
  qed
qed

lemma ok_response:
  assumes fr: "gfc_fresh g cb" and inp: "rx (sock g) = Chunk (ok_header n j @ c0) # es"
    and fits: "length (ok_header n j) + length c0 \<le> RDBUFSIZE"
    and hb: "length (ok_header n j) < RDBUFSIZE"
    and n: "length c0 \<le> n" "0 < n" "n < 2 ^ 31"
  shows "\<exists>g' chunks. process_response g =
      Inr (if n \<le> length (c0 @ pending es) then 0 else -1, g') \<and>
    status g' = GF_OK \<and> file_length g' = of_nat n \<and>
    concat chunks = take n (c0 @ pending es) \<and>
    write_arg g' = fold cb chunks (write_arg g) \<and>
    header_arg g' = run_header (header_callback g) (cut_header n j) (header_arg g) \<and>
    total_rx_bytes g' = of_nat (length (concat chunks)) \<and>
    bytes_written g' = of_nat (length (concat chunks))"
proof -
  from header_round [OF fr inp fits hb n] obtain g1 where g1: "rx (sock g1) = es"
      "status g1 = GF_OK" "file_length g1 = of_nat n"
      "write_arg g1 = (if c0 = [] then write_arg g else cb c0 (write_arg g))"
      "header_arg g1 = run_header (header_callback g) (cut_header n j) (header_arg g)"
      "total_rx_bytes g1 = of_nat (length c0)" "bytes_written g1 = of_nat (length c0)"
    and rd: "if length c0 = n then gfc_round 0 g = Inr (Inl (0, g1))
     else gfc_round 0 g = Inr (Inr (0, g1)) \<and> streaming g1 cb n (length c0)"
    by blast
  let ?first = "if c0 = [] then [] else [c0]"
  have pr: "process_response g = gfc_loop 0 g"
    using fr by (simp add: process_response_def gfc_fresh_def)
  show ?thesis
  proof (cases "length c0 = n")
    case True
    with rd have "gfc_loop 0 g = Inr (0, g1)"
      by (simp add: gfc_loop.simps [of 0 g])
    with True g1 pr n show ?thesis
      by (intro exI [of _ g1] exI [of _ "[c0]"]) auto
  next
    case False
    with rd have loop: "gfc_loop 0 g = gfc_loop 0 g1" and st: "streaming g1 cb n (length c0)"
      by (simp_all add: gfc_loop.simps [of 0 g])
    from streaming_loop [OF st] obtain g' chunks where g':
        "gfc_loop 0 g1 = Inr (if n - length c0 \<le> length (pending es) then 0 else -1, g')"
        "concat chunks = take (n - length c0) (pending es)"
        "write_arg g' = fold cb chunks (write_arg g1)" "status g' = status g1"
        "header_arg g' = header_arg g1" "file_length g' = file_length g1"
        "total_rx_bytes g' = of_nat (length c0 + length (concat chunks))"
        "bytes_written g' = of_nat (length c0 + length (concat chunks))"
      unfolding g1(1) by blast
    then show ?thesis
      using pr loop g1 n False
      by (intro exI [of _ g'] exI [of _ "?first @ chunks"]) auto
  qed
qed

lemma fresh_gfc_create:
  assumes "gfc_create z mem h = (g, h')"
  shows "gfc_fresh (gfc_set_writefunc g (Some cb)) cb"
  using assms by (auto simp: gfc_create_def strdup_def gfc_fresh_def gfc_set_writefunc_def)

lemma fold_append: "fold (\<lambda>d f. f @ d) chunks w = w @ concat chunks"
  by (induction chunks arbitrary: w) auto


section \<open>Other responses\<close>

text \<open>A status other than \<open>OK\<close>: the token is cut off, the header position stays.\<close>

lemma parse_other_status:
  assumes "buffer g = pre @ st @ SP # rest" and "length pre = 8" and "header_pt g = 8"
    and "strtok_pt g = Some 8" and "rx_bytes g - 8 > 3"
    and st: "st \<noteq> []" "NUL \<notin> set st" "SP \<notin> set st" "st \<noteq> ''OK''"
  shows "gfc_parse_ok g =
    Inr (g\<lparr>buffer := pre @ st @ NUL # rest, strtok_pt := Some (9 + length st)\<rparr>)"
proof -
  have tok: "strtok_next (buffer g) (Some 8) SP =
      Inr (Some st, pre @ st @ NUL # rest, 9 + length st)"
    using strtok_at_token [of st SP 8 pre rest] assms(1,2) st by (simp add: strtok_next_def)
  obtain c where "strcmp (cstr st) (cstr ''OK'') = Inr c" "c \<noteq> 0"
    using strcmp_cstr [of st "''OK''"] st by auto
  then show ?thesis
    using assms(3-5) tok by (simp add: gfc_parse_ok_def)
qed

lemma parse_err_not_found:
  assumes "buffer g = pre @ ''FILE_NOT_FOUND'' @ rest" and "header_pt g = length pre"
    and "rx_bytes g = of_nat k" and "k < 2 ^ 31" and "length pre + 15 \<le> k" and "sm g = SM_METHOD"
  shows "gfc_parse_err g = Inr (g\<lparr>sm := SM_NOT_FOUND\<rparr>)"
proof -
  have mb: "sint (rx_bytes g - of_nat (header_pt g)) = int (k - length pre)"
    using assms(2-5) by (simp only: u32_diff) (intro u32_sint, simp)
  have 1: "strncmp 14 (drop (header_pt g) (buffer g)) (cstr ''FILE_NOT_FOUND'') = Inr 0"
    using assms strncmp_prefix_eq [of "''FILE_NOT_FOUND''" 14 rest] by simp
  have 2: "\<exists>c. strncmp 5 (drop (header_pt g) (buffer g)) (cstr ''ERROR'') = Inr c \<and> c \<noteq> 0"
    using assms strncmp_differ [of "''FILE_''" "''ERROR''" 5 "''NOT_FOUND'' @ rest"] by simp
  show ?thesis
    using 1 2 assms(5,6) by (auto simp: gfc_parse_err_def mb)
qed

lemma parse_err_error:
  assumes "buffer g = pre @ ''ERROR'' @ rest" and "header_pt g = length pre"
    and "rx_bytes g = of_nat k" and "k < 2 ^ 31" and "length pre + 6 \<le> k" and "sm g = SM_METHOD"
  shows "gfc_parse_err g = Inr (g\<lparr>sm := SM_ERROR\<rparr>)"
proof -
  have mb: "sint (rx_bytes g - of_nat (header_pt g)) = int (k - length pre)"
    using assms(2-5) by (simp only: u32_diff) (intro u32_sint, simp)
  have 1: "strncmp 5 (drop (header_pt g) (buffer g)) (cstr ''ERROR'') = Inr 0"
    using assms strncmp_prefix_eq [of "''ERROR''" 5 rest] by simp
  have 2: "\<exists>c. strncmp 14 (drop (header_pt g) (buffer g)) (cstr ''FILE_NOT_FOUND'') = Inr c \<and> c \<noteq> 0"
  proof -
    have "drop (header_pt g) (buffer g) = CHR ''E'' # ''RROR'' @ rest"
      using assms(1,2) by simp
    moreover have "strncmp (Suc 13) (CHR ''E'' # ''RROR'' @ rest) (cstr ''FILE_NOT_FOUND'') =
        Inr (byte_val CHR ''E'' - byte_val CHR ''F'')"
      by (simp only: strncmp.simps cstr_def append.simps) simp
    ultimately show ?thesis by simp
  qed
  show ?thesis
    using 1 2 assms(5,6) by (auto simp: gfc_parse_err_def mb)
qed

lemma status_response:
  assumes fr: "gfc_fresh g cb" and inp: "rx (sock g) = Chunk (''GETFILE'' @ SP # st @ SP # tl0) # es"
    and fits: "length (''GETFILE'' @ SP # st @ SP # tl0) \<le> RDBUFSIZE"
    and st: "st = ''FILE_NOT_FOUND'' \<and> res = GF_FILE_NOT_FOUND \<or> st = ''ERROR'' \<and> res = GF_ERROR"
  shows "\<exists>g'. process_response g = Inr (0, g') \<and> status g' = res \<and> write_arg g' = write_arg g \<and>
    header_arg g' = header_arg g \<and> bytes_written g' = 0"
proof -
  let ?bs = "''GETFILE'' @ SP # st @ SP # tl0"
  let ?m = "tl0 @ replicate (RDBUFSIZE - length ?bs) NUL"
  define res_sm where "res_sm = (if res = GF_ERROR then SM_ERROR else SM_NOT_FOUND)"
  define g0 where "g0 = g\<lparr>sock := (sock g)\<lparr>rx := es\<rparr>,
      buffer := ''GETFILE'' @ SP # st @ SP # ?m,
      rx_bytes := of_nat (length ?bs), total_rx_bytes := of_nat (length ?bs)\<rparr>"
  define ga where "ga = g0\<lparr>buffer := (''GETFILE'' @ [NUL]) @ st @ SP # ?m, strtok_pt := Some 8,
      header_pt := 8, sm := SM_METHOD\<rparr>"
  define gb where "gb = ga\<lparr>buffer := (''GETFILE'' @ [NUL]) @ st @ NUL # ?m,
      strtok_pt := Some (9 + length st)\<rparr>"
  have k: "length ?bs < 2 ^ 31" "14 \<le> length ?bs" "8 + Suc (length st) \<le> length ?bs"
    using fits st by (auto simp: RDBUFSIZE_def)
  have round: "gfc_round 0 g =
    bind_res (gfc_parse 0 g0) (\<lambda>(r1, g1).
      Inr (if r1 = 1 then Inl (0, g1) else if r1 < 0 then Inl (r1, g1) else Inr (r1, g1)))"
    by (rule fresh_round [OF fr inp]) (use fits in \<open>auto simp: g0_def\<close>)
  have sc: "gfc_parse_scheme g0 = Inr (0, ga)"
    using parse_scheme_step [of g0 "st @ SP # ?m"] k u32_le_iff [of 7 "length ?bs"]
    by (simp add: ga_def g0_def del: of_nat_add of_nat_Suc length_append)
  have rx8: "3 < rx_bytes g0 - 8"
    using k u32_less_iff [of 3 "length ?bs - 8"] u32_diff [of 8 "length ?bs"]
    by (simp add: g0_def del: of_nat_add of_nat_Suc length_append)
  have ok: "gfc_parse_ok ga = Inr gb"
    using parse_other_status [of ga "''GETFILE'' @ [NUL]" st ?m] rx8 st
    by (auto simp: gb_def ga_def)
  have er: "gfc_parse_err gb = Inr (gb\<lparr>sm := res_sm\<rparr>)"
    using st
      parse_err_not_found [of gb "''GETFILE'' @ [NUL]" "NUL # ?m" "length ?bs"]
      parse_err_error [of gb "''GETFILE'' @ [NUL]" "NUL # ?m" "length ?bs"] k
    by (auto simp: gb_def ga_def g0_def res_sm_def)
  have parse: "gfc_parse 0 g0 = Inr (1, gb\<lparr>sm := res_sm, status := res\<rparr>)"
    using fr st ok er sc
    by (auto simp: gfc_parse_def gfc_parse_method_def res_sm_def g0_def ga_def gfc_fresh_def)
  have "process_response g = Inr (0, gb\<lparr>sm := res_sm, status := res\<rparr>)"
    using fr by (simp add: process_response_def gfc_fresh_def gfc_loop.simps [of 0 g] round parse)
  then show ?thesis
    using fr by (auto simp: gb_def ga_def g0_def gfc_fresh_def)
qed

section \<open>Responses the parser does not cope with\<close>

lemma empty_file_response:
  assumes fr: "gfc_fresh g cb" and inp: "rx (sock g) = Chunk (ok_header 0 j) # es"
    and fits: "length (ok_header 0 j) < RDBUFSIZE"
  shows "\<exists>g'. process_response g = Inr (-1, g') \<and> status g' = GF_OK \<and> write_arg g' = write_arg g \<and>
    bytes_written g' = 0"
proof -
  let ?h = "length (ok_header 0 j)"
  let ?rest = "replicate (RDBUFSIZE - ?h) NUL"
  define g0 where "g0 = g\<lparr>sock := (sock g)\<lparr>rx := es\<rparr>, buffer := ok_header 0 j @ ?rest,
      rx_bytes := of_nat ?h, total_rx_bytes := of_nat ?h\<rparr>"
  define g1 where "g1 = g0\<lparr>buffer := cut_header 0 j @ ?rest, strtok_pt := Some 11,
      header_pt := ?h, length_start_idx := 11, status := GF_OK,
      file_length := of_nat 0, file_length_valid := True,
      header_arg := run_header (header_callback g0) (cut_header 0 j) (header_arg g0),
      sm := SM_CONTENT, total_rx_bytes := total_rx_bytes g0 - of_nat ?h, content_pt := ?h\<rparr>"
  have round: "gfc_round 0 g =
    bind_res (gfc_parse 0 g0) (\<lambda>(r1, g1).
      Inr (if r1 = 1 then Inl (0, g1) else if r1 < 0 then Inl (r1, g1) else Inr (r1, g1)))"
    by (rule fresh_round [OF fr inp]) (use fits in \<open>auto simp: g0_def ok_header_def\<close>)
  have parse: "gfc_parse 0 g0 = bind_res (gfc_parse_content g1) (\<lambda>g5.
       Inr (case sm g5 of
              SM_DONE \<Rightarrow> (1, g5)
            | SM_ERROR \<Rightarrow> (1, g5\<lparr>status := GF_ERROR\<rparr>)
            | SM_NOT_FOUND \<Rightarrow> (1, g5\<lparr>status := GF_FILE_NOT_FOUND\<rparr>)
            | _ \<Rightarrow> (0, g5)))"
    by (rule parse_header [where n = 0 and j = j and rest = ?rest and k = "?h"])
      (use fr fits in \<open>auto simp: g0_def g1_def gfc_fresh_def RDBUFSIZE_def\<close>)
  have "gfc_parse_content g1 = Inr g1"
    by (simp add: gfc_parse_content_def g1_def g0_def)
  then have r1: "gfc_round 0 g = Inr (Inr (0, g1))"
    unfolding round parse by (simp add: g1_def)
  have "word_of_int (int RDBUFSIZE - int ?h) = (of_nat (RDBUFSIZE - ?h) :: u32)"
    using fits by (simp add: of_nat_diff)
  moreover have "(of_nat 0 :: u32) < of_nat (RDBUFSIZE - ?h)"
    using fits by (subst u32_less_iff) (auto simp: RDBUFSIZE_def)
  ultimately have "size_t_of_int (gfc_request_size g1) = 0"
    by (simp add: gfc_request_size_def g1_def g0_def less_gfc_sm_def size_t_of_int_def)
  then obtain es' where r2: "gfc_round 0 g1 = Inr (Inl (-1, g1\<lparr>sock := (sock g1)\<lparr>rx := es'\<rparr>\<rparr>))"
    using sock_read_0 [of "rx (sock g1)"] by (auto simp: gfc_round_def)
  have "process_response g = Inr (-1, g1\<lparr>sock := (sock g1)\<lparr>rx := es'\<rparr>\<rparr>)"
    using fr r1 r2
    by (simp add: process_response_def gfc_fresh_def gfc_loop.simps [of 0 g] gfc_loop.simps [of 0 g1])
  then show ?thesis
    using fr by (auto simp: g1_def g0_def gfc_fresh_def)
qed

lemma split_header_response:
  assumes fr: "gfc_fresh g cb"
    and inp: "rx (sock g) = [Chunk (''GETFILE'' @ [SP]), Chunk (''OK'' @ SP # ''5'' @ CRLF2 @ ''hello'')]"
  shows "\<exists>g'. process_response g = Inr (-1, g') \<and> status g' = status g \<and>
    write_arg g' = write_arg g \<and> bytes_written g' = 0"
proof -
  let ?c2 = "''OK'' @ SP # ''5'' @ CRLF2 @ ''hello''"
  let ?nuls = "replicate (RDBUFSIZE - 8) NUL"
  define g0 where "g0 = g\<lparr>sock := (sock g)\<lparr>rx := [Chunk ?c2]\<rparr>, buffer := ''GETFILE'' @ SP # ?nuls,
      rx_bytes := 8, total_rx_bytes := 8\<rparr>"
  define g1 where "g1 = g0\<lparr>buffer := ''GETFILE'' @ NUL # ?nuls, strtok_pt := Some 8,
      header_pt := 8, sm := SM_METHOD\<rparr>"
  define g2 where "g2 = g1\<lparr>sock := (sock g1)\<lparr>rx := []\<rparr>,
      buffer := ?c2 @ replicate (RDBUFSIZE - 13) NUL, rx_bytes := 21, total_rx_bytes := 21\<rparr>"
  define g3 where "g3 = g2\<lparr>strtok_pt := Some 13\<rparr>"
  have round: "gfc_round 0 g =
    bind_res (gfc_parse 0 g0) (\<lambda>(r1, g1).
      Inr (if r1 = 1 then Inl (0, g1) else if r1 < 0 then Inl (r1, g1) else Inr (r1, g1)))"
    by (rule fresh_round [OF fr inp]) (auto simp: g0_def RDBUFSIZE_def)
  have sc: "gfc_parse_scheme g0 = Inr (0, g1)"
    using parse_scheme_step [of g0 ?nuls] by (simp add: g1_def g0_def)
  have me: "gfc_parse_method g1 = Inr g1"
    by (simp add: gfc_parse_method_def gfc_parse_ok_def gfc_parse_err_def g1_def g0_def)
  have p1: "gfc_parse 0 g0 = Inr (0, g1)"
    using fr sc me by (simp add: gfc_parse_def g0_def g1_def gfc_fresh_def)
  have r1: "gfc_round 0 g = Inr (Inr (0, g1))"
    by (simp add: round p1)
  have size: "size_t_of_int (gfc_request_size g1) = RDBUFSIZE"
    "size_t_of_int (gfc_request_size g3) = RDBUFSIZE"
    using fr size_t_of_int_nat [of RDBUFSIZE]
    by (simp_all add: gfc_request_size_def g1_def g0_def g2_def g3_def less_gfc_sm_def
        gfc_fresh_def RDBUFSIZE_def)
  have put: "mem_put (buffer g1) (content_pt g1) ?c2 = Inr (?c2 @ replicate (RDBUFSIZE - 13) NUL)"
    using fr by (simp add: g1_def g0_def gfc_fresh_def mem_put_0 RDBUFSIZE_def)
  have "replicate (RDBUFSIZE - 13) NUL = NUL # replicate (RDBUFSIZE - 14) NUL"
    using replicate_Suc [of "RDBUFSIZE - 14" NUL] by (simp add: RDBUFSIZE_def del: replicate_Suc)
  then have tok: "strtok_next (buffer g2) (Some 8) SP = Inr (Some ''hello'', buffer g2, 13)"
    using strtok_at_last [of "''hello''" SP 8 "''OK'' @ SP # ''5'' @ CRLF2" "replicate (RDBUFSIZE - 14) NUL"]
    by (simp add: g2_def strtok_next_def)
  have ok: "gfc_parse_ok g2 = Inr g3"
    using tok by (simp add: gfc_parse_ok_def g3_def g2_def g1_def cstr_def)
  have er: "gfc_parse_err g3 = Inr g3"
    using strncmp_differ [of "''hello''" "''ERROR''" 5 "replicate (RDBUFSIZE - 13) NUL"]
    by (auto simp: gfc_parse_err_def g3_def g2_def g1_def)
  have p2: "gfc_parse 0 g2 = Inr (0, g3)"
    using ok er by (simp add: gfc_parse_def gfc_parse_method_def g3_def g2_def g1_def)
  have r2: "gfc_round 0 g1 = Inr (Inr (0, g3))"
    using p2 put size(1) by (simp add: gfc_round_def g1_def g0_def RDBUFSIZE_def g2_def)
  have r3: "gfc_round 0 g3 = Inr (Inl (-1, g3))"
    by (simp add: gfc_round_def size g3_def g2_def)
  have "process_response g = Inr (-1, g3)"
    using fr r1 r2 r3
    by (simp add: process_response_def gfc_fresh_def gfc_loop.simps [of 0 g]
        gfc_loop.simps [of 0 g1] gfc_loop.simps [of 0 g3])
  then show ?thesis
    using fr by (auto simp: g3_def g2_def g1_def g0_def gfc_fresh_def)
qed

lemma undelimited_response:
  assumes fr: "gfc_fresh g cb" and inp: "rx (sock g) = Chunk bs # es"
    and bs: "length bs = RDBUFSIZE" "SP \<notin> set bs" "NUL \<notin> set bs"
  shows "process_response g = Inl Out_Of_Bounds"
proof -
  have ne: "bs \<noteq> []" using bs(1) by (auto simp: RDBUFSIZE_def)
  have "takeWhile (\<lambda>c. c = SP) bs = []"
    using bs(2) ne by (cases bs) auto
  moreover have tw: "takeWhile (\<lambda>c. c \<noteq> SP \<and> c \<noteq> NUL) bs = bs"
    using bs(2,3) by (auto simp: takeWhile_eq_all_conv)
  moreover have "bs ! 0 \<noteq> NUL"
    using bs(3) ne by (metis length_greater_0_conv nth_mem)
  ultimately have tok: "strtok_at bs 0 SP = Inl Out_Of_Bounds"
    using ne by (simp add: strtok_at_def mem_span_def tw)
  define g0 where "g0 = g\<lparr>sock := (sock g)\<lparr>rx := es\<rparr>, buffer := bs,
      rx_bytes := of_nat (length bs), total_rx_bytes := of_nat (length bs)\<rparr>"
  have round: "gfc_round 0 g =
    bind_res (gfc_parse 0 g0) (\<lambda>(r1, g1).
      Inr (if r1 = 1 then Inl (0, g1) else if r1 < 0 then Inl (r1, g1) else Inr (r1, g1)))"
    by (rule fresh_round [OF fr inp ne]) (use bs in \<open>auto simp: g0_def\<close>)
  have "gfc_parse_scheme g0 = Inl Out_Of_Bounds"
    using tok bs(1) by (simp add: gfc_parse_scheme_def g0_def RDBUFSIZE_def)
  then have "gfc_parse 0 g0 = Inl Out_Of_Bounds"
    using fr by (simp add: gfc_parse_def gfc_fresh_def g0_def)
  then show ?thesis
    using fr by (simp add: process_response_def gfc_fresh_def gfc_loop.simps [of 0 g] round)
qed

section \<open>The request and its memory\<close>

definition request_line :: "string \<Rightarrow> string" where
  "request_line p = ''GETFILE'' @ SP # ''GET'' @ SP # p @ SP # CRLF2"

definition request_strings :: "cheap \<Rightarrow> ('h, 'w) gfcrequest \<Rightarrow> string \<Rightarrow> bool" where
  "request_strings h g p \<longleftrightarrow>
     deref h (scheme g) = Inr ''GETFILE'' \<and> deref h (meth g) = Inr ''GET'' \<and>
     deref h (path g) = Inr p \<and> deref h (end_sequence g) = Inr CRLF2 \<and> NUL \<notin> set p"

lemma send_request_line:
  assumes "request_strings h g p" and "\<not> closed (sock g)" and "wlimits (sock g) = []"
  shows "send_request h g =
    (if length p \<le> 265
     then Inr (g\<lparr>req_length := of_nat (length (request_line p)),
                 sock := (sock g)\<lparr>tx := tx (sock g) @ request_line p\<rparr>\<rparr>)
     else Inl Out_Of_Bounds)"
proof -
  have deref: "deref h (scheme g) = Inr ''GETFILE''" "deref h (meth g) = Inr ''GET''"
    "deref h (path g) = Inr p" "deref h (end_sequence g) = Inr CRLF2" "NUL \<notin> set p"
    using assms(1) by (simp_all add: request_strings_def)
  let ?l = "''GETFILE'' @ [SP] @ ''GET'' @ [SP] @ p @ [SP] @ CRLF2"
  have line: "?l = request_line p" by (simp add: request_line_def)
  have len: "length (cstr (request_line p)) \<le> BUFSIZE \<longleftrightarrow> length p \<le> 265"
    by (auto simp: cstr_def request_line_def BUFSIZE_def)
  have at: "cstr_at (request_line p @ NUL # x) 0 = Inr (request_line p)" for x
  proof -
    have "NUL \<notin> set (request_line p)" using deref(5) by (simp add: request_line_def)
    then show ?thesis by (simp add: cstr_at_def)
  qed
  have "send_request h g =
      bind_res (mem_put (replicate BUFSIZE NUL) 0 (cstr (request_line p))) (\<lambda>buf.
      bind_res (cstr_at buf 0) (\<lambda>req.
        let (n, c) = sock_write (sock g) req
        in Inr (g\<lparr>req_length := of_nat (length req), sock := c\<rparr>)))"
    by (simp only: send_request_def deref bind_res_simps line Let_def)
  also have "mem_put (replicate BUFSIZE NUL) 0 (cstr (request_line p)) =
      (if length p \<le> 265
       then Inr (request_line p @ NUL # drop (Suc (length (request_line p))) (replicate BUFSIZE NUL))
       else Inl Out_Of_Bounds)"
    using len by (simp add: mem_put_def cstr_def)
  finally show ?thesis
    using at assms(2,3) by (simp add: sock_write_all del: of_nat_Suc)
qed

lemma gfc_create_strings:
  assumes "gfc_create z mem h = (g, h')"
  shows "deref h' (server g) = Inr ''localhost''" and "deref h' (scheme g) = Inr ''GETFILE''"
    and "deref h' (meth g) = Inr ''GET''" and "deref h' (end_sequence g) = Inr CRLF2"
    and "path g = Null" and "status g = GF_INVALID" and "port g = 80"
  using assms by (auto simp: gfc_create_def strdup_def)
lemma cleanup_static_server:
  assumes "free_ptr h (path g) = Inr h1" and "server g = Static s"
  shows "gfc_cleanup h g = Inl Bad_Free"
  using assms by (simp add: gfc_cleanup_def)

section \<open>Properties of the client library\<close>

text \<open>
  A request as a program sets it up, for the concrete instances: memory as \<open>malloc\<close> may
  return it, the library's own initialisation, the download program's callback, and a
  connection on which \<open>inp\<close> arrives.
\<close>

definition raw_request :: "(string, string) gfcrequest" where
  "raw_request = \<lparr>server = Null, path = Null, port = 0, scheme = Null, meth = Null,
     end_sequence = Null, status = GF_ERROR, file_length = 3, file_length_valid = True,
     rx_bytes = 5, total_rx_bytes = 7, bytes_written = 9, header_arg = ''junk'',
     write_arg = ''junk'', sock = new_conn [] [], buffer = [], header_pt = 1, req_length = 2,
     length_start_idx = 3, content_pt = 4, sm = SM_DONE, write_callback = None,
     header_callback = None, strtok_pt = None\<rparr>"

definition empty_heap :: cheap where
  "empty_heap = \<lparr>cells = Map.empty, next_cell = 0\<rparr>"

definition sample_request :: "input \<Rightarrow> (string, string) gfcrequest" where
  "sample_request inp =
     (gfc_set_writefunc (fst (gfc_create [] raw_request empty_heap)) (Some writecb))
       \<lparr>sock := new_conn inp []\<rparr>"

lemma sample_request_fresh: "gfc_fresh (sample_request inp) writecb"
  by (simp add: sample_request_def gfc_create_def strdup_def gfc_fresh_def gfc_set_writefunc_def)

lemma sample_request_fields [simp]:
  "rx (sock (sample_request inp)) = inp" "write_arg (sample_request inp) = []"
  "closed (sock (sample_request inp)) = False" "wlimits (sock (sample_request inp)) = []"
  "status (sample_request inp) = GF_INVALID" "header_callback (sample_request inp) = None"
  by (simp_all add: sample_request_def gfc_create_def strdup_def gfc_set_writefunc_def new_conn_def)

lemma digit_char_5: "digit_char 5 = CHR ''5''"
proof -
  have "of_char (digit_char 5) = (of_char CHR ''5'' :: nat)"
    by (simp add: digit_char_def)
  then show ?thesis by (simp only: of_char_eq_iff)
qed

lemma ok_header_5: "ok_header 5 0 = ''GETFILE'' @ SP # ''OK'' @ SP # ''5'' @ CRLF2"
  by (simp add: ok_header_def dec_of_nat.simps digit_char_5)

lemma fold_writecb: "fold writecb chunks w = w @ concat chunks"
  by (induction chunks arbitrary: w) (auto simp: writecb_def)

text \<open>
  Property C13. A complete response with a body is received completely: when the first read brings the
  whole header, the announced length is not 0, and the network delivers at least that many bytes, what
  follows the header in whatever pieces,
  \<open>process_response\<close> returns 0 with status \<open>GF_OK\<close>, the announced length and byte count,
  and the write callback has been given exactly the first \<open>n\<close> bytes of the body, in order.
\<close>

theorem gfc_complete_transfer:
  assumes "gfc_fresh g cb" and "rx (sock g) = Chunk (ok_header n j @ c0) # es"
    and "length (ok_header n j) + length c0 \<le> RDBUFSIZE"
    and "length (ok_header n j) < RDBUFSIZE"
    and "length c0 \<le> n" and "0 < n" and "n < 2 ^ 31"
    and "n \<le> length (c0 @ pending es)"
  shows "\<exists>g' chunks. process_response g = Inr (0, g') \<and> gfc_get_status g' = GF_OK \<and>
    gfc_get_filelen g' = n \<and> gfc_get_bytesreceived g' = n \<and>
    concat chunks = take n (c0 @ pending es) \<and> write_arg g' = fold cb chunks (write_arg g)"
proof -
  from ok_response [OF assms(1-7)] obtain g' chunks where
    "process_response g = Inr (0, g')" "status g' = GF_OK" "file_length g' = of_nat n"
    "concat chunks = take n (c0 @ pending es)" "write_arg g' = fold cb chunks (write_arg g)"
    "total_rx_bytes g' = of_nat (length (concat chunks))"
    using assms(8) by auto
  moreover have "length (take n (c0 @ pending es)) = n" using assms(8) by simp
  moreover have "n < 2 ^ 32" using assms(7) by simp
  ultimately show ?thesis
    by (intro exI [of _ g'] exI [of _ chunks])
      (simp only: gfc_get_status_def gfc_get_filelen_def gfc_get_bytesreceived_def unat_u32)
qed

theorem gfc_complete_transfer_witness:
  "\<exists>g'. process_response
      (sample_request [Chunk (ok_header 5 0 @ ''he''), Chunk ''l'', Chunk ''lo!'', Sock_error]) =
        Inr (0, g') \<and> gfc_get_bytesreceived g' = 5 \<and> write_arg g' = ''hello''"
proof -
  let ?g = "sample_request [Chunk (ok_header 5 0 @ ''he''), Chunk ''l'', Chunk ''lo!'', Sock_error]"
  have "\<exists>g' chunks. process_response ?g = Inr (0, g') \<and> gfc_get_status g' = GF_OK \<and>
    gfc_get_filelen g' = 5 \<and> gfc_get_bytesreceived g' = 5 \<and>
    concat chunks = take 5 (''he'' @ pending [Chunk ''l'', Chunk ''lo!'', Sock_error]) \<and>
    write_arg g' = fold writecb chunks (write_arg ?g)"
    by (rule gfc_complete_transfer [OF sample_request_fresh, where j = 0])
      (simp_all add: ok_header_5 RDBUFSIZE_def)
  then show ?thesis
    by (auto simp: fold_writecb)
qed

text \<open>
  Property C30. A transfer that the network cuts short after its header is reported: if the first read
  brings the whole header and fewer than the announced bytes of the body arrive before the stream ends
  or a read fails, \<open>process_response\<close> returns -1; every byte of the body that did arrive has been handed
  to the callback and is counted by \<open>gfc_get_bytesreceived\<close>, and the status stays \<open>GF_OK\<close>.
\<close>

theorem gfc_short_transfer:
  assumes "gfc_fresh g cb" and "rx (sock g) = Chunk (ok_header n j @ c0) # es"
    and "length (ok_header n j) + length c0 \<le> RDBUFSIZE"
    and "length (ok_header n j) < RDBUFSIZE"
    and "length c0 \<le> n" and "n < 2 ^ 31"
    and "length (c0 @ pending es) < n"
  shows "\<exists>g' chunks. process_response g = Inr (-1, g') \<and> gfc_get_status g' = GF_OK \<and>
    gfc_get_bytesreceived g' = length (c0 @ pending es) \<and>
    concat chunks = c0 @ pending es \<and> write_arg g' = fold cb chunks (write_arg g)"
proof -
  have "0 < n" using assms(7) by simp
  from ok_response [OF assms(1-5) this assms(6)] obtain g' chunks where
    "process_response g = Inr (-1, g')" "status g' = GF_OK"
    "concat chunks = c0 @ pending es" "write_arg g' = fold cb chunks (write_arg g)"
    "total_rx_bytes g' = of_nat (length (concat chunks))"
    using assms(7) by auto
  moreover have "length (c0 @ pending es) < 2 ^ 32" using assms(6,7) by simp
  ultimately show ?thesis
    by (intro exI [of _ g'] exI [of _ chunks])
      (simp only: gfc_get_status_def gfc_get_bytesreceived_def unat_u32)
qed

theorem gfc_short_transfer_witness:
  "\<exists>g'. process_response (sample_request [Chunk (ok_header 5 0 @ ''he''), Chunk ''l'', Sock_error]) =
        Inr (-1, g') \<and> gfc_get_bytesreceived g' = 3 \<and> write_arg g' = ''hel''"
proof -
  let ?g = "sample_request [Chunk (ok_header 5 0 @ ''he''), Chunk ''l'', Sock_error]"
  have "\<exists>g' chunks. process_response ?g = Inr (-1, g') \<and> gfc_get_status g' = GF_OK \<and>
    gfc_get_bytesreceived g' = length (''he'' @ pending [Chunk ''l'', Sock_error]) \<and>
    concat chunks = ''he'' @ pending [Chunk ''l'', Sock_error] \<and>
    write_arg g' = fold writecb chunks (write_arg ?g)"
    by (rule gfc_short_transfer [OF sample_request_fresh, where j = 0 and n = 5])
      (simp_all add: ok_header_5 RDBUFSIZE_def)
  then show ?thesis
    by (auto simp: fold_writecb)
qed

text \<open>
  Further fact. A response with status \<open>FILE_NOT_FOUND\<close> or \<open>ERROR\<close> is a successful
  communication: \<open>process_response\<close> returns 0 with the corresponding status and the
  write callback is never called, whatever follows the status.
\<close>

theorem gfc_error_statuses:
  assumes "gfc_fresh g cb"
    and "rx (sock g) = Chunk (''GETFILE'' @ SP # st @ SP # tl0) # es"
    and "length (''GETFILE'' @ SP # st @ SP # tl0) \<le> RDBUFSIZE"
    and "st = ''FILE_NOT_FOUND'' \<and> res = GF_FILE_NOT_FOUND \<or> st = ''ERROR'' \<and> res = GF_ERROR"
  shows "\<exists>g'. process_response g = Inr (0, g') \<and> gfc_get_status g' = res \<and>
    write_arg g' = write_arg g \<and> header_arg g' = header_arg g"
  using status_response [OF assms] by (auto simp: gfc_get_status_def)

theorem gfc_error_statuses_witness:
  "\<exists>g'. process_response
      (sample_request [Chunk (''GETFILE'' @ SP # ''FILE_NOT_FOUND'' @ SP # ''0'' @ CRLF2)]) =
        Inr (0, g') \<and> gfc_get_status g' = GF_FILE_NOT_FOUND"
  using gfc_error_statuses [OF sample_request_fresh,
      of "[Chunk (''GETFILE'' @ SP # ''FILE_NOT_FOUND'' @ SP # ''0'' @ CRLF2)]"
        "''FILE_NOT_FOUND''" "''0'' @ CRLF2" "[]" GF_FILE_NOT_FOUND]
  by (auto simp: RDBUFSIZE_def)

text \<open>
  Further fact. An empty file cannot be fetched: a correct response that announces length 0 makes the
  receive loop ask for 0 bytes, take the 0 that \<open>read\<close> returns for a closed connection
  and report a failed transfer (-1), although the status is \<open>GF_OK\<close>.
\<close>

theorem gfc_empty_file_fails:
  assumes "gfc_fresh g cb" and "rx (sock g) = Chunk (ok_header 0 j) # es"
    and "length (ok_header 0 j) < RDBUFSIZE"
  shows "\<exists>g'. process_response g = Inr (-1, g') \<and> gfc_get_status g' = GF_OK \<and>
    write_arg g' = write_arg g"
  using empty_file_response [OF assms] by (auto simp: gfc_get_status_def)

lemma length_ok_header_0: "length (ok_header 0 0) < RDBUFSIZE"
  by (simp add: ok_header_def dec_of_nat.simps RDBUFSIZE_def)

theorem gfc_empty_file_fails_witness:
  "\<exists>g'. process_response (sample_request [Chunk (ok_header 0 0), Sock_error]) = Inr (-1, g') \<and>
    gfc_get_status g' = GF_OK"
  using gfc_empty_file_fails [OF sample_request_fresh, of "[Chunk (ok_header 0 0), Sock_error]" 0]
    length_ok_header_0 by auto

text \<open>
  Further fact. The parser relies on the header arriving in one piece: the correct response
  \<open>GETFILE OK 5\<close> with body \<open>hello\<close>, cut after the scheme, is a failed transfer with
  nothing written, because the second read overwrites the buffer from its start while the
  tokeniser and the header position go on where they were.
\<close>

theorem gfc_split_header_fails:
  assumes "gfc_fresh g cb"
    and "rx (sock g) =
      [Chunk (''GETFILE'' @ [SP]), Chunk (''OK'' @ SP # ''5'' @ CRLF2 @ ''hello'')]"
  shows "concat (map (\<lambda>e. case e of Chunk c \<Rightarrow> c | Sock_error \<Rightarrow> []) (rx (sock g))) =
      ok_header 5 0 @ ''hello'' \<and>
    (\<exists>g'. process_response g = Inr (-1, g') \<and> gfc_get_status g' = gfc_get_status g \<and>
      write_arg g' = write_arg g)"
  using split_header_response [OF assms] assms(2)
  by (auto simp: gfc_get_status_def ok_header_5)

theorem gfc_split_header_fails_witness:
  "\<exists>g'. process_response (sample_request
      [Chunk (''GETFILE'' @ [SP]), Chunk (''OK'' @ SP # ''5'' @ CRLF2 @ ''hello'')]) = Inr (-1, g') \<and>
    write_arg g' = []"
  using gfc_split_header_fails [OF sample_request_fresh,
      of "[Chunk (''GETFILE'' @ [SP]), Chunk (''OK'' @ SP # ''5'' @ CRLF2 @ ''hello'')]"]
  by auto

text \<open>
  Further fact. The parser can be driven out of its buffer: a first read of \<open>RDBUFSIZE\<close> bytes
  without a space or a NUL leaves \<open>strtok\<close> nothing to stop at.
\<close>

theorem gfc_undelimited_overrun:
  assumes "gfc_fresh g cb" and "rx (sock g) = Chunk bs # es"
    and "length bs = RDBUFSIZE" and "SP \<notin> set bs" and "NUL \<notin> set bs"
  shows "process_response g = Inl Out_Of_Bounds"
  by (rule undelimited_response [OF assms])

theorem gfc_undelimited_overrun_witness:
  "process_response (sample_request [Chunk (replicate RDBUFSIZE CHR ''A'')]) = Inl Out_Of_Bounds"
  by (rule gfc_undelimited_overrun [OF sample_request_fresh, where es = "[]"]) auto

text \<open>
  Property C39. The request on the wire is \<open>GETFILE GET path\<close>, a space and the end
  sequence, and its buffer is large enough exactly for paths of at most 265 bytes; the
  download programs refuse paths of more than 256.
\<close>

theorem send_request_wire:
  assumes "request_strings h g p" and "\<not> closed (sock g)" and "wlimits (sock g) = []"
  shows "(if length p \<le> 265
      then \<exists>g'. send_request h g = Inr g' \<and> tx (sock g') = tx (sock g) @ request_line p \<and>
             rx (sock g') = rx (sock g) \<and> req_length g' = of_nat (17 + length p)
      else send_request h g = Inl Out_Of_Bounds)"
  using send_request_line [OF assms]
  by (cases "length p \<le> 265") (auto simp: request_line_def)

definition sample_get :: "cheap \<times> (string, string) gfcrequest" where
  "sample_get =
     (let (g, h) = gfc_create [] raw_request empty_heap
      in (h, g\<lparr>path := Static ''/a'', sock := new_conn [] []\<rparr>))"

lemma sample_get_strings:
  "request_strings (fst sample_get) (snd sample_get) ''/a''"
  "closed (sock (snd sample_get)) = False" "wlimits (sock (snd sample_get)) = []"
  "tx (sock (snd sample_get)) = []"
  by (simp_all add: sample_get_def gfc_create_def strdup_def request_strings_def new_conn_def
      empty_heap_def)

theorem send_request_wire_witness:
  "\<exists>g'. send_request (fst sample_get) (snd sample_get) = Inr g' \<and>
     tx (sock g') = ''GETFILE GET /a '' @ CRLF2"
  using send_request_wire [of "fst sample_get" "snd sample_get" "''/a''"] sample_get_strings
  by (auto simp: request_line_def)

text \<open>
  Further fact. The library frees what it is given: \<open>gfc_cleanup\<close> on a request whose server
  name is not a heap pointer (a literal or an argument of the program, as both download
  programs pass) is an invalid \<open>free\<close>, for every heap in which the path can be freed.
\<close>

theorem gfc_cleanup_static_server:
  assumes "gfc_set_server h g (Static host) = Inr (g1, h1)" and "free_ptr h1 (path g1) = Inr h2"
  shows "gfc_cleanup h1 g1 = Inl Bad_Free"
proof (rule cleanup_static_server [OF assms(2)])
  show "server g1 = Static host"
    using assms(1) by (auto simp: gfc_set_server_def split: sum.splits)
qed

theorem gfc_cleanup_static_server_witness:
  "\<exists>g1 h1. gfc_set_server (snd (gfc_create [] raw_request empty_heap))
      (fst (gfc_create [] raw_request empty_heap)) (Static ''localhost'') = Inr (g1, h1) \<and>
    gfc_cleanup h1 g1 = Inl Bad_Free"
proof -
  obtain g1 h1 where s: "gfc_set_server (snd (gfc_create [] raw_request empty_heap))
      (fst (gfc_create [] raw_request empty_heap)) (Static ''localhost'') = Inr (g1, h1)"
    and p: "path g1 = Null"
    by (auto simp: gfc_set_server_def gfc_create_def strdup_def empty_heap_def)
  from gfc_cleanup_static_server [OF s] p have "gfc_cleanup h1 g1 = Inl Bad_Free" by simp
  with s show ?thesis by blast
qed

text \<open>
  Further fact. What \<open>gfc_create\<close> gives: the defaults of the protocol in fresh heap strings
  and a request ready to parse; but the header argument is not set, so a header callback
  registered without an argument receives whatever \<open>malloc\<close> returned, not null.
\<close>

theorem gfc_create_initial:
  assumes "gfc_create z mem h = (g, h')"
  shows "gfc_fresh (gfc_set_writefunc g (Some cb)) cb \<and> gfc_get_status g = GF_INVALID \<and>
    port g = 80 \<and> path g = Null \<and> deref h' (server g) = Inr ''localhost'' \<and>
    request_strings h' (g\<lparr>path := Static []\<rparr>) [] \<and> header_arg g = header_arg mem"
  using assms fresh_gfc_create [OF assms, of cb] gfc_create_strings [OF assms]
  by (auto simp: gfc_get_status_def request_strings_def gfc_create_def strdup_def)

theorem gfc_create_initial_witness:
  "header_arg (fst (gfc_create [] raw_request empty_heap)) = ''junk''"
  using gfc_create_initial [of "[]" raw_request empty_heap
      "fst (gfc_create [] raw_request empty_heap)" "snd (gfc_create [] raw_request empty_heap)"
      writecb]
  by (simp add: raw_request_def)

end
