(* ===== verification/Gfserver.thy ===== *)
theory Gfserver
  imports Os_Model
begin

text \<open>
  The server library of \<open>project1/ud923-project1-gflib/gfserver.c\<close>: the server and
  context objects, the request parser, the calls a handler uses to answer, and the accept loop.
  The context's descriptor is the connection itself; whether the listening socket that the
  context's \<open>gfs\<close> pointer leads to has been shut down is the field
  \<open>ctx_listener_shut\<close>.
\<close>

section \<open>Data\<close>

definition S_GF_OK :: int where "S_GF_OK = 200"
definition S_GF_FILE_NOT_FOUND :: int where "S_GF_FILE_NOT_FOUND = 400"
definition S_GF_ERROR :: int where "S_GF_ERROR = 500"

definition SBUFSIZE :: nat where "SBUFSIZE = 255 + 5 + 7 + 16"

datatype gfs_sm = GSM_SCHEME | GSM_METHOD | GSM_PATH

record gfcontext =
  ctx_conn :: conn
  ctx_listener_shut :: bool
  ctx_path :: "string option"
  ctx_path_length :: int
  ctx_status :: int
  ctx_rx_bytes :: int
  ctx_total_rx_bytes :: int
  ctx_buffer :: string
  ctx_header_pt :: u32
  ctx_sm :: gfs_sm
  ctx_strtok :: "nat option"

text \<open>
  A handler gets the context, the path and the registered argument, and works on a state of its
  own (files, queues); its result is the value it returns and the state it leaves.
\<close>

type_synonym ('a, 'e) handler =
  "gfcontext \<Rightarrow> string option \<Rightarrow> 'a \<Rightarrow> 'e \<Rightarrow> (int \<times> gfcontext \<times> 'e) result"

record ('a, 'e) gfserver =
  gfs_port :: "16 word"
  gfs_max_npending :: int
  gfs_status :: int
  gfs_handler :: "('a, 'e) handler option"
  gfs_handler_arg :: 'a

definition gfserver_create :: "'a \<Rightarrow> ('a, 'e) gfserver" where
  "gfserver_create null_arg =
     \<lparr>gfs_port = 80, gfs_max_npending = 5, gfs_status = S_GF_OK,
      gfs_handler = None, gfs_handler_arg = null_arg\<rparr>"

definition gfserver_set_port :: "('a, 'e) gfserver \<Rightarrow> 16 word \<Rightarrow> ('a, 'e) gfserver" where
  "gfserver_set_port s p = s\<lparr>gfs_port := p\<rparr>"

definition gfserver_set_maxpending :: "('a, 'e) gfserver \<Rightarrow> int \<Rightarrow> ('a, 'e) gfserver" where
  "gfserver_set_maxpending s n = s\<lparr>gfs_max_npending := n\<rparr>"

definition gfserver_set_handler ::
  "('a, 'e) gfserver \<Rightarrow> ('a, 'e) handler \<Rightarrow> ('a, 'e) gfserver" where
  "gfserver_set_handler s f = s\<lparr>gfs_handler := Some f\<rparr>"

definition gfserver_set_handlerarg :: "('a, 'e) gfserver \<Rightarrow> 'a \<Rightarrow> ('a, 'e) gfserver" where
  "gfserver_set_handlerarg s a = s\<lparr>gfs_handler_arg := a\<rparr>"

definition gfcontext_create :: "bool \<Rightarrow> conn \<Rightarrow> gfcontext" where
  "gfcontext_create shut c =
     \<lparr>ctx_conn = c, ctx_listener_shut = shut, ctx_path = None, ctx_path_length = -1,
      ctx_status = S_GF_OK, ctx_rx_bytes = 0, ctx_total_rx_bytes = 0,
      ctx_buffer = replicate SBUFSIZE NUL, ctx_header_pt = 0, ctx_sm = GSM_SCHEME,
      ctx_strtok = None\<rparr>"

section \<open>Parsing a request\<close>

definition gfs_parse_scheme :: "gfcontext \<Rightarrow> (int \<times> gfcontext) result" where
  "gfs_parse_scheme x =
     (if ctx_rx_bytes x \<ge> 7 then
        bind_res (strtok_at (ctx_buffer x) 0 SP) (\<lambda>(tok, m, sv).
          let x1 = x\<lparr>ctx_buffer := m, ctx_strtok := Some sv\<rparr>
          in case tok of
               None \<Rightarrow> Inr (-1, x1\<lparr>ctx_status := S_GF_FILE_NOT_FOUND\<rparr>)
             | Some t \<Rightarrow>
                 bind_res (strncmp 7 (ctx_buffer x1) (cstr ''GETFILE'')) (\<lambda>c.
                   if c \<noteq> 0 then Inr (-1, x1\<lparr>ctx_status := S_GF_FILE_NOT_FOUND\<rparr>)
                   else Inr (0, x1\<lparr>ctx_header_pt := of_nat (length t + 1),
                                  ctx_sm := GSM_METHOD\<rparr>)))
      else Inr (0, x))"

text \<open>The received count minus the header position is an \<open>unsigned\<close> difference.\<close>

definition gfs_parse_method :: "gfcontext \<Rightarrow> (int \<times> gfcontext) result" where
  "gfs_parse_method x =
     (if word_of_int (ctx_rx_bytes x) - ctx_header_pt x \<ge> 4 then
        bind_res (strtok_next (ctx_buffer x) (ctx_strtok x) SP) (\<lambda>(tok, m, sv).
          let x1 = x\<lparr>ctx_buffer := m, ctx_strtok := Some sv\<rparr>;
              bad = (-1, x1\<lparr>ctx_status := S_GF_FILE_NOT_FOUND\<rparr>)
          in case tok of
               None \<Rightarrow> Inr bad
             | Some t \<Rightarrow>
                 bind_res (strcmp (cstr t) (cstr ''GET'')) (\<lambda>c.
                   if c \<noteq> 0 then Inr bad
                   else Inr (0, x1\<lparr>ctx_header_pt := ctx_header_pt x1 + of_nat (length t + 1),
                                  ctx_sm := GSM_PATH\<rparr>)))
      else Inr (0, x))"

definition gfs_parse_path :: "gfcontext \<Rightarrow> (int \<times> gfcontext) result" where
  "gfs_parse_path x =
     bind_res
       (bind_res (strtok_next (ctx_buffer x) (ctx_strtok x) SP) (\<lambda>(tok, m, sv).
          let x1 = x\<lparr>ctx_buffer := m, ctx_strtok := Some sv\<rparr>
          in case tok of
               Some t \<Rightarrow>
                 Inr (x1\<lparr>ctx_path := Some t,
                         ctx_path_length := sint (ctx_header_pt x1 + of_nat (length t))\<rparr>)
             | None \<Rightarrow>
                 bind_res (strtok_next (ctx_buffer x1) (ctx_strtok x1) CR) (\<lambda>(tok2, m2, sv2).
                   let x2 = x1\<lparr>ctx_buffer := m2, ctx_strtok := Some sv2\<rparr>
                   in case tok2 of
                        Some t \<Rightarrow>
                          let x3 = x2\<lparr>ctx_path := Some t,
                                ctx_path_length := sint (ctx_header_pt x2 + of_nat (length t)),
                                ctx_header_pt := ctx_header_pt x2 + of_nat (length t + 1)\<rparr>
                          in bind_res
                               (strcmp (drop (unat (ctx_header_pt x3)) (ctx_buffer x3))
                                  (cstr CRLF2)) (\<lambda>c.
                               Inr (if c \<noteq> 0 then x3\<lparr>ctx_status := S_GF_FILE_NOT_FOUND\<rparr>
                                    else x3))
                      | None \<Rightarrow>
                          Inr (if ctx_total_rx_bytes x2 > 255 + 4 + 7
                               then x2\<lparr>ctx_status := S_GF_FILE_NOT_FOUND\<rparr> else x2))))
       (\<lambda>y. Inr (if ctx_status y = S_GF_FILE_NOT_FOUND then -1 else 0, y))"

definition gfs_parse :: "int \<Rightarrow> gfcontext \<Rightarrow> (int \<times> gfcontext) result" where
  "gfs_parse r x =
     bind_res (if ctx_sm x = GSM_SCHEME then gfs_parse_scheme x else Inr (r, x)) (\<lambda>(r1, x1).
     bind_res (if ctx_sm x1 = GSM_METHOD then gfs_parse_method x1 else Inr (r1, x1)) (\<lambda>(r2, x2).
     if ctx_sm x2 = GSM_PATH then gfs_parse_path x2 else Inr (r2, x2)))"

text \<open>
  One round of \<open>process_request\<close>; \<open>Inl\<close> carries the value returned. A failing read and
  the end of the stream end the loop with -1, which is also how a complete request ends.
\<close>

definition gfs_round ::
  "int \<Rightarrow> gfcontext \<Rightarrow> (int \<times> gfcontext + int \<times> gfcontext) result" where
  "gfs_round r x =
     (case sock_read (unat (of_nat SBUFSIZE - ctx_header_pt x)) (rx (ctx_conn x)) of
        (rd, es) \<Rightarrow>
          let x0 = x\<lparr>ctx_conn := (ctx_conn x)\<lparr>rx := es\<rparr>\<rparr>;
              x1 = (case rd of
                      None \<Rightarrow> x0\<lparr>ctx_status := S_GF_ERROR\<rparr>
                    | Some bs \<Rightarrow>
                        if bs = [] then x0\<lparr>ctx_status := S_GF_FILE_NOT_FOUND\<rparr> else x0)
          in if ctx_status x1 \<noteq> S_GF_OK then Inr (Inl (-1, x1))
             else case rd of
                    None \<Rightarrow> Inr (Inl (-1, x1))
                  | Some bs \<Rightarrow>
                      bind_res (mem_put (ctx_buffer x1) (unat (ctx_header_pt x1)) bs) (\<lambda>m.
                      bind_res (gfs_parse r
                          (x1\<lparr>ctx_buffer := m,
                              ctx_rx_bytes := ctx_rx_bytes x1 + int (length bs),
                              ctx_total_rx_bytes := ctx_total_rx_bytes x1 + int (length bs)\<rparr>))
                        (\<lambda>(r2, x2).
                        Inr (if r2 = -1 then Inl (-2, x2) else Inr (r2, x2)))))"

lemma gfs_parse_scheme_conn: "res_all (\<lambda>(r, y). ctx_conn y = ctx_conn x) (gfs_parse_scheme x)"
  by (auto simp: gfs_parse_scheme_def Let_def intro!: res_all_bindI split: option.split)

lemma gfs_parse_method_conn: "res_all (\<lambda>(r, y). ctx_conn y = ctx_conn x) (gfs_parse_method x)"
  by (auto simp: gfs_parse_method_def Let_def intro!: res_all_bindI split: option.split)

lemma gfs_parse_path_conn: "res_all (\<lambda>(r, y). ctx_conn y = ctx_conn x) (gfs_parse_path x)"
  unfolding gfs_parse_path_def
  by (rule res_all_bind_rule [where Q = "\<lambda>y. ctx_conn y = ctx_conn x"])
    (auto simp: Let_def intro!: res_all_bindI split: option.split)

lemma gfs_parse_conn: "res_all (\<lambda>(r', y). ctx_conn y = ctx_conn x) (gfs_parse r x)"
proof -
  have stage: "res_all (\<lambda>(r, y). ctx_conn y = ctx_conn x) (if b then m else Inr (r0, x0))"
    if "ctx_conn x0 = ctx_conn x" and "res_all (\<lambda>(r, y). ctx_conn y = ctx_conn x0) m" for b m r0 x0
    using that by simp
  show ?thesis
    unfolding gfs_parse_def
    apply (rule res_all_bind_rule [OF stage [OF refl gfs_parse_scheme_conn]], clarify)
    apply (rule res_all_bind_rule [OF stage [OF _ gfs_parse_method_conn]], assumption, clarify)
    apply (rule stage [OF _ gfs_parse_path_conn], assumption)
    done
qed

lemma gfs_round_decreases:
  assumes "gfs_round r x = Inr (Inr (r', y))"
  shows "input_size (rx (ctx_conn y)) < input_size (rx (ctx_conn x))"
proof -
  obtain rd es where rd: "sock_read (unat (of_nat SBUFSIZE - ctx_header_pt x)) (rx (ctx_conn x)) =
      (rd, es)"
    by fastforce
  with assms obtain bs where bs: "rd = Some bs" "bs \<noteq> []"
    by (auto simp: gfs_round_def Let_def S_GF_OK_def S_GF_ERROR_def S_GF_FILE_NOT_FOUND_def
        split: option.splits if_splits)
  with rd have "input_size es < input_size (rx (ctx_conn x))"
    by (auto dest: sock_read_decreases)
  moreover have "res_all (\<lambda>v. case v of Inl _ \<Rightarrow> True | Inr (r', y) \<Rightarrow> rx (ctx_conn y) = es)
      (gfs_round r x)"
    using rd bs
    by (auto simp: gfs_round_def Let_def intro!: res_all_bindI dest!: res_allD [OF gfs_parse_conn])
  ultimately show ?thesis
    using assms by simp
qed

function gfs_loop :: "int \<Rightarrow> gfcontext \<Rightarrow> (int \<times> gfcontext) result" where
  "gfs_loop r x =
     (case gfs_round r x of
        Inl e \<Rightarrow> Inl e
      | Inr (Inl res) \<Rightarrow> Inr res
      | Inr (Inr (r', y)) \<Rightarrow> gfs_loop r' y)"
  by pat_completeness auto
termination
  by (relation "measure (\<lambda>(r, x). input_size (rx (ctx_conn x)))") (auto dest: gfs_round_decreases)

declare gfs_loop.simps [simp del]

definition process_request :: "gfcontext \<Rightarrow> (int \<times> gfcontext) result" where
  "process_request x = gfs_loop 0 x"

section \<open>Answering\<close>

text \<open>
  The table \<open>response_status\<close> has three entries; the \<open>default\<close> case reads a fourth.
\<close>

definition response_status :: "string list" where
  "response_status = [''OK'', ''FILE_NOT_FOUND'', ''ERROR'']"

definition gfs_strstatus :: "int \<Rightarrow> string result" where
  "gfs_strstatus st =
     (let i = (if st = S_GF_OK then 0
               else if st = S_GF_FILE_NOT_FOUND then 1
               else if st = S_GF_ERROR then 2
               else 3)
      in if i < length response_status then Inr (response_status ! i) else Inl Out_Of_Bounds)"

definition gfs_sendheader :: "gfcontext \<Rightarrow> int \<Rightarrow> nat \<Rightarrow> (int \<times> gfcontext) result" where
  "gfs_sendheader x st file_len =
     bind_res (gfs_strstatus st) (\<lambda>s.
       let line = ''GETFILE'' @ [SP] @ s @ [SP] @ dec_of_nat file_len @ CRLF2
       in bind_res (mem_put (replicate SBUFSIZE NUL) 0 (cstr line)) (\<lambda>buf.
          bind_res (cstr_at buf 0) (\<lambda>hdr.
            let (n, c) = sock_write (ctx_conn x) hdr
            in Inr (n, x\<lparr>ctx_conn := c\<rparr>))))"

definition gfs_send :: "gfcontext \<Rightarrow> string \<Rightarrow> int \<times> gfcontext" where
  "gfs_send x data =
     (let (n, c) = sock_write (ctx_conn x) data in (n, x\<lparr>ctx_conn := c\<rparr>))"

definition gfs_abort :: "gfcontext \<Rightarrow> gfcontext" where
  "gfs_abort x = x\<lparr>ctx_conn := sock_shutdown (ctx_conn x), ctx_listener_shut := True\<rparr>"

section \<open>The accept loop\<close>

text \<open>
  What the system answers to \<open>socket\<close>, \<open>bind\<close> and \<open>listen\<close>. All three are called
  whatever the earlier ones gave.
\<close>

record listen_env =
  le_socket :: bool
  le_bind :: bool
  le_listen :: bool

definition initialize_socket :: "listen_env \<Rightarrow> ('a, 'e) gfserver \<Rightarrow> ('a, 'e) gfserver" where
  "initialize_socket env s =
     (let s1 = (if le_socket env then s else s\<lparr>gfs_status := S_GF_ERROR\<rparr>);
          s2 = (if le_bind env then s1 else s1\<lparr>gfs_status := S_GF_ERROR\<rparr>)
      in if le_listen env then s2 else s2\<lparr>gfs_status := S_GF_ERROR\<rparr>)"

text \<open>
  \<open>accept\<close> gives the next connection, or -1 on a listening socket that has been shut down;
  the code does not test the result, so the reads and writes on it fail.
\<close>

definition accept_rx_connection :: "bool \<Rightarrow> conn \<Rightarrow> conn" where
  "accept_rx_connection shut c =
     (if shut then \<lparr>rx = [Sock_error], tx = [], wlimits = [-1], closed = True\<rparr> else c)"

text \<open>One pass of the loop in \<open>gfserver_serve\<close>: the context it leaves before \<open>free\<close>.\<close>

definition serve_one ::
  "('a, 'e) gfserver \<Rightarrow> bool \<Rightarrow> conn \<Rightarrow> 'e \<Rightarrow> (gfcontext \<times> 'e) result" where
  "serve_one s shut c e =
     bind_res (process_request (gfcontext_create shut (accept_rx_connection shut c))) (\<lambda>(st, x).
     bind_res
       (if st = -1 then
          (case gfs_handler s of
             None \<Rightarrow> Inl Null_Deref
           | Some f \<Rightarrow> f x (ctx_path x) (gfs_handler_arg s) e)
        else bind_res (gfs_sendheader x S_GF_FILE_NOT_FOUND 0) (\<lambda>(n, y). Inr (n, y, e)))
       (\<lambda>(n, y, e'). Inr (y\<lparr>ctx_conn := sock_shutdown (ctx_conn y)\<rparr>, e')))"

text \<open>
  The loop never ends by itself; on a list of incoming connections the model gives the
  connections as they are left, the listener's state and the handler's state.
\<close>

fun serve_loop ::
  "('a, 'e) gfserver \<Rightarrow> bool \<Rightarrow> conn list \<Rightarrow> 'e \<Rightarrow> (conn list \<times> bool \<times> 'e) result" where
  "serve_loop s shut [] e = Inr ([], shut, e)"
| "serve_loop s shut (c # cs) e =
     bind_res (serve_one s shut c e) (\<lambda>(x, e1).
     bind_res (serve_loop s (ctx_listener_shut x) cs e1) (\<lambda>(ds, shut', e2).
       Inr (ctx_conn x # ds, shut', e2)))"

definition gfserver_serve ::
  "listen_env \<Rightarrow> ('a, 'e) gfserver \<Rightarrow> conn list \<Rightarrow> 'e \<Rightarrow> (conn list \<times> bool \<times> 'e) result" where
  "gfserver_serve env s cs e =
     (let s1 = initialize_socket env s
      in if gfs_status s1 = S_GF_ERROR then Inr ([], False, e) else serve_loop s1 False cs e)"

end
