(* ===== verification/Gfserver_Request.thy ===== *)
theory Gfserver_Request
  imports Gfserver
begin

text \<open>
  What the server library does with a request: the parser's memory safety, the requests it
  accepts and refuses, the response headers, and the accept loop around them.
\<close>

section \<open>No request overruns the buffer before it is full\<close>

text \<open>
  The invariant of the request loop with \<open>k\<close> bytes received: the buffer is clear from
  \<open>k\<close> on, and the parse position and the tokeniser's are at most \<open>k\<close>. Between two
  stages the parse position may be one further, when the tokeniser is at \<open>k\<close>.
\<close>

definition srv_mid :: "gfcontext \<Rightarrow> nat \<Rightarrow> nat \<Rightarrow> bool" where
  "srv_mid x k h \<longleftrightarrow>
     length (ctx_buffer x) = SBUFSIZE \<and> cleared (ctx_buffer x) k \<and>
     ctx_rx_bytes x = int k \<and> ctx_total_rx_bytes x = int k \<and>
     ctx_header_pt x = of_nat h \<and> h \<le> Suc k \<and>
     (ctx_sm x \<noteq> GSM_SCHEME \<longrightarrow> (\<exists>i \<le> k. ctx_strtok x = Some i \<and> (k < h \<longrightarrow> i = k)))"

definition srv_inv :: "gfcontext \<Rightarrow> nat \<Rightarrow> bool" where
  "srv_inv x k \<longleftrightarrow> (\<exists>h. srv_mid x k h \<and> h \<le> k)"

lemma srv_mid_k: "srv_mid x k h \<Longrightarrow> k < SBUFSIZE"
  by (simp add: srv_mid_def cleared_def)

lemma scheme_safe:
  assumes "srv_mid x k h" and "h \<le> k" and "ctx_sm x = GSM_SCHEME"
  shows "\<exists>r y. gfs_parse_scheme x = Inr (r, y) \<and>
    (r = -1 \<and> ctx_sm y = GSM_SCHEME \<or>
     r = 0 \<and> (y = x \<or> ctx_sm y = GSM_METHOD \<and> (\<exists>h'. srv_mid y k h')))"
proof (cases "ctx_rx_bytes x \<ge> 7")
  case True
  let ?m = "ctx_buffer x"
  have cl: "cleared ?m k" "length ?m = SBUFSIZE" using assms(1) by (simp_all add: srv_mid_def)
  obtain tok m sv where st: "strtok_at ?m 0 SP = Inr (tok, m, sv)" and sv: "sv \<le> k"
    and m: "cleared m k" "length m = SBUFSIZE"
    and tk: "case tok of None \<Rightarrow> m = ?m \<and> ?m ! sv = NUL
     | Some t \<Rightarrow> ?m ! 0 \<noteq> NUL \<and> t \<noteq> [] \<and> NUL \<notin> set t \<and>
         (m = ?m \<and> ?m ! sv = NUL \<and> 0 + length t \<le> sv \<or>
          m = ?m[sv - 1 := NUL] \<and> 0 + length t < sv)"
    using strtok_bounded [OF cl(1), of 0 SP] cl(2) by auto
  have "\<exists>c. strncmp 7 m (cstr ''GETFILE'') = Inr c"
    using m by (intro strncmp_defined) (simp_all add: SBUFSIZE_def cstr_def)
  then obtain c where c: "strncmp 7 m (cstr ''GETFILE'') = Inr c" ..
  show ?thesis
  proof (cases tok)
    case None
    with True st assms(3) show ?thesis by (simp add: gfs_parse_scheme_def Let_def)
  next
    case (Some t)
    define y where "y = x\<lparr>ctx_buffer := m, ctx_strtok := Some sv,
      ctx_header_pt := of_nat (length t + 1), ctx_sm := GSM_METHOD\<rparr>"
    have "gfs_parse_scheme x = Inr (if c \<noteq> 0
        then (-1, x\<lparr>ctx_buffer := m, ctx_strtok := Some sv, ctx_status := S_GF_FILE_NOT_FOUND\<rparr>)
        else (0, y))"
      using True st c Some by (simp add: gfs_parse_scheme_def Let_def y_def)
    moreover have "srv_mid y k (Suc (length t))"
      using tk sv m assms Some by (auto simp: srv_mid_def y_def)
    ultimately show ?thesis using assms(3) by (auto simp: y_def)
  qed
qed (simp add: gfs_parse_scheme_def)

lemma method_safe:
  assumes "srv_mid x k h" and "ctx_sm x = GSM_METHOD"
  shows "\<exists>r y. gfs_parse_method x = Inr (r, y) \<and>
    (r = -1 \<and> ctx_sm y = GSM_METHOD \<or>
     r = 0 \<and> (ctx_sm y = GSM_METHOD \<or> ctx_sm y = GSM_PATH) \<and> srv_inv y k)"
proof -
  let ?m = "ctx_buffer x" and ?d = "word_of_int (ctx_rx_bytes x) - ctx_header_pt x"
  have kb: "k < 2 ^ 32" using srv_mid_k [OF assms(1)] by (simp add: SBUFSIZE_def)
  from assms obtain i where cl: "cleared ?m k" "length ?m = SBUFSIZE"
    and i: "i \<le> k" "ctx_strtok x = Some i" "k < h \<longrightarrow> i = k" and h: "h \<le> Suc k"
    and d: "?d = of_nat k - of_nat h"
    by (auto simp: srv_mid_def)
  have at_k: "?m ! k = NUL" using cl by (simp add: cleared_def)
  have d': "?d = of_nat (k - h)" if "h \<le> k" using that d by simp
  show ?thesis
  proof (cases "?d \<ge> 4")
    case False
    have "h \<le> k"
    proof (rule ccontr)
      assume "\<not> h \<le> k"
      with h have "h = Suc k" by simp
      then have "?d = -1" unfolding d by simp
      with False show False by simp
    qed
    then have "srv_inv x k" using assms by (auto simp: srv_inv_def)
    with False assms(2) show ?thesis by (simp add: gfs_parse_method_def)
  next
    case True
    obtain tok m sv where st: "strtok_at ?m i SP = Inr (tok, m, sv)" and sv: "sv \<le> k"
      and m: "cleared m k" "length m = SBUFSIZE"
      and tk: "case tok of None \<Rightarrow> m = ?m \<and> ?m ! sv = NUL
     | Some t \<Rightarrow> ?m ! i \<noteq> NUL \<and> t \<noteq> [] \<and> NUL \<notin> set t \<and>
         (m = ?m \<and> ?m ! sv = NUL \<and> i + length t \<le> sv \<or>
          m = ?m[sv - 1 := NUL] \<and> i + length t < sv)"
      using strtok_bounded [OF cl(1) i(1), of SP] cl(2) by auto
    show ?thesis
    proof (cases tok)
      case None
      with True st i assms(2) show ?thesis by (simp add: gfs_parse_method_def strtok_next_def Let_def)
    next
      case (Some t)
      then obtain c where c: "strcmp (cstr t) (cstr ''GET'') = Inr c" "c = 0 \<longleftrightarrow> t = ''GET''"
        using strcmp_cstr [of t "''GET''"] tk by auto
      define y where "y = x\<lparr>ctx_buffer := m, ctx_strtok := Some sv,
        ctx_header_pt := ctx_header_pt x + of_nat (length t + 1), ctx_sm := GSM_PATH\<rparr>"
      have eq: "gfs_parse_method x = Inr (if c \<noteq> 0
          then (-1, x\<lparr>ctx_buffer := m, ctx_strtok := Some sv, ctx_status := S_GF_FILE_NOT_FOUND\<rparr>)
          else (0, y))"
        using True st c Some i by (simp add: gfs_parse_method_def strtok_next_def Let_def y_def)
      show ?thesis
      proof (cases "c = 0")
        case False
        with eq assms(2) show ?thesis by simp
      next
        case z: True
        have hk: "h \<le> k" using i(3) h tk Some at_k by (cases "k < h") auto
        then have "(4 :: u32) \<le> of_nat (k - h)" using True d' by simp
        then have "4 \<le> k - h" using u32_le_iff [of 4 "k - h"] kb by simp
        then have "srv_mid y k (h + 4)"
          using z c(2) assms(1) sv m hk by (auto simp: srv_mid_def y_def)
        with \<open>4 \<le> k - h\<close> have "srv_inv y k" unfolding srv_inv_def by (intro exI [of _ "h + 4"]) simp
        with eq z show ?thesis by (simp add: y_def)
      qed
    qed
  qed
qed


text \<open>
  At a token's end the tokeniser rests on a \<open>NUL\<close> and finds no further one: the branch of
  \<open>parse_path\<close> that looks for a carriage return never gets a token.
\<close>

lemma path_safe:
  assumes "srv_inv x k" and "ctx_sm x = GSM_PATH"
  shows "\<exists>r y. gfs_parse_path x = Inr (r, y) \<and> (r = -1 \<or> r = 0 \<and> srv_inv y k)"
proof -
  let ?m = "ctx_buffer x"
  from assms obtain i h where mid: "srv_mid x k h" "h \<le> k" and cl: "cleared ?m k"
    and i: "i \<le> k" "ctx_strtok x = Some i"
    by (auto simp: srv_inv_def srv_mid_def)
  obtain tok m sv where st: "strtok_at ?m i SP = Inr (tok, m, sv)" and sv: "sv \<le> k"
    and m: "cleared m k" "length m = length ?m"
    and tk: "tok = None \<longrightarrow> m = ?m \<and> ?m ! sv = NUL"
    using strtok_bounded [OF cl i(1), of SP] by (auto split: option.splits)
  have inv: "srv_inv (x\<lparr>ctx_buffer := m, ctx_strtok := Some sv, ctx_path := p, ctx_path_length := l,
      ctx_status := s\<rparr>) k" for p l s
    using mid sv m unfolding srv_inv_def by (intro exI [of _ h]) (simp add: srv_mid_def)
  show ?thesis
  proof (cases tok)
    case (Some t)
    then show ?thesis
      using st i inv [where p = "Some t" and s = "ctx_status x"]
      by (simp add: gfs_parse_path_def strtok_next_def Let_def)
  next
    case None
    with tk have m': "m = ?m" and z: "?m ! sv = NUL" by auto
    have "drop sv ?m = NUL # drop (Suc sv) ?m"
      using sv cl z by (simp add: Cons_nth_drop_Suc [symmetric] cleared_def)
    then have "strtok_at ?m sv CR = Inr (None, ?m, sv)"
      using sv cl z by (simp add: strtok_at_def mem_span_def cleared_def)
    then show ?thesis
      using st i inv [where p = "ctx_path x" and l = "ctx_path_length x"]
        inv [where p = "ctx_path x" and l = "ctx_path_length x" and s = "ctx_status x"] m' None
      by (simp add: gfs_parse_path_def strtok_next_def Let_def)
  qed
qed

lemma gfs_parse_safe:
  assumes "srv_inv x k"
  shows "\<exists>r' y. gfs_parse r x = Inr (r', y) \<and> (r' = -1 \<or> (r' = 0 \<or> r' = r) \<and> srv_inv y k)"
proof -
  have path: "\<exists>r' y. gfs_parse r0 z = Inr (r', y) \<and> (r' = -1 \<or> r' = 0 \<and> srv_inv y k)"
    if "srv_inv z k" and "ctx_sm z = GSM_PATH" for z r0
    using path_safe [OF that] that by (auto simp: gfs_parse_def)
  have meth_case: "\<exists>r' y. gfs_parse r0 z = Inr (r', y) \<and> (r' = -1 \<or> r' = 0 \<and> srv_inv y k)"
    if mid: "srv_mid z k h" and sm: "ctx_sm z = GSM_METHOD" for z h r0
  proof -
    from method_safe [OF mid sm] obtain r1 y where m: "gfs_parse_method z = Inr (r1, y)"
      and y: "r1 = -1 \<and> ctx_sm y = GSM_METHOD \<or>
        r1 = 0 \<and> (ctx_sm y = GSM_METHOD \<or> ctx_sm y = GSM_PATH) \<and> srv_inv y k" by blast
    show ?thesis
      using m y sm path_safe [of y k] by (cases "ctx_sm y") (auto simp: gfs_parse_def)
  qed
  show ?thesis
  proof (cases "ctx_sm x")
    case GSM_PATH
    then show ?thesis using path [OF assms] by blast
  next
    case GSM_METHOD
    from assms obtain h where "srv_mid x k h" by (auto simp: srv_inv_def)
    from meth_case [OF this GSM_METHOD, of r] show ?thesis by auto
  next
    case GSM_SCHEME
    from assms obtain h where h: "srv_mid x k h" "h \<le> k" by (auto simp: srv_inv_def)
    from scheme_safe [OF h GSM_SCHEME] obtain r1 y where s: "gfs_parse_scheme x = Inr (r1, y)"
      and y: "r1 = -1 \<and> ctx_sm y = GSM_SCHEME \<or>
        r1 = 0 \<and> (y = x \<or> ctx_sm y = GSM_METHOD \<and> (\<exists>h'. srv_mid y k h'))" by blast
    show ?thesis
    proof (cases "ctx_sm y = GSM_METHOD")
      case True
      then have "gfs_parse r x = gfs_parse r1 y"
        using s GSM_SCHEME by (simp add: gfs_parse_def)
      moreover obtain h' where "srv_mid y k h'" using y True GSM_SCHEME by auto
      ultimately show ?thesis using meth_case [of y h' r1] True by auto
    next
      case False
      then have "ctx_sm y = GSM_SCHEME" using y GSM_SCHEME by auto
      then have "gfs_parse r x = Inr (r1, y)"
        using s GSM_SCHEME by (simp add: gfs_parse_def)
      moreover have "r1 = -1 \<or> r1 = 0 \<and> srv_inv y k" using y False assms by auto
      ultimately show ?thesis by auto
    qed
  qed
qed

lemma gfs_round_safe:
  assumes inv: "srv_inv x k" and room: "k + input_bytes (rx (ctx_conn x)) < SBUFSIZE"
    and r: "r = 0"
  shows "(\<exists>n y. gfs_round r x = Inr (Inl (n, y)) \<and> (n = -1 \<or> n = -2)) \<or>
    (\<exists>y k'. gfs_round r x = Inr (Inr (0, y)) \<and> srv_inv y k' \<and>
      k' + input_bytes (rx (ctx_conn y)) < SBUFSIZE)"
proof -
  from inv obtain h where mid: "srv_mid x k h" and h: "h \<le> k" by (auto simp: srv_inv_def)
  have un: "unat (ctx_header_pt x) = h"
    using mid h srv_mid_k [OF mid] by (simp add: srv_mid_def SBUFSIZE_def)
  obtain rd es where rd: "sock_read (unat (of_nat SBUFSIZE - ctx_header_pt x)) (rx (ctx_conn x)) =
      (rd, es)"
    by fastforce
  show ?thesis
  proof (cases "rd = None \<or> rd = Some [] \<or> ctx_status x \<noteq> S_GF_OK")
    case True
    then show ?thesis
      using rd by (auto simp: gfs_round_def Let_def S_GF_OK_def S_GF_ERROR_def
          S_GF_FILE_NOT_FOUND_def split: option.splits)
  next
    case False
    then obtain bs where bs: "rd = Some bs" "bs \<noteq> []" and ok: "ctx_status x = S_GF_OK" by auto
    have le: "length bs + input_bytes es \<le> input_bytes (rx (ctx_conn x))"
      using sock_read_input_bytes rd bs by simp
    then have "k + length bs < length (ctx_buffer x)"
      using room mid by (simp add: srv_mid_def)
    from cleared_put [OF _ h this] mid obtain m where
      m: "mem_put (ctx_buffer x) h bs = Inr m" "cleared m (k + length bs)" "length m = SBUFSIZE"
      by (auto simp: srv_mid_def)
    define x0 where "x0 = x\<lparr>ctx_conn := (ctx_conn x)\<lparr>rx := es\<rparr>, ctx_buffer := m,
      ctx_rx_bytes := ctx_rx_bytes x + int (length bs),
      ctx_total_rx_bytes := ctx_total_rx_bytes x + int (length bs)\<rparr>"
    have "srv_mid x0 (k + length bs) h"
      using mid h m by (auto simp: srv_mid_def x0_def)
    then have "srv_inv x0 (k + length bs)"
      unfolding srv_inv_def using h by (intro exI [of _ h]) simp
    from gfs_parse_safe [OF this, of 0] obtain r' y where
      y: "gfs_parse 0 x0 = Inr (r', y)" "r' = -1 \<or> r' = 0 \<and> srv_inv y (k + length bs)" by auto
    have "gfs_round r x = Inr (if r' = -1 then Inl (-2, y) else Inr (r', y))"
      using rd bs ok m y r un by (simp add: gfs_round_def Let_def flip: x0_def)
    moreover have "rx (ctx_conn y) = es"
      using res_allD [OF gfs_parse_conn y(1)] by (simp add: x0_def)
    ultimately show ?thesis
      using y(2) le room by (cases "r' = -1") (auto intro!: exI [of _ "k + length bs"])
  qed
qed

lemma gfs_loop_safe:
  assumes "srv_inv x k" and "k + input_bytes (rx (ctx_conn x)) < SBUFSIZE"
  shows "\<exists>n y. gfs_loop 0 x = Inr (n, y) \<and> (n = -1 \<or> n = -2)"
  using assms
proof (induction "0 :: int" x arbitrary: k rule: gfs_loop.induct)
  case (1 x)
  consider (stop) n y where "gfs_round 0 x = Inr (Inl (n, y))" "n = -1 \<or> n = -2"
    | (next_round) y k' where "gfs_round 0 x = Inr (Inr (0, y))" "srv_inv y k'"
      "k' + input_bytes (rx (ctx_conn y)) < SBUFSIZE"
    using gfs_round_safe [OF 1(2,3) refl] by blast
  then show ?case
  proof cases
    case stop
    then show ?thesis by (simp add: gfs_loop.simps [of 0 x])
  next
    case next_round
    from 1(1) [OF next_round(1) refl refl next_round(2,3)] next_round(1) show ?thesis
      by (simp add: gfs_loop.simps [of 0 x])
  qed
qed

lemma gfcontext_create_inv: "srv_inv (gfcontext_create shut c) 0"
  unfolding srv_inv_def
  by (intro exI [of _ 0]) (simp add: srv_mid_def gfcontext_create_def cleared_replicate SBUFSIZE_def)

text \<open>
  Property C14. The request parser stays inside its buffer and always gives a verdict, as long as
  the client sends fewer bytes than the buffer holds: whatever the bytes and however the
  network cuts them, \<open>process_request\<close> returns -1 or -2.
\<close>

theorem process_request_safe:
  assumes "input_bytes (rx c) < SBUFSIZE"
  shows "\<exists>n y. process_request (gfcontext_create shut c) = Inr (n, y) \<and> (n = -1 \<or> n = -2)"
  unfolding process_request_def
  by (rule gfs_loop_safe [OF gfcontext_create_inv]) (use assms in \<open>simp add: gfcontext_create_def\<close>)

theorem process_request_safe_witness:
  "\<exists>n y. process_request (gfcontext_create False
      (new_conn [Chunk ''GETF'', Sock_error, Chunk ''ILE G'', Chunk [NUL, SP, CR]] [])) = Inr (n, y)"
  using process_request_safe [of "new_conn
      [Chunk ''GETF'', Sock_error, Chunk ''ILE G'', Chunk [NUL, SP, CR]] []" False]
  by (auto simp: new_conn_def SBUFSIZE_def)

section \<open>What a well-formed request gives\<close>

text \<open>
  The next read gives neither data nor a chance to go on: the client has sent its request and
  waits, so the receive timeout fires, or it has closed its side.
\<close>

definition stalled :: "input \<Rightarrow> bool" where
  "stalled es \<longleftrightarrow> (\<forall>n > 0. \<exists>es'. sock_read n es = (Some [], es') \<or> sock_read n es = (None, es'))"

lemma stalled_simps [simp]: "stalled []" "stalled (Sock_error # es)" "stalled (Chunk [] # es)"
  by (simp_all add: stalled_def)

lemma stalled_round:
  assumes "stalled (rx (ctx_conn x))" and "ctx_header_pt x = of_nat h" and "h < SBUFSIZE"
  shows "\<exists>es s. gfs_round r x = Inr (Inl (-1, x\<lparr>ctx_conn := (ctx_conn x)\<lparr>rx := es\<rparr>, ctx_status := s\<rparr>))"
proof -
  have "unat (of_nat SBUFSIZE - of_nat h :: u32) = SBUFSIZE - h"
    using assms(3) by (subst u32_diff) (simp_all add: SBUFSIZE_def del: of_nat_diff)
  moreover have "0 < SBUFSIZE - h" using assms(3) by simp
  ultimately obtain es where "sock_read (unat (of_nat SBUFSIZE - ctx_header_pt x)) (rx (ctx_conn x)) =
      (Some [], es) \<or>
      sock_read (unat (of_nat SBUFSIZE - ctx_header_pt x)) (rx (ctx_conn x)) = (None, es)"
    using assms(1) unfolding stalled_def assms(2) by metis
  then show ?thesis
    by (auto simp: gfs_round_def Let_def S_GF_OK_def S_GF_ERROR_def S_GF_FILE_NOT_FOUND_def)
      blast+
qed

lemma request_parse:
  assumes b: "ctx_buffer x = ''GETFILE'' @ SP # ''GET'' @ SP # p @ SP # rest"
    and p: "p \<noteq> []" "SP \<notin> set p" "NUL \<notin> set p" and sm: "ctx_sm x = GSM_SCHEME"
    and k: "ctx_rx_bytes x = int k" "12 \<le> k" "k < 2 ^ 31" and st: "ctx_status x = S_GF_OK"
  shows "gfs_parse r x = Inr (0, x\<lparr>ctx_buffer := ''GETFILE'' @ NUL # ''GET'' @ NUL # p @ NUL # rest,
    ctx_strtok := Some (13 + length p), ctx_header_pt := 12, ctx_sm := GSM_PATH,
    ctx_path := Some p, ctx_path_length := sint (12 + of_nat (length p) :: u32)\<rparr>)"
proof -
  let ?r2 = "''GET'' @ SP # p @ SP # rest" and ?r3 = "p @ SP # rest"
  have t1: "strtok_at (ctx_buffer x) 0 SP = Inr (Some ''GETFILE'', ''GETFILE'' @ NUL # ?r2, 8)"
    using strtok_at_token [of "''GETFILE''" SP 0 "[]" ?r2] b by simp
  have c1: "strncmp 7 (''GETFILE'' @ NUL # ?r2) (cstr ''GETFILE'') = Inr 0"
    by (rule strncmp_prefix_eq) auto
  define x1 where "x1 = x\<lparr>ctx_buffer := ''GETFILE'' @ NUL # ?r2, ctx_strtok := Some 8,
    ctx_header_pt := 8, ctx_sm := GSM_METHOD\<rparr>"
  have s1: "gfs_parse_scheme x = Inr (0, x1)"
    using t1 c1 k by (simp add: gfs_parse_scheme_def Let_def x1_def)
  have t2: "strtok_at (''GETFILE'' @ NUL # ?r2) 8 SP =
      Inr (Some ''GET'', ''GETFILE'' @ NUL # ''GET'' @ NUL # ?r3, 12)"
    using strtok_at_token [of "''GET''" SP 8 "''GETFILE'' @ [NUL]" ?r3] by simp
  define x2 where "x2 = x1\<lparr>ctx_buffer := ''GETFILE'' @ NUL # ''GET'' @ NUL # ?r3,
    ctx_strtok := Some 12, ctx_header_pt := 12, ctx_sm := GSM_PATH\<rparr>"
  have "(4 :: u32) \<le> of_nat (k - 8)"
    using k u32_le_iff [of 4 "k - 8"] by simp
  then have d: "(4 :: u32) \<le> word_of_int (ctx_rx_bytes x1) - ctx_header_pt x1"
    using k by (simp add: x1_def)
  have s2: "gfs_parse_method x1 = Inr (0, x2)"
    using d t2 by (simp add: gfs_parse_method_def strtok_next_def Let_def x1_def x2_def cstr_def)
  have t3: "strtok_at (''GETFILE'' @ NUL # ''GET'' @ NUL # ?r3) 12 SP =
      Inr (Some p, ''GETFILE'' @ NUL # ''GET'' @ NUL # p @ NUL # rest, 13 + length p)"
    using strtok_at_token [of p SP 12 "''GETFILE'' @ NUL # ''GET'' @ [NUL]" rest] p by simp
  show ?thesis
    using s1 s2 t3 sm st
    by (simp add: gfs_parse_def gfs_parse_path_def strtok_next_def Let_def x1_def x2_def
        S_GF_OK_def S_GF_FILE_NOT_FOUND_def)
qed

lemma first_read:
  assumes "rx c = Chunk bs # es" and "0 < length bs" and "length bs \<le> SBUFSIZE"
  shows "gfs_round 0 (gfcontext_create shut c) =
    bind_res (gfs_parse 0 ((gfcontext_create shut c)
      \<lparr>ctx_conn := c\<lparr>rx := es\<rparr>, ctx_buffer := bs @ replicate (SBUFSIZE - length bs) NUL,
       ctx_rx_bytes := int (length bs), ctx_total_rx_bytes := int (length bs)\<rparr>))
      (\<lambda>(r2, x2). Inr (if r2 = -1 then Inl (-2, x2) else Inr (r2, x2)))"
  using assms
  by (auto simp: gfs_round_def gfcontext_create_def Let_def mem_put_0 S_GF_OK_def SBUFSIZE_def)

lemma process_request_accepts:
  assumes "rx c = Chunk (''GETFILE GET '' @ p @ '' '' @ tl0) # es" and "stalled es"
    and "p \<noteq> []" and "SP \<notin> set p" and "NUL \<notin> set p"
    and "length p + length tl0 \<le> SBUFSIZE - 13"
  shows "\<exists>x. process_request (gfcontext_create shut c) = Inr (-1, x) \<and> ctx_path x = Some p \<and>
    ctx_listener_shut x = shut \<and> (\<exists>es'. ctx_conn x = c\<lparr>rx := es'\<rparr>)"
proof -
  let ?bs = "''GETFILE GET '' @ p @ '' '' @ tl0"
  let ?rest = "tl0 @ replicate (SBUFSIZE - length ?bs) NUL"
  let ?x = "(gfcontext_create shut c)
      \<lparr>ctx_conn := c\<lparr>rx := es\<rparr>, ctx_buffer := ?bs @ replicate (SBUFSIZE - length ?bs) NUL,
       ctx_rx_bytes := int (length ?bs), ctx_total_rx_bytes := int (length ?bs)\<rparr>"
  have le: "length ?bs \<le> SBUFSIZE" "12 \<le> length ?bs"
    using assms(6) by (simp_all add: SBUFSIZE_def)
  define y where "y = ?x\<lparr>ctx_buffer := ''GETFILE'' @ NUL # ''GET'' @ NUL # p @ NUL # ?rest,
    ctx_strtok := Some (13 + length p), ctx_header_pt := 12, ctx_sm := GSM_PATH,
    ctx_path := Some p, ctx_path_length := sint (12 + of_nat (length p) :: u32)\<rparr>"
  have "gfs_parse 0 ?x = Inr (0, y)"
    unfolding y_def
    by (rule request_parse [where k = "length ?bs"])
      (use assms le in \<open>simp_all add: gfcontext_create_def S_GF_OK_def SBUFSIZE_def\<close>)
  then have r1: "gfs_round 0 (gfcontext_create shut c) = Inr (Inr (0, y))"
    using first_read [OF assms(1) _ le(1)] by simp
  have "stalled (rx (ctx_conn y))" "ctx_header_pt y = of_nat 12"
    using assms(2) by (simp_all add: y_def)
  from stalled_round [OF this, of 0] obtain es' s where
    r2: "gfs_round 0 y = Inr (Inl (-1, y\<lparr>ctx_conn := (ctx_conn y)\<lparr>rx := es'\<rparr>, ctx_status := s\<rparr>))"
    by (auto simp: SBUFSIZE_def)
  show ?thesis
    unfolding process_request_def
    using r1 r2
    by (auto simp: gfs_loop.simps [of 0 "gfcontext_create shut c"] gfs_loop.simps [of 0 y])
      (auto simp: y_def gfcontext_create_def)
qed


lemma process_request_no_data:
  assumes "stalled (rx c)"
  shows "\<exists>x. process_request (gfcontext_create shut c) = Inr (-1, x) \<and> ctx_path x = None \<and>
    (\<exists>es. ctx_conn x = c\<lparr>rx := es\<rparr>)"
proof -
  let ?x = "gfcontext_create shut c"
  have "stalled (rx (ctx_conn ?x))" "ctx_header_pt ?x = of_nat 0"
    using assms by (simp_all add: gfcontext_create_def)
  from stalled_round [OF this, of 0] obtain es st where
    "gfs_round 0 ?x = Inr (Inl (-1, ?x\<lparr>ctx_conn := (ctx_conn ?x)\<lparr>rx := es\<rparr>, ctx_status := st\<rparr>))"
    by (auto simp: SBUFSIZE_def)
  then have "process_request ?x =
      Inr (-1, ?x\<lparr>ctx_conn := (ctx_conn ?x)\<lparr>rx := es\<rparr>, ctx_status := st\<rparr>)"
    by (simp add: process_request_def gfs_loop.simps [of 0 ?x])
  then show ?thesis by (auto simp: gfcontext_create_def)
qed

lemma process_request_rejects_scheme:
  assumes "rx c = Chunk bs # es" and "7 \<le> length bs" and "length bs < SBUFSIZE"
    and "take 7 bs \<noteq> ''GETFILE''"
  shows "\<exists>x. process_request (gfcontext_create shut c) = Inr (-2, x) \<and>
    ctx_listener_shut x = shut \<and> ctx_conn x = c\<lparr>rx := es\<rparr>"
proof -
  let ?m = "bs @ replicate (SBUFSIZE - length bs) NUL"
  let ?x = "(gfcontext_create shut c)
      \<lparr>ctx_conn := c\<lparr>rx := es\<rparr>, ctx_buffer := ?m,
       ctx_rx_bytes := int (length bs), ctx_total_rx_bytes := int (length bs)\<rparr>"
  have cl: "cleared ?m (length bs)"
    using assms(3) by (auto simp: cleared_def nth_append)
  obtain tok m sv where st: "strtok_at ?m 0 SP = Inr (tok, m, sv)" and len: "length m = length ?m"
    and m: "m = ?m \<or> m = ?m[sv - 1 := NUL]"
    using strtok_bounded [OF cl, of 0 SP] by (auto split: option.splits)
  have "take 7 m \<noteq> ''GETFILE''"
  proof
    assume eq: "take 7 m = ''GETFILE''"
    have "m \<noteq> ?m" using eq assms(2,4) by auto
    with m have m': "m = ?m[sv - 1 := NUL]" by blast
    show False
    proof (cases "sv - 1 < 7")
      case True
      then have "take 7 m ! (sv - 1) = NUL"
        using m' assms(2) by simp
      moreover have "take 7 m ! (sv - 1) \<in> set (take 7 m)"
        using True len assms(2) by (intro nth_mem) simp
      ultimately show False using eq by simp
    next
      case False
      then have "take 7 m = take 7 ?m" using m' by (simp add: take_update_cancel)
      with eq assms(2,4) show False by simp
    qed
  qed
  moreover have "length (take 7 m) = length ''GETFILE''" using len assms(2) by simp
  ultimately have "\<exists>d. strncmp 7 (take 7 m @ drop 7 m) (cstr ''GETFILE'') = Inr d \<and> d \<noteq> 0"
    by (intro strncmp_differ) simp_all
  then obtain d where d: "strncmp 7 m (cstr ''GETFILE'') = Inr d" "d \<noteq> 0"
    unfolding append_take_drop_id by blast
  obtain y where "gfs_parse_scheme ?x = Inr (-1, y)" "ctx_sm y = GSM_SCHEME"
    "ctx_listener_shut y = shut" "ctx_conn y = c\<lparr>rx := es\<rparr>"
    using st d assms(2)
    by (cases tok) (auto simp: gfs_parse_scheme_def gfcontext_create_def Let_def)
  moreover have "gfs_round 0 (gfcontext_create shut c) = bind_res (gfs_parse 0 ?x)
      (\<lambda>(r2, x2). Inr (if r2 = -1 then Inl (-2, x2) else Inr (r2, x2)))"
    by (rule first_read [OF assms(1)]) (use assms(2,3) in auto)
  moreover have "ctx_sm ?x = GSM_SCHEME" by (simp add: gfcontext_create_def)
  ultimately show ?thesis
    unfolding process_request_def
    by (simp add: gfs_loop.simps [of 0 "gfcontext_create shut c"] gfs_parse_def)
qed

section \<open>Answers\<close>

definition header_line :: "string \<Rightarrow> nat \<Rightarrow> string" where
  "header_line s n = ''GETFILE '' @ s @ '' '' @ dec_of_nat n @ CRLF2"

lemma gfs_sendheader_writes:
  assumes "gfs_strstatus st = Inr s" and "NUL \<notin> set s" and "length s \<le> 200"
    and "n < 2 ^ 64"
  shows "gfs_sendheader x st n =
    (let (k, c) = sock_write (ctx_conn x) (header_line s n) in Inr (k, x\<lparr>ctx_conn := c\<rparr>))"
proof -
  have nn: "NUL \<notin> set (header_line s n)"
    using assms(2) by (simp add: header_line_def)
  have "n < 10 ^ Suc 19" using assms(4) by simp
  then have "length (dec_of_nat n) \<le> 20" using length_dec_of_nat by fastforce
  then have "length (cstr (header_line s n)) \<le> SBUFSIZE"
    using assms(3) by (simp add: header_line_def cstr_def SBUFSIZE_def)
  then have "mem_put (replicate SBUFSIZE NUL) 0 (cstr (header_line s n)) =
      Inr (header_line s n @ NUL # replicate (SBUFSIZE - length (cstr (header_line s n))) NUL)"
    by (simp add: mem_put_0 cstr_def)
  with nn have "bind_res (mem_put (replicate SBUFSIZE NUL) 0 (cstr (header_line s n)))
      (\<lambda>buf. bind_res (cstr_at buf 0) f) = f (header_line s n)" for f :: "string \<Rightarrow> 'b result"
    by (simp add: cstr_at_def)
  then show ?thesis
    using assms(1) by (simp add: gfs_sendheader_def header_line_def)
qed

lemma gfs_strstatus_known:
  "gfs_strstatus S_GF_OK = Inr ''OK''"
  "gfs_strstatus S_GF_FILE_NOT_FOUND = Inr ''FILE_NOT_FOUND''"
  "gfs_strstatus S_GF_ERROR = Inr ''ERROR''"
  by (simp_all add: gfs_strstatus_def S_GF_OK_def S_GF_FILE_NOT_FOUND_def S_GF_ERROR_def
      response_status_def)


section \<open>Properties\<close>

text \<open>A handler that logs the paths it gets and answers with the number 7.\<close>

definition log_handler :: "(string, string option list) handler" where
  "log_handler x p a log = Inr (7, x, log @ [p])"

definition log_server :: "(string, string option list) gfserver" where
  "log_server = gfserver_set_handler (gfserver_create []) log_handler"

text \<open>
  Further fact. A well-formed request reaches the handler with exactly its path: when the request
  line arrives in one read and the client then waits or closes, one pass of the accept loop
  calls the registered handler once, with the path between the second and the third space and
  the registered argument, and shuts the connection down afterwards.
\<close>

theorem serve_one_calls_handler:
  assumes "rx c = Chunk (''GETFILE GET '' @ p @ '' '' @ CRLF2) # es" and "stalled es"
    and "p \<noteq> []" and "SP \<notin> set p" and "NUL \<notin> set p" and "length p \<le> 266"
    and "gfs_handler s = Some f"
  shows "\<exists>x. ctx_path x = Some p \<and> (\<exists>es'. ctx_conn x = c\<lparr>rx := es'\<rparr>) \<and>
    serve_one s False c e = bind_res (f x (Some p) (gfs_handler_arg s) e)
      (\<lambda>(n, y, e'). Inr (y\<lparr>ctx_conn := sock_shutdown (ctx_conn y)\<rparr>, e'))"
proof -
  from process_request_accepts [OF assms(1-5), of False] assms(6) obtain x where
    "process_request (gfcontext_create False c) = Inr (-1, x)" "ctx_path x = Some p"
    "\<exists>es'. ctx_conn x = c\<lparr>rx := es'\<rparr>"
    by (auto simp: SBUFSIZE_def)
  then show ?thesis
    using assms(7) by (intro exI [of _ x]) (simp add: serve_one_def accept_rx_connection_def)
qed

theorem serve_one_calls_handler_witness:
  "\<exists>x. serve_one log_server False
      (new_conn [Chunk (''GETFILE GET '' @ ''/a/b'' @ '' '' @ CRLF2), Sock_error] []) [] =
    Inr (x, [Some ''/a/b''])"
proof -
  let ?c = "new_conn [Chunk (''GETFILE GET '' @ ''/a/b'' @ '' '' @ CRLF2), Sock_error] []"
  have "gfs_handler log_server = Some log_handler"
    by (simp add: log_server_def gfserver_set_handler_def)
  then obtain x where "serve_one log_server False ?c [] =
      bind_res (log_handler x (Some ''/a/b'') (gfs_handler_arg log_server) [])
        (\<lambda>(n, y, e'). Inr (y\<lparr>ctx_conn := sock_shutdown (ctx_conn y)\<rparr>, e'))"
    using serve_one_calls_handler [of ?c "''/a/b''" "[Sock_error]" log_server log_handler "[]"]
    by (auto simp: new_conn_def)
  then show ?thesis by (auto simp: log_handler_def)
qed

text \<open>
  Property C29. A request whose first read brings the seven bytes of the scheme, and not the right
  ones, is refused without the handler: if the first read brings at least seven bytes, fewer than the
  buffer has, and they do not start with \<open>GETFILE\<close>, the client gets \<open>GETFILE FILE_NOT_FOUND 0\<close>, the
  handler's state is untouched and the connection is shut down, whatever follows. (With fewer than
  seven bytes in the first read the parser waits, and the next read overwrites them: see
  \<open>serve_one_forgets_start\<close>.)
\<close>

theorem serve_one_refuses:
  assumes "rx c = Chunk bs # es" and "7 \<le> length bs" and "length bs < SBUFSIZE"
    and "take 7 bs \<noteq> ''GETFILE''" and "\<not> closed c" and "wlimits c = []"
  shows "\<exists>x. serve_one s False c e = Inr (x, e) \<and>
    tx (ctx_conn x) = tx c @ header_line ''FILE_NOT_FOUND'' 0 \<and> closed (ctx_conn x)"
proof -
  from process_request_rejects_scheme [OF assms(1-4), of False] obtain x where
    "process_request (gfcontext_create False c) = Inr (-2, x)" "ctx_conn x = c\<lparr>rx := es\<rparr>"
    by blast
  then show ?thesis
    using assms(5,6)
    by (simp add: serve_one_def accept_rx_connection_def gfs_sendheader_writes
        gfs_strstatus_known sock_write_all sock_shutdown_def)
qed

theorem serve_one_refuses_witness:
  "\<exists>x. serve_one log_server False (new_conn [Chunk ''GETFOLD GET /a''] []) [] = Inr (x, []) \<and>
     tx (ctx_conn x) = ''GETFILE FILE_NOT_FOUND '' @ dec_of_nat 0 @ CRLF2"
  using serve_one_refuses [of "new_conn [Chunk ''GETFOLD GET /a''] []" "''GETFOLD GET /a''" "[]"
      log_server "[]"]
  by (auto simp: new_conn_def SBUFSIZE_def header_line_def)

text \<open>
  Further fact. While the scheme is incomplete the next read overwrites the buffer from its start,
  although its bytes are counted: a request that starts with four other bytes in a read of their own
  reaches the handler as if it had started with the scheme.
\<close>

theorem serve_one_forgets_start:
  "case serve_one log_server False (new_conn [Chunk ''XXXX'', Chunk ''GETFILE GET /a '', Sock_error] []) [] of
     Inl er \<Rightarrow> False | Inr (x, log) \<Rightarrow> log = [Some ''/a'']"
  by code_simp

text \<open>
  Further fact. A client that connects and sends nothing crashes a handler that trusts its path:
  the handler is called with a null path, because the request loop returns -1 both for a
  complete request and for a read that gives no data.
\<close>

theorem serve_one_null_path:
  assumes "stalled (rx c)" and "gfs_handler s = Some f"
  shows "\<exists>x. ctx_path x = None \<and>
    serve_one s False c e = bind_res (f x None (gfs_handler_arg s) e)
      (\<lambda>(n, y, e'). Inr (y\<lparr>ctx_conn := sock_shutdown (ctx_conn y)\<rparr>, e'))"
  using process_request_no_data [OF assms(1), of False] assms(2)
  by (auto simp: serve_one_def accept_rx_connection_def)

theorem serve_one_null_path_witness:
  "\<exists>x. serve_one log_server False (new_conn [Sock_error] []) [] = Inr (x, [None])"
proof -
  have "gfs_handler log_server = Some log_handler"
    by (simp add: log_server_def gfserver_set_handler_def)
  then show ?thesis
    using serve_one_null_path [of "new_conn [Sock_error] []" log_server log_handler "[]"]
    by (auto simp: new_conn_def log_handler_def)
qed

text \<open>
  Further fact. The header a handler sends is \<open>GETFILE\<close>, the status name and the length in
  decimal, ended by the end sequence, for every 64-bit length and each of the three statuses;
  any other status reads past the table of names.
\<close>

theorem gfs_sendheader_wire:
  assumes "\<not> closed (ctx_conn x)" and "wlimits (ctx_conn x) = []" and "n < 2 ^ 64"
  shows "(case gfs_strstatus st of
      Inl err \<Rightarrow> st \<notin> {S_GF_OK, S_GF_FILE_NOT_FOUND, S_GF_ERROR} \<and>
        gfs_sendheader x st n = Inl Out_Of_Bounds
    | Inr s \<Rightarrow> s \<in> {''OK'', ''FILE_NOT_FOUND'', ''ERROR''} \<and>
        (\<exists>y. gfs_sendheader x st n = Inr (int (length (header_line s n)), y) \<and>
          ctx_conn y = (ctx_conn x)\<lparr>tx := tx (ctx_conn x) @ header_line s n\<rparr>))"
proof (cases "st \<in> {S_GF_OK, S_GF_FILE_NOT_FOUND, S_GF_ERROR}")
  case True
  then obtain s where "gfs_strstatus st = Inr s" "s \<in> {''OK'', ''FILE_NOT_FOUND'', ''ERROR''}"
    using gfs_strstatus_known by auto
  moreover from this have "NUL \<notin> set s" "length s \<le> 200" by auto
  ultimately show ?thesis
    using assms by (auto simp: gfs_sendheader_writes sock_write_all)
qed (auto simp: gfs_strstatus_def response_status_def gfs_sendheader_def)

theorem gfs_sendheader_wire_witness:
  "\<exists>n y. gfs_sendheader (gfcontext_create False (new_conn [] [])) S_GF_OK 1234 = Inr (n, y) \<and>
     tx (ctx_conn y) = ''GETFILE OK '' @ dec_of_nat 1234 @ CRLF2"
  using gfs_sendheader_wire [of "gfcontext_create False (new_conn [] [])" 1234 S_GF_OK]
  by (auto simp: gfcontext_create_def new_conn_def gfs_strstatus_known header_line_def)

text \<open>
  Further fact. \<open>gfs_abort\<close> ends more than its own connection: it also shuts the listening
  socket down, so after a handler that aborts, every later client is accepted on an invalid
  descriptor and its request never reaches the handler with a path.
\<close>

theorem gfs_abort_stops_server:
  assumes "gfs_handler s = Some f"
  shows "\<exists>y. ctx_path y = None \<and> closed (ctx_conn y) \<and>
    serve_one s (ctx_listener_shut (gfs_abort x)) c e = bind_res (f y None (gfs_handler_arg s) e)
      (\<lambda>(n, y, e'). Inr (y\<lparr>ctx_conn := sock_shutdown (ctx_conn y)\<rparr>, e'))"
proof -
  let ?c = "accept_rx_connection True c"
  have "stalled (rx ?c)" by (simp add: accept_rx_connection_def)
  from process_request_no_data [OF this, of True] obtain y where
    "process_request (gfcontext_create True ?c) = Inr (-1, y)" "ctx_path y = None"
    "closed (ctx_conn y)"
    by (auto simp: accept_rx_connection_def)
  then show ?thesis
    using assms by (intro exI [of _ y]) (simp add: serve_one_def gfs_abort_def)
qed

theorem gfs_abort_stops_server_witness:
  "\<exists>z. serve_one log_server
      (ctx_listener_shut (gfs_abort (gfcontext_create False (new_conn [] []))))
      (new_conn [Chunk (''GETFILE GET /a '' @ CRLF2)] []) [] = Inr (z, [None])"
proof -
  have "gfs_handler log_server = Some log_handler"
    by (simp add: log_server_def gfserver_set_handler_def)
  from gfs_abort_stops_server [OF this, of "gfcontext_create False (new_conn [] [])"
      "new_conn [Chunk (''GETFILE GET /a '' @ CRLF2)] []" "[]"]
  show ?thesis by (auto simp: log_handler_def)
qed

end
