(* ===== verification/Content.thy ===== *)
theory Content
  imports Os_Model "HOL-Library.Multiset"
begin

text \<open>
  The content table of \<open>content.c\<close> (the same file in \<open>project1/ud923-project1-gflib\<close> and
  \<open>project1/ud923-project1-mtgf\<close>) and its copy \<open>project3/simplecache.c\<close>: a file of
  lines \<open>key path\<close> is read into a growing array, sorted by key and searched by bisection.
  What the table promises is the locale \<open>keyed_table\<close>, interpreted on both copies.
\<close>

section \<open>Reading lines\<close>

definition MAX_KEYLEN :: nat where "MAX_KEYLEN = 256"

record item_t =
  fildes :: int
  key :: string

text \<open>
  \<open>fgets (buf, n, f)\<close> on what is left of a file: at most \<open>n - 1\<close> bytes up to and with
  the first line feed; \<open>None\<close> at the end of the file.
\<close>

definition fgets :: "nat \<Rightarrow> string \<Rightarrow> (string \<times> string) option" where
  "fgets n s =
     (if s = [] then None
      else let k = min (n - 1) (Suc (length (takeWhile (\<lambda>c. c \<noteq> LF) s)))
           in Some (take k s, drop k s))"

text \<open>\<open>strsep\<close>: the token's start, the memory with the delimiter overwritten, the new pointer.\<close>

definition strsep ::
  "string \<Rightarrow> nat option \<Rightarrow> char list \<Rightarrow> (nat option \<times> string \<times> nat option) result" where
  "strsep m p ds =
     (case p of
        None \<Rightarrow> Inr (None, m, None)
      | Some i \<Rightarrow>
          bind_res (mem_span m (\<lambda>c. c \<notin> set ds \<and> c \<noteq> NUL) i) (\<lambda>j.
            if m ! j = NUL then Inr (Some i, m, None)
            else Inr (Some i, m[j := NUL], Some (Suc j))))"

text \<open>
  One pass of the loop body on the key buffer that \<open>fgets\<close> has filled: the byte before the
  terminator is cut off, the key and the path are separated and the path is opened. The system
  answers \<open>open\<close> with a descriptor or a negative number; a null path is answered with -1.
\<close>

definition read_item :: "(string \<Rightarrow> int) \<Rightarrow> string \<Rightarrow> item_t result" where
  "read_item open_fd m =
     bind_res (cstr_at m 0) (\<lambda>s.
       if length s = 0 then Inl Out_Of_Bounds
       else let m1 = m[length s - 1 := NUL]
            in bind_res (strsep m1 (Some 0) [SP, TAB]) (\<lambda>(k, m2, p2).
               bind_res (strsep m2 p2 [SP, TAB]) (\<lambda>(pth, m3, p3).
               bind_res (case pth of
                           None \<Rightarrow> Inr (-1)
                         | Some i \<Rightarrow> bind_res (cstr_at m3 i) (\<lambda>f. Inr (open_fd f))) (\<lambda>fd.
                 if fd < 0 then Inl (Exit 1)
                 else Inr \<lparr>fildes = fd, key = m3\<rparr>))))"

text \<open>
  The loop with the array's capacity: the slot \<open>items[nitems]\<close> must exist, and the capacity
  is doubled when the array is full.
\<close>

function load_items ::
  "(string \<Rightarrow> int) \<Rightarrow> string \<Rightarrow> nat \<Rightarrow> item_t list \<Rightarrow> item_t list result" where
  "load_items open_fd s capacity items =
     (if \<not> length items < capacity then Inl Out_Of_Bounds
      else case fgets MAX_KEYLEN s of
        None \<Rightarrow> Inr items
      | Some (line, rest) \<Rightarrow>
          bind_res (read_item open_fd (cstr line)) (\<lambda>it.
            let items1 = items @ [it]
            in if length items1 = capacity then
                 if 2 * int capacity > int_max then Inl Signed_Overflow
                 else load_items open_fd rest (2 * capacity) items1
               else load_items open_fd rest capacity items1))"
  by pat_completeness auto

lemma fgets_shorter: "fgets MAX_KEYLEN s = Some (line, rest) \<Longrightarrow> length rest < length s"
  by (auto simp: fgets_def MAX_KEYLEN_def Let_def split: if_splits)

termination load_items
  by (relation "measure (\<lambda>(f, s, c, items). length s)") (auto dest: fgets_shorter)

declare load_items.simps [simp del]

text \<open>
  The comparison that \<open>qsort\<close> gets, and the sorted table: \<open>sort_key\<close> on the key strings,
  stable as the merge sort behind \<open>qsort\<close> in the GNU library.
\<close>

definition itemcmp :: "item_t \<Rightarrow> item_t \<Rightarrow> int result" where
  "itemcmp a b = strcmp (key a) (key b)"

definition item_key :: "item_t \<Rightarrow> string" where
  "item_key it = takeWhile (\<lambda>c. c \<noteq> NUL) (key it)"

text \<open>\<open>None\<close> stands for a file that cannot be opened.\<close>

definition content_init :: "(string \<Rightarrow> int) \<Rightarrow> string option \<Rightarrow> item_t list result" where
  "content_init open_fd filelist =
     (case filelist of
        None \<Rightarrow> Inl (Exit 1)
      | Some s \<Rightarrow> bind_res (load_items open_fd s 16 []) (\<lambda>items. Inr (sort_key item_key items)))"

section \<open>Searching\<close>

text \<open>The loop of \<open>content_get\<close> on the indices \<open>lo\<close> and \<open>hi\<close>; the key is in memory.\<close>

function search_items :: "item_t list \<Rightarrow> string \<Rightarrow> int \<Rightarrow> int \<Rightarrow> int option result" where
  "search_items items k lo hi =
     (if lo \<le> hi then
        let mid = lo + (hi - lo) div 2
        in if mid < 0 \<or> int (length items) \<le> mid then Inl Out_Of_Bounds
           else bind_res (strcmp k (key (items ! nat mid))) (\<lambda>cmp.
                  if cmp < 0 then search_items items k lo (mid - 1)
                  else if cmp > 0 then search_items items k (mid + 1) hi
                  else Inr (Some mid))
      else Inr None)"
  by pat_completeness auto
termination
  by (relation "measure (\<lambda>(items, k, lo, hi). nat (hi - lo + 1))") (auto simp: Let_def)

declare search_items.simps [simp del]

definition content_get :: "item_t list \<Rightarrow> string option \<Rightarrow> file_env \<Rightarrow> (int \<times> file_env) result" where
  "content_get items k f =
     (if items = [] then Inr (-1, f)
      else case k of
        None \<Rightarrow> Inl Null_Deref
      | Some s \<Rightarrow>
          bind_res (search_items items (cstr s) 0 (int (length items) - 1)) (\<lambda>r.
            case r of
              None \<Rightarrow> Inr (-1, f)
            | Some mid \<Rightarrow>
                let fd = fildes (items ! nat mid) in Inr (fd, lseek_set f fd 0)))"

text \<open>The descriptors closed at the end, in order.\<close>

definition content_destroy :: "item_t list \<Rightarrow> int list" where
  "content_destroy items = List.map fildes items"

text \<open>The copy in \<open>simplecache.c\<close>: the same loops, without the \<open>lseek\<close>.\<close>

definition simplecache_init :: "(string \<Rightarrow> int) \<Rightarrow> string option \<Rightarrow> item_t list result" where
  "simplecache_init open_fd filelist =
     (case filelist of
        None \<Rightarrow> Inl (Exit 1)
      | Some s \<Rightarrow> bind_res (load_items open_fd s 16 []) (\<lambda>items. Inr (sort_key item_key items)))"

definition simplecache_get :: "item_t list \<Rightarrow> string option \<Rightarrow> int result" where
  "simplecache_get items k =
     (if items = [] then Inr (-1)
      else case k of
        None \<Rightarrow> Inl Null_Deref
      | Some s \<Rightarrow>
          bind_res (search_items items (cstr s) 0 (int (length items) - 1)) (\<lambda>r.
            Inr (case r of None \<Rightarrow> -1 | Some mid \<Rightarrow> fildes (items ! nat mid))))"

definition simplecache_destroy :: "item_t list \<Rightarrow> int list" where
  "simplecache_destroy items = List.map fildes items"


section \<open>Searching a sorted table\<close>

definition table_ok :: "item_t list \<Rightarrow> bool" where
  "table_ok items \<longleftrightarrow>
     sorted (List.map item_key items) \<and> (\<forall>it \<in> set items. NUL \<in> set (key it) \<and> 0 \<le> fildes it)"

definition table_entries :: "item_t list \<Rightarrow> (string \<times> int) list" where
  "table_entries items = List.map (\<lambda>it. (item_key it, fildes it)) items"

lemma strcmp_memory:
  assumes "NUL \<notin> set s" and "NUL \<notin> set t"
  shows "strcmp (s @ NUL # r1) (t @ NUL # r2) = strcmp (cstr s) (cstr t)"
  using assms
proof (induction s arbitrary: t)
  case Nil
  then show ?case by (cases t) (auto simp: cstr_def)
next
  case (Cons x s)
  then show ?case by (cases t) (auto simp: cstr_def)
qed

lemma item_memory:
  assumes "NUL \<in> set (key it)"
  shows "\<exists>r. key it = item_key it @ NUL # r \<and> NUL \<notin> set (item_key it)"
proof -
  have nn: "NUL \<notin> set (item_key it)"
    by (auto simp: item_key_def dest: set_takeWhileD)
  have sp: "key it = item_key it @ dropWhile (\<lambda>c. c \<noteq> NUL) (key it)"
    by (simp add: item_key_def)
  with nn assms have "dropWhile (\<lambda>c. c \<noteq> NUL) (key it) \<noteq> []"
    by (metis append_Nil2)
  then obtain r where "dropWhile (\<lambda>c. c \<noteq> NUL) (key it) = NUL # r"
    by (cases "dropWhile (\<lambda>c. c \<noteq> NUL) (key it)") (auto simp: dropWhile_eq_Cons_conv)
  with sp nn show ?thesis by auto
qed

lemma strcmp_item:
  assumes "NUL \<notin> set k" and "NUL \<in> set (key it)"
  shows "\<exists>c. strcmp (cstr k) (key it) = Inr c \<and> (c < 0 \<longleftrightarrow> k < item_key it) \<and>
    (c = 0 \<longleftrightarrow> k = item_key it)"
proof -
  from item_memory [OF assms(2)] obtain r where r: "key it = item_key it @ NUL # r"
    "NUL \<notin> set (item_key it)" by blast
  then have "strcmp (cstr k) (key it) = strcmp (cstr k) (cstr (item_key it))"
    using strcmp_memory [OF assms(1) r(2), of "[]" r] by (simp add: cstr_def)
  with strcmp_cstr [OF assms(1) r(2)] show ?thesis by simp
qed

lemma search_items_spec:
  assumes "table_ok items" and "NUL \<notin> set k" and "0 \<le> lo" and "hi < int (length items)"
  shows "\<exists>r. search_items items (cstr k) lo hi = Inr r \<and>
    (case r of
       Some mid \<Rightarrow> lo \<le> mid \<and> mid \<le> hi \<and> item_key (items ! nat mid) = k
     | None \<Rightarrow> \<forall>i. lo \<le> i \<and> i \<le> hi \<longrightarrow> item_key (items ! nat i) \<noteq> k)"
  using assms
proof (induction "nat (hi - lo + 1)" arbitrary: lo hi rule: less_induct)
  case less
  show ?case
  proof (cases "lo \<le> hi")
    case False
    then show ?thesis by (auto simp: search_items.simps [of items])
  next
    case True
    define mid where "mid = lo + (hi - lo) div 2"
    have mid: "lo \<le> mid" "mid \<le> hi" "0 \<le> mid" "mid < int (length items)"
      using True less.prems unfolding mid_def by auto
    let ?it = "items ! nat mid"
    have it: "?it \<in> set items" using mid by (intro nth_mem) auto
    then have nul: "NUL \<in> set (key ?it)" using less.prems(1) by (simp add: table_ok_def)
    from strcmp_item [OF less.prems(2) nul] obtain c where c: "strcmp (cstr k) (key ?it) = Inr c"
      "c < 0 \<longleftrightarrow> k < item_key ?it" "c = 0 \<longleftrightarrow> k = item_key ?it" by blast
    have mono: "item_key (items ! nat i) \<le> item_key (items ! nat j)"
      if "0 \<le> i" "i \<le> j" "j < int (length items)" for i j
    proof -
      have "nat i \<le> nat j" "nat j < length (List.map item_key items)" using that by auto
      from sorted_nth_mono [OF _ this] show ?thesis
        using less.prems(1) that by (simp add: table_ok_def)
    qed
    have step: "search_items items (cstr k) lo hi =
        (if c < 0 then search_items items (cstr k) lo (mid - 1)
         else if c > 0 then search_items items (cstr k) (mid + 1) hi else Inr (Some mid))"
      using True mid c(1)
      by (subst search_items.simps) (simp only: Let_def flip: mid_def, simp)
    consider "c < 0" | "c > 0" | "c = 0" by linarith
    then show ?thesis
    proof cases
      case 1
      have sm: "nat (mid - 1 - lo + 1) < nat (hi - lo + 1)" "mid - 1 < int (length items)"
        using mid by auto
      from less.hyps [OF sm(1) less.prems(1-3) sm(2)] obtain r where
        r: "search_items items (cstr k) lo (mid - 1) = Inr r" and
        cs: "case r of Some m \<Rightarrow> lo \<le> m \<and> m \<le> mid - 1 \<and> item_key (items ! nat m) = k
           | None \<Rightarrow> \<forall>i. lo \<le> i \<and> i \<le> mid - 1 \<longrightarrow> item_key (items ! nat i) \<noteq> k" by blast
      have "item_key (items ! nat i) \<noteq> k" if "mid \<le> i" "i \<le> hi" for i
        using mono [of mid i] that mid less.prems 1 c(2) by auto
      then show ?thesis
        using step 1 r cs mid by (auto split: option.splits) (metis zle_diff1_eq not_le)
    next
      case 2
      have sm: "nat (hi - (mid + 1) + 1) < nat (hi - lo + 1)" "0 \<le> mid + 1"
        using mid by auto
      from less.hyps [OF sm(1) less.prems(1,2) sm(2) less.prems(4)] obtain r where
        r: "search_items items (cstr k) (mid + 1) hi = Inr r" and
        cs: "case r of Some m \<Rightarrow> mid + 1 \<le> m \<and> m \<le> hi \<and> item_key (items ! nat m) = k
           | None \<Rightarrow> \<forall>i. mid + 1 \<le> i \<and> i \<le> hi \<longrightarrow> item_key (items ! nat i) \<noteq> k" by blast
      have "item_key ?it < k" using 2 c(2,3) by auto
      then have "item_key (items ! nat i) \<noteq> k" if "lo \<le> i" "i \<le> mid" for i
        using mono [of i mid] that mid less.prems by auto
      then show ?thesis
        using step 2 r cs mid by (auto split: option.splits) (metis zless_add1_eq not_le add1_zle_eq)
    next
      case 3
      then show ?thesis using step mid c(3) by auto
    qed
  qed
qed


lemma search_table:
  assumes "table_ok items" and "NUL \<notin> set k"
  shows "\<exists>r. search_items items (cstr k) 0 (int (length items) - 1) = Inr r \<and>
    (case r of
       Some mid \<Rightarrow> (k, fildes (items ! nat mid)) \<in> set (table_entries items)
     | None \<Rightarrow> k \<notin> fst ` set (table_entries items))"
proof -
  from search_items_spec [OF assms, of 0 "int (length items) - 1"] obtain r where
    r: "search_items items (cstr k) 0 (int (length items) - 1) = Inr r" and
    cs: "case r of Some mid \<Rightarrow> 0 \<le> mid \<and> mid \<le> int (length items) - 1 \<and> item_key (items ! nat mid) = k
     | None \<Rightarrow> \<forall>i. 0 \<le> i \<and> i \<le> int (length items) - 1 \<longrightarrow> item_key (items ! nat i) \<noteq> k"
    by auto
  show ?thesis
  proof (cases r)
    case (Some mid)
    with cs have "items ! nat mid \<in> set items" by (intro nth_mem) auto
    with Some cs r show ?thesis by (force simp: table_entries_def)
  next
    case None
    have "\<forall>it \<in> set items. item_key it \<noteq> k"
    proof
      fix it
      assume "it \<in> set items"
      then obtain n where "n < length items" "it = items ! n" by (auto simp: in_set_conv_nth)
      with None cs show "item_key it \<noteq> k" by (auto dest: spec [of _ "int n"])
    qed
    then have "k \<notin> fst ` set (table_entries items)" by (auto simp: table_entries_def)
    with None r show ?thesis by simp
  qed
qed

section \<open>What a table promises\<close>

locale keyed_table =
  fixes get :: "'t \<Rightarrow> string \<Rightarrow> int result"
    and invar :: "'t \<Rightarrow> bool"
    and entries :: "'t \<Rightarrow> (string \<times> int) list"
  assumes present: "invar t \<Longrightarrow> NUL \<notin> set k \<Longrightarrow> k \<in> fst ` set (entries t) \<Longrightarrow>
      \<exists>fd. get t k = Inr fd \<and> (k, fd) \<in> set (entries t)"
    and absent: "invar t \<Longrightarrow> NUL \<notin> set k \<Longrightarrow> k \<notin> fst ` set (entries t) \<Longrightarrow> get t k = Inr (-1)"
    and fd_valid: "invar t \<Longrightarrow> (k, fd) \<in> set (entries t) \<Longrightarrow> 0 \<le> fd"
begin

lemma get_total: "invar t \<Longrightarrow> NUL \<notin> set k \<Longrightarrow> \<exists>fd. get t k = Inr fd"
  using present [of t k] absent [of t k] by (cases "k \<in> fst ` set (entries t)") blast+

lemma get_negative_iff:
  "invar t \<Longrightarrow> NUL \<notin> set k \<Longrightarrow> get t k = Inr fd \<Longrightarrow> fd < 0 \<longleftrightarrow> k \<notin> fst ` set (entries t)"
proof (cases "k \<in> fst ` set (entries t)")
  case True
  assume a: "invar t" "NUL \<notin> set k" "get t k = Inr fd"
  from present [OF a(1,2) True] a(3) have "(k, fd) \<in> set (entries t)" by simp
  with fd_valid [OF a(1)] True show "fd < 0 \<longleftrightarrow> k \<notin> fst ` set (entries t)" by force
next
  case False
  assume a: "invar t" "NUL \<notin> set k" "get t k = Inr fd"
  from absent [OF a(1,2) False] a(3) False show "fd < 0 \<longleftrightarrow> k \<notin> fst ` set (entries t)" by simp
qed

lemma get_lookup:
  assumes "invar t" and "NUL \<notin> set k" and "distinct (List.map fst (entries t))"
  shows "get t k = Inr (case map_of (entries t) k of None \<Rightarrow> -1 | Some fd \<Rightarrow> fd)"
proof (cases "k \<in> fst ` set (entries t)")
  case True
  from present [OF assms(1,2) True] obtain fd where "get t k = Inr fd" "(k, fd) \<in> set (entries t)"
    by blast
  with assms(3) show ?thesis by simp
next
  case False
  then show ?thesis
    using absent [OF assms(1,2)] map_of_eq_None_iff [of "entries t" k] by simp
qed

end

interpretation ct: keyed_table
  "\<lambda>t k. bind_res (content_get t (Some k) f) (\<lambda>(fd, f'). Inr fd)" table_ok table_entries
  for f :: file_env
proof
  fix t :: "item_t list" and k :: string
  assume t: "table_ok t" and k: "NUL \<notin> set k"
  from search_table [OF this] obtain r where r: "search_items t (cstr k) 0 (int (length t) - 1) = Inr r"
    "case r of Some mid \<Rightarrow> (k, fildes (t ! nat mid)) \<in> set (table_entries t)
     | None \<Rightarrow> k \<notin> fst ` set (table_entries t)" by blast
  show "\<exists>fd. bind_res (content_get t (Some k) f) (\<lambda>(fd, f'). Inr fd) = Inr fd \<and>
      (k, fd) \<in> set (table_entries t)" if "k \<in> fst ` set (table_entries t)"
    using that r by (cases r) (auto simp: content_get_def Let_def table_entries_def)
  show "bind_res (content_get t (Some k) f) (\<lambda>(fd, f'). Inr fd) = Inr (-1)"
    if "k \<notin> fst ` set (table_entries t)"
    using that r by (cases r) (force simp: content_get_def Let_def)+
next
  fix t k and fd :: int
  assume "table_ok t" and "(k, fd) \<in> set (table_entries t)"
  then show "0 \<le> fd" by (auto simp: table_ok_def table_entries_def)
qed

interpretation sc: keyed_table "\<lambda>t k. simplecache_get t (Some k)" table_ok table_entries
proof
  fix t :: "item_t list" and k :: string
  assume t: "table_ok t" and k: "NUL \<notin> set k"
  from search_table [OF this] obtain r where r: "search_items t (cstr k) 0 (int (length t) - 1) = Inr r"
    "case r of Some mid \<Rightarrow> (k, fildes (t ! nat mid)) \<in> set (table_entries t)
     | None \<Rightarrow> k \<notin> fst ` set (table_entries t)" by blast
  show "\<exists>fd. simplecache_get t (Some k) = Inr fd \<and> (k, fd) \<in> set (table_entries t)"
    if "k \<in> fst ` set (table_entries t)"
    using that r by (cases r) (auto simp: simplecache_get_def table_entries_def)
  show "simplecache_get t (Some k) = Inr (-1)" if "k \<notin> fst ` set (table_entries t)"
    using that r by (cases r) (force simp: simplecache_get_def)+
qed (auto simp: table_ok_def table_entries_def)

section \<open>Loading a file of entries\<close>

definition word_ok :: "string \<Rightarrow> bool" where
  "word_ok s \<longleftrightarrow> (\<forall>c \<in> set s. c \<noteq> NUL \<and> c \<noteq> SP \<and> c \<noteq> TAB \<and> c \<noteq> LF)"

definition file_line :: "string \<times> string \<Rightarrow> string" where
  "file_line = (\<lambda>(k, p). k @ [SP] @ p @ [LF])"

definition entry_ok :: "(string \<Rightarrow> int) \<Rightarrow> string \<times> string \<Rightarrow> bool" where
  "entry_ok open_fd = (\<lambda>(k, p). word_ok k \<and> word_ok p \<and>
     length (file_line (k, p)) < MAX_KEYLEN \<and> 0 \<le> open_fd p)"

lemma strsep_token:
  assumes "\<forall>c \<in> set xs. c \<noteq> SP \<and> c \<noteq> TAB \<and> c \<noteq> NUL" and "i = length pre"
    and "c = SP \<or> c = TAB \<or> c = NUL"
  shows "strsep (pre @ xs @ c # zs) (Some i) [SP, TAB] =
    (if c = NUL then Inr (Some i, pre @ xs @ c # zs, None)
     else Inr (Some i, pre @ xs @ NUL # zs, Some (Suc (i + length xs))))"
proof -
  have "mem_span (pre @ xs @ c # zs) (\<lambda>d. d \<notin> set [SP, TAB] \<and> d \<noteq> NUL) i = Inr (i + length xs)"
    using assms by (intro mem_span_at) auto
  then show ?thesis
    using assms(2) by (auto simp: strsep_def nth_append list_update_append)
qed

text \<open>The last byte of the line is lost, whatever it is.\<close>

lemma read_item_line:
  assumes "word_ok k" and "word_ok p" and "c \<noteq> NUL"
  shows "read_item open_fd (cstr (k @ [SP] @ p @ [c])) =
    (if open_fd p < 0 then Inl (Exit 1)
     else Inr \<lparr>fildes = open_fd p, key = k @ NUL # p @ [NUL, NUL]\<rparr>)"
proof -
  let ?s = "k @ [SP] @ p @ [c]"
  have nn: "NUL \<notin> set ?s" using assms by (auto simp: word_ok_def)
  have cut: "(cstr ?s)[length ?s - 1 := NUL] = k @ SP # p @ [NUL, NUL]"
    by (simp add: cstr_def list_update_append)
  have kw: "\<forall>c \<in> set k. c \<noteq> SP \<and> c \<noteq> TAB \<and> c \<noteq> NUL" and pw: "\<forall>c \<in> set p. c \<noteq> SP \<and> c \<noteq> TAB \<and> c \<noteq> NUL"
    using assms by (auto simp: word_ok_def)
  have s1: "strsep (k @ SP # p @ [NUL, NUL]) (Some 0) [SP, TAB] =
      Inr (Some 0, k @ NUL # p @ [NUL, NUL], Some (Suc (length k)))"
    using strsep_token [OF kw, of 0 "[]" SP "p @ [NUL, NUL]"] by simp
  have s2: "strsep (k @ NUL # p @ [NUL, NUL]) (Some (Suc (length k))) [SP, TAB] =
      Inr (Some (Suc (length k)), k @ NUL # p @ [NUL, NUL], None)"
    using strsep_token [OF pw, of "Suc (length k)" "k @ [NUL]" NUL "[NUL]"] by simp
  have "NUL \<notin> set p" using pw by auto
  then have "cstr_at (k @ NUL # p @ [NUL, NUL]) (Suc (length k)) = Inr p"
    by (simp add: cstr_at_def)
  then show ?thesis
    using s1 s2 cut nn by (simp add: read_item_def cstr_at_def Let_def)
qed

lemma fgets_line:
  assumes "entry_ok open_fd e"
  shows "fgets MAX_KEYLEN (file_line e @ rest) = Some (file_line e, rest)"
proof -
  obtain k p where e: "e = (k, p)" by (cases e)
  have tw: "takeWhile (\<lambda>c. c \<noteq> LF) (file_line e @ rest) = k @ [SP] @ p"
    using assms by (auto simp: e entry_ok_def file_line_def word_ok_def takeWhile_tail
        takeWhile_append2)
  have len: "Suc (length (k @ [SP] @ p)) = length (file_line e)"
    by (simp add: e file_line_def)
  have "file_line e \<noteq> []" by (simp add: e file_line_def)
  then show ?thesis
    unfolding fgets_def tw len Let_def using assms by (simp add: e entry_ok_def MAX_KEYLEN_def)
qed

definition loaded_item :: "(string \<Rightarrow> int) \<Rightarrow> string \<times> string \<Rightarrow> item_t" where
  "loaded_item open_fd = (\<lambda>(k, p). \<lparr>fildes = open_fd p, key = k @ NUL # p @ [NUL, NUL]\<rparr>)"

lemma load_items_entries:
  assumes "\<forall>e \<in> set es. entry_ok open_fd e" and "length items < capacity"
    and "2 * int (length items + length es) \<le> int_max"
  shows "load_items open_fd (concat (List.map file_line es)) capacity items =
    Inr (items @ List.map (loaded_item open_fd) es)"
  using assms
proof (induction es arbitrary: items capacity)
  case Nil
  then show ?case by (simp add: load_items.simps [of _ "[]"] fgets_def)
next
  case (Cons e es)
  obtain k p where e: "e = (k, p)" by (cases e)
  have ok: "entry_ok open_fd e" using Cons.prems by simp
  have "read_item open_fd (cstr (file_line e)) = Inr (loaded_item open_fd e)"
    using read_item_line [of k p LF open_fd] ok by (auto simp: e entry_ok_def file_line_def loaded_item_def)
  then have step: "load_items open_fd (file_line e @ concat (List.map file_line es)) capacity items =
      (if Suc (length items) = capacity then
         if 2 * int capacity > int_max then Inl Signed_Overflow
         else load_items open_fd (concat (List.map file_line es)) (2 * capacity)
                (items @ [loaded_item open_fd e])
       else load_items open_fd (concat (List.map file_line es)) capacity
              (items @ [loaded_item open_fd e]))"
    using Cons.prems(2) fgets_line [OF ok, of "concat (List.map file_line es)"]
    by (subst load_items.simps) (simp add: Let_def)
  show ?case
    using step Cons.prems Cons.IH [of "items @ [loaded_item open_fd e]" "2 * capacity"]
      Cons.IH [of "items @ [loaded_item open_fd e]" capacity]
    by auto
qed


lemma loaded_table:
  assumes "\<forall>e \<in> set es. entry_ok open_fd e"
  defines "t \<equiv> sort_key item_key (List.map (loaded_item open_fd) es)"
  shows "table_ok t" and "mset (table_entries t) = mset (List.map (\<lambda>(k, p). (k, open_fd p)) es)"
proof -
  have "item_key (loaded_item open_fd e) = fst e \<and> fildes (loaded_item open_fd e) = open_fd (snd e) \<and>
      NUL \<in> set (key (loaded_item open_fd e))" if "e \<in> set es" for e
  proof -
    have "\<forall>c \<in> set (fst e). c \<noteq> NUL"
      using bspec [OF assms(1) that] by (cases e) (simp add: entry_ok_def word_ok_def)
    then have "takeWhile (\<lambda>c. c \<noteq> NUL) (fst e @ NUL # r) = fst e @ takeWhile (\<lambda>c. c \<noteq> NUL) (NUL # r)"
      for r
      by (intro takeWhile_append2) blast
    then show ?thesis by (cases e) (simp add: loaded_item_def item_key_def)
  qed
  note facts = this
  show "table_ok t"
    using facts assms(1) by (fastforce simp: t_def table_ok_def entry_ok_def)
  have "mset (table_entries t) =
      image_mset (\<lambda>it. (item_key it, fildes it)) (mset (List.map (loaded_item open_fd) es))"
    by (simp add: t_def table_entries_def)
  also have "\<dots> = mset (List.map (\<lambda>e. (item_key (loaded_item open_fd e),
      fildes (loaded_item open_fd e))) es)"
    by (simp add: multiset.map_comp comp_def)
  also have "\<dots> = mset (List.map (\<lambda>(k, p). (k, open_fd p)) es)"
    using facts by (intro arg_cong [of _ _ mset] List.map_cong) auto
  finally show "mset (table_entries t) = mset (List.map (\<lambda>(k, p). (k, open_fd p)) es)" .
qed

text \<open>The table of a content file as a map.\<close>

lemma content_loaded:
  assumes "\<forall>e \<in> set es. entry_ok open_fd e" and "length es < 2 ^ 29" and "distinct (List.map fst es)"
  shows "\<exists>t. content_init open_fd (Some (concat (List.map file_line es))) = Inr t \<and> table_ok t \<and>
    mset (table_entries t) = mset (List.map (\<lambda>(k, p). (k, open_fd p)) es) \<and>
    distinct (List.map fst (table_entries t)) \<and>
    (\<forall>k. map_of (table_entries t) k = map_option open_fd (map_of es k))"
proof -
  let ?t = "sort_key item_key (List.map (loaded_item open_fd) es)"
  let ?es = "List.map (\<lambda>(k, p). (k, open_fd p)) es"
  have load: "content_init open_fd (Some (concat (List.map file_line es))) = Inr ?t"
    using load_items_entries [OF assms(1), of "[]" 16] assms(2)
    by (simp add: content_init_def int_max_def)
  note t = loaded_table [OF assms(1)]
  have fst: "List.map fst ?es = List.map fst es" by (simp add: case_prod_beta comp_def)
  have "mset (List.map fst (table_entries ?t)) = mset (List.map fst ?es)"
    using arg_cong [OF t(2), of "image_mset fst"] by (simp only: mset_map)
  then have d: "distinct (List.map fst (table_entries ?t))"
    using assms(3) fst by (metis mset_eq_imp_distinct_iff)
  have de: "distinct (List.map fst ?es)" unfolding fst by (rule assms(3))
  have "map_of (table_entries ?t) k = Some v \<longleftrightarrow> map_of ?es k = Some v" for k v
    unfolding map_of_eq_Some_iff [OF d] map_of_eq_Some_iff [OF de] mset_eq_setD [OF t(2)] ..
  then have "map_of (table_entries ?t) k = map_of ?es k" for k by (metis option.exhaust)
  then have "map_of (table_entries ?t) k = map_option open_fd (map_of es k)" for k
    by (simp add: map_of_map case_prod_beta)
  with load t d show ?thesis by blast
qed

section \<open>Properties\<close>

text \<open>
  Property C16. A content file is loaded completely and can be looked up: for any file of at most
  \<open>2^29\<close> lines \<open>key path\<close> of less than 256 bytes whose paths can be opened,
  \<open>content_init\<close> gives a table with exactly one entry per line; on it \<open>content_get\<close>
  never runs out of the array, returns the descriptor of the key's path and rewinds it when the
  key is there, and returns -1 when it is not.
\<close>

theorem content_init_get:
  assumes "\<forall>e \<in> set es. entry_ok open_fd e" and "length es < 2 ^ 29"
    and "distinct (List.map fst es)" and "NUL \<notin> set k"
  shows "\<exists>t. content_init open_fd (Some (concat (List.map file_line es))) = Inr t \<and>
    mset (table_entries t) = mset (List.map (\<lambda>(k, p). (k, open_fd p)) es) \<and>
    content_get t (Some k) f =
      (case map_of es k of
         None \<Rightarrow> Inr (-1, f)
       | Some p \<Rightarrow> Inr (open_fd p, lseek_set f (open_fd p) 0))"
proof -
  let ?t = "sort_key item_key (List.map (loaded_item open_fd) es)"
  have load: "content_init open_fd (Some (concat (List.map file_line es))) = Inr ?t"
    using load_items_entries [OF assms(1), of "[]" 16] assms(2)
    by (simp add: content_init_def int_max_def)
  note t = loaded_table [OF assms(1)]
  have st: "set (table_entries ?t) = (\<lambda>(k, p). (k, open_fd p)) ` set es"
    using arg_cong [OF t(2), of set_mset] by simp
  from search_table [OF t(1) assms(4)] obtain r where
    r: "search_items ?t (cstr k) 0 (int (length ?t) - 1) = Inr r" and
    cs: "case r of Some mid \<Rightarrow> (k, fildes (?t ! nat mid)) \<in> set (table_entries ?t)
     | None \<Rightarrow> k \<notin> fst ` set (table_entries ?t)" by blast
  have "content_get ?t (Some k) f =
      (case map_of es k of
         None \<Rightarrow> Inr (-1, f)
       | Some p \<Rightarrow> Inr (open_fd p, lseek_set f (open_fd p) 0))"
  proof (cases r)
    case None
    then have "map_of es k = None"
      using cs st by (force simp: map_of_eq_None_iff)
    with None r show ?thesis by (simp add: content_get_def)
  next
    case (Some mid)
    then obtain p where p: "(k, p) \<in> set es" "fildes (?t ! nat mid) = open_fd p"
      using cs st by auto
    then have "map_of es k = Some p" using assms(3) by simp
    moreover have "set ?t \<noteq> {}" using p(1) by auto
    then have "?t \<noteq> []" by force
    ultimately show ?thesis using Some r p(2) by (simp add: content_get_def Let_def)
  qed
  with load t(2) show ?thesis by blast
qed

text \<open>Descriptors for two files, as \<open>open\<close> might give them.\<close>

definition sample_open :: "string \<Rightarrow> int" where
  "sample_open p = (if p = ''f1'' then 3 else if p = ''f2'' then 4 else -1)"

definition sample_files :: "(string \<times> string) list" where
  "sample_files = [(''/b'', ''f1''), (''/a'', ''f2'')]"

lemma sample_files_ok: "\<forall>e \<in> set sample_files. entry_ok sample_open e"
  by (simp add: sample_files_def entry_ok_def word_ok_def file_line_def sample_open_def
      MAX_KEYLEN_def)

definition sample_env :: "file_env" where
  "sample_env = \<lparr>fdata = (\<lambda>fd. if fd = 4 then ''contents'' else []), foffset = (\<lambda>fd. 0),
     rlimits = []\<rparr>"

theorem content_init_get_witness:
  "\<exists>t. content_init sample_open (Some (concat (List.map file_line sample_files))) = Inr t \<and>
    content_get t (Some ''/a'') sample_env = Inr (4, lseek_set sample_env 4 0)"
  using content_init_get [OF sample_files_ok, of "''/a''" sample_env]
  by (auto simp: sample_files_def sample_open_def)


definition sample_table :: "item_t list" where
  "sample_table = [\<lparr>fildes = 4, key = cstr ''/a''\<rparr>, \<lparr>fildes = 3, key = cstr ''/b''\<rparr>]"

lemma sample_table_ok:
  "table_ok sample_table" "table_entries sample_table = [(''/a'', 4), (''/b'', 3)]"
  by (simp_all add: sample_table_def table_ok_def table_entries_def item_key_def cstr_def less_eq_char_def)


text \<open>
  Further fact. A last line without a line feed loses the last byte of its path, because the byte
  before the terminator is cut off without a look at it: \<open>content_init\<close> opens the shorter
  path, and exits if that fails.
\<close>

theorem content_last_line:
  assumes "word_ok k" and "word_ok (p @ [c])" and "length k + length p + 2 < MAX_KEYLEN"
  shows "content_init open_fd (Some (k @ [SP] @ p @ [c])) =
    (if open_fd p < 0 then Inl (Exit 1)
     else Inr [\<lparr>fildes = open_fd p, key = k @ NUL # p @ [NUL, NUL]\<rparr>])"
proof -
  let ?s = "k @ [SP] @ p @ [c]"
  have p: "word_ok p" "c \<noteq> NUL" using assms(2) by (auto simp: word_ok_def)
  have "takeWhile (\<lambda>d. d \<noteq> LF) ?s = ?s"
    using assms(1,2) by (intro takeWhile_eq_all_conv [THEN iffD2]) (auto simp: word_ok_def)
  then have "fgets MAX_KEYLEN ?s = Some (?s, [])"
    using assms(3) by (simp add: fgets_def MAX_KEYLEN_def)
  then have "load_items open_fd ?s 16 [] =
      bind_res (read_item open_fd (cstr ?s)) (\<lambda>it. load_items open_fd [] 16 [it])"
    by (subst load_items.simps) (simp only: Let_def, simp)
  moreover have "load_items open_fd [] 16 [it] = Inr [it]" for it
    by (subst load_items.simps) (simp add: fgets_def)
  ultimately show ?thesis
    unfolding content_init_def read_item_line [OF assms(1) p] by simp
qed

theorem content_last_line_witness:
  "content_init sample_open (Some (''/a'' @ [SP] @ ''f'' @ ''1'')) = Inl (Exit 1)"
  using content_last_line [of "''/a''" "''f''" "CHR ''1''" sample_open]
  by (simp add: word_ok_def MAX_KEYLEN_def sample_open_def)

end
