(* ===== verification/Handler.thy ===== *)
theory Handler
  imports Gfserver_Request Content
begin

text \<open>
  The handlers that send a file: \<open>handler_get\<close> of
  \<open>project1/ud923-project1-gflib/handler.c\<close>, \<open>handler_perform\<close> of
  \<open>project1/ud923-project1-mtgf/handler.c\<close> and \<open>handle_with_file\<close> of
  \<open>project3/handle_with_file.c\<close>. The last two are linked against a server library whose
  source is not in the repository, so its calls are parameters; what all three rely on is the
  locale \<open>gfs_api\<close>, which the library of \<open>gfserver.c\<close> is shown to provide.
\<close>

section \<open>The transfer loop\<close>

text \<open>
  The loop common to the handlers, on the number of bytes transferred: a read that gives
  nothing or fails, or a send that is not complete, ends it through \<open>fail\<close>.
\<close>

lemma diff_less_nonempty: "bs \<noteq> [] \<Longrightarrow> k < n \<Longrightarrow> n - (k + length bs) < n - k"
  by (cases bs) auto

function transfer_loop ::
  "(file_env \<Rightarrow> nat \<Rightarrow> string option \<times> file_env) \<Rightarrow> ('c \<Rightarrow> string \<Rightarrow> int \<times> 'c) \<Rightarrow>
   ('c \<Rightarrow> int \<times> 'c) \<Rightarrow> 'c \<Rightarrow> file_env \<Rightarrow> nat \<Rightarrow> nat \<Rightarrow> int \<times> 'c \<times> file_env" where
  "transfer_loop rd send fail c f len sent =
     (if sent < len then
        (case rd f sent of
           (None, f1) \<Rightarrow> (let (r, c1) = fail c in (r, c1, f1))
         | (Some bs, f1) \<Rightarrow>
             if bs = [] then (let (r, c1) = fail c in (r, c1, f1))
             else (case send c bs of
                     (w, c1) \<Rightarrow>
                       if w \<noteq> int (length bs) then (let (r, c2) = fail c1 in (r, c2, f1))
                       else transfer_loop rd send fail c1 f1 len (sent + length bs)))
      else (int sent, c, f))"
  by pat_completeness auto
termination
  by (relation "measure (\<lambda>(rd, send, fail, c, f, len, sent). len - sent)")
    (auto intro: diff_less_nonempty)

declare transfer_loop.simps [simp del]

section \<open>The handlers\<close>

text \<open>\<open>handler_get\<close> of the single-threaded server, on the content table and the open files.\<close>

definition handler_get ::
  "gfcontext \<Rightarrow> string option \<Rightarrow> 'a \<Rightarrow> item_t list \<times> file_env \<Rightarrow>
     (int \<times> gfcontext \<times> item_t list \<times> file_env) result" where
  "handler_get x p arg = (\<lambda>(items, f).
     bind_res (content_get items p f) (\<lambda>(fd, f1).
       if fd < 0 then
         bind_res (gfs_sendheader x S_GF_FILE_NOT_FOUND 0) (\<lambda>(n, y). Inr (n, y, items, f1))
       else
         let (file_len, f2) = lseek_end f1 fd
         in bind_res (gfs_sendheader x S_GF_OK (nat file_len)) (\<lambda>(n, y).
              let (r, z, f3) = transfer_loop (\<lambda>g off. pread g fd 4096 off) gfs_send
                                 (\<lambda>c. (-1, gfs_abort c)) y f2 (nat file_len) 0
              in Inr (r, z, items, f3))))"

text \<open>The calls of the server library that the other two programs are linked with.\<close>

record 'c gfs_calls =
  api_sendheader :: "'c \<Rightarrow> int \<Rightarrow> nat \<Rightarrow> (int \<times> 'c) result"
  api_send :: "'c \<Rightarrow> string \<Rightarrow> int \<times> 'c"
  api_abort :: "'c \<Rightarrow> 'c"

definition handler_perform ::
  "'c gfs_calls \<Rightarrow> 'c \<Rightarrow> string option \<Rightarrow> item_t list \<times> file_env \<Rightarrow>
     (int \<times> 'c \<times> item_t list \<times> file_env) result" where
  "handler_perform api x p = (\<lambda>(items, f).
     bind_res (content_get items p f) (\<lambda>(fd, f1).
       if fd < 0 then
         bind_res (api_sendheader api x S_GF_FILE_NOT_FOUND 0) (\<lambda>(n, y). Inr (n, y, items, f1))
       else
         let (file_len, f2) = lseek_end f1 fd
         in bind_res (api_sendheader api x S_GF_OK (nat file_len)) (\<lambda>(n, y).
              let (r, z, f3) = transfer_loop (\<lambda>g off. pread g fd 80 off) (api_send api)
                                 (\<lambda>c. (-1, api_abort api c)) y f2 (nat file_len) 0
              in Inr (r, z, items, f3))))"

text \<open>What \<open>open\<close> answers: a descriptor, no such file, or another error.\<close>

datatype open_answer = Opened int | No_Entry | Open_Failed

definition read_seq :: "file_env \<Rightarrow> int \<Rightarrow> nat \<Rightarrow> string option \<times> file_env" where
  "read_seq f fd n =
     (case pread f fd n (foffset f fd) of
        (None, f1) \<Rightarrow> (None, f1)
      | (Some bs, f1) \<Rightarrow> (Some bs, lseek_set f1 fd (foffset f fd + length bs)))"

text \<open>\<open>strcpy\<close> and \<open>strcat\<close> build the file name in a buffer of 4096 bytes.\<close>

definition handle_with_file ::
  "'c gfs_calls \<Rightarrow> (string \<Rightarrow> open_answer) \<Rightarrow> 'c \<Rightarrow> string option \<Rightarrow> string \<Rightarrow> file_env \<Rightarrow>
     (int \<times> 'c \<times> file_env) result" where
  "handle_with_file api open_file x p data_dir f =
     (case p of
        None \<Rightarrow> Inl Null_Deref
      | Some s \<Rightarrow>
          bind_res (mem_put (replicate 4096 NUL) 0 (cstr (data_dir @ s))) (\<lambda>buf.
          bind_res (cstr_at buf 0) (\<lambda>name.
            case open_file name of
              No_Entry \<Rightarrow>
                bind_res (api_sendheader api x S_GF_FILE_NOT_FOUND 0) (\<lambda>(n, y). Inr (n, y, f))
            | Open_Failed \<Rightarrow> Inr (1, x, f)
            | Opened fd \<Rightarrow>
                let (file_len, f1) = lseek_end f fd;
                    f2 = lseek_set f1 fd 0
                in bind_res (api_sendheader api x S_GF_OK (nat file_len)) (\<lambda>(n, y).
                     let (r, z, f3) = transfer_loop (\<lambda>g off. read_seq g fd 4096)
                                        (api_send api) (\<lambda>c. (1, c)) y f2 (nat file_len) 0
                     in Inr (r, z, f3)))))"

section \<open>What the handlers rely on\<close>

text \<open>
  The server library's contract: what a call reports as accepted is what has been appended to
  the stream, an aborted context gets nothing more, and a context that is ready takes whatever
  it is given.
\<close>

locale gfs_api =
  fixes api :: "'c gfs_calls"
    and wire :: "'c \<Rightarrow> string"
    and ready :: "'c \<Rightarrow> bool"
  assumes send_law: "api_send api c bs = (k, c') \<Longrightarrow>
      k \<le> int (length bs) \<and> wire c' = wire c @ take (nat k) bs"
    and send_ready: "ready c \<Longrightarrow>
      \<exists>c'. api_send api c bs = (int (length bs), c') \<and> ready c'"
    and header_law: "gfs_strstatus st = Inr s \<Longrightarrow> n < 2 ^ 64 \<Longrightarrow>
      \<exists>k c'. api_sendheader api c st n = Inr (k, c') \<and> k \<le> int (length (header_line s n)) \<and>
        wire c' = wire c @ take (nat k) (header_line s n)"
    and header_ready: "ready c \<Longrightarrow> gfs_strstatus st = Inr s \<Longrightarrow> n < 2 ^ 64 \<Longrightarrow>
      \<exists>c'. api_sendheader api c st n = Inr (int (length (header_line s n)), c') \<and> ready c'"
    and abort_law: "wire (api_abort api c) = wire c"
begin

text \<open>Whatever goes wrong, what has been sent is a prefix of the file.\<close>

lemma transfer_prefix:
  fixes at :: "file_env \<Rightarrow> nat \<Rightarrow> bool" and data :: string
  assumes rd: "\<And>g off o1 g1. at g off \<Longrightarrow> rd g off = (o1, g1) \<Longrightarrow>
      (case o1 of None \<Rightarrow> True
       | Some bs \<Rightarrow> bs = take (length bs) (drop off data) \<and> at g1 (off + length bs))"
    and fl: "\<And>c. wire (snd (fail c)) = wire c \<and> fst (fail c) = r0"
    and start: "at f sent"
    and eq: "transfer_loop rd (api_send api) fail c f (length data) sent = (r, c', f')"
    and bound: "sent \<le> length data"
  shows "\<exists>m. wire c' = wire c @ take m (drop sent data) \<and>
    (r = r0 \<or> r = int (length data) \<and> m = length data - sent)"
  using start eq bound
proof (induction "length data - sent" arbitrary: c f sent rule: less_induct)
  case less
  show ?case
  proof (cases "sent < length data")
    case False
    then show ?thesis
      using less.prems by (auto simp: transfer_loop.simps [of rd "api_send api" fail c f])
  next
    case True
    obtain o1 f1 where o1: "rd f sent = (o1, f1)" by fastforce
    show ?thesis
    proof (cases "o1 = None \<or> o1 = Some []")
      case stop: True
      then have "(r, c', f') = (let (r, c1) = fail c in (r, c1, f1))"
        using less.prems(2) o1 True by (subst (asm) transfer_loop.simps) auto
      then have "wire c' = wire c" "r = r0" using fl [of c] by (auto split: prod.splits)
      then show ?thesis by (intro exI [of _ 0]) simp
    next
      case False
      then obtain bs where bs: "o1 = Some bs" "bs \<noteq> []" by auto
      from rd [OF less.prems(1) o1] bs have
        pre: "bs = take (length bs) (drop sent data)" and inv: "at f1 (sent + length bs)" by auto
      have fits: "sent + length bs \<le> length data"
        using arg_cong [OF pre, of length] True by simp
      obtain w c1 where w: "api_send api c bs = (w, c1)" by fastforce
      show ?thesis
      proof (cases "w = int (length bs)")
        case short: False
        then have "(r, c', f') = (let (r, c2) = fail c1 in (r, c2, f1))"
          using less.prems(2) o1 True bs w by (subst (asm) transfer_loop.simps) auto
        then have "wire c' = wire c1" "r = r0" using fl [of c1] by (auto split: prod.splits)
        moreover have "take (nat w) bs = take (min (nat w) (length bs)) (drop sent data)"
          by (subst pre) (simp add: min.commute)
        ultimately show ?thesis using send_law [OF w] by auto
      next
        case True
        with less.prems(2) o1 \<open>sent < length data\<close> bs w have
          "transfer_loop rd (api_send api) fail c1 f1 (length data) (sent + length bs) = (r, c', f')"
          by (subst (asm) transfer_loop.simps) auto
        moreover have "length data - (sent + length bs) < length data - sent"
          using bs \<open>sent < length data\<close> by (cases bs) auto
        ultimately obtain m where m: "wire c' = wire c1 @ take m (drop (sent + length bs) data)"
          "r = r0 \<or> r = int (length data) \<and> m = length data - (sent + length bs)"
          using less.hyps inv fits by blast
        have "take (length bs + m) (drop sent data) = bs @ take m (drop (sent + length bs) data)"
          unfolding take_add drop_drop pre [symmetric] by (simp add: add.commute)
        then have "wire c' = wire c @ take (length bs + m) (drop sent data)"
          using m(1) send_law [OF w] True by simp
        with m(2) fits show ?thesis by (intro exI [of _ "length bs + m"]) auto
      qed
    qed
  qed
qed


text \<open>A disk and a client that accept everything get the whole file across.\<close>

lemma transfer_complete:
  fixes at :: "file_env \<Rightarrow> nat \<Rightarrow> bool" and data :: string
  assumes rd: "\<And>g off. at g off \<Longrightarrow> off < length data \<Longrightarrow>
      \<exists>bs g1. rd g off = (Some bs, g1) \<and> bs \<noteq> [] \<and> bs = take (length bs) (drop off data) \<and>
        at g1 (off + length bs)"
    and start: "at f sent" and rdy: "ready c" and bound: "sent \<le> length data"
  shows "\<exists>c' f'. transfer_loop rd (api_send api) fail c f (length data) sent =
    (int (length data), c', f') \<and> wire c' = wire c @ drop sent data \<and> ready c'"
  using start rdy bound
proof (induction "length data - sent" arbitrary: c f sent rule: less_induct)
  case less
  show ?case
  proof (cases "sent < length data")
    case False
    then show ?thesis
      using less.prems by (simp add: transfer_loop.simps [of rd "api_send api" fail c f])
  next
    case True
    from rd [OF less.prems(1) True] obtain bs f1 where
      r: "rd f sent = (Some bs, f1)" "bs \<noteq> []" "bs = take (length bs) (drop sent data)"
      "at f1 (sent + length bs)" by blast
    have fits: "sent + length bs \<le> length data"
      using arg_cong [OF r(3), of length] True by simp
    from send_ready [OF less.prems(2), of bs] obtain c1 where
      s: "api_send api c bs = (int (length bs), c1)" "ready c1" by blast
    have "bs @ drop (sent + length bs) data = drop sent data"
      using append_take_drop_id [of "length bs" "drop sent data"] r(3)
      by (simp add: add.commute)
    moreover have "wire c1 = wire c @ bs" using send_law [OF s(1)] by simp
    moreover obtain c' f' where
      l: "transfer_loop rd (api_send api) fail c1 f1 (length data) (sent + length bs) =
        (int (length data), c', f')" "wire c' = wire c1 @ drop (sent + length bs) data" "ready c'"
      using less.hyps [OF diff_less_nonempty [OF r(2) True] r(4) s(2) fits] by blast
    moreover have "transfer_loop rd (api_send api) fail c f (length data) sent =
        (int (length data), c', f')"
      using r(1,2) s(1) True l(1) by (subst transfer_loop.simps) simp
    ultimately show ?thesis by auto
  qed
qed

end

text \<open>The library of \<open>gfserver.c\<close> keeps the contract.\<close>

definition gflib_calls :: "gfcontext gfs_calls" where
  "gflib_calls = \<lparr>api_sendheader = gfs_sendheader, api_send = gfs_send, api_abort = gfs_abort\<rparr>"

definition ctx_ready :: "gfcontext \<Rightarrow> bool" where
  "ctx_ready x = (\<not> closed (ctx_conn x) \<and> wlimits (ctx_conn x) = [])"

lemma sock_write_prefix:
  "sock_write c bs = (k, c') \<Longrightarrow> k \<le> int (length bs) \<and> tx c' = tx c @ take (nat k) bs"
proof -
  have "take (nat (min w (int (length bs)))) bs = take (nat w) bs" for w
    by (cases "w \<le> int (length bs)") (simp_all add: min_def)
  then show "sock_write c bs = (k, c') \<Longrightarrow>
      k \<le> int (length bs) \<and> tx c' = tx c @ take (nat k) bs"
    by (auto simp: sock_write_def split: if_splits list.splits)
qed

lemma strstatus_names:
  assumes "gfs_strstatus st = Inr s"
  shows "NUL \<notin> set s \<and> length s \<le> 200"
  using assms by (auto simp: gfs_strstatus_def response_status_def split: if_splits)

interpretation gl: gfs_api gflib_calls "\<lambda>x. tx (ctx_conn x)" ctx_ready
proof
  fix c c' :: gfcontext and bs :: string and k :: int and st :: int and n :: nat and s :: string
  show "k \<le> int (length bs) \<and> tx (ctx_conn c') = tx (ctx_conn c) @ take (nat k) bs"
    if "api_send gflib_calls c bs = (k, c')"
    using that sock_write_prefix [of "ctx_conn c" bs]
    by (auto simp: gflib_calls_def gfs_send_def split: prod.splits)
  show "\<exists>c'. api_send gflib_calls c bs = (int (length bs), c') \<and> ctx_ready c'" if "ctx_ready c"
    using that by (simp add: gflib_calls_def gfs_send_def ctx_ready_def sock_write_all)
  show "tx (ctx_conn (api_abort gflib_calls c)) = tx (ctx_conn c)"
    by (simp add: gflib_calls_def gfs_abort_def sock_shutdown_def)
  assume s: "gfs_strstatus st = Inr s" and n: "n < 2 ^ 64"
  have h: "gfs_sendheader c st n =
      (let (k, d) = sock_write (ctx_conn c) (header_line s n) in Inr (k, c\<lparr>ctx_conn := d\<rparr>))"
    using gfs_sendheader_writes [OF s _ _ n, of c] strstatus_names [OF s] by blast
  obtain k1 d where w: "sock_write (ctx_conn c) (header_line s n) = (k1, d)" by fastforce
  show "\<exists>k c'. api_sendheader gflib_calls c st n = Inr (k, c') \<and>
      k \<le> int (length (header_line s n)) \<and>
      tx (ctx_conn c') = tx (ctx_conn c) @ take (nat k) (header_line s n)"
    using h w sock_write_prefix [OF w] by (simp add: gflib_calls_def)
  show "\<exists>c'. api_sendheader gflib_calls c st n = Inr (int (length (header_line s n)), c') \<and>
      ctx_ready c'" if "ctx_ready c"
    using that h by (simp add: gflib_calls_def ctx_ready_def sock_write_all)
qed

section \<open>Reading the file in pieces\<close>

lemma take_length_take: "take (length (take j xs)) xs = take j xs"
  by (simp add: min_def)

lemma pread_piece:
  assumes "fdata g fd = data" and "pread g fd n off = (o1, g1)"
  shows "case o1 of None \<Rightarrow> True
    | Some bs \<Rightarrow> bs = take (length bs) (drop off data) \<and> fdata g1 fd = data"
proof (cases o1)
  case (Some bs)
  have "\<exists>j. bs = take j (drop off data)"
    using assms Some by (auto simp: pread_def Let_def split: list.splits if_splits)
  moreover have "fdata g1 = fdata g" by (rule pread_fdata [OF assms(2)])
  ultimately show ?thesis
    using Some assms(1) take_length_take [of _ "drop off data"] by (elim exE) simp
qed simp

definition disk_ok :: "file_env \<Rightarrow> bool" where
  "disk_ok g = (\<forall>r \<in> set (rlimits g). 0 < r)"

lemma pread_all:
  assumes "fdata g fd = data" and "disk_ok g" and "off < length data" and "0 < n"
  shows "\<exists>bs g1. pread g fd n off = (Some bs, g1) \<and> bs \<noteq> [] \<and>
    bs = take (length bs) (drop off data) \<and> fdata g1 fd = data \<and> disk_ok g1 \<and>
    foffset g1 = foffset g"
proof -
  obtain bs g1 where p: "pread g fd n off = (Some bs, g1)" "bs \<noteq> []" "disk_ok g1"
    "foffset g1 = foffset g"
    using assms by (cases "rlimits g") (auto simp: pread_def disk_ok_def)
  with pread_piece [OF assms(1) p(1)] show ?thesis by auto
qed

lemma read_seq_piece:
  assumes "fdata g fd = data" and "foffset g fd = off" and "read_seq g fd n = (o1, g1)"
  shows "case o1 of None \<Rightarrow> True
    | Some bs \<Rightarrow> bs = take (length bs) (drop off data) \<and> fdata g1 fd = data \<and>
        foffset g1 fd = off + length bs"
proof -
  obtain o2 g2 where p: "pread g fd n off = (o2, g2)" by fastforce
  with pread_piece [OF assms(1) this] assms(2,3) show ?thesis
    by (cases o2) (auto simp: read_seq_def lseek_set_def)
qed

lemma read_seq_all:
  assumes "fdata g fd = data" and "foffset g fd = off" and "disk_ok g" and "off < length data"
    and "0 < n"
  shows "\<exists>bs g1. read_seq g fd n = (Some bs, g1) \<and> bs \<noteq> [] \<and>
    bs = take (length bs) (drop off data) \<and> fdata g1 fd = data \<and> disk_ok g1 \<and>
    foffset g1 fd = off + length bs"
proof -
  from pread_all [OF assms(1,3-5)] obtain bs g1 where "pread g fd n off = (Some bs, g1)" "bs \<noteq> []"
    "bs = take (length bs) (drop off data)" "fdata g1 fd = data" "disk_ok g1" by blast
  then show ?thesis using assms(2)
    by (intro exI [of _ bs] exI [of _ "lseek_set g1 fd (off + length bs)"])
      (simp add: read_seq_def lseek_set_def disk_ok_def)
qed

context gfs_api
begin

lemma pread_transfer_prefix:
  assumes "fdata f fd = data" and "\<And>c. wire (snd (fail c)) = wire c \<and> fst (fail c) = r0"
    and "transfer_loop (\<lambda>g off. pread g fd n off) (api_send api) fail c f (length data) 0 =
      (r, c', f')"
  shows "\<exists>m. wire c' = wire c @ take m data \<and> (r = r0 \<or> r = int (length data) \<and> m = length data)"
proof -
  have "case o1 of None \<Rightarrow> True
      | Some bs \<Rightarrow> bs = take (length bs) (drop off data) \<and> fdata g1 fd = data"
    if "fdata g fd = data" "pread g fd n off = (o1, g1)" for g off o1 g1
    using pread_piece [OF that] .
  from transfer_prefix [of "\<lambda>g off. fdata g fd = data", OF this assms(2,1,3)] show ?thesis by simp
qed

lemma pread_transfer_complete:
  assumes "fdata f fd = data" and "disk_ok f" and "ready c" and "0 < n"
  shows "\<exists>c' f'. transfer_loop (\<lambda>g off. pread g fd n off) (api_send api) fail c f (length data) 0 =
    (int (length data), c', f') \<and> wire c' = wire c @ data"
proof -
  have "\<exists>bs g1. pread g fd n off = (Some bs, g1) \<and> bs \<noteq> [] \<and> bs = take (length bs) (drop off data) \<and>
      fdata g1 fd = data \<and> disk_ok g1"
    if "fdata g fd = data \<and> disk_ok g" "off < length data" for g off
    using pread_all [of g fd data off n] that assms(4) by blast
  from transfer_complete [where at = "\<lambda>g off. fdata g fd = data \<and> disk_ok g" and rd = "\<lambda>g off. pread g fd n off" and f = f and
      sent = 0 and c = c and fail = fail and data = data, OF this]
  show ?thesis using assms(1-3) by auto
qed

lemma read_transfer_complete:
  assumes "fdata f fd = data" and "foffset f fd = 0" and "disk_ok f" and "ready c" and "0 < n"
  shows "\<exists>c' f'. transfer_loop (\<lambda>g off. read_seq g fd n) (api_send api) fail c f (length data) 0 =
    (int (length data), c', f') \<and> wire c' = wire c @ data"
proof -
  have "\<exists>bs g1. read_seq g fd n = (Some bs, g1) \<and> bs \<noteq> [] \<and> bs = take (length bs) (drop off data) \<and>
      fdata g1 fd = data \<and> foffset g1 fd = off + length bs \<and> disk_ok g1"
    if "fdata g fd = data \<and> foffset g fd = off \<and> disk_ok g" "off < length data" for g off
    using read_seq_all [of g fd data off n] that assms(5) by blast
  from transfer_complete [where at = "\<lambda>g off. fdata g fd = data \<and> foffset g fd = off \<and> disk_ok g" and
      rd = "\<lambda>g off. read_seq g fd n" and f = f and
      sent = 0 and c = c and fail = fail and data = data, OF this]
  show ?thesis using assms(1-4) by auto
qed

text \<open>A content lookup followed by a transfer in pieces of \<open>n\<close> bytes.\<close>

lemma serve_entry:
  assumes "ready c" and "disk_ok f" and "0 < n" and "length (fdata f fd) < 2 ^ 64"
  shows "\<exists>k c1 c' f'. api_sendheader api c S_GF_OK (length (fdata f fd)) = Inr (k, c1) \<and>
    transfer_loop (\<lambda>g off. pread g fd n off) (api_send api) fail c1
      (lseek_set f fd off0) (length (fdata f fd)) 0 = (int (length (fdata f fd)), c', f') \<and>
    wire c' = wire c @ header_line ''OK'' (length (fdata f fd)) @ fdata f fd"
proof -
  let ?d = "fdata f fd"
  from header_ready [OF assms(1) gfs_strstatus_known(1) assms(4)] obtain c1 where
    h: "api_sendheader api c S_GF_OK (length ?d) = Inr (int (length (header_line ''OK'' (length ?d))), c1)"
    and r: "ready c1" by blast
  with header_law [OF gfs_strstatus_known(1) assms(4), of c]
  have w: "wire c1 = wire c @ header_line ''OK'' (length ?d)" by simp
  from pread_transfer_complete [of "lseek_set f fd off0" fd ?d c1 n fail] r assms(2,3) h w
  show ?thesis by (auto simp: lseek_set_def disk_ok_def)
qed

end

section \<open>Lookup and transfer together\<close>

text \<open>What a request for a file has to return and to send, or for a path that has none.\<close>

definition file_reply :: "string option \<Rightarrow> int \<times> string" where
  "file_reply file =
     (case file of
        None \<Rightarrow> (int (length (header_line ''FILE_NOT_FOUND'' 0)), header_line ''FILE_NOT_FOUND'' 0)
      | Some D \<Rightarrow> (int (length D), header_line ''OK'' (length D) @ D))"

lemma disk_ok_lseek [simp]: "disk_ok (lseek_set f fd n) = disk_ok f"
  by (simp add: disk_ok_def lseek_set_def)

lemma content_get_present:
  assumes "table_ok items" and "NUL \<notin> set k" and "distinct (List.map fst (table_entries items))"
    and "map_of (table_entries items) k = Some fd"
  shows "content_get items (Some k) f = Inr (fd, lseek_set f fd 0)" and "0 \<le> fd"
proof -
  from search_table [OF assms(1,2)] obtain r where
    r: "search_items items (cstr k) 0 (int (length items) - 1) = Inr r" and
    cs: "case r of Some mid \<Rightarrow> (k, fildes (items ! nat mid)) \<in> set (table_entries items)
     | None \<Rightarrow> k \<notin> fst ` set (table_entries items)" by blast
  have kin: "(k, fd) \<in> set (table_entries items)" using assms(4) by (rule map_of_SomeD)
  then show "0 \<le> fd" by (rule ct.fd_valid [OF assms(1)])
  obtain mid where mid: "r = Some mid"
    using cs kin by (cases r) force+
  with cs have "map_of (table_entries items) k = Some (fildes (items ! nat mid))"
    using assms(3) by simp
  with assms(4) have "fildes (items ! nat mid) = fd" by simp
  moreover have "items \<noteq> []" using kin by (auto simp: table_entries_def)
  ultimately show "content_get items (Some k) f = Inr (fd, lseek_set f fd 0)"
    using r mid by (simp add: content_get_def Let_def)
qed

lemma content_get_absent:
  assumes "table_ok items" and "NUL \<notin> set k" and "map_of (table_entries items) k = None"
  shows "content_get items (Some k) f = Inr (-1, f)"
proof -
  from search_table [OF assms(1,2)] obtain r where
    r: "search_items items (cstr k) 0 (int (length items) - 1) = Inr r" and
    cs: "case r of Some mid \<Rightarrow> (k, fildes (items ! nat mid)) \<in> set (table_entries items)
     | None \<Rightarrow> k \<notin> fst ` set (table_entries items)" by blast
  have "k \<notin> fst ` set (table_entries items)" using assms(3) by (simp add: map_of_eq_None_iff)
  with cs have "r = None" by (cases r) force+
  with r show ?thesis by (simp add: content_get_def)
qed

context gfs_api
begin

lemma perform_serves:
  assumes "table_ok items" and "NUL \<notin> set k" and "distinct (List.map fst (table_entries items))"
    and "map_of (table_entries items) k = Some fd"
    and "ready c" and "disk_ok f" and "length (fdata f fd) < 2 ^ 64"
  shows "\<exists>c' f'. handler_perform api c (Some k) (items, f) =
      Inr (int (length (fdata f fd)), c', items, f') \<and>
    wire c' = wire c @ header_line ''OK'' (length (fdata f fd)) @ fdata f fd"
proof -
  note look = content_get_present [OF assms(1-4)]
  have "length (fdata (lseek_set f fd 0) fd) < 2 ^ 64" using assms(7) by simp
  from serve_entry [where fail = "\<lambda>c. (-1, api_abort api c)", OF assms(5) _ _ this,
      of 80 "length (fdata f fd)"] assms(6)
  obtain n c1 c' f' where
    s: "api_sendheader api c S_GF_OK (length (fdata f fd)) = Inr (n, c1)"
      "transfer_loop (\<lambda>g off. pread g fd 80 off) (api_send api) (\<lambda>c. (-1, api_abort api c)) c1
        (lseek_set (lseek_set f fd 0) fd (length (fdata f fd))) (length (fdata f fd)) 0 =
        (int (length (fdata f fd)), c', f')"
      "wire c' = wire c @ header_line ''OK'' (length (fdata f fd)) @ fdata f fd"
    by auto
  then show ?thesis
    using look by (simp add: handler_perform_def lseek_end_def Let_def)
qed

lemma file_serves:
  assumes "open_file (data_dir @ p) = Opened fd" and "NUL \<notin> set (data_dir @ p)"
    and "length (data_dir @ p) < 4096"
    and "ready c" and "disk_ok f" and "length (fdata f fd) < 2 ^ 64"
  shows "\<exists>c' f'. handle_with_file api open_file c (Some p) data_dir f =
      Inr (int (length (fdata f fd)), c', f') \<and>
    wire c' = wire c @ header_line ''OK'' (length (fdata f fd)) @ fdata f fd"
proof -
  let ?d = "fdata f fd" and ?s = "data_dir @ p"
  let ?f2 = "lseek_set (lseek_set f fd (length (fdata f fd))) fd 0"
  have name: "mem_put (replicate 4096 NUL) 0 (cstr ?s) =
      Inr (?s @ NUL # replicate (4096 - length (cstr ?s)) NUL)"
    using assms(3) by (simp add: mem_put_0 cstr_def)
  have "cstr_at (?s @ NUL # z) 0 = Inr ?s" for z
    unfolding cstr_at_def drop_0 using assms(2) by (rule scan_nul_append)
  with name have buf: "bind_res (mem_put (replicate 4096 NUL) 0 (cstr ?s))
      (\<lambda>buf. bind_res (cstr_at buf 0) g) = g ?s" for g :: "string \<Rightarrow> 'b result"
    by (simp only: bind_res_simps)
  from header_ready [OF assms(4) gfs_strstatus_known(1) assms(6)] obtain c1 where
    h: "api_sendheader api c S_GF_OK (length ?d) = Inr (int (length (header_line ''OK'' (length ?d))), c1)"
    and r: "ready c1" by blast
  with header_law [OF gfs_strstatus_known(1) assms(6), of c]
  have w: "wire c1 = wire c @ header_line ''OK'' (length ?d)" by simp
  have "fdata ?f2 fd = ?d" "foffset ?f2 fd = 0" "disk_ok ?f2"
    using assms(5) by (simp, simp add: lseek_set_def, simp)
  from read_transfer_complete [OF this r, of 4096 "\<lambda>c. (1, c)"] obtain c' f' where
    "transfer_loop (\<lambda>g off. read_seq g fd 4096) (api_send api) (\<lambda>c. (1, c)) c1 ?f2 (length ?d) 0 =
      (int (length ?d), c', f')" "wire c' = wire c1 @ ?d" by auto
  then show ?thesis
    unfolding handle_with_file_def using h w assms(1)
    by (simp add: buf lseek_end_def Let_def)
qed

end

lemma handler_get_file:
  assumes "table_ok items" and "NUL \<notin> set k" and "distinct (List.map fst (table_entries items))"
    and "map_of (table_entries items) k = Some fd"
    and "ctx_ready x" and "disk_ok f" and "length (fdata f fd) < 2 ^ 64"
  shows "\<exists>y f'. handler_get x (Some k) arg (items, f) =
      Inr (int (length (fdata f fd)), y, items, f') \<and>
    tx (ctx_conn y) = tx (ctx_conn x) @ header_line ''OK'' (length (fdata f fd)) @ fdata f fd"
proof -
  note look = content_get_present [OF assms(1-4)]
  have "length (fdata (lseek_set f fd 0) fd) < 2 ^ 64" using assms(7) by simp
  from gl.serve_entry [where fail = "\<lambda>c. (-1, gfs_abort c)", OF assms(5) _ _ this,
      of 4096 "length (fdata f fd)"] assms(6)
  show ?thesis
    using look by (auto simp: handler_get_def lseek_end_def Let_def gflib_calls_def)
qed

lemma transfer_loop_frame:
  assumes "\<And>g off o1 g1. I g \<Longrightarrow> rd g off = (o1, g1) \<Longrightarrow> I g1"
    and "\<And>c bs w c1. J c \<Longrightarrow> send c bs = (w, c1) \<Longrightarrow> J c1" and "\<And>c. fst (fail c) = r0"
    and "transfer_loop rd send fail c f len sent = (r, c', f')" and "I f" and "J c"
  shows "I f' \<and> (r \<noteq> r0 \<longrightarrow> J c')"
  using assms(4-6)
proof (induction "len - sent" arbitrary: c f sent rule: less_induct)
  case less
  show ?case
  proof (cases "sent < len")
    case False
    with less.prems show ?thesis by (simp add: transfer_loop.simps [of rd send fail c f])
  next
    case True
    obtain o1 f1 where o1: "rd f sent = (o1, f1)" by fastforce
    have I: "I f1" by (rule assms(1) [OF less.prems(2) o1])
    have fl: "fail c2 = (r, c') \<Longrightarrow> r = r0" for c2 using assms(3) [of c2] by simp
    show ?thesis
    proof (cases "o1 = None \<or> o1 = Some []")
      case True
      with less.prems(1) \<open>sent < len\<close> o1 I fl [of c] show ?thesis
        by (auto simp: transfer_loop.simps [of rd send fail c f] split: prod.splits)
    next
      case False
      then obtain bs where bs: "o1 = Some bs" "bs \<noteq> []" by auto
      obtain w c1 where w: "send c bs = (w, c1)" by fastforce
      have J: "J c1" by (rule assms(2) [OF less.prems(3) w])
      show ?thesis
      proof (cases "w = int (length bs)")
        case False
        with less.prems(1) True o1 bs w I fl [of c1] show ?thesis
          by (auto simp: transfer_loop.simps [of rd send fail c f] split: prod.splits)
      next
        case eq: True
        then have "transfer_loop rd send fail c1 f1 len (sent + length bs) = (r, c', f')"
          using less.prems(1) True o1 bs w by (simp add: transfer_loop.simps [of rd send fail c f])
        moreover have "len - (sent + length bs) < len - sent" using True bs(2) by (cases bs) auto
        ultimately show ?thesis using less.hyps I J by blast
      qed
    qed
  qed
qed

text \<open>A request that \<open>handler_get\<close> serves changes neither the files nor the listening socket.\<close>

lemma disk_ok_simps [simp]: "disk_ok (lseek_set f fd n) = disk_ok f"
  by (simp add: disk_ok_def lseek_set_def)

lemma pread_disk_ok: "disk_ok f \<Longrightarrow> pread f fd n off = (r, f') \<Longrightarrow> disk_ok f'"
  by (auto simp: disk_ok_def pread_def Let_def split: list.splits if_splits)

lemma handler_get_frame:
  assumes "handler_get x (Some k) arg (items, f) = Inr (n, y, items', f')" and "0 \<le> n"
    and "content_get items (Some k) f = Inr (fd, lseek_set f fd 0)" and "0 \<le> fd" and "disk_ok f"
  shows "items' = items \<and> fdata f' = fdata f \<and> disk_ok f' \<and> ctx_listener_shut y = ctx_listener_shut x"
proof -
  let ?fail = "\<lambda>c. (-1 :: int, gfs_abort c)"
  let ?len = "length (fdata f fd)" and ?f = "lseek_set (lseek_set f fd 0) fd (length (fdata f fd))"
  from assms(1,3,4) obtain m z where h: "gfs_sendheader x S_GF_OK ?len = Inr (m, z)"
    by (auto simp: handler_get_def lseek_end_def Let_def bind_res_eq_Inr)
  obtain n2 y2 f2 where l2: "transfer_loop (\<lambda>g off. pread g fd 4096 off) gfs_send ?fail z ?f ?len 0 = (n2, y2, f2)"
    by (metis prod_cases3)
  with assms(1,3,4) h have l: "transfer_loop (\<lambda>g off. pread g fd 4096 off) gfs_send ?fail z ?f ?len 0 = (n, y, f')"
    and it: "items' = items"
    by (auto simp: handler_get_def lseek_end_def Let_def)
  have z: "ctx_listener_shut z = ctx_listener_shut x"
    using h by (auto simp: gfs_sendheader_def bind_res_eq_Inr Let_def case_prod_unfold)
  have "(fdata f' = fdata f \<and> disk_ok f') \<and> (n \<noteq> -1 \<longrightarrow> ctx_listener_shut y = ctx_listener_shut x)"
  proof (rule transfer_loop_frame [where rd = "\<lambda>g off. pread g fd 4096 off" and send = gfs_send and fail = ?fail,
        OF _ _ _ l])
    show "fdata g1 = fdata f \<and> disk_ok g1"
      if "fdata g = fdata f \<and> disk_ok g" "pread g fd 4096 off = (o1, g1)" for g off o1 g1
      using that pread_fdata [OF that(2)] pread_disk_ok [OF _ that(2)] by simp
    show "ctx_listener_shut c1 = ctx_listener_shut x"
      if "ctx_listener_shut c = ctx_listener_shut x" "gfs_send c bs = (w, c1)" for c c1 bs w
      using that by (auto simp: gfs_send_def Let_def case_prod_unfold)
  qed (use assms(5) z in simp_all)
  with it assms(2) show ?thesis by simp
qed

section \<open>Properties\<close>

text \<open>
  Further fact. A request for a key of the content table gets exactly its file: with a client that
  takes what it is sent and a disk that gives at least a byte per read, however it cuts them,
  \<open>handler_get\<close> writes the header with the file's length followed by the file's bytes and
  returns their number.
\<close>

theorem handler_get_serves:
  assumes "table_ok items" and "NUL \<notin> set k" and "distinct (List.map fst (table_entries items))"
    and "map_of (table_entries items) k = Some fd"
    and "ctx_ready x" and "disk_ok f" and "length (fdata f fd) < 2 ^ 64"
  shows "\<exists>y f'. handler_get x (Some k) arg (items, f) =
      Inr (int (length (fdata f fd)), y, items, f') \<and>
    tx (ctx_conn y) = tx (ctx_conn x) @ header_line ''OK'' (length (fdata f fd)) @ fdata f fd"
  by (rule handler_get_file [OF assms])

lemma sample_ready: "ctx_ready (gfcontext_create False (new_conn [] []))"
  by (simp add: ctx_ready_def gfcontext_create_def new_conn_def)

theorem handler_get_serves_witness:
  "\<exists>y f'. handler_get (gfcontext_create False (new_conn [] [])) (Some ''/a'') ()
      (sample_table, sample_env) = Inr (8, y, sample_table, f') \<and>
    tx (ctx_conn y) = header_line ''OK'' (length ''contents'') @ ''contents''"
  using handler_get_serves [OF sample_table_ok(1) _ _ _ sample_ready, of "''/a''" 4 sample_env "()"]
  by (auto simp: sample_table_ok(2) sample_env_def disk_ok_def gfcontext_create_def new_conn_def)

text \<open>
  Further fact. A key that is not in the table is answered with \<open>FILE_NOT_FOUND\<close> and nothing
  else, by the handlers of both servers.
\<close>

theorem handler_get_not_found:
  assumes "table_ok items" and "NUL \<notin> set k" and "map_of (table_entries items) k = None"
    and "ctx_ready x"
  shows "\<exists>n y. handler_get x (Some k) arg (items, f) = Inr (n, y, items, f) \<and>
    handler_perform gflib_calls x (Some k) (items, f) = Inr (n, y, items, f) \<and>
    tx (ctx_conn y) = tx (ctx_conn x) @ header_line ''FILE_NOT_FOUND'' 0"
proof -
  from gl.header_ready [OF assms(4) gfs_strstatus_known(2), of 0] obtain y where
    h: "gfs_sendheader x S_GF_FILE_NOT_FOUND 0 =
      Inr (int (length (header_line ''FILE_NOT_FOUND'' 0)), y)"
    by (auto simp: gflib_calls_def)
  moreover have "tx (ctx_conn y) = tx (ctx_conn x) @ header_line ''FILE_NOT_FOUND'' 0"
    using gl.header_law [OF gfs_strstatus_known(2), of 0 x] h by (simp add: gflib_calls_def)
  ultimately show ?thesis
    using content_get_absent [OF assms(1-3), of f]
    by (simp add: handler_get_def handler_perform_def gflib_calls_def)
qed

theorem handler_get_not_found_witness:
  "\<exists>n y. handler_get (gfcontext_create False (new_conn [] [])) (Some ''/c'') ()
      (sample_table, sample_env) = Inr (n, y, sample_table, sample_env) \<and>
    tx (ctx_conn y) = header_line ''FILE_NOT_FOUND'' 0"
  using handler_get_not_found [OF sample_table_ok(1) _ _ sample_ready, of "''/c''" "()" sample_env]
  by (auto simp: sample_table_ok(2) gfcontext_create_def new_conn_def)

text \<open>The answer to the header's write, and what follows it.\<close>

lemma handler_get_parts:
  assumes "table_ok items" and "NUL \<notin> set k" and "distinct (List.map fst (table_entries items))"
    and "map_of (table_entries items) k = Some fd" and "length (fdata f fd) < 2 ^ 64"
    and w: "sock_write (ctx_conn x) (header_line ''OK'' (length (fdata f fd))) = (n, d)"
  shows "\<exists>r y f' m. handler_get x (Some k) arg (items, f) = Inr (r, y, items, f') \<and>
    tx (ctx_conn y) = tx (ctx_conn x) @ take (nat n) (header_line ''OK'' (length (fdata f fd))) @
      take m (fdata f fd) \<and>
    (r = -1 \<or> r = int (length (fdata f fd)) \<and> m = length (fdata f fd)) \<and>
    (disk_ok f \<longrightarrow> \<not> closed d \<longrightarrow> wlimits d = [] \<longrightarrow> r = int (length (fdata f fd)))"
proof -
  let ?d = "fdata f fd" and ?f2 = "lseek_set (lseek_set f fd 0) fd (length (fdata f fd))"
  let ?H = "header_line ''OK'' (length ?d)" and ?y = "x\<lparr>ctx_conn := d\<rparr>"
  let ?fail = "\<lambda>c. (-1 :: int, gfs_abort c)"
  note look = content_get_present [OF assms(1-4)]
  note s = gfs_strstatus_known(1)
  have h: "gfs_sendheader x S_GF_OK (length ?d) = Inr (n, ?y)"
    using gfs_sendheader_writes [OF s _ _ assms(5), of x] strstatus_names [OF s] w by simp
  have d: "tx d = tx (ctx_conn x) @ take (nat n) ?H"
    using sock_write_prefix [OF w] by simp
  obtain r z f3 where l: "transfer_loop (\<lambda>g off. pread g fd 4096 off) gfs_send ?fail ?y ?f2 (length ?d) 0 =
      (r, z, f3)" by (metis prod_cases3)
  have fail: "tx (ctx_conn (snd (?fail c))) = tx (ctx_conn c) \<and> fst (?fail c) = -1" for c
    using gl.abort_law [of c] by (simp add: gflib_calls_def)
  have "\<exists>m. tx (ctx_conn z) = tx (ctx_conn ?y) @ take m ?d \<and>
      (r = -1 \<or> r = int (length ?d) \<and> m = length ?d)"
    using gl.pread_transfer_prefix [of ?f2 fd ?d ?fail "-1" 4096 ?y r z f3, OF _ fail] l
    by (simp add: gflib_calls_def)
  then obtain m where m: "tx (ctx_conn z) = tx (ctx_conn ?y) @ take m ?d"
      "r = -1 \<or> r = int (length ?d) \<and> m = length ?d" by blast
  have "r = int (length ?d)" if "disk_ok f" "\<not> closed d" "wlimits d = []"
    using gl.pread_transfer_complete [of ?f2 fd ?d ?y 4096 ?fail] l that
    by (auto simp: gflib_calls_def ctx_ready_def disk_ok_def lseek_set_def)
  moreover have "handler_get x (Some k) arg (items, f) = Inr (r, z, items, f3)"
    using look h l by (simp add: handler_get_def lseek_end_def Let_def)
  ultimately show ?thesis
    using m d by (intro exI [of _ r] exI [of _ z] exI [of _ f3] exI [of _ m]) simp
qed

text \<open>
  Property C31. Whatever the disk and the client do, if the client takes the header whole, as its
  answer \<open>n\<close> to the first write says, \<open>handler_get\<close> sends a prefix of header and file, and a result
  other than -1 means that all of it has been sent. If it takes the header only in part, which
  \<open>handler_get\<close> does not test, that part is followed by a prefix of the file, the whole file where
  the result is not -1.
\<close>

theorem handler_get_prefix:
  assumes "table_ok items" and "NUL \<notin> set k" and "distinct (List.map fst (table_entries items))"
    and "map_of (table_entries items) k = Some fd" and "length (fdata f fd) < 2 ^ 64"
    and "header = header_line ''OK'' (length (fdata f fd))"
  shows "\<exists>n d r y f' sent. sock_write (ctx_conn x) header = (n, d) \<and>
    handler_get x (Some k) arg (items, f) = Inr (r, y, items, f') \<and>
    tx (ctx_conn y) = tx (ctx_conn x) @ sent \<and>
    (n = int (length header) \<longrightarrow> (\<exists>m. sent = take m (header @ fdata f fd)) \<and>
       (r = -1 \<or> r = int (length (fdata f fd)) \<and> sent = header @ fdata f fd)) \<and>
    (n \<noteq> int (length header) \<longrightarrow> (\<exists>m. sent = take (nat n) header @ take m (fdata f fd) \<and>
       (r = -1 \<or> r = int (length (fdata f fd)) \<and> m = length (fdata f fd))))"
proof -
  obtain n d where w: "sock_write (ctx_conn x) header = (n, d)" by fastforce
  from handler_get_parts [OF assms(1-5) w [unfolded assms(6)], of arg] obtain r y f' m where
    run: "handler_get x (Some k) arg (items, f) = Inr (r, y, items, f')"
    and tx: "tx (ctx_conn y) = tx (ctx_conn x) @ take (nat n) header @ take m (fdata f fd)"
    and r: "r = -1 \<or> r = int (length (fdata f fd)) \<and> m = length (fdata f fd)"
    unfolding assms(6) by blast
  have "take (length header + m) (header @ fdata f fd) = header @ take m (fdata f fd)" by simp
  then have "\<exists>j. header @ take m (fdata f fd) = take j (header @ fdata f fd)" by metis
  with w run tx r show ?thesis
    by (intro exI [of _ n] exI [of _ d] exI [of _ r] exI [of _ y] exI [of _ f']
        exI [of _ "take (nat n) header @ take m (fdata f fd)"]) auto
qed

theorem handler_get_prefix_witness:
  "\<exists>n d r y f' m. sock_write (new_conn [] [100, 2]) (header_line ''OK'' (length ''contents'')) = (n, d) \<and>
    n = int (length (header_line ''OK'' (length ''contents''))) \<and>
    handler_get (gfcontext_create False (new_conn [] [100, 2])) (Some ''/a'') ()
      (sample_table, sample_env) = Inr (r, y, sample_table, f') \<and>
    tx (ctx_conn y) = take m (header_line ''OK'' (length ''contents'') @ ''contents'') \<and>
    (r = -1 \<or> tx (ctx_conn y) = header_line ''OK'' (length ''contents'') @ ''contents'')"
proof -
  have len: "length (header_line ''OK'' (length ''contents'')) = 16" by code_simp
  have data: "fdata sample_env 4 = ''contents''" by (simp add: sample_env_def)
  have conn: "ctx_conn (gfcontext_create False (new_conn [] [100, 2])) = new_conn [] [100, 2]"
    "tx (new_conn [] [100, 2]) = []" by (simp_all add: gfcontext_create_def new_conn_def)
  from len have w: "sock_write (new_conn [] [100, 2]) (header_line ''OK'' (length ''contents'')) =
      (16, new_conn [] [2]\<lparr>tx := header_line ''OK'' (length ''contents'')\<rparr>)"
    by (simp add: sock_write_def new_conn_def)
  have "table_ok sample_table" "NUL \<notin> set ''/a''" "distinct (List.map fst (table_entries sample_table))"
    "map_of (table_entries sample_table) ''/a'' = Some 4" "length (fdata sample_env 4) < 2 ^ 64"
    using sample_table_ok by (simp_all add: data)
  from handler_get_prefix [OF this refl, of "gfcontext_create False (new_conn [] [100, 2])" "()"]
  show ?thesis unfolding data conn w using len by (elim exE conjE) (simp, blast)
qed

text \<open>
  Further fact. The result of \<open>gfs_sendheader\<close> is not tested: if the client takes only the first \<open>j\<close>
  bytes of the header and then everything, \<open>handler_get\<close> sends the file after the cut header and
  reports success.
\<close>

theorem handler_get_cut_header:
  assumes "table_ok items" and "NUL \<notin> set k" and "distinct (List.map fst (table_entries items))"
    and "map_of (table_entries items) k = Some fd" and "length (fdata f fd) < 2 ^ 64" and "disk_ok f"
    and "\<not> closed (ctx_conn x)" and "wlimits (ctx_conn x) = [int j]"
    and "j < length (header_line ''OK'' (length (fdata f fd)))"
  shows "\<exists>y f'. handler_get x (Some k) arg (items, f) = Inr (int (length (fdata f fd)), y, items, f') \<and>
    tx (ctx_conn y) = tx (ctx_conn x) @ take j (header_line ''OK'' (length (fdata f fd))) @ fdata f fd"
proof -
  let ?H = "header_line ''OK'' (length (fdata f fd))"
  have "sock_write (ctx_conn x) ?H =
      (int j, ctx_conn x\<lparr>tx := tx (ctx_conn x) @ take j ?H, wlimits := []\<rparr>)"
    using assms(7-9) by (simp add: sock_write_def)
  from handler_get_parts [OF assms(1-5) this, of arg] assms(6,7) show ?thesis by auto
qed

theorem handler_get_cut_header_witness:
  "\<exists>y f'. handler_get (gfcontext_create False (new_conn [] [5])) (Some ''/a'') () (sample_table, sample_env) =
      Inr (8, y, sample_table, f') \<and> tx (ctx_conn y) = ''GETFI'' @ ''contents''"
proof -
  have h: "take 5 (header_line ''OK'' (length ''contents'')) = ''GETFI''"
    "5 < length (header_line ''OK'' (length ''contents''))" by code_simp+
  then show ?thesis
    using handler_get_cut_header [OF sample_table_ok(1), of "''/a''" 4 sample_env
        "gfcontext_create False (new_conn [] [5])" 5 "()"] sample_table_ok
    by (auto simp: sample_env_def disk_ok_def gfcontext_create_def new_conn_def)
qed

text \<open>
  Further fact. The multithreaded server's worker and the file handler of the proxy serve the same
  bytes over any server library that keeps the contract of sending: the worker in pieces of 80
  bytes through the content table, the proxy's handler in pieces of 4096 from the directory it
  was given.
\<close>

theorem handlers_serve:
  assumes "gfs_api api wire ready" and "ready c" and "disk_ok f"
    and "length (fdata f fd) < 2 ^ 64"
    and "table_ok items" and "NUL \<notin> set k" and "distinct (List.map fst (table_entries items))"
    and "map_of (table_entries items) k = Some fd"
    and "open_file (data_dir @ k) = Opened fd" and "NUL \<notin> set data_dir"
    and "length data_dir + length k < 4096"
  shows "\<exists>c1 f1 c2 f2. handler_perform api c (Some k) (items, f) =
      Inr (int (length (fdata f fd)), c1, items, f1) \<and>
    handle_with_file api open_file c (Some k) data_dir f =
      Inr (int (length (fdata f fd)), c2, f2) \<and>
    wire c1 = wire c @ header_line ''OK'' (length (fdata f fd)) @ fdata f fd \<and> wire c2 = wire c1"
proof -
  from gfs_api.perform_serves [OF assms(1,5-8,2-4)] obtain c1 f1 where
    "handler_perform api c (Some k) (items, f) = Inr (int (length (fdata f fd)), c1, items, f1)"
    "wire c1 = wire c @ header_line ''OK'' (length (fdata f fd)) @ fdata f fd" by blast
  moreover from gfs_api.file_serves [where open_file = open_file and data_dir = data_dir
      and p = k, OF assms(1,9) _ _ assms(2-4)] assms(6,10,11) obtain c2 f2 where
    "handle_with_file api open_file c (Some k) data_dir f = Inr (int (length (fdata f fd)), c2, f2)"
    "wire c2 = wire c @ header_line ''OK'' (length (fdata f fd)) @ fdata f fd" by auto
  ultimately show ?thesis by auto
qed

theorem handlers_serve_witness:
  "\<exists>c1 f1. handler_perform gflib_calls (gfcontext_create False (new_conn [] [])) (Some ''/a'')
      (sample_table, sample_env) = Inr (8, c1, sample_table, f1) \<and>
    tx (ctx_conn c1) = header_line ''OK'' (length ''contents'') @ ''contents''"
  using handlers_serve [OF gl.gfs_api_axioms sample_ready, of sample_env 4 sample_table "''/a''"
      "\<lambda>s. Opened 4" "''/srv''"] sample_table_ok
  by (auto simp: sample_env_def disk_ok_def gfcontext_create_def new_conn_def)

end
