(* ===== verification/Getfile_Transfer.thy ===== *)
theory Getfile_Transfer
  imports Gfclient_Response Handler
begin

text \<open>
  Both ends of the protocol together: the client library's request is what the server library
  parses, and the handler's answer is what the client library parses.
\<close>

section \<open>The two formats agree\<close>

lemma ok_header_is_header_line: "ok_header n 0 = header_line ''OK'' n"
  by (simp add: ok_header_def header_line_def)

lemma request_line_eq: "request_line p = ''GETFILE GET '' @ p @ '' '' @ CRLF2"
  by (simp add: request_line_def)

text \<open>
  What the handler makes of a request that has been parsed; the connection's state after the
  parser is a fresh one except for the input.
\<close>

lemma serve_file:
  assumes "gfs_handler s = Some handler_get" and "stalled es0"
    and "p \<noteq> []" and "SP \<notin> set p" and "NUL \<notin> set p" and "length p \<le> 265"
    and "table_ok items" and "distinct (List.map fst (table_entries items))"
    and "map_of (table_entries items) p = Some fd" and "disk_ok f" and "length (fdata f fd) < 2 ^ 31"
  shows "\<exists>x f'. serve_one s False (new_conn (Chunk (request_line p) # es0) []) (items, f) =
      Inr (x, items, f') \<and>
    tx (ctx_conn x) = header_line ''OK'' (length (fdata f fd)) @ fdata f fd \<and>
    fdata f' = fdata f \<and> disk_ok f' \<and> \<not> ctx_listener_shut x"
proof -
  let ?c = "new_conn (Chunk (request_line p) # es0) []"
  have "rx ?c = Chunk (''GETFILE GET '' @ p @ '' '' @ CRLF2) # es0"
    by (simp add: new_conn_def request_line_eq)
  from process_request_accepts [OF this assms(2-5), of False] assms(6) obtain x where
    x: "process_request (gfcontext_create False ?c) = Inr (-1, x)" "ctx_path x = Some p"
      "\<not> ctx_listener_shut x" "\<exists>es'. ctx_conn x = ?c\<lparr>rx := es'\<rparr>"
    by (auto simp: SBUFSIZE_def)
  then have "ctx_ready x" "tx (ctx_conn x) = []" by (auto simp: ctx_ready_def new_conn_def)
  with handler_get_file [OF assms(7) assms(5) assms(8,9) _ assms(10), of x "gfs_handler_arg s"]
    assms(11)
  obtain y f' where "handler_get x (Some p) (gfs_handler_arg s) (items, f) =
      Inr (int (length (fdata f fd)), y, items, f')"
    "tx (ctx_conn y) = header_line ''OK'' (length (fdata f fd)) @ fdata f fd" by auto
  moreover note handler_get_frame [OF this(1) _ content_get_present [OF assms(7) assms(5) assms(8,9)] assms(10)]
  ultimately show ?thesis
    using x assms(1) by (simp add: serve_one_def accept_rx_connection_def sock_shutdown_def)
qed

section \<open>Properties\<close>

text \<open>
  Property C5. A GETFILE transfer works from end to end: the bytes the client sends for a path in
  the server's content table make the server send an answer that, once the network delivers it
  to the client with its header in the first read and the rest cut in any way, makes
  \<open>process_response\<close> return 0 with status \<open>GF_OK\<close> after handing the write callback
  exactly the bytes of the file.
\<close>

theorem getfile_end_to_end:
  assumes "request_strings h g p" and "gfc_fresh g cb" and "sock g = new_conn [] []"
    and "p \<noteq> []" and "SP \<notin> set p" and "length p \<le> 265"
    and "gfs_handler s = Some handler_get" and "stalled es0"
    and "table_ok items" and "distinct (List.map fst (table_entries items))"
    and "map_of (table_entries items) p = Some fd" and "disk_ok f"
    and "fdata f fd \<noteq> []" and "length (fdata f fd) < 2 ^ 31"
  shows "\<exists>g1 x f'. send_request h g = Inr g1 \<and>
    serve_one s False (new_conn (Chunk (tx (sock g1)) # es0) []) (items, f) = Inr (x, items, f') \<and>
    tx (ctx_conn x) = header_line ''OK'' (length (fdata f fd)) @ fdata f fd \<and>
    (\<forall>c es. c @ pending es = tx (ctx_conn x) \<and> length c \<le> RDBUFSIZE \<and>
       length (header_line ''OK'' (length (fdata f fd))) \<le> length c \<longrightarrow>
       (\<exists>g2 chunks. process_response (g1\<lparr>sock := (sock g1)\<lparr>rx := Chunk c # es\<rparr>\<rparr>) = Inr (0, g2) \<and>
          gfc_get_status g2 = GF_OK \<and> concat chunks = fdata f fd \<and>
          write_arg g2 = fold cb chunks (write_arg g)))"
proof -
  let ?d = "fdata f fd" and ?n = "length (fdata f fd)"
  define g1 where "g1 = g\<lparr>req_length := of_nat (length (request_line p)),
    sock := (sock g)\<lparr>tx := tx (sock g) @ request_line p\<rparr>\<rparr>"
  have nn: "NUL \<notin> set p" using assms(1) by (simp add: request_strings_def)
  have send: "send_request h g = Inr g1"
    using send_request_line [OF assms(1)] assms(3,6) by (simp add: g1_def new_conn_def)
  have wire: "tx (sock g1) = request_line p"
    using assms(3) by (simp add: g1_def new_conn_def)
  from serve_file [OF assms(7,8,4,5) nn assms(6,9-12,14)] obtain x f' where
    x: "serve_one s False (new_conn (Chunk (request_line p) # es0) []) (items, f) = Inr (x, items, f')"
      "tx (ctx_conn x) = header_line ''OK'' ?n @ ?d" by blast
  have recv: "\<exists>g2 chunks. process_response (g1\<lparr>sock := (sock g1)\<lparr>rx := Chunk c # es\<rparr>\<rparr>) = Inr (0, g2) \<and>
      gfc_get_status g2 = GF_OK \<and> concat chunks = ?d \<and> write_arg g2 = fold cb chunks (write_arg g)"
    if eq: "c @ pending es = header_line ''OK'' ?n @ ?d" and "length c \<le> RDBUFSIZE"
      and le: "length (header_line ''OK'' ?n) \<le> length c" for c es
  proof -
    let ?g = "g1\<lparr>sock := (sock g1)\<lparr>rx := Chunk c # es\<rparr>\<rparr>"
    define c0 where "c0 = drop (length (header_line ''OK'' ?n)) c"
    have "take (length (header_line ''OK'' ?n)) c = header_line ''OK'' ?n"
      using arg_cong [OF eq, of "take (length (header_line ''OK'' ?n))"] le by simp
    then have cH: "c = header_line ''OK'' ?n @ c0"
      using append_take_drop_id [of "length (header_line ''OK'' ?n)" c] by (simp add: c0_def)
    have c0: "c = ok_header ?n 0 @ c0" "c0 @ pending es = ?d"
      using cH eq by (simp_all add: ok_header_is_header_line)
    have fr: "gfc_fresh ?g cb" using assms(2) by (simp add: gfc_fresh_def g1_def)
    have "length (dec_of_nat ?n) \<le> 10"
      using length_dec_of_nat [of ?n 9] assms(14) by simp
    then have hb: "length (ok_header ?n 0) < RDBUFSIZE"
      by (simp add: ok_header_def RDBUFSIZE_def)
    have len: "length c0 + length (pending es) = ?n"
      using arg_cong [OF c0(2), of length] by simp
    from ok_response [OF fr _ _ hb, of c0 es] c0 that(2) len assms(13,14)
    show ?thesis by (auto simp: gfc_get_status_def g1_def)
  qed
  show ?thesis
    using send x wire recv by (intro exI [of _ g1] exI [of _ x] exI [of _ f']) auto
qed

definition file_server :: "(unit, item_t list \<times> file_env) gfserver" where
  "file_server = gfserver_set_handler (gfserver_create ()) handler_get"

lemma sample_get_end:
  "gfc_fresh ((snd sample_get)\<lparr>write_callback := Some writecb\<rparr>) writecb"
  "request_strings (fst sample_get) ((snd sample_get)\<lparr>write_callback := Some writecb\<rparr>) ''/a''"
  "sock (snd sample_get) = new_conn [] []" "write_arg (snd sample_get) = []"
  by (simp_all add: sample_get_def gfc_create_def strdup_def gfc_fresh_def request_strings_def
      empty_heap_def)

lemma sample_env_facts: "fdata sample_env 4 = ''contents''" "disk_ok sample_env"
  by (simp_all add: sample_env_def disk_ok_def)

theorem getfile_end_to_end_witness:
  "\<exists>g1 x f'. send_request (fst sample_get) ((snd sample_get)\<lparr>write_callback := Some writecb\<rparr>) = Inr g1 \<and>
    serve_one file_server False (new_conn [Chunk (tx (sock g1)), Sock_error] [])
      (sample_table, sample_env) = Inr (x, sample_table, f') \<and>
    (\<exists>g2. process_response (g1\<lparr>sock := (sock g1)\<lparr>rx := [Chunk (tx (ctx_conn x))]\<rparr>\<rparr>) = Inr (0, g2) \<and>
       write_arg g2 = ''contents'')"
proof -
  let ?g = "(snd sample_get)\<lparr>write_callback := Some writecb\<rparr>" and ?H = "header_line ''OK'' (length ''contents'')"
  have h: "gfs_handler file_server = Some handler_get"
    by (simp add: file_server_def gfserver_set_handler_def)
  have len: "length (?H @ ''contents'') \<le> RDBUFSIZE"
    by (simp add: header_line_def dec_of_nat.simps RDBUFSIZE_def)
  from getfile_end_to_end [OF sample_get_end(2,1) _ _ _ _ h _ sample_table_ok(1) _ _ sample_env_facts(2),
      of "[Sock_error]" 4] sample_table_ok(2) sample_get_end(3)
  obtain g1 x f' where s: "send_request (fst sample_get) ?g = Inr g1"
    "serve_one file_server False (new_conn [Chunk (tx (sock g1)), Sock_error] [])
      (sample_table, sample_env) = Inr (x, sample_table, f')"
    "tx (ctx_conn x) = ?H @ ''contents''"
    and all: "\<forall>c es. c @ pending es = tx (ctx_conn x) \<and> length c \<le> RDBUFSIZE \<and>
       length ?H \<le> length c \<longrightarrow>
       (\<exists>g2 chunks. process_response (g1\<lparr>sock := (sock g1)\<lparr>rx := Chunk c # es\<rparr>\<rparr>) = Inr (0, g2) \<and>
          gfc_get_status g2 = GF_OK \<and> concat chunks = ''contents'' \<and>
          write_arg g2 = fold writecb chunks (write_arg ?g))"
    unfolding sample_env_facts(1) by auto
  from spec [OF spec [OF all, of "?H @ ''contents''"], of "[]"] len s(3) obtain g2 chunks where
    "process_response (g1\<lparr>sock := (sock g1)\<lparr>rx := [Chunk (tx (ctx_conn x))]\<rparr>\<rparr>) = Inr (0, g2)"
    "concat chunks = ''contents''" "write_arg g2 = fold writecb chunks (write_arg ?g)" by auto
  with s sample_get_end(4) show ?thesis
    by (intro exI [of _ g1] exI [of _ x] exI [of _ f']) (simp add: fold_writecb)
qed

end
