(* ===== verification/Workload.thy ===== *)
theory Workload
  imports Os_Model
begin

text \<open>
  The workload of \<open>workload.c\<close> (the same file in \<open>project1/ud923-project1-gflib\<close> and
  \<open>project1/ud923-project1-mtgf\<close>): a file of words is read into an array of 100 pointers,
  and the paths are handed out round robin.
\<close>

section \<open>State and operations\<close>

datatype workload_mode = WORKLOAD_SEQ | WORKLOAD_RND

record workload =
  gWorkloadPathArray :: "cptr list"
  gUniqueWorkloadPaths :: "16 word"
  wl_counter :: int
  wl_mode :: workload_mode

definition workload_start :: workload where
  "workload_start = \<lparr>gWorkloadPathArray = replicate 100 Null, gUniqueWorkloadPaths = 0,
     wl_counter = 0, wl_mode = WORKLOAD_SEQ\<rparr>"

text \<open>\<open>fscanf (f, "%s", buf)\<close> on what is left of a file: the word and the rest, or the end.\<close>

definition scan_word :: "string \<Rightarrow> (string \<times> string) option" where
  "scan_word s =
     (let t = dropWhile isspace s
      in if t = [] then None
         else Some (takeWhile (\<lambda>c. \<not> isspace c) t, dropWhile (\<lambda>c. \<not> isspace c) t))"

lemma scan_word_shorter: "scan_word s = Some (w, r) \<Longrightarrow> length r < length s"
proof -
  assume a: "scan_word s = Some (w, r)"
  define t where "t = dropWhile isspace s"
  have t: "t \<noteq> []" "r = dropWhile (\<lambda>c. \<not> isspace c) t"
    using a by (auto simp: scan_word_def Let_def t_def split: if_splits)
  then obtain c cs where c: "t = c # cs" by (cases t) auto
  then have "\<not> isspace c" using hd_dropWhile [of isspace s] by (simp add: t_def)
  then have "r = dropWhile (\<lambda>c. \<not> isspace c) cs" using t(2) c by simp
  then have "length r < length t" using c length_dropWhile_le [of _ cs] by (simp add: le_imp_less_Suc)
  then show ?thesis using length_dropWhile_le [of isspace s] by (simp add: t_def)
qed

text \<open>
  The loop of \<open>workload_init\<close>: the word with its NUL goes to a buffer of 256 bytes, its copy
  to slot \<open>i\<close> of the array.
\<close>

function load_paths ::
  "cheap \<Rightarrow> string \<Rightarrow> nat \<Rightarrow> cptr list \<Rightarrow> (cheap \<times> nat \<times> cptr list) result" where
  "load_paths h s i arr =
     (case scan_word s of
        None \<Rightarrow> Inr (h, i, arr)
      | Some (w, r) \<Rightarrow>
          if length (cstr w) > 256 then Inl Out_Of_Bounds
          else if \<not> i < length arr then Inl Out_Of_Bounds
          else let (p, h1) = strdup h (takeWhile (\<lambda>c. c \<noteq> NUL) w)
               in load_paths h1 r (Suc i) (arr[i := p]))"
  by pat_completeness auto
termination
  by (relation "measure (\<lambda>(h, s, i, arr). length s)") (auto dest: scan_word_shorter)

declare load_paths.simps [simp del]

definition workload_init ::
  "cheap \<Rightarrow> workload \<Rightarrow> string option \<Rightarrow> (int \<times> cheap \<times> workload) result" where
  "workload_init h w file =
     (case file of
        None \<Rightarrow> Inr (1, h, w)
      | Some s \<Rightarrow>
          bind_res (load_paths h s 0 (gWorkloadPathArray w)) (\<lambda>(h1, i, arr).
            Inr (0, h1, w\<lparr>gWorkloadPathArray := arr, gUniqueWorkloadPaths := of_nat i\<rparr>)))"

definition workload_num_unique_paths :: "workload \<Rightarrow> 16 word" where
  "workload_num_unique_paths w = gUniqueWorkloadPaths w"

text \<open>
  \<open>rnd\<close> is the answer of \<open>rand\<close>, between 0 and \<open>RAND_MAX = 2^31 - 1\<close>; the product
  and the quotient of the random branch are exact in a \<open>double\<close>.
\<close>

definition workload_get_path :: "nat \<Rightarrow> workload \<Rightarrow> (cptr \<times> workload) result" where
  "workload_get_path rnd w =
     (let n = unat (gUniqueWorkloadPaths w); arr = gWorkloadPathArray w
      in if wl_mode w = WORKLOAD_RND then
           let i = n * rnd div 2 ^ 31
           in if i < length arr then Inr (arr ! i, w) else Inl Out_Of_Bounds
         else if wl_counter w = int_max then Inl Signed_Overflow
         else let w1 = w\<lparr>wl_counter := wl_counter w + 1\<rparr>
              in if n = 0 then Inl Div_By_Zero
                 else let i = nat (wl_counter w1) mod n
                      in if i < length arr then Inr (arr ! i, w1) else Inl Out_Of_Bounds)"

section \<open>Loading a file of words\<close>

definition path_word :: "string \<Rightarrow> bool" where
  "path_word s \<longleftrightarrow> s \<noteq> [] \<and> length s < 256 \<and> (\<forall>c \<in> set s. \<not> isspace c \<and> c \<noteq> NUL)"

definition workload_file :: "string list \<Rightarrow> string" where
  "workload_file ws = concat (List.map (\<lambda>w. w @ [LF]) ws)"

lemma isspace_LF [simp]: "isspace LF"
  by (simp add: isspace_def less_eq_char_def)

lemma scan_word_file:
  assumes "path_word w"
  shows "scan_word (ws @ w @ LF # rest) = Some (w, LF # rest) \<or> \<not> (\<forall>c \<in> set ws. isspace c)"
proof (cases "\<forall>c \<in> set ws. isspace c")
  case True
  have "dropWhile isspace (ws @ w @ LF # rest) = w @ LF # rest"
    using True assms by (cases w) (simp_all add: path_word_def)
  moreover have "takeWhile (\<lambda>c. \<not> isspace c) (w @ LF # rest) = w"
    "dropWhile (\<lambda>c. \<not> isspace c) (w @ LF # rest) = LF # rest"
    using assms by (simp_all add: path_word_def)
  ultimately show ?thesis using assms by (simp add: scan_word_def path_word_def)
qed simp

lemma load_paths_end: "\<forall>c \<in> set pre. isspace c \<Longrightarrow> load_paths h pre i arr = Inr (h, i, arr)"
proof -
  assume "\<forall>c \<in> set pre. isspace c"
  then have "dropWhile isspace pre = []" by simp
  then show ?thesis by (subst load_paths.simps) (simp add: scan_word_def)
qed

lemma load_paths_step:
  assumes "path_word w" and "\<forall>c \<in> set pre. isspace c"
  shows "load_paths h (pre @ w @ LF # rest) i arr =
    (if i < length arr then load_paths (snd (strdup h w)) (LF # rest) (Suc i)
       (arr[i := fst (strdup h w)]) else Inl Out_Of_Bounds)"
proof -
  have "scan_word (pre @ w @ LF # rest) = Some (w, LF # rest)"
    using scan_word_file [OF assms(1), of pre rest] assms(2) by blast
  moreover have "\<forall>c \<in> set w. c \<noteq> NUL" using assms(1) by (simp add: path_word_def)
  then have tw: "takeWhile (\<lambda>c. c \<noteq> NUL) w = w" by (simp only: takeWhile_eq_all_conv)
  moreover have "\<not> length (cstr w) > 256" using assms(1) by (simp add: path_word_def cstr_def)
  ultimately show ?thesis
    by (subst load_paths.simps) (simp add: strdup_def Let_def tw)
qed

text \<open>Later allocations leave the earlier strings alone.\<close>

definition heap_grows :: "cheap \<Rightarrow> cheap \<Rightarrow> bool" where
  "heap_grows h h' \<longleftrightarrow> heap_ok h' \<and> next_cell h \<le> next_cell h' \<and>
     (\<forall>a < next_cell h. cells h' a = cells h a)"

lemma heap_grows_refl: "heap_ok h \<Longrightarrow> heap_grows h h"
  by (simp add: heap_grows_def)

lemma heap_grows_trans: "heap_grows h h1 \<Longrightarrow> heap_grows h1 h2 \<Longrightarrow> heap_grows h h2"
  by (auto simp: heap_grows_def)

lemma heap_grows_strdup: "heap_ok h \<Longrightarrow> heap_grows h (snd (strdup h w))"
  by (auto simp: heap_grows_def heap_ok_def strdup_def)

lemma heap_grows_deref:
  "heap_grows h h' \<Longrightarrow> heap_ok h \<Longrightarrow> deref h p = Inr s \<Longrightarrow> deref h' p = Inr s"
proof (cases p)
  case (Heap a)
  assume g: "heap_grows h h'" "heap_ok h" "deref h p = Inr s"
  then have c: "cells h a = Some s" by (auto simp: Heap split: option.splits)
  with g(2) have "a < next_cell h" by (fastforce simp: heap_ok_def not_le [symmetric])
  with g(1) c show "deref h' p = Inr s" by (simp add: heap_grows_def Heap)
qed simp_all

lemma load_paths_file:
  assumes "\<forall>w \<in> set ws. path_word w" and "\<forall>c \<in> set pre. isspace c" and "heap_ok h"
    and "i + length ws \<le> length arr"
  shows "\<exists>h' arr'. load_paths h (pre @ workload_file ws) i arr = Inr (h', i + length ws, arr') \<and>
    heap_grows h h' \<and> length arr' = length arr \<and> (\<forall>j < i. arr' ! j = arr ! j) \<and>
    (\<forall>j < length ws. deref h' (arr' ! (i + j)) = Inr (ws ! j))"
  using assms
proof (induction ws arbitrary: pre h i arr)
  case Nil
  then show ?case by (simp add: workload_file_def load_paths_end heap_grows_refl)
next
  case (Cons w ws)
  define h1 where "h1 = snd (strdup h w)"
  define p where "p = fst (strdup h w)"
  have w: "path_word w" using Cons.prems by simp
  have g1: "heap_grows h h1" using heap_grows_strdup [OF Cons.prems(3)] by (simp add: h1_def)
  then have ok1: "heap_ok h1" by (simp add: heap_grows_def)
  from Cons.IH [of "[LF]" h1 "Suc i" "arr[i := p]"] Cons.prems ok1 obtain h' arr' where
    ih: "load_paths h1 ([LF] @ workload_file ws) (Suc i) (arr[i := p]) = Inr (h', Suc i + length ws, arr')"
      "heap_grows h1 h'" "length arr' = length arr" "\<forall>j < Suc i. arr' ! j = arr[i := p] ! j"
      "\<forall>j < length ws. deref h' (arr' ! (Suc i + j)) = Inr (ws ! j)" by auto
  have "load_paths h (pre @ workload_file (w # ws)) i arr = Inr (h', i + length (w # ws), arr')"
    using load_paths_step [OF w Cons.prems(2), of h "workload_file ws" i arr] Cons.prems(4) ih(1)
    by (simp add: workload_file_def h1_def p_def)
  moreover have "deref h1 p = Inr w"
    by (simp add: h1_def p_def strdup_def)
  then have "deref h' (arr' ! i) = Inr w"
    using heap_grows_deref [OF ih(2) ok1] ih(4) Cons.prems(4) by simp
  then have "\<forall>j < length (w # ws). deref h' (arr' ! (i + j)) = Inr ((w # ws) ! j)"
    using ih(5) by (auto simp: less_Suc_eq_0_disj)
  moreover have "\<forall>j < i. arr' ! j = arr ! j" using ih(4) by simp
  ultimately show ?case
    using heap_grows_trans [OF g1 ih(2)] ih(3) by blast
qed

lemma load_paths_overflow:
  assumes "\<forall>w \<in> set ws. path_word w" and "\<forall>c \<in> set pre. isspace c"
    and "i \<le> length arr" and "length arr < i + length ws"
  shows "load_paths h (pre @ workload_file ws) i arr = Inl Out_Of_Bounds"
  using assms
proof (induction ws arbitrary: pre h i arr)
  case (Cons w ws)
  then have "load_paths h (pre @ workload_file (w # ws)) i arr =
      (if i < length arr then load_paths (snd (strdup h w)) ([LF] @ workload_file ws) (Suc i)
         (arr[i := fst (strdup h w)]) else Inl Out_Of_Bounds)"
    using load_paths_step [of w pre h "workload_file ws" i arr] by (simp add: workload_file_def)
  also have "\<dots> = Inl Out_Of_Bounds"
    using Cons.IH [of "[LF]" "Suc i" "arr[i := fst (strdup h w)]"] Cons.prems by auto
  finally show ?case .
qed simp

section \<open>Handing out paths\<close>

primrec get_paths :: "nat \<Rightarrow> workload \<Rightarrow> (cptr list \<times> workload) result" where
  "get_paths 0 w = Inr ([], w)"
| "get_paths (Suc n) w =
     bind_res (workload_get_path 0 w) (\<lambda>(p, w1).
     bind_res (get_paths n w1) (\<lambda>(ps, w2). Inr (p # ps, w2)))"

lemma get_paths_seq:
  assumes "wl_mode w = WORKLOAD_SEQ" and "wl_counter w = int c" and "c + n < 2 ^ 31"
    and "unat (gUniqueWorkloadPaths w) = k" and "0 < k" and "k \<le> length (gWorkloadPathArray w)"
  shows "get_paths n w = Inr (List.map (\<lambda>i. gWorkloadPathArray w ! (Suc (c + i) mod k)) [0 ..< n],
    w\<lparr>wl_counter := int (c + n)\<rparr>)"
  using assms
proof (induction n arbitrary: w c)
  case (Suc n)
  have lt: "Suc c mod k < length (gWorkloadPathArray w)"
    using Suc.prems(5,6) mod_less_divisor [of k "Suc c"] by linarith
  have "workload_get_path 0 w =
      Inr (gWorkloadPathArray w ! (Suc c mod k), w\<lparr>wl_counter := int (Suc c)\<rparr>)"
    using Suc.prems lt by (simp add: workload_get_path_def Let_def int_max_def nat_add_distrib)
  moreover have "get_paths n (w\<lparr>wl_counter := int (Suc c)\<rparr>) =
      Inr (List.map (\<lambda>i. gWorkloadPathArray w ! (Suc (Suc c + i) mod k)) [0 ..< n],
        w\<lparr>wl_counter := int (Suc c + n)\<rparr>)"
    using Suc.IH [of "w\<lparr>wl_counter := int (Suc c)\<rparr>" "Suc c"] Suc.prems by simp
  moreover have "[0 ..< Suc n] = 0 # List.map Suc [0 ..< n]"
    by (simp add: upt_conv_Cons map_Suc_upt del: upt_Suc)
  ultimately show ?case by (simp add: comp_def)
qed simp


lemma workload_loaded:
  assumes "\<forall>w \<in> set ws. path_word w" and "ws \<noteq> []" and "length ws \<le> 100" and "heap_ok h"
    and "n < 2 ^ 31"
  shows "\<exists>h' w ps w'. workload_init h workload_start (Some (workload_file ws)) = Inr (0, h', w) \<and>
    get_paths n w = Inr (ps, w') \<and> heap_grows h h' \<and>
    List.map (deref h') ps = List.map (\<lambda>i. Inr (ws ! (Suc i mod length ws))) [0 ..< n]"
proof -
  from load_paths_file [OF assms(1) _ assms(4), of "[]" 0 "replicate 100 Null"] assms(3)
  obtain h' arr' where l: "load_paths h (workload_file ws) 0 (replicate 100 Null) = Inr (h', length ws, arr')"
      "heap_grows h h'" "length arr' = 100" "\<forall>j < length ws. deref h' (arr' ! j) = Inr (ws ! j)"
    by auto
  define w where "w = workload_start\<lparr>gWorkloadPathArray := arr', gUniqueWorkloadPaths := of_nat (length ws)\<rparr>"
  have init: "workload_init h workload_start (Some (workload_file ws)) = Inr (0, h', w)"
    using l(1) by (simp add: workload_init_def workload_start_def w_def)
  have "unat (of_nat (length ws) :: 16 word) = length ws"
    using assms(3) by (simp add: unat_of_nat take_bit_eq_mod)
  then have g: "get_paths n w = Inr (List.map (\<lambda>i. arr' ! (Suc i mod length ws)) [0 ..< n],
      w\<lparr>wl_counter := int n\<rparr>)"
    using get_paths_seq [of w 0 n "length ws"] assms(2,3,5) l(3)
    by (simp add: w_def workload_start_def)
  have "List.map (deref h') (List.map (\<lambda>i. arr' ! (Suc i mod length ws)) [0 ..< n]) =
      List.map (\<lambda>i. Inr (ws ! (Suc i mod length ws))) [0 ..< n]"
    using l(4) assms(2) by simp
  with init g l(2) show ?thesis by blast
qed

lemma workload_paths:
  assumes "\<forall>w \<in> set ws. path_word w" and "ws \<noteq> []" and "length ws \<le> 100" and "heap_ok h"
    and "n < 2 ^ 31"
  shows "\<exists>h' w ps w'. workload_init h workload_start (Some (workload_file ws)) = Inr (0, h', w) \<and>
    get_paths n w = Inr (ps, w') \<and>
    List.map (deref h') ps = List.map (\<lambda>i. Inr (ws ! (Suc i mod length ws))) [0 ..< n]"
  using workload_loaded [OF assms] by blast

section \<open>Properties\<close>

text \<open>
  Further fact. The workload is round robin: after loading a file of one to 100 words, each shorter
  than 256 bytes, \<open>n\<close> calls of \<open>workload_get_path\<close> hand out the words in the order of the
  file, cyclically, starting with the second; so every \<open>n\<close> consecutive calls, for \<open>n\<close>
  words, give each word once.
\<close>

theorem workload_round_robin:
  assumes "\<forall>w \<in> set ws. path_word w" and "ws \<noteq> []" and "length ws \<le> 100" and "heap_ok h"
    and "n < 2 ^ 31"
  shows "\<exists>h' w ps w'. workload_init h workload_start (Some (workload_file ws)) = Inr (0, h', w) \<and>
    get_paths n w = Inr (ps, w') \<and>
    List.map (deref h') ps = List.map (\<lambda>i. Inr (ws ! (Suc i mod length ws))) [0 ..< n]"
  by (rule workload_paths [OF assms])

definition no_strings :: cheap where
  "no_strings = \<lparr>cells = Map.empty, next_cell = 0\<rparr>"

lemma no_strings_ok: "heap_ok no_strings"
  by (simp add: heap_ok_def no_strings_def)

lemma sample_words_ok: "\<forall>w \<in> set [''/a'', ''/b'']. path_word w"
  by (simp add: path_word_def isspace_def less_eq_char_def)

theorem workload_round_robin_witness:
  "\<exists>h' w ps w'. workload_init no_strings workload_start (Some (workload_file [''/a'', ''/b''])) =
      Inr (0, h', w) \<and> get_paths 3 w = Inr (ps, w') \<and>
    List.map (deref h') ps = [Inr ''/b'', Inr ''/a'', Inr ''/b'']"
proof -
  have "[0 ..< 3] = [0, 1, 2 :: nat]" by (simp add: upt_rec)
  then have eq: "List.map (\<lambda>i. Inr ([''/a'', ''/b''] ! (Suc i mod length [''/a'', ''/b'']))) [0 ..< 3] =
      [Inr ''/b'', Inr ''/a'', Inr ''/b'']"
    by (simp add: numeral_2_eq_2 mod_Suc)
  have "\<exists>h' w ps w'. workload_init no_strings workload_start (Some (workload_file [''/a'', ''/b''])) =
      Inr (0, h', w) \<and> get_paths 3 w = Inr (ps, w') \<and>
    List.map (deref h') ps =
      List.map (\<lambda>i. Inr ([''/a'', ''/b''] ! (Suc i mod length [''/a'', ''/b'']))) [0 ..< 3]"
    by (rule workload_round_robin [OF sample_words_ok _ _ no_strings_ok]) simp_all
  then show ?thesis by (simp only: eq)
qed

text \<open>
  Further fact. What the workload does at its bounds: more than 100 words overrun the array of
  paths, and with no word at all the first request divides by zero.
\<close>

theorem workload_bounds:
  assumes "\<forall>w \<in> set ws. path_word w" and "heap_ok h" and "ws = [] \<or> 100 < length ws"
  shows "(if ws = []
     then \<exists>w. workload_init h workload_start (Some (workload_file ws)) = Inr (0, h, w) \<and>
            workload_get_path rnd w = Inl Div_By_Zero
     else workload_init h workload_start (Some (workload_file ws)) = Inl Out_Of_Bounds)"
proof (cases "ws = []")
  case True
  then show ?thesis
    using load_paths_end [of "[]"]
    by (simp add: workload_init_def workload_start_def workload_file_def workload_get_path_def
        Let_def int_max_def)
next
  case False
  then show ?thesis
    using load_paths_overflow [OF assms(1), of "[]" 0 "replicate 100 Null" h] assms(3)
    by (simp add: workload_init_def workload_start_def)
qed

theorem workload_bounds_witness:
  "workload_init no_strings workload_start (Some (workload_file (replicate 101 ''/a''))) =
    Inl Out_Of_Bounds"
proof -
  have "\<forall>w \<in> set (replicate 101 ''/a''). path_word w"
    using sample_words_ok by simp
  from workload_bounds [OF this no_strings_ok] show ?thesis by simp
qed

end
