(* ===== verification/Gfclient_Download.thy ===== *)
theory Gfclient_Download
  imports Gfclient_Response Workload
begin

text \<open>
  The download client of \<open>project1/ud923-project1-gflib/gfclient_download.c\<close>: the local
  name of a request, the directories made for it, one request through the client library, and
  the loop over the workload. Files are a map from names to contents; which directories can be
  made and which files opened is data of the model. Command line parsing and the messages on
  standard output are left out.
\<close>

section \<open>Local names\<close>

text \<open>\<open>%06d\<close> for a number that is not negative; the counter of the code starts at 0.\<close>

definition pad6 :: "int \<Rightarrow> string" where
  "pad6 n = (let d = dec_of_nat (nat n) in replicate (6 - length d) (CHR ''0'') @ d)"

definition localPath :: "string \<Rightarrow> int \<Rightarrow> (string \<times> int) result" where
  "localPath req counter =
     (if req = [] then Inl Out_Of_Bounds
      else if counter = int_max then Inl Signed_Overflow
      else let name = tl req @ ''-'' @ pad6 counter
           in bind_res (mem_put (replicate 512 NUL) 0 (cstr name)) (\<lambda>m. Inr (name, counter + 1)))"

section \<open>Opening the local file\<close>

text \<open>
  The loop over the slashes from position \<open>i\<close> on (\<open>prev + 1\<close> of the code): the directory
  in front of each is made; the log holds the calls of \<open>mkdir\<close>.
\<close>

function make_dirs :: "(string \<Rightarrow> bool) \<Rightarrow> string \<Rightarrow> nat \<Rightarrow> string list \<Rightarrow> string list result" where
  "make_dirs mk fp i log =
     (if length fp < i then Inl Out_Of_Bounds
      else let rest = drop i fp; pre = takeWhile (\<lambda>c. c \<noteq> CHR ''/'') rest
           in if length pre = length rest then Inr log
              else let j = i + length pre
                   in if mk (take j fp) then make_dirs mk fp (Suc j) (log @ [take j fp])
                      else Inl (Exit 1))"
  by pat_completeness auto
termination
proof (relation "measure (\<lambda>(mk, fp, i, log). Suc (length fp) - i)", goal_cases)
  case (2 mk fp i log rest pre j)
  have "length pre \<le> length rest"
    unfolding 2(3) by (rule length_takeWhile_le)
  with 2 show ?case by auto
qed simp

declare make_dirs.simps [simp del]

definition openFile :: "(string \<Rightarrow> bool) \<Rightarrow> (string \<Rightarrow> bool) \<Rightarrow> string \<Rightarrow> string list result" where
  "openFile mk op fp =
     bind_res (make_dirs mk fp 1 []) (\<lambda>log. if op fp then Inr log else Inl (Exit 1))"

section \<open>One request and the loop\<close>

record dl_state =
  dl_heap :: cheap
  dl_files :: "string \<rightharpoonup> string"
  dl_mkdirs :: "string list"
  dl_counter :: int

text \<open>
  One pass of the loop of \<open>main\<close> for the path \<open>p\<close>. The file is created empty, filled by the
  write callback, and removed if the request fails or its status is not \<open>GF_OK\<close>. The request
  object is never cleaned up; \<open>mem\<close> is the memory \<open>malloc\<close> gives for it.
\<close>

definition download_request ::
  "(string \<Rightarrow> bool) \<Rightarrow> (string \<Rightarrow> bool) \<Rightarrow> cptr \<Rightarrow> 16 word \<Rightarrow> ('h, string) gfcrequest \<Rightarrow>
   net_env \<Rightarrow> cptr \<Rightarrow> dl_state \<Rightarrow> dl_state result" where
  "download_request mk op srv pt mem net p st =
     bind_res (deref (dl_heap st) p) (\<lambda>s.
     if length s > 256 then Inl (Exit 1)
     else
     bind_res (localPath s (dl_counter st)) (\<lambda>(name, counter).
     bind_res (openFile mk op name) (\<lambda>log.
     let (g0, h0) = gfc_create [] mem (dl_heap st)
     in bind_res (gfc_set_server h0 g0 srv) (\<lambda>(g1, h1).
        bind_res (gfc_set_path h1 g1 p) (\<lambda>(g2, h2).
        let g3 = gfc_set_writearg (gfc_set_writefunc (gfc_set_port g2 pt) (Some writecb)) []
        in bind_res (gfc_perform net h2 g3) (\<lambda>(r, g).
             let f1 = (dl_files st)(name \<mapsto> write_arg g);
                 f2 = (if r < 0 then f1(name := None) else f1);
                 f3 = (if gfc_get_status g \<noteq> GF_OK then f2(name := None) else f2)
             in Inr \<lparr>dl_heap = h2, dl_files = f3, dl_mkdirs = dl_mkdirs st @ log,
                     dl_counter = counter\<rparr>))))))"

text \<open>The loop of \<open>main\<close>, with what the network answers to each request.\<close>

primrec download_loop ::
  "(string \<Rightarrow> bool) \<Rightarrow> (string \<Rightarrow> bool) \<Rightarrow> cptr \<Rightarrow> 16 word \<Rightarrow> ('h, string) gfcrequest \<Rightarrow>
   net_env list \<Rightarrow> workload \<Rightarrow> dl_state \<Rightarrow> (workload \<times> dl_state) result" where
  "download_loop mk op srv pt mem [] w st = Inr (w, st)"
| "download_loop mk op srv pt mem (net # nets) w st =
     bind_res (workload_get_path 0 w) (\<lambda>(p, w1).
     bind_res (download_request mk op srv pt mem net p st) (\<lambda>st1.
     download_loop mk op srv pt mem nets w1 st1))"


section \<open>What the parts compute\<close>

definition slashes :: "string \<Rightarrow> nat \<Rightarrow> nat list" where
  "slashes fp i = filter (\<lambda>j. fp ! j = CHR ''/'') [i ..< length fp]"

lemma slashes_step:
  assumes "i \<le> length fp"
  defines "pre \<equiv> takeWhile (\<lambda>c. c \<noteq> CHR ''/'') (drop i fp)"
  shows "slashes fp i =
    (if length pre = length (drop i fp) then []
     else (i + length pre) # slashes fp (Suc (i + length pre)))"
proof -
  have no: "fp ! j \<noteq> CHR ''/''" if "i \<le> j" "j < i + length pre" for j
  proof -
    have "j - i < length pre" using that by simp
    then have "pre ! (j - i) \<in> set pre" by (rule nth_mem)
    then have "pre ! (j - i) \<noteq> CHR ''/''" by (auto simp: pre_def dest: set_takeWhileD)
    moreover have "length pre \<le> length (drop i fp)"
      unfolding pre_def by (rule length_takeWhile_le)
    then have "pre ! (j - i) = fp ! j"
      using that \<open>j - i < length pre\<close> by (simp add: pre_def takeWhile_nth)
    ultimately show ?thesis by simp
  qed
  have le: "length pre \<le> length fp - i"
    using length_takeWhile_le [of _ "drop i fp"] by (simp add: pre_def)
  have split: "[i ..< length fp] = [i ..< i + length pre] @ [i + length pre ..< length fp]"
    using le assms(1) upt_add_eq_append [of i "i + length pre" "length fp - (i + length pre)"]
    by simp
  have f0: "filter (\<lambda>j. fp ! j = CHR ''/'') [i ..< i + length pre] = []"
    using no by (auto simp: filter_empty_conv)
  show ?thesis
  proof (cases "length pre = length (drop i fp)")
    case True
    then have "i + length pre = length fp" using assms(1) by simp
    with f0 have "slashes fp i = []" by (simp add: slashes_def)
    with True show ?thesis by simp
  next
    case False
    then have lt: "i + length pre < length fp" using le by simp
    have "\<not> drop i fp ! length pre \<noteq> CHR ''/''"
      using nth_length_takeWhile [of "\<lambda>c. c \<noteq> CHR ''/''" "drop i fp"] False le
      by (simp add: pre_def)
    then have "fp ! (i + length pre) = CHR ''/''" using lt by simp
    then have "slashes fp i = (i + length pre) # slashes fp (Suc (i + length pre))"
      unfolding slashes_def split using f0 lt by (simp add: upt_conv_Cons)
    with False show ?thesis by simp
  qed
qed

lemma make_dirs_slashes:
  assumes "i \<le> length fp"
  shows "make_dirs mk fp i log =
    (if \<forall>j \<in> set (slashes fp i). mk (take j fp)
     then Inr (log @ List.map (\<lambda>j. take j fp) (slashes fp i)) else Inl (Exit 1))"
  using assms
proof (induction mk fp i log rule: make_dirs.induct)
  case (1 mk fp i log)
  define pre where "pre = takeWhile (\<lambda>c. c \<noteq> CHR ''/'') (drop i fp)"
  note sl = slashes_step [OF 1(2), folded pre_def]
  show ?case
  proof (cases "length pre = length (drop i fp)")
    case True
    then show ?thesis
      using 1(2) sl by (subst make_dirs.simps) (simp add: Let_def flip: pre_def)
  next
    case False
    have "length pre \<le> length (drop i fp)" unfolding pre_def by (rule length_takeWhile_le)
    with False have lt: "Suc (i + length pre) \<le> length fp" by simp
    have step: "make_dirs mk fp i log =
        (if mk (take (i + length pre) fp)
         then make_dirs mk fp (Suc (i + length pre)) (log @ [take (i + length pre) fp])
         else Inl (Exit 1))"
      using False 1(2) by (subst make_dirs.simps) (simp add: Let_def flip: pre_def)
    have "make_dirs mk fp (Suc (i + length pre)) (log @ [take (i + length pre) fp]) =
        (if \<forall>j \<in> set (slashes fp (Suc (i + length pre))). mk (take j fp)
         then Inr ((log @ [take (i + length pre) fp]) @
           List.map (\<lambda>j. take j fp) (slashes fp (Suc (i + length pre))))
         else Inl (Exit 1))" if "mk (take (i + length pre) fp)"
      by (rule 1(1)) (use False 1(2) that lt in \<open>auto simp: pre_def\<close>)
    with step sl False show ?thesis by simp
  qed
qed

lemma pad6_digits: "c \<in> set (pad6 n) \<Longrightarrow> isdigit c"
  by (auto simp: pad6_def Let_def dest: dec_of_nat_isdigit)
    (auto simp: isdigit_def less_eq_char_def)

lemma dec_val_pad: "dec_val (replicate k (CHR ''0'') @ s) = dec_val s"
proof (induction s rule: rev_induct)
  case Nil
  have "digit_val (CHR ''0'') = 0" by (simp add: digit_val_def byte_val_def)
  then have "dec_val (replicate k (CHR ''0'')) = 0"
  proof (induction k)
    case (Suc k)
    have "replicate (Suc k) (CHR ''0'') = replicate k (CHR ''0'') @ [CHR ''0'']"
      by (simp add: replicate_append_same)
    with Suc show ?case by (simp del: replicate.simps)
  qed simp
  then show ?case by simp
next
  case (snoc c s)
  then show ?case by (simp flip: append_assoc)
qed

lemma pad6_inj: "0 \<le> m \<Longrightarrow> 0 \<le> n \<Longrightarrow> pad6 m = pad6 n \<Longrightarrow> m = n"
proof -
  assume a: "0 \<le> m" "0 \<le> n" "pad6 m = pad6 n"
  have "dec_val (pad6 k) = int (nat k)" for k
    by (simp add: pad6_def Let_def dec_val_pad dec_val_dec_of_nat)
  with arg_cong [OF a(3), of dec_val] a(1,2) show "m = n" by simp
qed

lemma suffix_digits_eq:
  assumes "a @ CHR ''-'' # x = b @ CHR ''-'' # y" and "\<forall>c \<in> set x. isdigit c" and "\<forall>c \<in> set y. isdigit c"
  shows "x = y"
proof -
  have nd: "\<not> isdigit (CHR ''-'')" by (simp add: isdigit_def less_eq_char_def)
  have "takeWhile isdigit (rev (a @ CHR ''-'' # x)) = rev x"
    "takeWhile isdigit (rev (b @ CHR ''-'' # y)) = rev y"
    using assms(2,3) nd by (simp_all add: takeWhile_tail)
  with assms(1) show ?thesis by simp
qed


section \<open>One request through the library\<close>

text \<open>What the code of \<open>main\<close> has set up when it calls \<open>gfc_perform\<close>.\<close>

lemma download_setup:
  assumes "heap_ok h" and "deref h p = Inr s" and "NUL \<notin> set s"
    and "gfc_create [] mem h = (g0, h0)"
  shows "\<exists>h1. gfc_set_server h0 g0 (Static host) = Inr (g0\<lparr>server := Static host\<rparr>, h1) \<and>
    gfc_set_path h1 (g0\<lparr>server := Static host\<rparr>) p = Inr (g0\<lparr>server := Static host, path := p\<rparr>, h1) \<and>
    request_strings h1 (g0\<lparr>server := Static host, path := p\<rparr>) s \<and> heap_grows h h1"
proof -
  have old: "cells h a = Some x \<Longrightarrow> a < next_cell h" for a x
    using assms(1) by (fastforce simp: heap_ok_def not_le [symmetric])
  have "p = Null \<or> (\<exists>x. p = Static x) \<or> (\<exists>a. p = Heap a \<and> a < next_cell h)"
    using assms(2) old by (cases p) (auto split: option.splits)
  then show ?thesis
    using assms
    by (auto simp: gfc_create_def strdup_def gfc_set_server_def gfc_set_path_def
        request_strings_def heap_grows_def heap_ok_def split: option.splits)
qed

lemma perform_request:
  assumes "request_strings h g s" and "length s \<le> 256" and "server g = Static host"
    and "socket_ok net" and "resolves net host" and "connect_ok net"
    and "\<not> closed (connection net)" and "wlimits (connection net) = []"
    and "gfc_fresh g cb"
  shows "\<exists>g'. gfc_perform net h g = process_response g' \<and> gfc_fresh g' cb \<and>
    rx (sock g') = rx (connection net) \<and> write_arg g' = write_arg g"
proof -
  let ?g = "g\<lparr>sock := connection net\<rparr>"
  have "request_strings h ?g s" using assms(1) by (simp add: request_strings_def)
  from send_request_line [OF this] assms(2,7,8) have
    "send_request h ?g = Inr (?g\<lparr>req_length := of_nat (length (request_line s)),
      sock := (connection net)\<lparr>tx := tx (connection net) @ request_line s\<rparr>\<rparr>)"
    by simp
  then have "gfc_perform net h g = process_response (?g\<lparr>req_length := of_nat (length (request_line s)),
      sock := (connection net)\<lparr>tx := tx (connection net) @ request_line s\<rparr>\<rparr>)"
    using assms(3-6) by (simp add: gfc_perform_def connect_to_server_def)
  with assms(9) show ?thesis
    by (intro exI [of _ "?g\<lparr>req_length := of_nat (length (request_line s)),
      sock := (connection net)\<lparr>tx := tx (connection net) @ request_line s\<rparr>\<rparr>"])
      (simp add: gfc_fresh_def)
qed

definition reachable :: "net_env \<Rightarrow> string \<Rightarrow> bool" where
  "reachable net host \<longleftrightarrow> socket_ok net \<and> resolves net host \<and> connect_ok net \<and>
     \<not> closed (connection net) \<and> wlimits (connection net) = []"

lemma localPath_ok:
  assumes "s \<noteq> []" and "length s \<le> 256" and "0 \<le> c" and "c < int_max"
  shows "localPath s c = Inr (tl s @ ''-'' @ pad6 c, c + 1)"
proof -
  have "nat c < 10 ^ Suc 9" using assms(3,4) by (simp add: int_max_def)
  then have "length (dec_of_nat (nat c)) \<le> 10" using length_dec_of_nat by fastforce
  then have "length (pad6 c) \<le> 10" by (simp add: pad6_def Let_def)
  then have "length (cstr (tl s @ ''-'' @ pad6 c)) \<le> 512" using assms(2) by (simp add: cstr_def)
  then show ?thesis
    using assms by (simp add: localPath_def mem_put_0 Let_def)
qed

lemma download_request_run:
  fixes mem :: "('h, string) gfcrequest"
  assumes "heap_ok (dl_heap st)" and "deref (dl_heap st) p = Inr s" and "NUL \<notin> set s" and "s \<noteq> []"
    and "length s \<le> 256" and "0 \<le> dl_counter st" and "dl_counter st < int_max"
    and "reachable net host"
    and "op (tl s @ ''-'' @ pad6 (dl_counter st))"
    and "\<forall>j \<in> set (slashes (tl s @ ''-'' @ pad6 (dl_counter st)) 1).
      mk (take j (tl s @ ''-'' @ pad6 (dl_counter st)))"
  shows "\<exists>(g :: ('h, string) gfcrequest) h1. gfc_fresh g writecb \<and> rx (sock g) = rx (connection net) \<and> write_arg g = [] \<and>
    heap_grows (dl_heap st) h1 \<and>
    download_request mk op (Static host) pt mem net p st =
      bind_res (process_response g) (\<lambda>(r, g').
        Inr \<lparr>dl_heap = h1,
             dl_files = (dl_files st)(tl s @ ''-'' @ pad6 (dl_counter st) :=
               (if r < 0 \<or> gfc_get_status g' \<noteq> GF_OK then None else Some (write_arg g'))),
             dl_mkdirs = dl_mkdirs st @ List.map (\<lambda>j. take j (tl s @ ''-'' @ pad6 (dl_counter st)))
               (slashes (tl s @ ''-'' @ pad6 (dl_counter st)) 1),
             dl_counter = dl_counter st + 1\<rparr>)"
proof -
  let ?name = "tl s @ ''-'' @ pad6 (dl_counter st)"
  obtain g0 h0 where c: "gfc_create [] mem (dl_heap st) = (g0, h0)" by fastforce
  from download_setup [OF assms(1-3) c, of host] obtain h1 where
    s1: "gfc_set_server h0 g0 (Static host) = Inr (g0\<lparr>server := Static host\<rparr>, h1)" and
    s2: "gfc_set_path h1 (g0\<lparr>server := Static host\<rparr>) p = Inr (g0\<lparr>server := Static host, path := p\<rparr>, h1)"
    and rs: "request_strings h1 (g0\<lparr>server := Static host, path := p\<rparr>) s"
    and gr: "heap_grows (dl_heap st) h1" by blast
  let ?g = "gfc_set_writearg (gfc_set_writefunc (gfc_set_port (g0\<lparr>server := Static host, path := p\<rparr>) pt)
    (Some writecb)) []"
  have "request_strings h1 ?g s" "server ?g = Static host" "gfc_fresh ?g writecb"
    using rs fresh_gfc_create [OF c, of writecb]
    by (simp_all add: request_strings_def gfc_set_writearg_def gfc_set_writefunc_def
        gfc_set_port_def gfc_fresh_def)
  from perform_request [OF this(1) assms(5) this(2) _ _ _ _ _ this(3), of net] assms(8) obtain g where
    g: "gfc_perform net h1 ?g = process_response g" "gfc_fresh g writecb"
      "rx (sock g) = rx (connection net)" "write_arg g = []"
    by (auto simp: reachable_def gfc_set_writearg_def)
  have len: "1 \<le> length ?name" by simp
  have "openFile mk op ?name = Inr (List.map (\<lambda>j. take j ?name) (slashes ?name 1))"
    unfolding openFile_def make_dirs_slashes [OF len] using assms(9,10) by simp
  then have "download_request mk op (Static host) pt mem net p st =
      bind_res (process_response g) (\<lambda>(r, g').
        Inr \<lparr>dl_heap = h1,
             dl_files = (dl_files st)(?name :=
               (if r < 0 \<or> gfc_get_status g' \<noteq> GF_OK then None else Some (write_arg g'))),
             dl_mkdirs = dl_mkdirs st @ List.map (\<lambda>j. take j ?name) (slashes ?name 1),
             dl_counter = dl_counter st + 1\<rparr>)"
    using assms(2,5) localPath_ok [OF assms(4-7)] c s1 s2 g(1)
    by (cases "process_response g")
      (simp_all add: download_request_def Let_def del: append_Cons append_Nil take_append
        split: prod.split)
  with g gr show ?thesis by blast
qed


section \<open>Properties\<close>

text \<open>
  Property C35. A download leaves the file or nothing: when the server answers with a file of
  \<open>n\<close> bytes, the pass of the main loop makes the directories of the local name from the
  outside in, and afterwards the local file holds exactly the first \<open>n\<close> bytes of the body
  if all of them arrived and does not exist if they did not; no other file is touched.
\<close>

theorem download_request_file:
  fixes mem :: "('h, string) gfcrequest"
  assumes "heap_ok (dl_heap st)" and "deref (dl_heap st) p = Inr s" and "NUL \<notin> set s" and "s \<noteq> []"
    and "length s \<le> 256" and "0 \<le> dl_counter st" and "dl_counter st < int_max"
    and "reachable net host" and "\<forall>d. mk d" and "\<forall>d. op d"
    and "rx (connection net) = Chunk (ok_header n 0 @ c0) # es"
    and "length (ok_header n 0 @ c0) \<le> RDBUFSIZE" and "length (ok_header n 0) < RDBUFSIZE"
    and "length c0 \<le> n" and "0 < n" and "n < 2 ^ 31"
    and "name = tl s @ ''-'' @ pad6 (dl_counter st)"
  shows "\<exists>st'. download_request mk op (Static host) pt mem net p st = Inr st' \<and>
    dl_files st' = (dl_files st)(name :=
      (if n \<le> length (c0 @ pending es) then Some (take n (c0 @ pending es)) else None)) \<and>
    dl_mkdirs st' = dl_mkdirs st @ List.map (\<lambda>j. take j name) (slashes name 1) \<and>
    dl_counter st' = dl_counter st + 1"
proof -
  from download_request_run [OF assms(1-8), of op mk pt mem] assms(9,10)
  obtain g :: "('h, string) gfcrequest" and h1 where
    g: "gfc_fresh g writecb" "rx (sock g) = rx (connection net)" "write_arg g = []" and
    run: "download_request mk op (Static host) pt mem net p st =
      bind_res (process_response g) (\<lambda>(r, g').
        Inr \<lparr>dl_heap = h1,
             dl_files = (dl_files st)(name :=
               (if r < 0 \<or> gfc_get_status g' \<noteq> GF_OK then None else Some (write_arg g'))),
             dl_mkdirs = dl_mkdirs st @ List.map (\<lambda>j. take j name) (slashes name 1),
             dl_counter = dl_counter st + 1\<rparr>)"
    unfolding assms(17) by blast
  from ok_response [OF g(1) _ _ assms(13), of c0 es] g(2) assms(11,12,14-16) obtain g' chunks where
    "process_response g = Inr (if n \<le> length (c0 @ pending es) then 0 else -1, g')"
    "status g' = GF_OK" "concat chunks = take n (c0 @ pending es)"
    "write_arg g' = fold writecb chunks (write_arg g)" by auto
  with run g(3) show ?thesis
    by (simp add: fold_writecb gfc_get_status_def)
qed

definition sample_net :: "string \<Rightarrow> input \<Rightarrow> net_env" where
  "sample_net first rest = \<lparr>socket_ok = True, resolves = (\<lambda>s. True), connect_ok = True,
     connection = new_conn (Chunk first # rest) []\<rparr>"

definition sample_dl :: dl_state where
  "sample_dl = \<lparr>dl_heap = snd (strdup no_strings ''/d/f''), dl_files = Map.empty, dl_mkdirs = [],
     dl_counter = 7\<rparr>"

lemma sample_dl_facts:
  "heap_ok (dl_heap sample_dl)" "deref (dl_heap sample_dl) (Heap 0) = Inr ''/d/f''"
  "dl_counter sample_dl = 7" "dl_files sample_dl = Map.empty"
  using heap_grows_strdup [OF no_strings_ok, of "''/d/f''"]
  by (simp_all add: sample_dl_def heap_grows_def) (simp add: strdup_def no_strings_def)

lemma reachable_sample_net: "reachable (sample_net x r) host"
  by (simp add: reachable_def sample_net_def new_conn_def)

theorem download_request_file_witness:
  "\<exists>st'. download_request (\<lambda>d. True) (\<lambda>d. True) (Static ''h'') 80 raw_request
      (sample_net (ok_header 5 0 @ ''he'') [Chunk ''llo'']) (Heap 0) sample_dl = Inr st' \<and>
    dl_files st' (''d/f-'' @ pad6 7) = Some ''hello''"
proof -
  let ?net = "sample_net (ok_header 5 0 @ ''he'') [Chunk ''llo'']"
  have "rx (connection ?net) = Chunk (ok_header 5 0 @ ''he'') # [Chunk ''llo'']"
    by (simp add: sample_net_def new_conn_def)
  from download_request_file [OF sample_dl_facts(1,2) _ _ _ _ _ reachable_sample_net _ _ this,
      where mk = "\<lambda>d. True" and op = "\<lambda>d. True" and pt = 80 and host = "''h''" and mem = raw_request and
        name = "''d/f-'' @ pad6 7"]
  show ?thesis
    by (auto simp: sample_dl_facts int_max_def RDBUFSIZE_def ok_header_5)
qed

text \<open>
  Further fact. A request that the server answers with an error status leaves no file behind
  although it counts as a successful communication: the file created for it is removed.
\<close>

theorem download_request_error:
  fixes mem :: "('h, string) gfcrequest"
  assumes "heap_ok (dl_heap st)" and "deref (dl_heap st) p = Inr s" and "NUL \<notin> set s" and "s \<noteq> []"
    and "length s \<le> 256" and "0 \<le> dl_counter st" and "dl_counter st < int_max"
    and "reachable net host" and "\<forall>d. mk d" and "\<forall>d. op d"
    and "rx (connection net) = Chunk (''GETFILE'' @ SP # er @ SP # tl0) # es"
    and "length (''GETFILE'' @ SP # er @ SP # tl0) \<le> RDBUFSIZE"
    and "er = ''FILE_NOT_FOUND'' \<or> er = ''ERROR''"
  shows "\<exists>st'. download_request mk op (Static host) pt mem net p st = Inr st' \<and>
    dl_files st' = (dl_files st)(tl s @ ''-'' @ pad6 (dl_counter st) := None)"
proof -
  let ?name = "tl s @ ''-'' @ pad6 (dl_counter st)"
  from download_request_run [OF assms(1-8), of op mk pt mem] assms(9,10)
  obtain g :: "('h, string) gfcrequest" and h1 where
    g: "gfc_fresh g writecb" "rx (sock g) = rx (connection net)" and
    run: "download_request mk op (Static host) pt mem net p st =
      bind_res (process_response g) (\<lambda>(r, g').
        Inr \<lparr>dl_heap = h1,
             dl_files = (dl_files st)(?name :=
               (if r < 0 \<or> gfc_get_status g' \<noteq> GF_OK then None else Some (write_arg g'))),
             dl_mkdirs = dl_mkdirs st @ List.map (\<lambda>j. take j ?name) (slashes ?name 1),
             dl_counter = dl_counter st + 1\<rparr>)"
    by blast
  define res where "res = (if er = ''ERROR'' then GF_ERROR else GF_FILE_NOT_FOUND)"
  have res: "er = ''FILE_NOT_FOUND'' \<and> res = GF_FILE_NOT_FOUND \<or> er = ''ERROR'' \<and> res = GF_ERROR"
    "res \<noteq> GF_OK" using assms(13) by (auto simp: res_def)
  from status_response [OF g(1) _ assms(12) res(1), of es] g(2) assms(11) obtain g' where
    "process_response g = Inr (0, g')" "status g' = res" by auto
  with run res(2) show ?thesis by (simp add: gfc_get_status_def)
qed

theorem download_request_error_witness:
  "\<exists>st'. download_request (\<lambda>d. True) (\<lambda>d. True) (Static ''h'') 80 raw_request
      (sample_net (''GETFILE'' @ SP # ''ERROR'' @ SP # ''0'') []) (Heap 0) sample_dl = Inr st' \<and>
    dl_files st' = Map.empty"
proof -
  let ?net = "sample_net (''GETFILE'' @ SP # ''ERROR'' @ SP # ''0'') []"
  have "rx (connection ?net) = Chunk (''GETFILE'' @ SP # ''ERROR'' @ SP # ''0'') # []"
    by (simp add: sample_net_def new_conn_def)
  from download_request_error [OF sample_dl_facts(1,2) _ _ _ _ _ reachable_sample_net _ _ this,
      where mk = "\<lambda>d. True" and op = "\<lambda>d. True" and pt = 80 and host = "''h''" and mem = raw_request]
  show ?thesis
    by (auto simp: sample_dl_facts int_max_def RDBUFSIZE_def)
qed

text \<open>
  Further fact. Downloads never overwrite each other: the counter makes the local names of any two
  requests of a run different, also for equal paths and for paths that contain dashes and digits.
\<close>

theorem localPath_distinct:
  assumes "localPath r1 c1 = Inr (n1, d1)" and "localPath r2 c2 = Inr (n2, d2)"
    and "0 \<le> c1" and "0 \<le> c2" and "c1 \<noteq> c2"
  shows "n1 \<noteq> n2"
proof
  assume "n1 = n2"
  with assms(1,2) have "tl r1 @ CHR ''-'' # pad6 c1 = tl r2 @ CHR ''-'' # pad6 c2"
    by (auto simp: localPath_def bind_res_eq_Inr Let_def split: if_splits)
  then have "pad6 c1 = pad6 c2"
    by (rule suffix_digits_eq) (auto dest: pad6_digits)
  with pad6_inj assms(3-5) show False by blast
qed

theorem localPath_distinct_witness:
  "fst (projr (localPath ''/a'' 1)) \<noteq> fst (projr (localPath ''/a-000001'' 0))"
proof -
  have "localPath ''/a'' 1 = Inr (tl ''/a'' @ ''-'' @ pad6 1, 1 + 1)"
    "localPath ''/a-000001'' 0 = Inr (tl ''/a-000001'' @ ''-'' @ pad6 0, 0 + 1)"
    by (rule localPath_ok; simp add: int_max_def)+
  with localPath_distinct [OF this] show ?thesis by simp
qed

end
