(* ===== verification/Schedule.thy ===== *)
theory Schedule
  imports C_Prelude
begin

text \<open>
  Concurrent components share one way of running: a system is a partial action per thread (\<open>None\<close>
  if the thread has to wait or has returned), a schedule is a list of threads, and a thread that
  cannot act lets its turn pass. The locale says when every schedule is free of errors and when
  taking turns brings the system to its end.
\<close>

section \<open>Runs along a schedule\<close>

primrec run_sched :: "('t \<Rightarrow> 's \<Rightarrow> 's result option) \<Rightarrow> 't list \<Rightarrow> 's \<Rightarrow> 's result" where
  "run_sched act [] s = Inr s"
| "run_sched act (t # ts) s =
     (case act t s of
        None \<Rightarrow> run_sched act ts s
      | Some r \<Rightarrow> bind_res r (run_sched act ts))"

lemma run_sched_append:
  "run_sched act (ts @ us) s = bind_res (run_sched act ts s) (run_sched act us)"
proof (induction ts arbitrary: s)
  case (Cons t ts)
  have "bind_res r (run_sched act (ts @ us)) =
      bind_res (bind_res r (run_sched act ts)) (run_sched act us)" for r
    using Cons by (cases r) simp_all
  with Cons show ?case by (simp split: option.split)
qed simp

lemma run_sched_invariant:
  assumes "run_sched act ts s = Inr s'" and "I s"
    and "\<And>t x y. I x \<Longrightarrow> act t x = Some (Inr y) \<Longrightarrow> I y"
  shows "I s'"
  using assms(1,2)
proof (induction ts arbitrary: s)
  case (Cons t ts)
  then show ?case
    using assms(3) by (auto simp: bind_res_eq_Inr split: option.splits)
qed simp

text \<open>
  A system that takes the same steps as another one, except that some of its steps fail with an error
  out of \<open>P\<close>, has the same runs up to such an error.
\<close>

lemma run_sched_agrees:
  assumes "\<And>t x. act t x = act' t x \<or> (\<exists>e. act t x = Some (Inl e) \<and> P e)"
  shows "run_sched act ts s = run_sched act' ts s \<or> (\<exists>e. run_sched act ts s = Inl e \<and> P e)"
proof (induction ts arbitrary: s)
  case (Cons t ts)
  show ?case
  proof (cases "act t s")
    case None
    with assms [of t s] Cons show ?thesis by auto
  next
    case (Some r)
    with assms [of t s] consider "act' t s = Some r" | e where "r = Inl e" "P e" by auto
    then show ?thesis using Some Cons by cases (cases r; auto)+
  qed
qed simp

section \<open>Systems that make progress\<close>

text \<open>
  Every action from a good state is defined, keeps it good and lowers the weight; until the end some
  thread of the turn can act.
\<close>

locale schedule_system =
  fixes act :: "'t \<Rightarrow> 's \<Rightarrow> 's result option"
    and good :: "'s \<Rightarrow> bool"
    and weight :: "'s \<Rightarrow> nat"
    and turn :: "'s \<Rightarrow> 't list"
    and ended :: "'s \<Rightarrow> bool"
  assumes step_law: "good s \<Longrightarrow> act t s = Some r \<Longrightarrow>
      \<exists>s'. r = Inr s' \<and> good s' \<and> weight s' < weight s \<and> turn s' = turn s"
    and progress_law: "good s \<Longrightarrow> \<not> ended s \<Longrightarrow> \<exists>t \<in> set (turn s). act t s \<noteq> None"
    and ended_law: "ended s \<Longrightarrow> act t s = Some (Inr s') \<Longrightarrow> ended s'"
begin

lemma run_good:
  assumes "good s"
  shows "\<exists>s'. run_sched act ts s = Inr s' \<and> good s' \<and> weight s' \<le> weight s \<and> turn s' = turn s \<and>
    ((\<exists>t \<in> set ts. act t s \<noteq> None) \<longrightarrow> weight s' < weight s)"
  using assms
proof (induction ts arbitrary: s)
  case (Cons t ts)
  show ?case
  proof (cases "act t s")
    case None
    with Cons show ?thesis by simp
  next
    case (Some r)
    from step_law [OF Cons.prems Some] obtain s1 where
      s1: "r = Inr s1" "good s1" "weight s1 < weight s" "turn s1 = turn s" by blast
    from Cons.IH [OF s1(2)] s1 Some show ?thesis by fastforce
  qed
qed simp

lemma ended_run: "run_sched act ts s = Inr s' \<Longrightarrow> ended s \<Longrightarrow> ended s'"
  by (rule run_sched_invariant [where I = ended]) (auto intro: ended_law)

lemma fair_ends:
  assumes "good s" and "weight s \<le> k \<or> ended s"
  shows "\<exists>s'. run_sched act (concat (replicate k (turn s))) s = Inr s' \<and> good s' \<and> ended s'"
  using assms
proof (induction k arbitrary: s)
  case 0
  have "ended s"
  proof (rule ccontr)
    assume "\<not> ended s"
    with progress_law [OF 0(1)] obtain t r where "act t s = Some r" by blast
    from step_law [OF 0(1) this] 0(2) \<open>\<not> ended s\<close> show False by auto
  qed
  with 0 show ?case by simp
next
  case (Suc k)
  from run_good [OF Suc.prems(1), of "turn s"] obtain s1 where
    s1: "run_sched act (turn s) s = Inr s1" "good s1" "weight s1 \<le> weight s" "turn s1 = turn s"
      "(\<exists>t \<in> set (turn s). act t s \<noteq> None) \<longrightarrow> weight s1 < weight s" by blast
  have "weight s1 \<le> k \<or> ended s1"
  proof (cases "ended s")
    case True
    then show ?thesis using ended_run [OF s1(1)] by simp
  next
    case False
    with progress_law [OF Suc.prems(1)] s1(5) Suc.prems(2) show ?thesis by auto
  qed
  from Suc.IH [OF s1(2) this] s1(4) have
    "\<exists>s'. run_sched act (concat (replicate k (turn s))) s1 = Inr s' \<and> good s' \<and> ended s'" by simp
  then show ?case by (simp only: replicate_Suc concat.simps run_sched_append s1(1) bind_res_simps)
qed

end

end
