(* ===== verification/Steque.thy ===== *)
theory Steque
  imports C_Prelude
begin

text \<open>
  The stack-ended queue of \<open>steque.c\<close> (the same file in \<open>project1/ud923-project1-mtgf\<close>,
  \<open>project3\<close> and \<open>project4\<close>): a singly linked list of nodes on the heap with pointers to
  both ends and a counter. Nodes live in an explicit store, a null or dangling access is a
  failure value, and the \<open>int\<close> counter can overflow. The queue is then shown to be a list:
  an interface of queue laws is a locale, interpreted on the operations of the file.
\<close>

section \<open>Nodes on the heap\<close>

record 'a snode =
  st_item :: 'a
  next_node :: "nat option"

text \<open>
  The store with the next unused address and the number of nodes that \<open>malloc\<close> can still
  give; at zero it returns null.
\<close>

record 'a sheap =
  snodes :: "nat \<rightharpoonup> 'a snode"
  sfresh :: nat
  savail :: nat

record steque =
  st_front :: "nat option"
  st_back :: "nat option"
  st_N :: int

definition node_alloc :: "'a sheap \<Rightarrow> 'a snode \<Rightarrow> (nat \<times> 'a sheap) result" where
  "node_alloc h n =
     (if savail h = 0 then Inl Null_Deref
      else Inr (sfresh h, h\<lparr>snodes := (snodes h)(sfresh h \<mapsto> n), sfresh := Suc (sfresh h),
                           savail := savail h - 1\<rparr>))"

definition node_get :: "'a sheap \<Rightarrow> nat option \<Rightarrow> 'a snode result" where
  "node_get h p =
     (case p of
        None \<Rightarrow> Inl Null_Deref
      | Some a \<Rightarrow> (case snodes h a of None \<Rightarrow> Inl Bad_Deref | Some n \<Rightarrow> Inr n))"

definition node_set_next :: "'a sheap \<Rightarrow> nat option \<Rightarrow> nat option \<Rightarrow> 'a sheap result" where
  "node_set_next h p q =
     (case p of
        None \<Rightarrow> Inl Null_Deref
      | Some a \<Rightarrow> (case snodes h a of
                    None \<Rightarrow> Inl Bad_Deref
                  | Some n \<Rightarrow> Inr (h\<lparr>snodes := (snodes h)(a \<mapsto> n\<lparr>next_node := q\<rparr>)\<rparr>)))"

definition node_free :: "'a sheap \<Rightarrow> nat option \<Rightarrow> 'a sheap result" where
  "node_free h p =
     (case p of
        None \<Rightarrow> Inr h
      | Some a \<Rightarrow> (case snodes h a of
                    None \<Rightarrow> Inl Bad_Free
                  | Some n \<Rightarrow> Inr (h\<lparr>snodes := (snodes h)(a := None), savail := Suc (savail h)\<rparr>)))"

section \<open>The operations\<close>

definition steque_init :: "steque" where
  "steque_init = \<lparr>st_front = None, st_back = None, st_N = 0\<rparr>"

definition steque_enqueue :: "steque \<times> 'a sheap \<Rightarrow> 'a \<Rightarrow> (steque \<times> 'a sheap) result" where
  "steque_enqueue = (\<lambda>(s, h) x.
     bind_res (node_alloc h \<lparr>st_item = x, next_node = None\<rparr>) (\<lambda>(a, h1).
     bind_res
       (if st_back s = None then Inr (s\<lparr>st_front := Some a\<rparr>, h1)
        else bind_res (node_set_next h1 (st_back s) (Some a)) (\<lambda>h2. Inr (s, h2))) (\<lambda>(s1, h2).
     bind_res (int_add (st_N s1) 1) (\<lambda>n.
     Inr (s1\<lparr>st_back := Some a, st_N := n\<rparr>, h2)))))"

definition steque_push :: "steque \<times> 'a sheap \<Rightarrow> 'a \<Rightarrow> (steque \<times> 'a sheap) result" where
  "steque_push = (\<lambda>(s, h) x.
     bind_res (node_alloc h \<lparr>st_item = x, next_node = st_front s\<rparr>) (\<lambda>(a, h1).
     let s1 = (if st_back s = None then s\<lparr>st_back := Some a\<rparr> else s)
     in bind_res (int_add (st_N s1) 1) (\<lambda>n.
        Inr (s1\<lparr>st_front := Some a, st_N := n\<rparr>, h1))))"

definition steque_size :: "steque \<times> 'a sheap \<Rightarrow> int" where
  "steque_size = (\<lambda>(s, h). st_N s)"

definition steque_isempty :: "steque \<times> 'a sheap \<Rightarrow> bool" where
  "steque_isempty = (\<lambda>(s, h). st_N s = 0)"

definition steque_pop :: "steque \<times> 'a sheap \<Rightarrow> ('a \<times> steque \<times> 'a sheap) result" where
  "steque_pop = (\<lambda>(s, h).
     if st_front s = None then Inl (Exit 1)
     else
       bind_res (node_get h (st_front s)) (\<lambda>n.
       let s1 = s\<lparr>st_front := next_node n\<rparr>;
           s2 = (if st_front s1 = None then s1\<lparr>st_back := None\<rparr> else s1)
       in bind_res (node_free h (st_front s)) (\<lambda>h1.
          bind_res (int_add (st_N s2) (-1)) (\<lambda>k.
          Inr (st_item n, s2\<lparr>st_N := k\<rparr>, h1)))))"

definition steque_cycle :: "steque \<times> 'a sheap \<Rightarrow> (steque \<times> 'a sheap) result" where
  "steque_cycle = (\<lambda>(s, h).
     if st_back s = None then Inr (s, h)
     else
       bind_res (node_set_next h (st_back s) (st_front s)) (\<lambda>h1.
       let s1 = s\<lparr>st_back := st_front s\<rparr>
       in bind_res (node_get h1 (st_front s1)) (\<lambda>n.
          let s2 = s1\<lparr>st_front := next_node n\<rparr>
          in bind_res (node_set_next h1 (st_back s2) None) (\<lambda>h2. Inr (s2, h2)))))"

definition steque_front :: "steque \<times> 'a sheap \<Rightarrow> 'a result" where
  "steque_front = (\<lambda>(s, h).
     if st_front s = None then Inl (Exit 1)
     else bind_res (node_get h (st_front s)) (\<lambda>n. Inr (st_item n)))"

text \<open>The loop ends because the counter goes down until it is zero or overflows.\<close>

lemma steque_pop_counter:
  assumes "steque_pop q = Inr (x, q')"
  shows "st_N (fst q') = st_N (fst q) - 1 \<and> - int_max - 1 \<le> st_N (fst q) - 1"
  using assms
  by (cases q)
    (auto simp: steque_pop_def bind_res_eq_Inr int_add_def Let_def split: if_splits)

function steque_destroy :: "steque \<times> 'a sheap \<Rightarrow> (steque \<times> 'a sheap) result" where
  "steque_destroy q =
     (if steque_isempty q then Inr q
      else (case steque_pop q of Inl e \<Rightarrow> Inl e | Inr (x, q') \<Rightarrow> steque_destroy q'))"
  by pat_completeness auto
termination
  by (relation "measure (\<lambda>q. nat (st_N (fst q) + int_max + 1))")
    (auto dest!: steque_pop_counter)

declare steque_destroy.simps [simp del]

section \<open>The nodes of a queue\<close>

text \<open>A segment of the store from one pointer to another, with its addresses and items.\<close>

fun segment :: "(nat \<rightharpoonup> 'a snode) \<Rightarrow> nat option \<Rightarrow> (nat \<times> 'a) list \<Rightarrow> nat option \<Rightarrow> bool" where
  "segment m p [] q = (p = q)"
| "segment m p ((a, x) # ns) q =
     (p = Some a \<and> (case m a of None \<Rightarrow> False
                    | Some n \<Rightarrow> st_item n = x \<and> segment m (next_node n) ns q))"

definition steque_rep :: "'a sheap \<Rightarrow> steque \<Rightarrow> (nat \<times> 'a) list \<Rightarrow> bool" where
  "steque_rep h s ns \<longleftrightarrow>
     segment (snodes h) (st_front s) ns None \<and> distinct (map fst ns) \<and>
     st_back s = (if ns = [] then None else Some (fst (last ns))) \<and>
     st_N s = int (length ns) \<and> int (length ns) \<le> int_max"

definition sheap_ok :: "'a sheap \<Rightarrow> bool" where
  "sheap_ok h \<longleftrightarrow> (\<forall>a \<ge> sfresh h. snodes h a = None)"

definition steque_invar :: "steque \<times> 'a sheap \<Rightarrow> bool" where
  "steque_invar = (\<lambda>(s, h). sheap_ok h \<and> (\<exists>ns. steque_rep h s ns))"

text \<open>The abstraction: follow the pointers as often as the counter says.\<close>

fun walk :: "(nat \<rightharpoonup> 'a snode) \<Rightarrow> nat option \<Rightarrow> nat \<Rightarrow> 'a list" where
  "walk m p 0 = []"
| "walk m p (Suc k) =
     (case p of
        None \<Rightarrow> []
      | Some a \<Rightarrow> (case m a of None \<Rightarrow> [] | Some n \<Rightarrow> st_item n # walk m (next_node n) k))"

definition steque_items :: "steque \<times> 'a sheap \<Rightarrow> 'a list" where
  "steque_items = (\<lambda>(s, h). walk (snodes h) (st_front s) (nat (st_N s)))"

definition steque_room :: "steque \<times> 'a sheap \<Rightarrow> bool" where
  "steque_room = (\<lambda>(s, h). 0 < savail h \<and> st_N s < int_max)"

lemma segment_cong:
  "(\<And>a. a \<in> fst ` set ns \<Longrightarrow> m' a = m a) \<Longrightarrow> segment m p ns q \<Longrightarrow> segment m' p ns q"
  by (induction m p ns q rule: segment.induct) (auto split: option.splits)

lemma segment_append:
  "segment m p (xs @ ys) q = (\<exists>r. segment m p xs r \<and> segment m r ys q)"
  by (induction m p xs q rule: segment.induct) (auto split: option.splits)

lemma segment_dom: "segment m p ns q \<Longrightarrow> a \<in> fst ` set ns \<Longrightarrow> m a \<noteq> None"
  by (induction m p ns q rule: segment.induct) (auto split: option.splits)

lemma segment_walk: "segment m p ns None \<Longrightarrow> walk m p (length ns) = map snd ns"
  by (induction m p ns "None :: nat option" rule: segment.induct) (auto split: option.splits)

lemma segment_redirect_last:
  assumes "segment m p (ns @ [(b, y)]) q" and "b \<notin> fst ` set ns" and "m b = Some n"
  shows "segment (m(b \<mapsto> n\<lparr>next_node := q'\<rparr>)) p (ns @ [(b, y)]) q'"
proof -
  from assms(1) obtain r where r: "segment m p ns r" "segment m r [(b, y)] q"
    by (auto simp: segment_append)
  have "segment (m(b \<mapsto> n\<lparr>next_node := q'\<rparr>)) p ns r"
    by (rule segment_cong [OF _ r(1)]) (use assms(2) in auto)
  with r(2) assms(3) show ?thesis
    by (auto simp: segment_append intro!: exI [of _ r])
qed

lemma rep_items: "steque_rep h s ns \<Longrightarrow> steque_items (s, h) = map snd ns"
  by (simp add: steque_rep_def steque_items_def segment_walk)

lemma rep_fresh: "sheap_ok h \<Longrightarrow> steque_rep h s ns \<Longrightarrow> sfresh h \<notin> fst ` set ns"
  using segment_dom by (fastforce simp: steque_rep_def sheap_ok_def)


section \<open>The operations on the abstract list\<close>

lemma enqueue_rep:
  assumes ok: "sheap_ok h" and rep: "steque_rep h s ns" and room: "steque_room (s, h)"
  shows "\<exists>s' h' a. steque_enqueue (s, h) x = Inr (s', h') \<and> sheap_ok h' \<and>
    steque_rep h' s' (ns @ [(a, x)]) \<and> savail h' = savail h - 1"
proof -
  let ?a = "sfresh h" and ?n = "\<lparr>st_item = x, next_node = None\<rparr>"
  let ?m1 = "(snodes h)(?a \<mapsto> ?n)"
  have notin: "?a \<notin> fst ` set ns" using rep_fresh [OF ok rep] .
  have N: "int_add (st_N s) 1 = Inr (st_N s + 1)" "st_N s + 1 \<le> int_max"
    using rep room by (auto simp: steque_rep_def steque_room_def int_add_def int_max_def)
  have seg1: "segment ?m1 (st_front s) ns None"
    by (rule segment_cong [of ns _ "snodes h"])
      (use rep notin in \<open>force simp: steque_rep_def\<close>)+
  show ?thesis
  proof (cases ns rule: rev_cases)
    case Nil
    then show ?thesis
      using rep room ok N
      by (auto simp: steque_enqueue_def node_alloc_def steque_rep_def steque_room_def sheap_ok_def)
  next
    case (snoc ns' bx)
    obtain b y where bx: "bx = (b, y)" by (cases bx)
    obtain nb where nb: "snodes h b = Some nb"
      using segment_dom [of "snodes h" "st_front s" ns None b] rep snoc bx
      by (auto simp: steque_rep_def)
    have ne: "b \<noteq> ?a" "b \<notin> fst ` set ns'"
      using notin snoc bx rep by (auto simp: steque_rep_def)
    let ?m2 = "?m1(b \<mapsto> nb\<lparr>next_node := Some ?a\<rparr>)"
    have "segment ?m2 (st_front s) (ns' @ [(b, y)]) (Some ?a)"
      by (rule segment_redirect_last) (use seg1 snoc bx ne nb in auto)
    then have "segment ?m2 (st_front s) ns (Some ?a)" by (simp add: snoc bx)
    then have "segment ?m2 (st_front s) (ns @ [(?a, x)]) None"
      using ne(1) by (auto simp: segment_append)
    moreover have "steque_enqueue (s, h) x = Inr (s\<lparr>st_back := Some ?a, st_N := st_N s + 1\<rparr>,
        h\<lparr>snodes := ?m2, sfresh := Suc ?a, savail := savail h - 1\<rparr>)"
      using rep snoc bx room ne nb N
      by (auto simp: steque_enqueue_def node_alloc_def node_set_next_def steque_rep_def
          steque_room_def)
    moreover have "sheap_ok (h\<lparr>snodes := ?m2, sfresh := Suc ?a, savail := savail h - 1\<rparr>)"
      using ok nb by (auto simp: sheap_ok_def)
    ultimately show ?thesis
      using rep notin N snoc
      by (intro exI [of _ "s\<lparr>st_back := Some ?a, st_N := st_N s + 1\<rparr>"] exI [of _ ?a]
          exI [of _ "h\<lparr>snodes := ?m2, sfresh := Suc ?a, savail := savail h - 1\<rparr>"])
        (auto simp: steque_rep_def)
  qed
qed

lemma push_rep:
  assumes ok: "sheap_ok h" and rep: "steque_rep h s ns" and room: "steque_room (s, h)"
  shows "\<exists>s' h' a. steque_push (s, h) x = Inr (s', h') \<and> sheap_ok h' \<and>
    steque_rep h' s' ((a, x) # ns) \<and> savail h' = savail h - 1"
proof -
  let ?a = "sfresh h" and ?n = "\<lparr>st_item = x, next_node = st_front s\<rparr>"
  let ?m1 = "(snodes h)(?a \<mapsto> ?n)"
  have notin: "?a \<notin> fst ` set ns" using rep_fresh [OF ok rep] .
  have "segment ?m1 (st_front s) ns None"
    by (rule segment_cong [of ns _ "snodes h"])
      (use rep notin in \<open>force simp: steque_rep_def\<close>)+
  then show ?thesis
    using rep room ok notin
    by (auto simp: steque_push_def node_alloc_def steque_rep_def steque_room_def sheap_ok_def
        int_add_def int_max_def Let_def)
qed

lemma pop_rep:
  assumes ok: "sheap_ok h" and rep: "steque_rep h s ((a, x) # ns)"
  shows "\<exists>s' h'. steque_pop (s, h) = Inr (x, s', h') \<and> sheap_ok h' \<and> steque_rep h' s' ns \<and>
    savail h' = Suc (savail h)"
proof -
  obtain n where n: "snodes h a = Some n" "st_item n = x" "segment (snodes h) (next_node n) ns None"
      "st_front s = Some a"
    using rep by (auto simp: steque_rep_def split: option.splits)
  have "segment ((snodes h)(a := None)) (next_node n) ns None"
    by (rule segment_cong [OF _ n(3)]) (use rep in \<open>auto simp: steque_rep_def\<close>)
  moreover have "next_node n = None \<longleftrightarrow> ns = []"
    using n(3) by (cases ns) auto
  moreover have "int_add (st_N s) (-1) = Inr (st_N s - 1)"
    using rep by (auto simp: steque_rep_def int_add_def int_max_def)
  ultimately show ?thesis
    using n rep ok
    by (auto simp: steque_pop_def node_get_def node_free_def steque_rep_def sheap_ok_def Let_def)
qed

lemma pop_rep_empty: "steque_rep h s [] \<Longrightarrow> steque_pop (s, h) = Inl (Exit 1)"
  by (simp add: steque_rep_def steque_pop_def)

lemma cycle_rep:
  assumes ok: "sheap_ok h" and rep: "steque_rep h s ((a, x) # ns)"
  shows "\<exists>s' h'. steque_cycle (s, h) = Inr (s', h') \<and> sheap_ok h' \<and>
    steque_rep h' s' (ns @ [(a, x)]) \<and> savail h' = savail h"
proof -
  obtain n where n: "snodes h a = Some n" "st_item n = x" "segment (snodes h) (next_node n) ns None"
      "st_front s = Some a"
    using rep by (auto simp: steque_rep_def split: option.splits)
  have bk: "st_back s = Some (fst (last ((a, x) # ns)))" using rep by (simp add: steque_rep_def)
  show ?thesis
  proof (cases ns rule: rev_cases)
    case Nil
    with n have "next_node n = None" by simp
    with Nil n bk rep ok show ?thesis
      by (auto simp: steque_cycle_def node_get_def node_set_next_def steque_rep_def sheap_ok_def Let_def)
  next
    case (snoc ns' bx)
    obtain b y where bx: "bx = (b, y)" by (cases bx)
    obtain nb where nb: "snodes h b = Some nb"
      using segment_dom [OF n(3), of b] snoc bx by auto
    have ne: "b \<noteq> a" "b \<notin> fst ` set ns'" "a \<notin> fst ` set ns"
      using snoc bx rep by (auto simp: steque_rep_def)
    let ?m1 = "(snodes h)(b \<mapsto> nb\<lparr>next_node := Some a\<rparr>)"
    let ?m2 = "?m1(a \<mapsto> n\<lparr>next_node := None\<rparr>)"
    have "segment ?m1 (next_node n) ns (Some a)"
      unfolding snoc bx by (rule segment_redirect_last) (use n(3) snoc bx ne nb in auto)
    then have "segment ?m2 (next_node n) ns (Some a)"
      by (rule segment_cong [rotated]) (use ne(3) in auto)
    then have "segment ?m2 (next_node n) (ns @ [(a, x)]) None"
      using n by (simp only: segment_append) auto
    moreover have "steque_cycle (s, h) = Inr (s\<lparr>st_back := Some a, st_front := next_node n\<rparr>,
        h\<lparr>snodes := ?m2\<rparr>)"
      using n nb bk ne snoc bx
      by (auto simp: steque_cycle_def node_get_def node_set_next_def Let_def)
    moreover have "sheap_ok (h\<lparr>snodes := ?m2\<rparr>)"
      using ok nb n(1) by (auto simp: sheap_ok_def)
    ultimately show ?thesis
      using rep
      by (intro exI [of _ "s\<lparr>st_back := Some a, st_front := next_node n\<rparr>"]
          exI [of _ "h\<lparr>snodes := ?m2\<rparr>"]) (auto simp: steque_rep_def)
  qed
qed


section \<open>The queue laws\<close>

text \<open>
  What the worker pools and the cache daemon rely on: a first-in first-out queue with an
  invariant, a list abstraction and a bound on what fits.
\<close>

locale fifo_queue =
  fixes enq :: "'q \<Rightarrow> 'a \<Rightarrow> 'q result"
    and deq :: "'q \<Rightarrow> ('a \<times> 'q) result"
    and is_empty :: "'q \<Rightarrow> bool"
    and invar :: "'q \<Rightarrow> bool"
    and contents :: "'q \<Rightarrow> 'a list"
    and room :: "'q \<Rightarrow> nat"
  assumes empty_law: "invar q \<Longrightarrow> is_empty q \<longleftrightarrow> contents q = []"
    and enq_law: "invar q \<Longrightarrow> 0 < room q \<Longrightarrow>
      \<exists>q'. enq q x = Inr q' \<and> invar q' \<and> contents q' = contents q @ [x] \<and> room q' = room q - 1"
    and deq_law: "invar q \<Longrightarrow> contents q = x # xs \<Longrightarrow>
      \<exists>q'. deq q = Inr (x, q') \<and> invar q' \<and> contents q' = xs \<and> room q' = Suc (room q)"
    and deq_empty_law: "invar q \<Longrightarrow> contents q = [] \<Longrightarrow> deq q = Inl (Exit 1)"
begin

lemma deq_total: "invar q \<Longrightarrow> \<not> is_empty q \<Longrightarrow>
    \<exists>q'. deq q = Inr (hd (contents q), q') \<and> invar q' \<and> contents q' = tl (contents q) \<and>
      room q' = Suc (room q)"
  using empty_law [of q] deq_law [of q] by (cases "contents q") auto

lemma deq_Inr_iff: "invar q \<Longrightarrow> (\<exists>r. deq q = Inr r) \<longleftrightarrow> \<not> is_empty q"
  using deq_total [of q] deq_empty_law [of q] empty_law [of q] by auto

lemma deq_InrD:
  assumes "invar q" and "deq q = Inr (x, q')"
  shows "invar q' \<and> contents q = x # contents q' \<and> room q' = Suc (room q)"
proof -
  have "contents q \<noteq> []" using assms deq_empty_law by force
  then show ?thesis
    using deq_law [OF assms(1)] assms(2) by (cases "contents q") auto
qed

lemma enq_InrD:
  assumes "invar q" and "0 < room q" and "enq q x = Inr q'"
  shows "invar q' \<and> contents q' = contents q @ [x] \<and> room q' = room q - 1"
  using enq_law [OF assms(1,2), of x] assms(3) by auto

lemma enq_then_deq:
  assumes "invar q" and "0 < room q" and "contents q = []" and "enq q x = Inr q'"
  shows "\<exists>q''. deq q' = Inr (x, q'') \<and> contents q'' = []"
  using enq_InrD [OF assms(1,2,4)] deq_law [of q' x "[]"] assms(3) by auto

end

definition steque_capacity :: "steque \<times> 'a sheap \<Rightarrow> nat" where
  "steque_capacity = (\<lambda>(s, h). min (savail h) (nat (int_max - st_N s)))"

interpretation sq: fifo_queue steque_enqueue steque_pop steque_isempty
  steque_invar steque_items steque_capacity
proof
  fix q :: "steque \<times> 'a sheap" and x :: 'a and xs
  obtain s h where q: "q = (s, h)" by (cases q)
  assume "steque_invar q"
  then obtain ns where ok: "sheap_ok h" and rep: "steque_rep h s ns"
    by (auto simp: steque_invar_def q)
  then have it: "steque_items q = map snd ns" and N: "st_N s = int (length ns)"
      "int (length ns) \<le> int_max"
    by (simp_all add: rep_items q) (simp_all add: steque_rep_def)
  then show "steque_isempty q \<longleftrightarrow> steque_items q = []"
    by (auto simp: steque_isempty_def q)
  show "\<exists>q'. steque_enqueue q x = Inr q' \<and> steque_invar q' \<and>
      steque_items q' = steque_items q @ [x] \<and> steque_capacity q' = steque_capacity q - 1"
    if "0 < steque_capacity q"
  proof -
    have "steque_room (s, h)"
      using that by (simp add: steque_room_def steque_capacity_def q)
    from enqueue_rep [OF ok rep this, of x] obtain s' h' a where
      e: "steque_enqueue (s, h) x = Inr (s', h')" "sheap_ok h'" "steque_rep h' s' (ns @ [(a, x)])"
      "savail h' = savail h - 1" by blast
    then show ?thesis
      using it N rep_items [OF e(3)]
      by (auto simp: q steque_invar_def steque_capacity_def steque_rep_def)
  qed
  show "\<exists>q'. steque_pop q = Inr (x, q') \<and> steque_invar q' \<and> steque_items q' = xs \<and>
      steque_capacity q' = Suc (steque_capacity q)"
    if c: "steque_items q = x # xs"
  proof -
    obtain a ns' where ns: "ns = (a, x) # ns'" "map snd ns' = xs"
      using it c by (cases ns) auto
    from pop_rep [OF ok rep [unfolded ns]] obtain s' h' where
      p: "steque_pop (s, h) = Inr (x, s', h')" "sheap_ok h'" "steque_rep h' s' ns'"
      "savail h' = Suc (savail h)" by blast
    moreover have "st_N s' = st_N s - 1"
      using p(3) N ns by (simp add: steque_rep_def)
    ultimately show ?thesis
      using N ns by (auto simp: q rep_items steque_invar_def steque_capacity_def)
  qed
  show "steque_pop q = Inl (Exit 1)" if "steque_items q = []"
    using that it rep pop_rep_empty [of h s] by (simp add: q)
qed

text \<open>A fresh queue on a store of \<open>n\<close> nodes.\<close>

definition empty_sheap :: "nat \<Rightarrow> 'a sheap" where
  "empty_sheap n = \<lparr>snodes = Map.empty, sfresh = 0, savail = n\<rparr>"

lemma steque_init_invar:
  fixes n :: nat
  shows "steque_invar (steque_init, empty_sheap n :: 'a sheap)"
    and "steque_items (steque_init, empty_sheap n :: 'a sheap) = []"
    and "steque_capacity (steque_init, empty_sheap n :: 'a sheap) = min n (nat int_max)"
proof -
  have "steque_rep (empty_sheap n) steque_init ([] :: (nat \<times> 'a) list)"
    by (simp add: steque_rep_def steque_init_def int_max_def)
  then show "steque_invar (steque_init, empty_sheap n :: 'a sheap)"
    and "steque_items (steque_init, empty_sheap n :: 'a sheap) = []"
    by (auto simp: steque_invar_def rep_items sheap_ok_def empty_sheap_def)
  show "steque_capacity (steque_init, empty_sheap n :: 'a sheap) = min n (nat int_max)"
    by (simp add: steque_capacity_def steque_init_def empty_sheap_def)
qed


text \<open>
  The interface of a queue that is also used from its front: pushing, looking at the front and
  cycling it to the back.
\<close>

locale front_queue = fifo_queue enq deq is_empty invar contents room
  for enq :: "'q \<Rightarrow> 'x \<Rightarrow> 'q result" and deq :: "'q \<Rightarrow> ('x \<times> 'q) result"
    and is_empty :: "'q \<Rightarrow> bool" and invar :: "'q \<Rightarrow> bool" and contents :: "'q \<Rightarrow> 'x list"
    and room :: "'q \<Rightarrow> nat" +
  fixes push :: "'q \<Rightarrow> 'x \<Rightarrow> 'q result"
    and front :: "'q \<Rightarrow> 'x result"
    and cycle :: "'q \<Rightarrow> 'q result"
  assumes push_law: "invar q \<Longrightarrow> 0 < room q \<Longrightarrow>
      \<exists>q'. push q x = Inr q' \<and> invar q' \<and> contents q' = x # contents q \<and> room q' = room q - 1"
    and front_law: "invar q \<Longrightarrow> contents q = x # xs \<Longrightarrow> front q = Inr x"
    and cycle_law: "invar q \<Longrightarrow> contents q = x # xs \<Longrightarrow>
      \<exists>q'. cycle q = Inr q' \<and> invar q' \<and> contents q' = xs @ [x] \<and> room q' = room q"
begin

lemma push_then_deq:
  assumes "invar q" and "0 < room q" and "push q x = Inr q'"
  shows "\<exists>q''. deq q' = Inr (x, q'') \<and> contents q'' = contents q \<and> room q'' = room q"
proof -
  from push_law [OF assms(1,2), of x] assms(3) have
    "invar q'" "contents q' = x # contents q" "room q' = room q - 1" by auto
  with deq_law [of q' x "contents q"] assms(2) show ?thesis by auto
qed

text \<open>Cycling visits every item: after \<open>length\<close> steps the queue is as it was.\<close>

primrec cycle_n :: "nat \<Rightarrow> 'q \<Rightarrow> 'q result" where
  "cycle_n 0 q = Inr q"
| "cycle_n (Suc n) q = bind_res (cycle q) (cycle_n n)"

lemma cycle_n_rotates:
  assumes "invar q" and "n \<le> length (contents q)"
  shows "\<exists>q'. cycle_n n q = Inr q' \<and> invar q' \<and> room q' = room q \<and>
    contents q' = drop n (contents q) @ take n (contents q)"
  using assms
proof (induction n arbitrary: q)
  case (Suc n)
  then obtain x xs where c: "contents q = x # xs" by (cases "contents q") auto
  from cycle_law [OF Suc.prems(1) c] obtain q1 where
    q1: "cycle q = Inr q1" "invar q1" "contents q1 = xs @ [x]" "room q1 = room q" by blast
  with Suc.IH [of q1] Suc.prems(2) c show ?case by auto
qed simp

end

interpretation dq: front_queue steque_enqueue steque_pop steque_isempty
  steque_invar steque_items steque_capacity steque_push steque_front steque_cycle
proof
  fix q :: "steque \<times> 'a sheap" and x :: 'a and xs
  obtain s h where q: "q = (s, h)" by (cases q)
  assume "steque_invar q"
  then obtain ns where ok: "sheap_ok h" and rep: "steque_rep h s ns"
    by (auto simp: steque_invar_def q)
  have it: "steque_items q = map snd ns" by (simp add: rep_items [OF rep] q)
  show "\<exists>q'. steque_push q x = Inr q' \<and> steque_invar q' \<and> steque_items q' = x # steque_items q \<and>
      steque_capacity q' = steque_capacity q - 1" if "0 < steque_capacity q"
  proof -
    have "steque_room (s, h)" using that by (simp add: steque_room_def steque_capacity_def q)
    from push_rep [OF ok rep this, of x] obtain s' h' a where
      p: "steque_push (s, h) x = Inr (s', h')" "sheap_ok h'" "steque_rep h' s' ((a, x) # ns)"
        "savail h' = savail h - 1" by blast
    have "st_N s' = st_N s + 1" using p(3) rep by (simp add: steque_rep_def)
    with p it rep_items [OF p(3)] show ?thesis
      by (auto simp: q steque_invar_def steque_capacity_def)
  qed
  assume c: "steque_items q = x # xs"
  then obtain a ns' where ns: "ns = (a, x) # ns'" "map snd ns' = xs" using it by (cases ns) auto
  show "steque_front q = Inr x"
    using rep ns(1) by (auto simp: q steque_front_def node_get_def steque_rep_def split: option.splits)
  from cycle_rep [OF ok rep [unfolded ns(1)]] obtain s' h' where
    r: "steque_cycle (s, h) = Inr (s', h')" "sheap_ok h'" "steque_rep h' s' (ns' @ [(a, x)])"
      "savail h' = savail h" by blast
  have "st_N s' = st_N s" using r(3) rep ns(1) by (simp add: steque_rep_def)
  with r rep_items [OF r(3)] ns(2) show "\<exists>q'. steque_cycle q = Inr q' \<and> steque_invar q' \<and>
      steque_items q' = xs @ [x] \<and> steque_capacity q' = steque_capacity q"
    by (auto simp: q steque_invar_def steque_capacity_def)
qed

lemma steque_cycle_empty: "steque_invar q \<Longrightarrow> steque_items q = [] \<Longrightarrow> steque_cycle q = Inr q"
  by (cases q) (auto simp: steque_invar_def steque_cycle_def steque_rep_def rep_items)

lemma steque_front_empty: "steque_invar q \<Longrightarrow> steque_items q = [] \<Longrightarrow> steque_front q = Inl (Exit 1)"
  by (cases q) (auto simp: steque_invar_def steque_front_def steque_rep_def rep_items)

lemma steque_size_items: "steque_invar q \<Longrightarrow> steque_size q = int (length (steque_items q))"
  by (cases q) (auto simp: steque_invar_def steque_size_def steque_rep_def rep_items)

section \<open>Properties\<close>

text \<open>Running a list of items through the queue.\<close>

primrec enqueue_all :: "steque \<times> 'a sheap \<Rightarrow> 'a list \<Rightarrow> (steque \<times> 'a sheap) result" where
  "enqueue_all q [] = Inr q"
| "enqueue_all q (x # xs) = bind_res (steque_enqueue q x) (\<lambda>q'. enqueue_all q' xs)"

lemma enqueue_all_items:
  assumes "steque_invar q" and "length xs \<le> steque_capacity q"
  shows "\<exists>q'. enqueue_all q xs = Inr q' \<and> steque_invar q' \<and>
    steque_items q' = steque_items q @ xs \<and> steque_capacity q' = steque_capacity q - length xs"
  using assms
proof (induction xs arbitrary: q)
  case (Cons x xs)
  from Cons.prems obtain q1 where q1: "steque_enqueue q x = Inr q1" "steque_invar q1"
      "steque_items q1 = steque_items q @ [x]" "steque_capacity q1 = steque_capacity q - 1"
    using sq.enq_law [of q x] by auto
  from Cons.IH [OF q1(2)] Cons.prems(2) q1 show ?case by auto
qed simp

lemma destroy_empties:
  assumes "steque_invar q"
  shows "\<exists>q'. steque_destroy q = Inr q' \<and> steque_invar q' \<and> steque_items q' = [] \<and>
    steque_capacity q' = steque_capacity q + length (steque_items q)"
  using assms
proof (induction "steque_items q" arbitrary: q)
  case Nil
  then show ?case using sq.empty_law [of q] by (auto simp: steque_destroy.simps [of q])
next
  case (Cons x xs)
  from sq.deq_law [OF Cons.prems Cons.hyps(2) [symmetric]] obtain q1 where q1:
      "steque_pop q = Inr (x, q1)" "steque_invar q1" "steque_items q1 = xs"
      "steque_capacity q1 = Suc (steque_capacity q)" by blast
  have "\<not> steque_isempty q" using sq.empty_law [OF Cons.prems] Cons.hyps(2) by auto
  then have "steque_destroy q = steque_destroy q1"
    using q1(1) by (simp add: steque_destroy.simps [of q])
  then show ?case
    using Cons.hyps(1) [OF q1(3) [symmetric] q1(2)] q1 Cons.hyps(2) [symmetric] by auto
qed

text \<open>
  Property C15. The queue is first-in first-out: on any well-formed queue with room for one more
  node, enqueueing appends to the abstract list, pushing prepends, and popping, looking at the
  front and cycling act on its head, for the pointer code of \<open>steque.c\<close>.
\<close>

theorem steque_refines_list:
  assumes "steque_invar q" and "0 < steque_capacity q"
  shows "(\<exists>q'. steque_enqueue q x = Inr q' \<and> steque_invar q' \<and>
      steque_items q' = steque_items q @ [x]) \<and>
    (\<exists>q'. steque_push q x = Inr q' \<and> steque_invar q' \<and>
      steque_items q' = x # steque_items q) \<and>
    (case steque_items q of
       [] \<Rightarrow> steque_pop q = Inl (Exit 1) \<and> steque_front q = Inl (Exit 1) \<and> steque_cycle q = Inr q
     | y # ys \<Rightarrow> steque_front q = Inr y \<and>
         (\<exists>q'. steque_pop q = Inr (y, q') \<and> steque_invar q' \<and> steque_items q' = ys) \<and>
         (\<exists>q'. steque_cycle q = Inr q' \<and> steque_invar q' \<and> steque_items q' = ys @ [y]))"
proof (cases "steque_items q")
  case Nil
  with sq.enq_law [OF assms, of x] dq.push_law [OF assms, of x] sq.deq_empty_law [OF assms(1)]
    steque_front_empty [OF assms(1)] steque_cycle_empty [OF assms(1)]
  show ?thesis by auto
next
  case (Cons y ys)
  with sq.enq_law [OF assms, of x] dq.push_law [OF assms, of x] sq.deq_law [OF assms(1) Cons]
    dq.front_law [OF assms(1) Cons] dq.cycle_law [OF assms(1) Cons]
  show ?thesis by auto
qed

definition sample_queue :: "steque \<times> nat sheap" where
  "sample_queue =
     (case enqueue_all (steque_init, empty_sheap 4) [10, 20] of
        Inl e \<Rightarrow> (steque_init, empty_sheap 4) | Inr q \<Rightarrow> q)"

lemma sample_queue_facts:
  "steque_invar sample_queue" "steque_items sample_queue = [10, 20]"
  "steque_capacity sample_queue = 2"
  using enqueue_all_items [of "(steque_init, empty_sheap 4)" "[10, 20 :: nat]"]
  by (auto simp: steque_init_invar int_max_def sample_queue_def)

theorem steque_refines_list_witness:
  "\<exists>q'. steque_cycle sample_queue = Inr q' \<and> steque_items q' = [20, 10]"
  using steque_refines_list [OF sample_queue_facts(1), of 30] sample_queue_facts by auto

text \<open>
  Property C38. Destroying a queue frees every node it owns: the loop ends, no access is invalid,
  the queue is empty and the store can give as many nodes as before they were enqueued.
\<close>

theorem steque_destroy_frees:
  assumes "steque_invar q" and "length xs \<le> steque_capacity q"
  shows "\<exists>q1 q2. enqueue_all q xs = Inr q1 \<and> steque_destroy q1 = Inr q2 \<and>
    steque_isempty q2 \<and> steque_capacity q2 = steque_capacity q + length (steque_items q)"
proof -
  from enqueue_all_items [OF assms] obtain q1 where q1: "enqueue_all q xs = Inr q1"
    "steque_invar q1" "steque_items q1 = steque_items q @ xs"
    "steque_capacity q1 = steque_capacity q - length xs" by blast
  from destroy_empties [OF q1(2)] obtain q2 where "steque_destroy q1 = Inr q2" "steque_invar q2"
    "steque_items q2 = []" "steque_capacity q2 = steque_capacity q1 + length (steque_items q1)"
    by blast
  with q1 assms(2) sq.empty_law [of q2] show ?thesis
    by (intro exI [of _ q1] exI [of _ q2]) simp
qed

theorem steque_destroy_frees_witness:
  "\<exists>q1 q2. enqueue_all sample_queue [7, 8] = Inr q1 \<and> steque_destroy q1 = Inr q2 \<and>
    steque_capacity q2 = 4"
  using steque_destroy_frees [OF sample_queue_facts(1), of "[7, 8]"] sample_queue_facts by auto

end
