(* ===== verification/Pool.thy ===== *)
theory Pool
  imports Schedule Steque "HOL-Library.Multiset"
begin

text \<open>
  The boss/worker pools that share a request queue under a mutex: the threads as program
  counters, one atomic step per access to the shared state, and every interleaving as a schedule.
  The worker loop is the one of \<open>project4/minifyjpeg_main.c\<close> and of
  \<open>project1/ud923-project1-mtgf/gfclient_download.c\<close>: lock, test the queue, pop and unlock,
  work on the request, and again; on an empty queue it unlocks and returns. What a request's work
  does to the shared environment is a parameter with the contract \<open>pool_worker\<close>.
\<close>

section \<open>Threads and their steps\<close>

datatype owner = Boss | Worker nat

datatype ('a, 'l) worker_pc = W_Lock | W_Test | W_Work 'a 'l | W_Exit

datatype 'a boss_pc = B_Next "'a list" | B_Put 'a "'a list" | B_Join | B_Done

text \<open>
  The shared queue and mutex, the program counters, the environment the work acts on, and, as a
  history, the requests whose work has been completed.
\<close>

record ('a, 'l, 'e) pool =
  pl_queue :: "steque \<times> 'a sheap"
  pl_mutex :: "owner option"
  pl_workers :: "('a, 'l) worker_pc list"
  pl_boss :: "'a boss_pc"
  pl_env :: 'e
  pl_finished :: "'a list"

text \<open>
  One step of worker \<open>i\<close>; \<open>None\<close> if it has to wait or has returned. A step of the work either
  goes on with a new local state or has completed the request.
\<close>

definition worker_step ::
  "('a \<Rightarrow> 'l \<Rightarrow> 'e \<Rightarrow> ('l option \<times> 'e) result) \<Rightarrow> 'l \<Rightarrow> nat \<Rightarrow> ('a, 'l, 'e) pool \<Rightarrow>
     ('a, 'l, 'e) pool result option" where
  "worker_step work l0 i s =
     (case pl_workers s ! i of
        W_Lock \<Rightarrow>
          if pl_mutex s = None
          then Some (Inr (s\<lparr>pl_mutex := Some (Worker i), pl_workers := (pl_workers s)[i := W_Test]\<rparr>))
          else None
      | W_Test \<Rightarrow>
          if steque_isempty (pl_queue s)
          then Some (Inr (s\<lparr>pl_mutex := None, pl_workers := (pl_workers s)[i := W_Exit]\<rparr>))
          else Some (bind_res (steque_pop (pl_queue s)) (\<lambda>(r, q).
                 Inr (s\<lparr>pl_queue := q, pl_mutex := None,
                       pl_workers := (pl_workers s)[i := W_Work r l0]\<rparr>)))
      | W_Work r l \<Rightarrow>
          Some (bind_res (work r l (pl_env s)) (\<lambda>(l', e).
            Inr (case l' of
                   None \<Rightarrow> s\<lparr>pl_env := e, pl_workers := (pl_workers s)[i := W_Lock],
                             pl_finished := pl_finished s @ [r]\<rparr>
                 | Some l1 \<Rightarrow> s\<lparr>pl_env := e, pl_workers := (pl_workers s)[i := W_Work r l1]\<rparr>)))
      | W_Exit \<Rightarrow> None)"

text \<open>
  The boss: for each request it checks it, locks, enqueues and unlocks; then it joins all
  workers.
\<close>

definition boss_step ::
  "('a \<Rightarrow> bool) \<Rightarrow> ('a, 'l, 'e) pool \<Rightarrow> ('a, 'l, 'e) pool result option" where
  "boss_step accept s =
     (case pl_boss s of
        B_Next [] \<Rightarrow> Some (Inr (s\<lparr>pl_boss := B_Join\<rparr>))
      | B_Next (x # xs) \<Rightarrow>
          if \<not> accept x then Some (Inl (Exit 1))
          else if pl_mutex s = None
          then Some (Inr (s\<lparr>pl_mutex := Some Boss, pl_boss := B_Put x xs\<rparr>))
          else None
      | B_Put x xs \<Rightarrow>
          Some (bind_res (steque_enqueue (pl_queue s) x) (\<lambda>q.
            Inr (s\<lparr>pl_queue := q, pl_mutex := None, pl_boss := B_Next xs\<rparr>)))
      | B_Join \<Rightarrow>
          if \<forall>w \<in> set (pl_workers s). w = W_Exit then Some (Inr (s\<lparr>pl_boss := B_Done\<rparr>)) else None
      | B_Done \<Rightarrow> None)"

definition pool_act ::
  "('a \<Rightarrow> 'l \<Rightarrow> 'e \<Rightarrow> ('l option \<times> 'e) result) \<Rightarrow> 'l \<Rightarrow> ('a \<Rightarrow> bool) \<Rightarrow> owner \<Rightarrow>
     ('a, 'l, 'e) pool \<Rightarrow> ('a, 'l, 'e) pool result option" where
  "pool_act work l0 accept t s =
     (case t of
        Boss \<Rightarrow> boss_step accept s
      | Worker i \<Rightarrow> if i < length (pl_workers s) then worker_step work l0 i s else None)"

text \<open>The relation of all interleavings, and its run along a schedule, where a thread that has to
  wait lets the turn pass.\<close>

inductive pool_step ::
  "('a \<Rightarrow> 'l \<Rightarrow> 'e \<Rightarrow> ('l option \<times> 'e) result) \<Rightarrow> 'l \<Rightarrow> ('a \<Rightarrow> bool) \<Rightarrow>
     ('a, 'l, 'e) pool \<Rightarrow> ('a, 'l, 'e) pool \<Rightarrow> bool"
  for work l0 accept where
  act: "pool_act work l0 accept t s = Some (Inr s') \<Longrightarrow> pool_step work l0 accept s s'"

inductive_cases pool_stepE: "pool_step work l0 accept s s'"

abbreviation run_pool ::
  "('a \<Rightarrow> 'l \<Rightarrow> 'e \<Rightarrow> ('l option \<times> 'e) result) \<Rightarrow> 'l \<Rightarrow> ('a \<Rightarrow> bool) \<Rightarrow> owner list \<Rightarrow>
     ('a, 'l, 'e) pool \<Rightarrow> ('a, 'l, 'e) pool result" where
  "run_pool work l0 accept \<equiv> run_sched (pool_act work l0 accept)"

lemmas run_pool_append = run_sched_append

lemma run_pool_steps:
  "run_pool work l0 accept ts s = Inr s' \<Longrightarrow> (pool_step work l0 accept)\<^sup>*\<^sup>* s s'"
proof (induction ts arbitrary: s)
  case (Cons t ts)
  show ?case
  proof (cases "pool_act work l0 accept t s")
    case None
    then show ?thesis using Cons by simp
  next
    case (Some r)
    with Cons.prems obtain s1 where "r = Inr s1" "run_pool work l0 accept ts s1 = Inr s'"
      by (cases r) auto
    with Some Cons.IH show ?thesis
      by (meson converse_rtranclp_into_rtranclp pool_step.act)
  qed
qed simp

text \<open>Two kinds of work that agree up to the errors of the first make pools that agree up to them.\<close>

lemma pool_act_agrees:
  assumes "\<And>r l e. work r l e = work' r l e \<or> (\<exists>er. work r l e = Inl er \<and> P er)"
  shows "pool_act work l0 accept t s = pool_act work' l0 accept t s \<or>
    (\<exists>er. pool_act work l0 accept t s = Some (Inl er) \<and> P er)"
proof (cases t)
  case (Worker i)
  show ?thesis
  proof (cases "pl_workers s ! i")
    case (W_Work r l)
    with Worker assms [of r l "pl_env s"] show ?thesis by (auto simp: pool_act_def worker_step_def)
  qed (simp_all add: Worker pool_act_def worker_step_def)
qed (simp add: pool_act_def)

section \<open>Where the requests are\<close>

fun boss_todo :: "'a boss_pc \<Rightarrow> 'a list" where
  "boss_todo (B_Next xs) = xs"
| "boss_todo (B_Put x xs) = x # xs"
| "boss_todo B_Join = []"
| "boss_todo B_Done = []"

fun held :: "('a, 'l) worker_pc \<Rightarrow> 'a multiset" where
  "held (W_Work r l) = {#r#}"
| "held W_Lock = {#}"
| "held W_Test = {#}"
| "held W_Exit = {#}"

definition all_held :: "('a, 'l) worker_pc list \<Rightarrow> 'a multiset" where
  "all_held ws = sum_list (List.map held ws)"

lemma all_held_update:
  "i < length ws \<Longrightarrow> all_held (ws[i := w]) + held (ws ! i) = all_held ws + held w"
  by (induction ws arbitrary: i) (auto simp: all_held_def ac_simps split: nat.split)

definition pool_requests :: "('a, 'l, 'e) pool \<Rightarrow> 'a multiset" where
  "pool_requests s = mset (boss_todo (pl_boss s)) + mset (steque_items (pl_queue s)) +
     all_held (pl_workers s) + mset (pl_finished s)"

lemma no_held: "\<forall>w \<in> set ws. w = W_Lock \<or> w = W_Exit \<Longrightarrow> all_held ws = {#}"
  by (induction ws) (auto simp: all_held_def)

text \<open>Once the boss has joined the workers, they have all returned.\<close>

definition joined :: "('a, 'l, 'e) pool \<Rightarrow> bool" where
  "joined s \<longleftrightarrow> pl_boss s = B_Done \<longrightarrow> (\<forall>w \<in> set (pl_workers s). w = W_Exit)"

lemma joined_act:
  assumes "joined s" and "pool_act work l0 accept t s = Some (Inr s')"
  shows "joined s'"
proof (cases t)
  case Boss
  with assms show ?thesis
    by (auto simp: pool_act_def boss_step_def joined_def bind_res_eq_Inr
        split: boss_pc.splits list.splits if_splits)
next
  case (Worker i)
  with assms(2) have i: "i < length (pl_workers s)" and w: "worker_step work l0 i s = Some (Inr s')"
    by (auto simp: pool_act_def split: if_splits)
  then have "pl_workers s ! i \<noteq> W_Exit" by (auto simp: worker_step_def)
  with i assms(1) have "pl_boss s \<noteq> B_Done" by (metis joined_def nth_mem)
  moreover have "pl_boss s' = pl_boss s"
    using w by (auto simp: worker_step_def bind_res_eq_Inr split: worker_pc.splits if_splits option.splits)
  ultimately show ?thesis by (simp add: joined_def)
qed

lemma joined_run:
  "joined s \<Longrightarrow> run_pool work l0 accept ts s = Inr s' \<Longrightarrow> joined s'"
  by (rule run_sched_invariant [where I = joined]) (auto intro: joined_act)

lemma joined_requests:
  assumes "joined s" and "pl_boss s = B_Done"
  shows "pool_requests s = mset (steque_items (pl_queue s)) + mset (pl_finished s)"
  using assms no_held [of "pl_workers s"] by (auto simp: joined_def pool_requests_def)

text \<open>
  The invariant of the shared state: a well-formed queue with room for what the boss has left,
  and a mutex that is held exactly by the thread inside its critical section.
\<close>

definition pool_ok :: "('a, 'l, 'e) pool \<Rightarrow> bool" where
  "pool_ok s \<longleftrightarrow>
     steque_invar (pl_queue s) \<and> length (boss_todo (pl_boss s)) \<le> steque_capacity (pl_queue s) \<and>
     (\<forall>i < length (pl_workers s). pl_workers s ! i = W_Test \<longleftrightarrow> pl_mutex s = Some (Worker i)) \<and>
     (\<forall>i. pl_mutex s = Some (Worker i) \<longrightarrow> i < length (pl_workers s)) \<and>
     (pl_mutex s = Some Boss \<longleftrightarrow> (\<exists>x xs. pl_boss s = B_Put x xs))"


section \<open>Two extreme schedules\<close>

text \<open>The workers alone, on an empty queue: each of them returns.\<close>

lemma worker_alone:
  assumes "steque_isempty (pl_queue s)" and "pl_mutex s = None" and "i < length (pl_workers s)"
    and "pl_workers s ! i = W_Lock"
  shows "run_pool work l0 accept [Worker i, Worker i] s =
    Inr (s\<lparr>pl_workers := (pl_workers s)[i := W_Exit]\<rparr>)"
proof -
  let ?t = "s\<lparr>pl_mutex := Some (Worker i), pl_workers := (pl_workers s)[i := W_Test]\<rparr>"
  have "pool_act work l0 accept (Worker i) s = Some (Inr ?t)"
    using assms by (simp add: pool_act_def worker_step_def)
  moreover have "s\<lparr>pl_workers := ws, pl_mutex := None\<rparr> = s\<lparr>pl_workers := ws\<rparr>" for ws
    using assms(2) by (cases s) simp
  then have "pool_act work l0 accept (Worker i) ?t =
      Some (Inr (s\<lparr>pl_workers := (pl_workers s)[i := W_Exit]\<rparr>))"
    using assms by (simp add: pool_act_def worker_step_def)
  ultimately show ?thesis by simp
qed

lemma workers_alone:
  assumes "steque_isempty (pl_queue s)" and "pl_mutex s = None" and "pl_workers s = replicate n W_Lock"
    and "m \<le> n"
  shows "run_pool work l0 accept (concat (List.map (\<lambda>i. [Worker i, Worker i]) [0 ..< m])) s =
    Inr (s\<lparr>pl_workers := replicate m W_Exit @ replicate (n - m) W_Lock\<rparr>)"
  using assms(4)
proof (induction m)
  case 0
  have "s\<lparr>pl_workers := replicate n W_Lock\<rparr> = s"
    by (simp flip: assms(3))
  then show ?case by simp
next
  case (Suc m)
  let ?s = "s\<lparr>pl_workers := replicate m W_Exit @ replicate (n - m) W_Lock\<rparr>"
  have nth: "pl_workers ?s ! m = W_Lock"
    using Suc.prems by (simp add: nth_append)
  have upd: "(pl_workers ?s)[m := W_Exit] =
      replicate (Suc m) W_Exit @ replicate (n - Suc m) W_Lock"
    using Suc.prems by (simp add: list_update_append Suc_diff_Suc [symmetric] replicate_append_same)
  have "run_pool work l0 accept [Worker m, Worker m] ?s =
      Inr (s\<lparr>pl_workers := replicate (Suc m) W_Exit @ replicate (n - Suc m) W_Lock\<rparr>)"
    by (subst worker_alone) (use Suc.prems assms(1,2) nth upd in simp_all)
  with Suc show ?case by (simp add: run_pool_append)
qed

text \<open>The boss alone: it enqueues everything that it accepts.\<close>

lemma boss_alone:
  assumes "steque_invar (pl_queue s)" and "length xs \<le> steque_capacity (pl_queue s)"
    and "pl_mutex s = None" and "pl_boss s = B_Next xs" and "\<forall>x \<in> set xs. accept x"
  shows "\<exists>q. run_pool work l0 accept (replicate (2 * length xs + 1) Boss) s =
      Inr (s\<lparr>pl_queue := q, pl_boss := B_Join\<rparr>) \<and> steque_invar q \<and>
      steque_items q = steque_items (pl_queue s) @ xs"
  using assms
proof (induction xs arbitrary: s)
  case Nil
  have "s\<lparr>pl_queue := pl_queue s, pl_boss := B_Join\<rparr> = s\<lparr>pl_boss := B_Join\<rparr>" by simp
  with Nil show ?case by (intro exI [of _ "pl_queue s"]) (simp add: pool_act_def boss_step_def)
next
  case (Cons x xs)
  from sq.enq_law [OF Cons.prems(1), of x] Cons.prems(2) obtain q where
    q: "steque_enqueue (pl_queue s) x = Inr q" "steque_invar q"
      "steque_items q = steque_items (pl_queue s) @ [x]"
      "steque_capacity q = steque_capacity (pl_queue s) - 1" by auto
  let ?t = "s\<lparr>pl_queue := q, pl_boss := B_Next xs\<rparr>"
  have "run_pool work l0 accept [Boss, Boss] s = Inr ?t"
    using Cons.prems q(1) by (simp add: pool_act_def boss_step_def)
  moreover have "replicate (2 * length (x # xs) + 1) Boss = [Boss, Boss] @ replicate (2 * length xs + 1) Boss"
    by simp
  ultimately have "run_pool work l0 accept (replicate (2 * length (x # xs) + 1) Boss) s =
      run_pool work l0 accept (replicate (2 * length xs + 1) Boss) ?t"
    by (simp only: run_pool_append bind_res_simps)
  with Cons.IH [of ?t] Cons.prems q show ?case by simp
qed

section \<open>The contract of the work, and what the pool makes of it\<close>

text \<open>
  The work on a request that is in order (such requests the boss accepts) cannot fail in an
  environment that is in order, keeps it in order, and ends after the number of further steps
  that \<open>left\<close> bounds. Some resource of the environment may be bounded: each request may use
  one unit of it, \<open>cred\<close> is what the request may still use at a stage of its work, and the last
  argument of \<open>env_ok\<close> and \<open>stage_ok\<close> is what all requests together may still use.
\<close>

locale pool_worker =
  fixes work :: "'a \<Rightarrow> 'l \<Rightarrow> 'e \<Rightarrow> ('l option \<times> 'e) result"
    and l0 :: 'l
    and accept :: "'a \<Rightarrow> bool"
    and req_ok :: "'a \<Rightarrow> bool"
    and stage_ok :: "'a \<Rightarrow> 'l \<Rightarrow> nat \<Rightarrow> bool"
    and env_ok :: "'e \<Rightarrow> nat \<Rightarrow> bool"
    and cred :: "'l \<Rightarrow> nat"
    and left :: "'l \<Rightarrow> nat"
  assumes accept_law: "req_ok r \<Longrightarrow> accept r"
    and start_law: "req_ok r \<Longrightarrow> env_ok e k \<Longrightarrow> stage_ok r l0 k"
    and start_cred: "cred l0 = 1"
    and stage_mono: "stage_ok r l k \<Longrightarrow> k' \<le> k \<Longrightarrow> stage_ok r l k'"
    and work_law: "req_ok r \<Longrightarrow> stage_ok r l (k + cred l) \<Longrightarrow> env_ok e (k + cred l) \<Longrightarrow>
      \<exists>l' e'. work r l e = Inr (l', e') \<and>
        (case l' of
           None \<Rightarrow> env_ok e' k
         | Some l1 \<Rightarrow> stage_ok r l1 (k + cred l1) \<and> env_ok e' (k + cred l1) \<and>
             cred l1 \<le> cred l \<and> left l1 < left l)"
begin

fun held_cred :: "('a, 'l) worker_pc \<Rightarrow> nat" where
  "held_cred (W_Work r l) = cred l"
| "held_cred W_Lock = 0"
| "held_cred W_Test = 0"
| "held_cred W_Exit = 0"

definition pool_credit :: "('a, 'l, 'e) pool \<Rightarrow> nat" where
  "pool_credit s = length (boss_todo (pl_boss s)) + length (steque_items (pl_queue s)) +
     sum_list (List.map held_cred (pl_workers s))"

definition stages_ok :: "('a, 'l) worker_pc list \<Rightarrow> nat \<Rightarrow> bool" where
  "stages_ok ws k \<longleftrightarrow> (\<forall>r l. W_Work r l \<in> set ws \<longrightarrow> stage_ok r l k)"

definition good :: "('a, 'l, 'e) pool \<Rightarrow> bool" where
  "good s \<longleftrightarrow>
     pool_ok s \<and> (\<forall>r \<in># pool_requests s. req_ok r) \<and>
     stages_ok (pl_workers s) (pool_credit s) \<and> env_ok (pl_env s) (pool_credit s)"

lemma good_queue: "good s \<Longrightarrow> steque_invar (pl_queue s)"
  by (simp add: good_def pool_ok_def)

lemma cred_update:
  "i < length ws \<Longrightarrow> sum_list (List.map held_cred (ws[i := w])) + held_cred (ws ! i) =
     sum_list (List.map held_cred ws) + held_cred w"
  by (induction ws arbitrary: i) (auto split: nat.split)

lemma stages_update:
  assumes "stages_ok ws k" and "k' \<le> k" and "\<And>r l. w = W_Work r l \<Longrightarrow> stage_ok r l k'"
  shows "stages_ok (ws[i := w]) k'"
  using assms set_update_subset_insert [of ws i w] stage_mono
  unfolding stages_ok_def by blast

lemma good_lock:
  assumes "good s" and "i < length (pl_workers s)" and "pl_workers s ! i = W_Lock"
    and "pl_mutex s = None"
  shows "good (s\<lparr>pl_mutex := Some (Worker i), pl_workers := (pl_workers s)[i := W_Test]\<rparr>)"
proof -
  have "all_held ((pl_workers s)[i := W_Test]) = all_held (pl_workers s)"
    using all_held_update [OF assms(2), of W_Test] assms(3) by simp
  moreover have "stages_ok ((pl_workers s)[i := W_Test]) (pool_credit s)"
    using assms(1) by (intro stages_update) (auto simp: good_def)
  ultimately show ?thesis
    using assms cred_update [OF assms(2), of W_Test]
    by (auto simp: good_def pool_ok_def pool_requests_def pool_credit_def nth_list_update)
qed

lemma good_exit:
  assumes "good s" and "i < length (pl_workers s)" and "pl_workers s ! i = W_Test"
  shows "good (s\<lparr>pl_mutex := None, pl_workers := (pl_workers s)[i := W_Exit]\<rparr>)"
proof -
  have "all_held ((pl_workers s)[i := W_Exit]) = all_held (pl_workers s)"
    using all_held_update [OF assms(2), of W_Exit] assms(3) by simp
  moreover have "stages_ok ((pl_workers s)[i := W_Exit]) (pool_credit s)"
    using assms(1) by (intro stages_update) (auto simp: good_def)
  moreover have "pl_mutex s = Some (Worker i)"
    using assms by (auto simp: good_def pool_ok_def)
  ultimately show ?thesis
    using assms cred_update [OF assms(2), of W_Exit]
    by (auto simp: good_def pool_ok_def pool_requests_def pool_credit_def nth_list_update)
qed

lemma good_pop:
  assumes "good s" and "i < length (pl_workers s)" and "pl_workers s ! i = W_Test"
    and "steque_pop (pl_queue s) = Inr (r, q)"
  shows "good (s\<lparr>pl_queue := q, pl_mutex := None, pl_workers := (pl_workers s)[i := W_Work r l0]\<rparr>)"
    and "pool_requests (s\<lparr>pl_queue := q, pl_mutex := None,
      pl_workers := (pl_workers s)[i := W_Work r l0]\<rparr>) = pool_requests s"
proof -
  let ?t = "s\<lparr>pl_queue := q, pl_mutex := None, pl_workers := (pl_workers s)[i := W_Work r l0]\<rparr>"
  have q: "steque_invar q" "steque_items (pl_queue s) = r # steque_items q"
    "steque_capacity q = Suc (steque_capacity (pl_queue s))"
    using sq.deq_InrD [OF good_queue [OF assms(1)] assms(4)] by auto
  have "all_held ((pl_workers s)[i := W_Work r l0]) = all_held (pl_workers s) + {#r#}"
    using all_held_update [OF assms(2), of "W_Work r l0"] assms(3) by simp
  then show req: "pool_requests ?t = pool_requests s"
    using q(2) by (simp add: pool_requests_def)
  have cr: "pool_credit ?t = pool_credit s"
    using cred_update [OF assms(2), of "W_Work r l0"] assms(3) q(2) start_cred
    by (simp add: pool_credit_def)
  have acc: "req_ok r"
    using assms(1) q(2) by (simp add: good_def pool_requests_def)
  have st: "stages_ok ((pl_workers s)[i := W_Work r l0]) (pool_credit s)"
    using assms(1) start_law [OF acc] by (intro stages_update) (auto simp: good_def)
  have mx: "pl_mutex s = Some (Worker i)"
    using assms(1-3) by (auto simp: good_def pool_ok_def)
  have "pool_ok ?t"
    using assms(1-3) q mx by (auto simp: good_def pool_ok_def nth_list_update)
  then show "good ?t"
    using assms(1) st req cr by (simp add: good_def)
qed

lemma work_progress:
  assumes "good s" and "i < length (pl_workers s)" and "pl_workers s ! i = W_Work r l"
  shows "\<exists>l' e. work r l (pl_env s) = Inr (l', e) \<and>
    (case l' of
       None \<Rightarrow> good (s\<lparr>pl_env := e, pl_workers := (pl_workers s)[i := W_Lock],
                       pl_finished := pl_finished s @ [r]\<rparr>)
     | Some l1 \<Rightarrow> left l1 < left l \<and>
         good (s\<lparr>pl_env := e, pl_workers := (pl_workers s)[i := W_Work r l1]\<rparr>))"
proof -
  have mem: "W_Work r l \<in> set (pl_workers s)"
    using assms(2,3) by (metis nth_mem)
  have "all_held (pl_workers s) = all_held ((pl_workers s)[i := W_Lock]) + {#r#}"
    using all_held_update [OF assms(2), of W_Lock] assms(3) by simp
  then have r_in: "r \<in># all_held (pl_workers s)" by simp
  then have acc: "req_ok r" using assms(1) by (simp add: good_def pool_requests_def)
  define k where "k = pool_credit (s\<lparr>pl_workers := (pl_workers s)[i := W_Lock]\<rparr>)"
  have k: "pool_credit s = k + cred l"
    using cred_update [OF assms(2), of W_Lock] assms(3) by (simp add: k_def pool_credit_def)
  have sts: "stages_ok (pl_workers s) (k + cred l)" and env: "env_ok (pl_env s) (k + cred l)"
    using assms(1) by (simp_all add: good_def k)
  have st: "stage_ok r l (k + cred l)" using sts mem unfolding stages_ok_def by blast
  from work_law [OF acc st env] obtain l' e where w: "work r l (pl_env s) = Inr (l', e)" and
    c: "case l' of
           None \<Rightarrow> env_ok e k
         | Some l1 \<Rightarrow> stage_ok r l1 (k + cred l1) \<and> env_ok e (k + cred l1) \<and>
             cred l1 \<le> cred l \<and> left l1 < left l" by blast
  have nt: "pl_mutex s \<noteq> Some (Worker i)"
    using assms by (auto simp: good_def pool_ok_def)
  show ?thesis
  proof (cases l')
    case None
    let ?t = "s\<lparr>pl_env := e, pl_workers := (pl_workers s)[i := W_Lock],
      pl_finished := pl_finished s @ [r]\<rparr>"
    have "all_held ((pl_workers s)[i := W_Lock]) + {#r#} = all_held (pl_workers s)"
      using all_held_update [OF assms(2), of W_Lock] assms(3) by simp
    then have req: "pool_requests ?t = pool_requests s"
      by (simp add: pool_requests_def)
    have "pool_credit ?t = k" by (simp add: k_def pool_credit_def)
    moreover have "stages_ok ((pl_workers s)[i := W_Lock]) k"
      by (rule stages_update [OF sts]) simp_all
    ultimately have "good ?t"
      using assms c None nt req by (auto simp: good_def pool_ok_def nth_list_update)
    with w None show ?thesis by simp
  next
    case (Some l1)
    let ?t = "s\<lparr>pl_env := e, pl_workers := (pl_workers s)[i := W_Work r l1]\<rparr>"
    have "all_held ((pl_workers s)[i := W_Work r l1]) = all_held (pl_workers s)"
      using all_held_update [OF assms(2), of "W_Work r l1"] assms(3) by simp
    then have req: "pool_requests ?t = pool_requests s"
      by (simp add: pool_requests_def)
    have "pool_credit ?t = k + cred l1"
      using cred_update [OF assms(2), of "W_Work r l1"] assms(3) k by (simp add: pool_credit_def)
    moreover have "stages_ok ((pl_workers s)[i := W_Work r l1]) (k + cred l1)"
      by (rule stages_update [OF sts]) (use c Some in auto)
    ultimately have "good ?t"
      using assms c Some nt req by (auto simp: good_def pool_ok_def nth_list_update)
    with w Some c show ?thesis by simp
  qed
qed

lemma good_boss:
  assumes "good s" and "boss_step accept s = Some r"
  shows "\<exists>s'. r = Inr s' \<and> good s' \<and> pool_requests s' = pool_requests s \<and>
    pl_workers s' = pl_workers s \<and> pl_finished s' = pl_finished s \<and>
    (case pl_boss s of
       B_Next [] \<Rightarrow> pl_boss s' = B_Join \<and> pl_queue s' = pl_queue s
     | B_Next (x # xs) \<Rightarrow> pl_boss s' = B_Put x xs \<and> pl_queue s' = pl_queue s
     | B_Put x xs \<Rightarrow> pl_boss s' = B_Next xs \<and>
         steque_items (pl_queue s') = steque_items (pl_queue s) @ [x]
     | B_Join \<Rightarrow> pl_boss s' = B_Done \<and> pl_queue s' = pl_queue s
     | B_Done \<Rightarrow> False)"
proof (cases "pl_boss s")
  case (B_Next xs)
  show ?thesis
  proof (cases xs)
    case Nil
    with assms B_Next show ?thesis
      by (auto simp: boss_step_def good_def pool_ok_def pool_requests_def pool_credit_def)
  next
    case (Cons x ys)
    have "accept x"
      using assms(1) B_Next Cons by (intro accept_law) (simp add: good_def pool_requests_def)
    with assms B_Next Cons show ?thesis
      by (auto simp: boss_step_def good_def pool_ok_def pool_requests_def pool_credit_def add.assoc
          split: if_splits)
  qed
next
  case (B_Put x xs)
  have inv: "steque_invar (pl_queue s)" and room: "0 < steque_capacity (pl_queue s)"
    using assms(1) B_Put by (auto simp: good_def pool_ok_def)
  from sq.enq_law [OF inv room, of x] obtain q where
    q: "steque_enqueue (pl_queue s) x = Inr q" "steque_invar q"
      "steque_items q = steque_items (pl_queue s) @ [x]"
      "steque_capacity q = steque_capacity (pl_queue s) - 1" by blast
  let ?t = "s\<lparr>pl_queue := q, pl_mutex := None, pl_boss := B_Next xs\<rparr>"
  have mx: "pl_mutex s = Some Boss" using assms(1) B_Put by (auto simp: good_def pool_ok_def)
  have req: "pool_requests ?t = pool_requests s"
    using q(3) B_Put by (simp add: pool_requests_def)
  have "pool_ok ?t"
    using assms(1) B_Put q mx by (auto simp: good_def pool_ok_def)
  moreover have "pool_credit ?t = pool_credit s"
    using q(3) B_Put by (simp add: pool_credit_def)
  ultimately have "good ?t" using assms(1) req by (simp add: good_def)
  with assms(2) B_Put q req show ?thesis by (auto simp: boss_step_def)
next
  case B_Join
  with assms show ?thesis
    by (auto simp: boss_step_def good_def pool_ok_def pool_requests_def pool_credit_def split: if_splits)
next
  case B_Done
  with assms(2) show ?thesis by (simp add: boss_step_def)
qed

fun boss_weight :: "'a boss_pc \<Rightarrow> nat" where
  "boss_weight (B_Next xs) = 2 + (5 + left l0) * length xs"
| "boss_weight (B_Put x xs) = 6 + left l0 + (5 + left l0) * length xs"
| "boss_weight B_Join = 1"
| "boss_weight B_Done = 0"

fun worker_weight :: "('a, 'l) worker_pc \<Rightarrow> nat" where
  "worker_weight W_Exit = 0"
| "worker_weight W_Test = 1"
| "worker_weight W_Lock = 2"
| "worker_weight (W_Work r l) = 3 + left l"

definition pool_weight :: "('a, 'l, 'e) pool \<Rightarrow> nat" where
  "pool_weight s = boss_weight (pl_boss s) + (3 + left l0) * length (steque_items (pl_queue s)) +
     sum_list (List.map worker_weight (pl_workers s))"

lemma weight_update:
  "i < length ws \<Longrightarrow> sum_list (List.map worker_weight (ws[i := w])) + worker_weight (ws ! i) =
     sum_list (List.map worker_weight ws) + worker_weight w"
  by (induction ws arbitrary: i) (auto split: nat.split)

text \<open>Every step from a good state is defined, keeps it good and makes progress.\<close>

lemma good_act:
  assumes g: "good s" and a: "pool_act work l0 accept t s = Some r"
  shows "\<exists>s'. r = Inr s' \<and> good s' \<and> pool_requests s' = pool_requests s \<and>
    pool_weight s' < pool_weight s \<and> length (pl_workers s') = length (pl_workers s)"
proof (cases t)
  case Boss
  with a have b: "boss_step accept s = Some r" by (simp add: pool_act_def)
  note gb = good_boss [OF g b]
  show ?thesis
  proof (cases "pl_boss s")
    case (B_Next xs)
    then show ?thesis using gb by (cases xs) (auto simp: pool_weight_def)
  qed (use gb in \<open>auto simp: pool_weight_def\<close>)
next
  case (Worker i)
  with a have i: "i < length (pl_workers s)" and w: "worker_step work l0 i s = Some r"
    by (auto simp: pool_act_def split: if_splits)
  note wt = weight_update [OF i] and hu = all_held_update [OF i]
  show ?thesis
  proof (cases "pl_workers s ! i")
    case W_Lock
    then have "r = Inr (s\<lparr>pl_mutex := Some (Worker i), pl_workers := (pl_workers s)[i := W_Test]\<rparr>)"
      "pl_mutex s = None"
      using w by (auto simp: worker_step_def split: if_splits)
    then show ?thesis
      using good_lock [OF g i W_Lock] hu [of W_Test] wt [of W_Test] W_Lock
      by (simp add: pool_requests_def pool_weight_def)
  next
    case W_Test
    show ?thesis
    proof (cases "steque_isempty (pl_queue s)")
      case True
      then have "r = Inr (s\<lparr>pl_mutex := None, pl_workers := (pl_workers s)[i := W_Exit]\<rparr>)"
        using w W_Test by (simp add: worker_step_def)
      then show ?thesis
        using good_exit [OF g i W_Test] hu [of W_Exit] wt [of W_Exit] W_Test
        by (simp add: pool_requests_def pool_weight_def)
    next
      case False
      obtain x q where q: "steque_pop (pl_queue s) = Inr (x, q)"
        using sq.deq_total [OF good_queue [OF g] False] by auto
      have "steque_items (pl_queue s) = x # steque_items q"
        using sq.deq_InrD [OF good_queue [OF g] q] by simp
      moreover have "r = Inr (s\<lparr>pl_queue := q, pl_mutex := None,
          pl_workers := (pl_workers s)[i := W_Work x l0]\<rparr>)"
        using w W_Test False q by (simp add: worker_step_def)
      ultimately show ?thesis
        using good_pop [OF g i W_Test q] wt [of "W_Work x l0"] W_Test
        by (simp add: pool_weight_def)
    qed
  next
    case (W_Work x l)
    from work_progress [OF g i W_Work] obtain l' e where
      e: "work x l (pl_env s) = Inr (l', e)" and
      c: "case l' of
       None \<Rightarrow> good (s\<lparr>pl_env := e, pl_workers := (pl_workers s)[i := W_Lock],
                       pl_finished := pl_finished s @ [x]\<rparr>)
     | Some l1 \<Rightarrow> left l1 < left l \<and>
         good (s\<lparr>pl_env := e, pl_workers := (pl_workers s)[i := W_Work x l1]\<rparr>)" by blast
    show ?thesis
    proof (cases l')
      case None
      then have "r = Inr (s\<lparr>pl_env := e, pl_workers := (pl_workers s)[i := W_Lock],
          pl_finished := pl_finished s @ [x]\<rparr>)"
        using w W_Work e by (simp add: worker_step_def)
      moreover have "all_held (pl_workers s) = add_mset x (all_held ((pl_workers s)[i := W_Lock]))"
        using hu [of W_Lock] W_Work by simp
      ultimately show ?thesis
        using None c wt [of W_Lock] W_Work by (simp add: pool_requests_def pool_weight_def)
    next
      case (Some l1)
      then have "r = Inr (s\<lparr>pl_env := e, pl_workers := (pl_workers s)[i := W_Work x l1]\<rparr>)"
        using w W_Work e by (simp add: worker_step_def)
      moreover have "all_held ((pl_workers s)[i := W_Work x l1]) = all_held (pl_workers s)"
        using hu [of "W_Work x l1"] W_Work by simp
      ultimately show ?thesis
        using Some c wt [of "W_Work x l1"] W_Work by (simp add: pool_requests_def pool_weight_def)
    qed
  next
    case W_Exit
    with w show ?thesis by (simp add: worker_step_def)
  qed
qed

lemma good_reachable:
  assumes "(pool_step work l0 accept)\<^sup>*\<^sup>* s s'" and "good s"
  shows "good s' \<and> pool_requests s' = pool_requests s \<and>
    length (pl_workers s') = length (pl_workers s)"
  using assms
proof (induction rule: rtranclp_induct)
  case (step y z)
  then show ?case
    by (auto elim!: pool_stepE dest: good_act)
qed simp

text \<open>No deadlock: while the boss has not returned, some thread can make a step.\<close>

lemma good_progress:
  assumes g: "good s" and "pl_boss s \<noteq> B_Done"
  shows "\<exists>t. pool_act work l0 accept t s \<noteq> None \<and>
    (t = Boss \<or> (\<exists>i < length (pl_workers s). t = Worker i))"
proof (cases "pl_mutex s")
  case (Some t)
  have "pool_act work l0 accept t s \<noteq> None \<and> (t = Boss \<or> (\<exists>i < length (pl_workers s). t = Worker i))"
  proof (cases t)
    case Boss
    with g Some show ?thesis by (auto simp: good_def pool_ok_def pool_act_def boss_step_def)
  next
    case (Worker i)
    with g Some have "i < length (pl_workers s)" "pl_workers s ! i = W_Test"
      by (auto simp: good_def pool_ok_def)
    with Worker show ?thesis by (simp add: pool_act_def worker_step_def)
  qed
  then show ?thesis by blast
next
  case None
  show ?thesis
  proof (cases "pl_boss s = B_Join \<and> (\<exists>w \<in> set (pl_workers s). w \<noteq> W_Exit)")
    case True
    then obtain i where "i < length (pl_workers s)" "pl_workers s ! i \<noteq> W_Exit"
      by (auto simp: in_set_conv_nth)
    with None have "pool_act work l0 accept (Worker i) s \<noteq> None"
      by (cases "pl_workers s ! i") (auto simp: pool_act_def worker_step_def)
    with \<open>i < _\<close> show ?thesis by blast
  next
    case False
    with None assms(2) have "pool_act work l0 accept Boss s \<noteq> None"
      by (cases "pl_boss s") (auto simp: pool_act_def boss_step_def split: list.split)
    then show ?thesis by blast
  qed
qed

end

text \<open>The pool as a system that makes progress; a turn is a round of all threads.\<close>

definition round_robin :: "nat \<Rightarrow> owner list" where
  "round_robin n = Boss # List.map Worker [0 ..< n]"

sublocale pool_worker \<subseteq> sys: schedule_system "pool_act work l0 accept" good pool_weight
  "\<lambda>s. round_robin (length (pl_workers s))" "\<lambda>s. pl_boss s = B_Done"
proof
  fix s t r
  assume "good s" and "pool_act work l0 accept t s = Some r"
  from good_act [OF this] show "\<exists>s'. r = Inr s' \<and> good s' \<and> pool_weight s' < pool_weight s \<and>
      round_robin (length (pl_workers s')) = round_robin (length (pl_workers s))" by auto
next
  fix s
  assume "good s" and "pl_boss s \<noteq> B_Done"
  from good_progress [OF this] show
    "\<exists>t \<in> set (round_robin (length (pl_workers s))). pool_act work l0 accept t s \<noteq> None"
    by (auto simp: round_robin_def)
next
  fix s t s'
  assume "pl_boss s = B_Done" and "pool_act work l0 accept t s = Some (Inr s')"
  then show "pl_boss s' = B_Done"
    by (auto simp: pool_act_def boss_step_def worker_step_def bind_res_eq_Inr
        split: owner.splits worker_pc.splits if_splits option.splits)
qed

context pool_worker
begin

lemma run_keeps_requests:
  assumes "good s" and "run_pool work l0 accept ts s = Inr s'"
  shows "pool_requests s' = pool_requests s"
proof -
  have "good s' \<and> pool_requests s' = pool_requests s"
    by (rule run_sched_invariant [OF assms(2)]) (use assms(1) in \<open>auto dest: good_act\<close>)
  then show ?thesis by blast
qed

lemma good_run:
  assumes "good s"
  shows "\<exists>s'. run_pool work l0 accept ts s = Inr s' \<and> good s' \<and> pool_requests s' = pool_requests s"
  using sys.run_good [OF assms, of ts] run_keeps_requests [OF assms] by blast

lemma fair_terminates:
  assumes "good s" and "pool_weight s \<le> k" and "n = length (pl_workers s)"
  shows "\<exists>s'. run_pool work l0 accept (concat (replicate k (round_robin n))) s = Inr s' \<and>
    good s' \<and> pl_boss s' = B_Done \<and> pool_requests s' = pool_requests s"
  using sys.fair_ends [OF assms(1), of k] run_keeps_requests [OF assms(1)] assms(2,3) by blast

end

end
