(* ===== verification/Minify.thy ===== *)
theory Minify
  imports Pool Workload
begin

text \<open>
  The image client of \<open>project4/minifyjpeg_main.c\<close> and \<open>project4/minify_via_rpc.c\<close>: the
  work file is loaded into the queue, then a pool of workers reads each input file, has it
  minified by the server and writes the output file. The file system is a map; the server
  behind the RPC stubs is the function \<open>rpc\<close>, whose failure ends the program.
\<close>

section \<open>Loading the queue\<close>

text \<open>
  A request is an input and an output name. \<open>fscanf (f, "%s %s", ...)\<close> that finds only the first
  name returns 1, which is not \<open>EOF\<close>: the request is then enqueued with whatever \<open>malloc\<close> left
  in the output name (\<open>mem\<close>). Each name has a buffer of 256 bytes.
\<close>

definition until_nul :: "string \<Rightarrow> string" where
  "until_nul = takeWhile (\<lambda>c. c \<noteq> NUL)"

function load_loop ::
  "string \<Rightarrow> string \<Rightarrow> steque \<times> (string \<times> string) sheap \<Rightarrow>
     (steque \<times> (string \<times> string) sheap) result" where
  "load_loop mem s q =
     (case scan_word s of
        None \<Rightarrow> Inr q
      | Some (w1, r1) \<Rightarrow>
          if length (cstr w1) > 256 then Inl Out_Of_Bounds
          else case scan_word r1 of
            None \<Rightarrow> bind_res (steque_enqueue q (until_nul w1, mem)) (load_loop mem r1)
          | Some (w2, r2) \<Rightarrow>
              if length (cstr w2) > 256 then Inl Out_Of_Bounds
              else bind_res (steque_enqueue q (until_nul w1, until_nul w2)) (load_loop mem r2))"
  by pat_completeness auto
termination
  by (relation "measure (\<lambda>(mem, s, q). length s)") (auto dest!: scan_word_shorter)

declare load_loop.simps [simp del]

definition load_requests ::
  "string \<Rightarrow> nat \<Rightarrow> string option \<Rightarrow> (steque \<times> (string \<times> string) sheap) result" where
  "load_requests mem nodes file =
     (case file of
        None \<Rightarrow> Inl (Exit 1)
      | Some s \<Rightarrow> load_loop mem s (steque_init, empty_sheap nodes))"

section \<open>The work of a worker\<close>

type_synonym files = "string \<rightharpoonup> string"

definition read_from_file :: "files \<Rightarrow> string \<Rightarrow> string result" where
  "read_from_file fs name = (case fs name of None \<Rightarrow> Inl (Exit 1) | Some d \<Rightarrow> Inr d)"

definition write_to_file :: "(string \<Rightarrow> bool) \<Rightarrow> files \<Rightarrow> string \<Rightarrow> string \<Rightarrow> int \<times> files" where
  "write_to_file writable fs name data =
     (if writable name then (0, fs(name \<mapsto> data)) else (1, fs))"

definition minify_via_rpc :: "(string \<Rightarrow> string option) \<Rightarrow> string \<Rightarrow> string result" where
  "minify_via_rpc rpc src = (case rpc src of None \<Rightarrow> Inl (Exit 3) | Some d \<Rightarrow> Inr d)"

definition get_minify_client :: "bool \<Rightarrow> unit result" where
  "get_minify_client created = (if created then Inr () else Inl (Exit 2))"

text \<open>
  Between popping a request and asking for the mutex again, a worker reads the input, in one
  step, and has it minified and writes the output, in another; the result of the write is not
  looked at.
\<close>

definition minify_work ::
  "(string \<Rightarrow> string option) \<Rightarrow> (string \<Rightarrow> bool) \<Rightarrow> string \<times> string \<Rightarrow> string option \<Rightarrow> files \<Rightarrow>
     (string option option \<times> files) result" where
  "minify_work rpc writable r l fs =
     (case l of
        None \<Rightarrow> bind_res (read_from_file fs (fst r)) (\<lambda>d. Inr (Some (Some d), fs))
      | Some d \<Rightarrow> bind_res (minify_via_rpc rpc d) (\<lambda>m.
                    Inr (None, snd (write_to_file writable fs (snd r) m))))"

text \<open>The pool of \<open>main\<close> once the queue is loaded and \<open>n\<close> workers are created: the main thread joins.\<close>

definition minify_start ::
  "steque \<times> (string \<times> string) sheap \<Rightarrow> nat \<Rightarrow> files \<Rightarrow>
     (string \<times> string, string option, files) pool" where
  "minify_start q n fs =
     \<lparr>pl_queue = q, pl_mutex = None, pl_workers = replicate n W_Lock, pl_boss = B_Join,
      pl_env = fs, pl_finished = []\<rparr>"

abbreviation minify_step ::
  "(string \<Rightarrow> string option) \<Rightarrow> (string \<Rightarrow> bool) \<Rightarrow>
   (string \<times> string, string option, files) pool \<Rightarrow> (string \<times> string, string option, files) pool \<Rightarrow> bool" where
  "minify_step rpc writable \<equiv> pool_step (minify_work rpc writable) None (\<lambda>r. True)"

definition minify_main ::
  "(string \<Rightarrow> string option) \<Rightarrow> (string \<Rightarrow> bool) \<Rightarrow> string \<Rightarrow> nat \<Rightarrow> string option \<Rightarrow> bool \<Rightarrow> nat \<Rightarrow>
   owner list \<Rightarrow> files \<Rightarrow> (string \<times> string, string option, files) pool result" where
  "minify_main rpc writable mem nodes file created n sched fs =
     bind_res (load_requests mem nodes file) (\<lambda>q.
     bind_res (if n = 0 then Inr () else get_minify_client created) (\<lambda>u.
     run_pool (minify_work rpc writable) None (\<lambda>r. True) sched (minify_start q n fs)))"

section \<open>The pool's contract\<close>

text \<open>The requests of the pool read files that are there and write files that none of them reads.\<close>

definition job_ok :: "(string \<Rightarrow> string option) \<Rightarrow> files \<Rightarrow> string set \<Rightarrow> string \<times> string \<Rightarrow> bool" where
  "job_ok rpc fs0 ins r \<longleftrightarrow> fst r \<in> ins \<and> snd r \<notin> ins \<and>
     (\<exists>d m. fs0 (fst r) = Some d \<and> rpc d = Some m)"

definition read_data_ok :: "files \<Rightarrow> string \<times> string \<Rightarrow> string option \<Rightarrow> nat \<Rightarrow> bool" where
  "read_data_ok fs0 r l k = (case l of None \<Rightarrow> True | Some d \<Rightarrow> fs0 (fst r) = Some d)"

definition inputs_kept :: "files \<Rightarrow> string set \<Rightarrow> files \<Rightarrow> bool" where
  "inputs_kept fs0 ins fs \<longleftrightarrow> (\<forall>i \<in> ins. fs i = fs0 i)"

definition minify_cred :: "string option \<Rightarrow> nat" where
  "minify_cred l = 1"

definition minify_left :: "string option \<Rightarrow> nat" where
  "minify_left l = (case l of None \<Rightarrow> 1 | Some d \<Rightarrow> 0)"

interpretation mp: pool_worker "minify_work rpc writable" None "\<lambda>r. True" "job_ok rpc fs0 ins"
  "read_data_ok fs0" "\<lambda>fs k. inputs_kept fs0 ins fs" minify_cred minify_left
  for rpc writable fs0 ins
proof
  fix r :: "string \<times> string" and l fs and k :: nat
  assume j: "job_ok rpc fs0 ins r" and st: "read_data_ok fs0 r l (k + minify_cred l)" and env: "inputs_kept fs0 ins fs"
  then obtain d m where d: "fs0 (fst r) = Some d" "rpc d = Some m" "fs (fst r) = Some d" "snd r \<notin> ins"
    by (auto simp: job_ok_def inputs_kept_def)
  show "\<exists>l' e'. minify_work rpc writable r l fs = Inr (l', e') \<and>
      (case l' of
         None \<Rightarrow> inputs_kept fs0 ins e'
       | Some l1 \<Rightarrow> read_data_ok fs0 r l1 (k + minify_cred l1) \<and> inputs_kept fs0 ins e' \<and>
           minify_cred l1 \<le> minify_cred l \<and>
           minify_left l1 < minify_left l)"
  proof (cases l)
    case None
    with d env show ?thesis
      by (simp add: minify_work_def read_from_file_def read_data_ok_def minify_left_def minify_cred_def)
  next
    case (Some d')
    then have "d' = d" using st d(1) by (simp add: read_data_ok_def)
    with Some d env show ?thesis
      by (auto simp: minify_work_def minify_via_rpc_def write_to_file_def inputs_kept_def)
  qed
qed (auto simp: read_data_ok_def minify_left_def minify_cred_def)

section \<open>What the pool leaves\<close>

text \<open>
  Once a worker has returned the queue is empty for good, since the main thread only joins; and
  the outputs of the completed requests are in place.
\<close>

definition minify_inv :: "(string \<Rightarrow> string option) \<Rightarrow> (string \<Rightarrow> bool) \<Rightarrow> files \<Rightarrow>
    (string \<times> string, string option, files) pool \<Rightarrow> bool" where
  "minify_inv rpc writable fs0 s \<longleftrightarrow>
     (pl_boss s = B_Join \<or> pl_boss s = B_Done \<and> (\<forall>w \<in> set (pl_workers s). w = W_Exit)) \<and>
     (W_Exit \<in> set (pl_workers s) \<longrightarrow> steque_items (pl_queue s) = []) \<and>
     (\<forall>r \<in> set (pl_finished s). writable (snd r) \<longrightarrow>
        (\<exists>d. fs0 (fst r) = Some d \<and> pl_env s (snd r) = rpc d))"

lemma in_update: "x \<in> set (ws[i := w]) \<Longrightarrow> x \<noteq> w \<Longrightarrow> x \<in> set ws"
  using set_update_subset_insert [of ws i w] by auto

lemma held_in_requests:
  "W_Work r l \<in> set (pl_workers s) \<Longrightarrow> r \<in># pool_requests s"
  by (auto simp: pool_requests_def all_held_def dest!: split_list)

lemma finished_in_requests: "r \<in> set (pl_finished s) \<Longrightarrow> r \<in># pool_requests s"
  by (simp add: pool_requests_def)


definition outputs_distinct :: "(string \<times> string) multiset \<Rightarrow> bool" where
  "outputs_distinct rs \<longleftrightarrow> (\<forall>r \<in># rs. \<forall>r' \<in># rs. snd r = snd r' \<longrightarrow> fst r = fst r')"

lemma minify_inv_work:
  assumes inv: "minify_inv rpc writable fs0 s" and i: "i < length (pl_workers s)"
    and w: "pl_workers s ! i = W_Work r (Some d)" and d: "fs0 (fst r) = Some d" "rpc d = Some m"
    and od: "outputs_distinct (pool_requests s)"
  shows "minify_inv rpc writable fs0
    (s\<lparr>pl_env := snd (write_to_file writable (pl_env s) (snd r) m),
       pl_workers := (pl_workers s)[i := W_Lock], pl_finished := pl_finished s @ [r]\<rparr>)"
proof -
  have mem: "W_Work r (Some d) \<in> set (pl_workers s)" using i w by (metis nth_mem)
  then have nd: "pl_boss s = B_Join" using inv by (auto simp: minify_inv_def)
  have ex: "W_Exit \<in> set (pl_workers s)" if "W_Exit \<in> set ((pl_workers s)[i := W_Lock])"
    using that by (rule in_update) simp
  have out: "snd (write_to_file writable (pl_env s) (snd r) m) (snd r') = rpc d'"
    if "r' \<in> set (pl_finished s)" "writable (snd r')" "fs0 (fst r') = Some d'"
      "pl_env s (snd r') = rpc d'" for r' d'
  proof (cases "snd r' = snd r")
    case True
    have "fst r' = fst r"
      using od True finished_in_requests [OF that(1)] held_in_requests [OF mem]
      unfolding outputs_distinct_def by blast
    with True that d show ?thesis by (simp add: write_to_file_def)
  next
    case False
    with that show ?thesis by (simp add: write_to_file_def)
  qed
  have new: "writable (snd r) \<Longrightarrow> snd (write_to_file writable (pl_env s) (snd r) m) (snd r) = rpc d"
    using d(2) by (simp add: write_to_file_def)
  have "\<exists>d. fs0 (fst r') = Some d \<and>
      snd (write_to_file writable (pl_env s) (snd r) m) (snd r') = rpc d"
    if "r' \<in> set (pl_finished s @ [r])" "writable (snd r')" for r'
  proof (cases "r' \<in> set (pl_finished s)")
    case True
    with inv that(2) have "\<exists>d'. fs0 (fst r') = Some d' \<and> pl_env s (snd r') = rpc d'"
      unfolding minify_inv_def by blast
    with out [OF True that(2)] show ?thesis by blast
  next
    case False
    then show ?thesis using that new d(1) by auto
  qed
  then show ?thesis
    using inv nd ex by (simp add: minify_inv_def)
qed

lemma minify_inv_act:
  assumes g: "mp.good rpc fs0 ins s" and inv: "minify_inv rpc writable fs0 s"
    and od: "outputs_distinct (pool_requests s)"
    and a: "pool_act (minify_work rpc writable) None (\<lambda>r. True) t s = Some (Inr s')"
  shows "minify_inv rpc writable fs0 s'"
proof (cases t)
  case Boss
  with a inv show ?thesis
    by (auto simp: pool_act_def boss_step_def minify_inv_def split: boss_pc.splits list.splits if_splits)
next
  case (Worker i)
  with a have i: "i < length (pl_workers s)"
    and w: "worker_step (minify_work rpc writable) None i s = Some (Inr s')"
    by (auto simp: pool_act_def split: if_splits)
  have nj: "pl_boss s = B_Join" if "pl_workers s ! i \<noteq> W_Exit"
    using inv that i by (auto simp: minify_inv_def)
  note upd = in_update [where x = W_Exit]
  show ?thesis
  proof (cases "pl_workers s ! i")
    case W_Lock
    with w inv nj upd show ?thesis
      by (fastforce simp: worker_step_def minify_inv_def split: if_splits)
  next
    case W_Test
    show ?thesis
    proof (cases "steque_isempty (pl_queue s)")
      case True
      then have "steque_items (pl_queue s) = []"
        using sq.empty_law [OF mp.good_queue [OF g]] by simp
      with True W_Test w inv nj show ?thesis
        by (auto simp: worker_step_def minify_inv_def)
    next
      case False
      then have "steque_items (pl_queue s) \<noteq> []"
        using sq.empty_law [OF mp.good_queue [OF g]] by simp
      then have ne: "W_Exit \<notin> set (pl_workers s)" using inv by (auto simp: minify_inv_def)
      obtain q where "steque_pop (pl_queue s) = Inr (hd (steque_items (pl_queue s)), q)"
        using sq.deq_total [OF mp.good_queue [OF g] False] by blast
      with False W_Test w inv nj ne upd show ?thesis
        by (fastforce simp: worker_step_def minify_inv_def)
    qed
  next
    case (W_Work r l)
    then have mem: "W_Work r l \<in> set (pl_workers s)" using i by (metis nth_mem)
    have job: "job_ok rpc fs0 ins r" and st: "\<exists>k. read_data_ok fs0 r l k"
      using g held_in_requests [OF mem] mem unfolding mp.good_def mp.stages_ok_def by blast+
    show ?thesis
    proof (cases l)
      case None
      with W_Work w inv nj upd show ?thesis
        by (fastforce simp: worker_step_def minify_work_def minify_inv_def bind_res_eq_Inr)
    next
      case (Some d)
      with job st obtain m where d: "fs0 (fst r) = Some d" "rpc d = Some m"
        by (auto simp: job_ok_def read_data_ok_def)
      have "s' = s\<lparr>pl_env := snd (write_to_file writable (pl_env s) (snd r) m),
          pl_workers := (pl_workers s)[i := W_Lock], pl_finished := pl_finished s @ [r]\<rparr>"
        using w W_Work Some d(2) by (auto simp: worker_step_def minify_work_def minify_via_rpc_def)
      with minify_inv_work [OF inv i W_Work [unfolded Some] d od] show ?thesis by simp
    qed
  next
    case W_Exit
    with w show ?thesis by (simp add: worker_step_def)
  qed
qed

lemma minify_start_good:
  assumes "steque_invar q" and "\<forall>r \<in> set (steque_items q). job_ok rpc fs0 ins r"
  shows "mp.good rpc fs0 ins (minify_start q n fs0)" and "minify_inv rpc writable fs0 (minify_start q n fs0)"
    and "pool_requests (minify_start q n fs0) = mset (steque_items q)"
proof -
  have h: "all_held (replicate n W_Lock) = {#}"
    by (rule no_held) simp
  then show "pool_requests (minify_start q n fs0) = mset (steque_items q)"
    by (simp add: pool_requests_def minify_start_def)
  moreover have "inputs_kept fs0 ins fs0" by (simp add: inputs_kept_def)
  ultimately show "mp.good rpc fs0 ins (minify_start q n fs0)"
    using h assms by (auto simp: mp.good_def mp.stages_ok_def pool_ok_def minify_start_def)
  show "minify_inv rpc writable fs0 (minify_start q n fs0)"
    by (simp add: minify_inv_def minify_start_def)
qed

lemma minify_reach:
  assumes "(minify_step rpc writable)\<^sup>*\<^sup>* s s'" and "mp.good rpc fs0 ins s"
    and "minify_inv rpc writable fs0 s" and "outputs_distinct (pool_requests s)"
  shows "mp.good rpc fs0 ins s' \<and> minify_inv rpc writable fs0 s' \<and>
    pool_requests s' = pool_requests s \<and> length (pl_workers s') = length (pl_workers s)"
  using assms
proof (induction rule: rtranclp_induct)
  case (step y z)
  then have y: "mp.good rpc fs0 ins y" "minify_inv rpc writable fs0 y"
    "pool_requests y = pool_requests s" "length (pl_workers y) = length (pl_workers s)" by auto
  from step(2) obtain t where
    t: "pool_act (minify_work rpc writable) None (\<lambda>r. True) t y = Some (Inr z)"
    by (rule pool_stepE)
  with minify_inv_act [OF y(1,2) _ t] mp.good_act [OF y(1) t] step.prems(3) y show ?case by auto
qed simp

lemma minify_done:
  assumes "mp.good rpc fs0 ins s" and "minify_inv rpc writable fs0 s" and "pl_boss s = B_Done"
    and "pl_workers s \<noteq> []"
  shows "mset (pl_finished s) = pool_requests s"
proof -
  have all: "\<forall>w \<in> set (pl_workers s). w = W_Exit" using assms(2,3) by (auto simp: minify_inv_def)
  with assms(4) have "W_Exit \<in> set (pl_workers s)" by (cases "pl_workers s") auto
  then have "steque_items (pl_queue s) = []" using assms(2) by (simp add: minify_inv_def)
  moreover have "all_held ws = {#}" if "\<forall>w \<in> set ws. w = W_Exit"
    for ws :: "(string \<times> string, string option) worker_pc list"
    using that by (induction ws) (auto simp: all_held_def)
  then have "all_held (pl_workers s) = {#}" using all by blast
  ultimately show ?thesis using assms(3) by (simp add: pool_requests_def)
qed

section \<open>Loading a work file\<close>

definition work_file :: "(string \<times> string) list \<Rightarrow> string" where
  "work_file rs = concat (List.map (\<lambda>(a, b). a @ SP # b @ [LF]) rs)"

lemma scan_sep:
  assumes "path_word w" and "\<forall>c \<in> set pre. isspace c" and "isspace d"
  shows "scan_word (pre @ w @ d # rest) = Some (w, d # rest)"
proof -
  have "dropWhile isspace (pre @ w @ d # rest) = w @ d # rest"
    using assms by (cases w) (simp_all add: path_word_def)
  moreover have "takeWhile (\<lambda>c. \<not> isspace c) (w @ d # rest) = w"
    "dropWhile (\<lambda>c. \<not> isspace c) (w @ d # rest) = d # rest"
    using assms by (simp_all add: path_word_def)
  ultimately show ?thesis using assms(1) by (simp add: scan_word_def path_word_def)
qed

lemma isspace_SP [simp]: "isspace SP"
  by (simp add: isspace_def)

lemma until_nul_word: "path_word w \<Longrightarrow> until_nul w = w"
  unfolding until_nul_def path_word_def takeWhile_eq_all_conv by blast

lemma load_loop_end: "\<forall>c \<in> set pre. isspace c \<Longrightarrow> load_loop mem pre q = Inr q"
proof -
  assume "\<forall>c \<in> set pre. isspace c"
  then have "dropWhile isspace pre = []" by simp
  then show ?thesis by (subst load_loop.simps) (simp add: scan_word_def)
qed

lemma load_loop_step:
  assumes "path_word a" and "path_word b" and "\<forall>c \<in> set pre. isspace c"
  shows "load_loop mem (pre @ a @ SP # b @ LF # rest) q =
    bind_res (steque_enqueue q (a, b)) (load_loop mem (LF # rest))"
proof -
  have "scan_word (pre @ a @ SP # b @ LF # rest) = Some (a, SP # b @ LF # rest)"
    using scan_sep [OF assms(1,3) isspace_SP] by simp
  moreover have "scan_word (SP # b @ LF # rest) = Some (b, LF # rest)"
    using scan_sep [OF assms(2), of "[SP]" LF rest] by simp
  moreover have "\<not> length (cstr a) > 256" "\<not> length (cstr b) > 256"
    using assms(1,2) by (simp_all add: path_word_def cstr_def)
  ultimately show ?thesis
    using assms by (subst load_loop.simps) (simp add: until_nul_word)
qed

lemma load_loop_file:
  assumes "\<forall>(a, b) \<in> set rs. path_word a \<and> path_word b" and "\<forall>c \<in> set pre. isspace c"
    and "steque_invar q" and "length rs \<le> steque_capacity q"
  shows "\<exists>q'. load_loop mem (pre @ work_file rs) q = Inr q' \<and> steque_invar q' \<and>
    steque_items q' = steque_items q @ rs"
  using assms
proof (induction rs arbitrary: pre q)
  case Nil
  then show ?case by (simp add: work_file_def load_loop_end)
next
  case (Cons r rs)
  obtain a b where r: "r = (a, b)" by fastforce
  have w: "path_word a" "path_word b" using Cons.prems(1) r by auto
  from sq.enq_law [OF Cons.prems(3), of r] Cons.prems(4) obtain q1 where
    q1: "steque_enqueue q r = Inr q1" "steque_invar q1" "steque_items q1 = steque_items q @ [r]"
      "steque_capacity q1 = steque_capacity q - 1" by auto
  have "load_loop mem (pre @ work_file (r # rs)) q = load_loop mem ([LF] @ work_file rs) q1"
    using load_loop_step [OF w Cons.prems(2), of mem "work_file rs" q] q1(1) r
    by (simp add: work_file_def)
  with Cons.IH [of "[LF]" q1] Cons.prems q1 show ?case by auto
qed

lemma load_requests_file:
  assumes "\<forall>(a, b) \<in> set rs. path_word a \<and> path_word b" and "length rs \<le> nodes"
    and "length rs < 2 ^ 31"
  shows "\<exists>q. load_requests mem nodes (Some (work_file rs)) = Inr q \<and> steque_invar q \<and>
    steque_items q = rs"
  using load_loop_file [OF assms(1), of "[]" "(steque_init, empty_sheap nodes)" mem] assms(2,3)
    steque_init_invar [where n = nodes and 'a = "string \<times> string"]
  by (simp add: load_requests_def int_max_def)

section \<open>Properties\<close>

text \<open>
  The set-up shared by the properties: the work file lists \<open>rs\<close>, every input exists and can be
  minified, no output is an input of another request, and equal outputs come from equal inputs.
\<close>

definition minify_job :: "(string \<Rightarrow> string option) \<Rightarrow> files \<Rightarrow> (string \<times> string) list \<Rightarrow> bool" where
  "minify_job rpc fs rs \<longleftrightarrow>
     (\<forall>(a, b) \<in> set rs. path_word a \<and> path_word b \<and>
        (\<exists>d. fs a = Some d \<and> (\<exists>m. rpc d = Some m)) \<and> b \<notin> fst ` set rs) \<and>
     (\<forall>r \<in> set rs. \<forall>r' \<in> set rs. snd r = snd r' \<longrightarrow> fst r = fst r') \<and> length rs < 2 ^ 31"

lemma minify_job_start:
  assumes "minify_job rpc fs rs" and "length rs \<le> nodes"
  shows "\<exists>q. load_requests mem nodes (Some (work_file rs)) = Inr q \<and>
    mp.good rpc fs (fst ` set rs) (minify_start q n fs) \<and>
    minify_inv rpc writable fs (minify_start q n fs) \<and>
    pool_requests (minify_start q n fs) = mset rs \<and>
    outputs_distinct (mset rs) \<and> length (pl_workers (minify_start q n fs)) = n"
proof -
  have words: "\<forall>(a, b) \<in> set rs. path_word a \<and> path_word b"
    using assms(1) unfolding minify_job_def by blast
  have "length rs < 2 ^ 31" using assms(1) unfolding minify_job_def by blast
  from load_requests_file [OF words assms(2) this] obtain q where
    q: "load_requests mem nodes (Some (work_file rs)) = Inr q" "steque_invar q" "steque_items q = rs"
    by blast
  have "job_ok rpc fs (fst ` set rs) r" if "r \<in> set rs" for r
  proof -
    have "\<forall>(a, b) \<in> set rs. (\<exists>d. fs a = Some d \<and> (\<exists>m. rpc d = Some m)) \<and> b \<notin> fst ` set rs"
      using assms(1) unfolding minify_job_def by blast
    from bspec [OF this that] have "\<exists>d m. fs (fst r) = Some d \<and> rpc d = Some m"
      "snd r \<notin> fst ` set rs" by (auto simp only: split_beta)
    with that show ?thesis by (simp add: job_ok_def)
  qed
  then have x: "\<forall>r \<in> set (steque_items q). job_ok rpc fs (fst ` set rs) r"
    using q(3) by blast
  then have "mp.good rpc fs (fst ` set rs) (minify_start q n fs)"
    "pool_requests (minify_start q n fs) = mset rs"
    using minify_start_good(1,3) [OF q(2) x] q(3) by simp_all
  moreover have "outputs_distinct (mset rs)"
    using assms(1) unfolding outputs_distinct_def minify_job_def set_mset_mset by blast
  moreover have "length (pl_workers (minify_start q n fs)) = n" by (simp add: minify_start_def)
  moreover note q(1)
  moreover have "minify_inv rpc writable fs (minify_start q n fs)"
    using minify_start_good(2) [OF q(2)] x by blast
  ultimately show ?thesis by blast
qed

lemma minify_runs:
  assumes "minify_job rpc fs rs" and "length rs \<le> nodes" and "0 < n"
  shows "\<exists>s. minify_main rpc writable mem nodes (Some (work_file rs)) True n sched fs = Inr s \<and>
    (pl_boss s = B_Done \<longrightarrow>
       mset (pl_finished s) = mset rs \<and>
       (\<forall>(a, b) \<in> set rs. writable b \<longrightarrow> (\<exists>d. fs a = Some d \<and> pl_env s b = rpc d)) \<and>
       (\<forall>(a, b) \<in> set rs. pl_env s a = fs a))"
proof -
  from minify_job_start [OF assms(1,2), of mem n writable] obtain q where
    q: "load_requests mem nodes (Some (work_file rs)) = Inr q"
      "mp.good rpc fs (fst ` set rs) (minify_start q n fs)"
      "minify_inv rpc writable fs (minify_start q n fs)"
      "pool_requests (minify_start q n fs) = mset rs"
      "outputs_distinct (mset rs)" "length (pl_workers (minify_start q n fs)) = n" by blast
  from mp.good_run [OF q(2), of writable sched] obtain s where
    run: "run_pool (minify_work rpc writable) None (\<lambda>r. True) sched (minify_start q n fs) = Inr s" by blast
  have s: "mp.good rpc fs (fst ` set rs) s" "minify_inv rpc writable fs s"
    "pool_requests s = mset rs" "length (pl_workers s) = n"
    using minify_reach [OF run_pool_steps [OF run] q(2,3)] q(4-6) by simp_all
  have "mset (pl_finished s) = mset rs" if "pl_boss s = B_Done"
    using minify_done [OF s(1,2) that] s(3,4) assms(3) by auto
  moreover from this have "\<forall>(a, b) \<in> set rs. writable b \<longrightarrow> (\<exists>d. fs a = Some d \<and> pl_env s b = rpc d)"
    if "pl_boss s = B_Done"
    using s(2) mset_eq_setD [OF calculation [OF that]] unfolding minify_inv_def by force
  moreover have "inputs_kept fs (fst ` set rs) (pl_env s)"
    using s(1) unfolding mp.good_def by blast
  then have "\<forall>(a, b) \<in> set rs. pl_env s a = fs a" unfolding inputs_kept_def by force
  ultimately show ?thesis using q(1) run by (auto simp: minify_main_def get_minify_client_def)
qed

text \<open>
  Property C20. The parallel image client is right for every interleaving: whenever its main thread
  has joined all of its (one or more) workers, exactly the requests of the work file have been
  completed, each as often as it is listed, and every output file that can be written holds what the
  server makes of the input file; no schedule of the threads, fair or not, runs into an error.
\<close>

theorem minify_all_outputs:
  assumes "minify_job rpc fs rs" and "length rs \<le> nodes" and "0 < n"
  shows "\<exists>s. minify_main rpc writable mem nodes (Some (work_file rs)) True n sched fs = Inr s \<and>
    (pl_boss s = B_Done \<longrightarrow>
       mset (pl_finished s) = mset rs \<and>
       (\<forall>(a, b) \<in> set rs. writable b \<longrightarrow> (\<exists>d. fs a = Some d \<and> pl_env s b = rpc d)) \<and>
       (\<forall>(a, b) \<in> set rs. pl_env s a = fs a))"
  by (rule minify_runs [OF assms])

definition sample_rpc :: "string \<Rightarrow> string option" where
  "sample_rpc d = Some (take 2 d)"

definition sample_fs :: files where
  "sample_fs = [''a'' \<mapsto> ''image'', ''b'' \<mapsto> ''photo'']"

lemma sample_minify_job: "minify_job sample_rpc sample_fs [(''a'', ''x''), (''b'', ''y'')]"
  by (simp add: minify_job_def path_word_def isspace_def less_eq_char_def sample_rpc_def sample_fs_def)

theorem minify_all_outputs_witness:
  "\<exists>s. minify_main sample_rpc (\<lambda>f. True) [] 2 (Some (work_file [(''a'', ''x''), (''b'', ''y'')]))
      True 2 (concat (replicate 20 [Worker 0, Worker 1, Boss])) sample_fs = Inr s \<and>
    (pl_boss s = B_Done \<longrightarrow> pl_env s ''x'' = Some ''im'')"
  using minify_all_outputs [OF sample_minify_job, of 2 2 "\<lambda>f. True" "[]"
      "concat (replicate 20 [Worker 0, Worker 1, Boss])"]
  by (auto simp: sample_rpc_def sample_fs_def)

text \<open>
  Property C19. The parallel image client finishes its work: under the round robin schedule of the
  main thread and its workers, of which there is at least one, after a number of rounds that is linear
  in the requests and the workers, the main thread has joined them all, every request of the work file
  has been completed, as often as it is listed, and every output file that can be written holds what
  the server makes of the input.
\<close>

theorem minify_terminates:
  assumes "minify_job rpc fs rs" and "length rs \<le> nodes" and "0 < n" and "4 * length rs + 2 * n + 1 \<le> k"
  shows "\<exists>s. minify_main rpc writable mem nodes (Some (work_file rs)) True n
      (concat (replicate k (Boss # List.map Worker [0 ..< n]))) fs = Inr s \<and> pl_boss s = B_Done \<and>
    mset (pl_finished s) = mset rs \<and>
    (\<forall>(a, b) \<in> set rs. writable b \<longrightarrow> (\<exists>d. fs a = Some d \<and> pl_env s b = rpc d))"
proof -
  from minify_job_start [OF assms(1,2), of mem n writable] obtain q where
    q: "load_requests mem nodes (Some (work_file rs)) = Inr q"
      "mp.good rpc fs (fst ` set rs) (minify_start q n fs)"
      "pool_requests (minify_start q n fs) = mset rs"
      "length (pl_workers (minify_start q n fs)) = n" by blast
  have "length (steque_items q) = length rs"
    using arg_cong [OF q(3), of size] by (simp add: pool_requests_def minify_start_def no_held)
  then have "mp.pool_weight (minify_start q n fs) = 4 * length rs + 2 * n + 1"
    by (simp add: mp.pool_weight_def minify_start_def sum_list_replicate minify_left_def)
  with mp.fair_terminates [OF q(2) _ q(4) [symmetric], of k writable] assms(4) obtain s where
    "run_pool (minify_work rpc writable) None (\<lambda>r. True) (concat (replicate k (round_robin n)))
       (minify_start q n fs) = Inr s" "pl_boss s = B_Done" by auto
  with q(1) have main: "minify_main rpc writable mem nodes (Some (work_file rs)) True n
      (concat (replicate k (Boss # List.map Worker [0 ..< n]))) fs = Inr s" "pl_boss s = B_Done"
    by (auto simp: minify_main_def get_minify_client_def round_robin_def)
  with minify_runs [OF assms(1-3), of writable mem "concat (replicate k (Boss # List.map Worker [0 ..< n]))"]
  show ?thesis by auto
qed

theorem minify_terminates_witness:
  "\<exists>s. minify_main sample_rpc (\<lambda>f. True) [] 2 (Some (work_file [(''a'', ''x''), (''b'', ''y'')])) True 2
      (concat (replicate 13 [Boss, Worker 0, Worker 1])) sample_fs = Inr s \<and> pl_boss s = B_Done \<and>
    mset (pl_finished s) = {#(''a'', ''x''), (''b'', ''y'')#} \<and>
    pl_env s ''x'' = Some ''im'' \<and> pl_env s ''y'' = Some ''ph''"
proof -
  have two: "[0 ..< 2] = [0, 1 :: nat]" by (simp add: upt_rec)
  show ?thesis
    using minify_terminates [OF sample_minify_job, of 2 2 13 "\<lambda>f. True" "[]"]
    by (auto simp: two sample_rpc_def sample_fs_def)
qed

text \<open>
  Further fact. A work file with an odd number of names is not refused: its last name is enqueued
  as an input together with whatever the fresh memory holds as the name of the output.
\<close>

theorem load_requests_odd_name:
  assumes "path_word a" and "path_word b" and "path_word c" and "2 \<le> nodes"
  shows "\<exists>q. load_requests mem nodes (Some (a @ SP # b @ LF # c)) = Inr q \<and>
    steque_items q = [(a, b), (c, mem)]"
proof -
  let ?q = "(steque_init, empty_sheap nodes) :: steque \<times> (string \<times> string) sheap"
  have q: "steque_invar ?q" "steque_items ?q = []" "steque_capacity ?q = min nodes (nat int_max)"
    using steque_init_invar by blast+
  have cap: "0 < steque_capacity ?q" "1 < steque_capacity ?q"
    using q(3) assms(4) by (simp_all add: int_max_def)
  from sq.enq_law [OF q(1) cap(1), of "(a, b)"] q(2) obtain q1 where
    q1: "steque_enqueue ?q (a, b) = Inr q1" "steque_invar q1" "steque_items q1 = [(a, b)]"
      "steque_capacity q1 = steque_capacity ?q - 1" by auto
  from sq.enq_law [OF q1(2), of "(c, mem)"] q1(3,4) cap(2) obtain q2 where
    q2: "steque_enqueue q1 (c, mem) = Inr q2" "steque_items q2 = [(a, b), (c, mem)]" by auto
  have "\<not> isspace (hd c)" "c \<noteq> []" using assms(3) by (auto simp: path_word_def)
  then have "dropWhile isspace (LF # c) = c" by (cases c) simp_all
  moreover have "takeWhile (\<lambda>x. \<not> isspace x) c = c" "dropWhile (\<lambda>x. \<not> isspace x) c = []"
    using assms(3) by (simp_all add: path_word_def takeWhile_eq_all_conv)
  ultimately have "scan_word (LF # c) = Some (c, [])" "scan_word [] = None"
    using \<open>c \<noteq> []\<close> by (simp_all add: scan_word_def)
  moreover have "\<not> length (cstr c) > 256" using assms(3) by (simp add: path_word_def cstr_def)
  ultimately have "load_loop mem (LF # c) q1 = Inr q2"
    using q2(1) load_loop_end [of "[]" mem q2] assms(3)
    by (subst load_loop.simps) (simp add: until_nul_word)
  then show ?thesis
    using load_loop_step [OF assms(1,2), of "[]" mem c ?q] q1(1) q2(2)
    by (simp add: load_requests_def)
qed

theorem load_requests_odd_name_witness:
  "\<exists>q. load_requests ''junk'' 5 (Some (''a'' @ SP # ''x'' @ LF # ''b'')) = Inr q \<and>
    steque_items q = [(''a'', ''x''), (''b'', ''junk'')]"
  by (rule load_requests_odd_name) (simp_all add: path_word_def isspace_def less_eq_char_def)

end
