(* ===== verification/Image_Rpc.thy ===== *)
theory Image_Rpc
  imports Minify
begin

text \<open>
  The image service of \<open>project4\<close>: the stubs that \<open>rpcgen\<close> made from \<open>minifyjpeg.x\<close>
  (\<open>minifyjpeg_xdr.c\<close>, \<open>minifyjpeg_clnt.c\<close>, \<open>minifyjpeg_svc.c\<close>), the server's function
  (\<open>minifyjpeg.c\<close>) with its use of ImageMagick (\<open>magickminify.c\<close>), and the client's call
  (\<open>minify_via_rpc.c\<close>) in full. ImageMagick is a parameter, and so is the network between the two.
\<close>

section \<open>XDR: the external representation\<close>

datatype xdr_op = XDR_ENCODE | XDR_DECODE | XDR_FREE

text \<open>A stream: what to do with it, the bytes written so far and the bytes left to read.\<close>

record XDR =
  x_op :: xdr_op
  x_out :: string
  x_in :: string

abbreviation encoding :: XDR where "encoding \<equiv> \<lparr>x_op = XDR_ENCODE, x_out = [], x_in = []\<rparr>"
abbreviation decoding :: "string \<Rightarrow> XDR" where "decoding bs \<equiv> \<lparr>x_op = XDR_DECODE, x_out = [], x_in = bs\<rparr>"
abbreviation freeing :: XDR where "freeing \<equiv> \<lparr>x_op = XDR_FREE, x_out = [], x_in = []\<rparr>"

text \<open>
  Both messages of the interface are a counted buffer: the count, and the memory from the pointer on
  (\<open>None\<close> for a null pointer).
\<close>

record opaque_buf =
  buf_len :: u32
  buf_val :: "string option"

type_synonym minify_img_arg = opaque_buf
type_synonym dest_buffer = opaque_buf

text \<open>An unsigned integer is four bytes, the most significant first (RFC 4506).\<close>

definition u32_bytes :: "u32 \<Rightarrow> string" where
  "u32_bytes w =
     (let n = uint w in [char_of (n div 2 ^ 24), char_of (n div 2 ^ 16), char_of (n div 2 ^ 8), char_of n])"

definition u32_at :: "string \<Rightarrow> u32" where
  "u32_at bs =
     word_of_int (of_char (bs ! 3) + 2 ^ 8 * of_char (bs ! 2) + 2 ^ 16 * of_char (bs ! 1) + 2 ^ 24 * of_char (bs ! 0))"

definition xdr_u_int :: "XDR \<Rightarrow> u32 \<Rightarrow> bool \<times> XDR \<times> u32" where
  "xdr_u_int s w =
     (case x_op s of
        XDR_ENCODE \<Rightarrow> (True, s\<lparr>x_out := x_out s @ u32_bytes w\<rparr>, w)
      | XDR_DECODE \<Rightarrow>
          if 4 \<le> length (x_in s) then (True, s\<lparr>x_in := drop 4 (x_in s)\<rparr>, u32_at (x_in s)) else (False, s, w)
      | XDR_FREE \<Rightarrow> (True, s, w))"

text \<open>Bytes are followed by zeros up to a multiple of four.\<close>

definition padding :: "nat \<Rightarrow> nat" where "padding n = (4 - n mod 4) mod 4"

definition xdr_opaque :: "XDR \<Rightarrow> string option \<Rightarrow> nat \<Rightarrow> (bool \<times> XDR \<times> string option) result" where
  "xdr_opaque s sp n =
     (if n = 0 then Inr (True, s, sp)
      else case x_op s of
        XDR_ENCODE \<Rightarrow>
          (case sp of
             None \<Rightarrow> Inl Null_Deref
           | Some m \<Rightarrow> bind_res (mem_slice m 0 n) (\<lambda>bs.
               Inr (True, s\<lparr>x_out := x_out s @ bs @ replicate (padding n) NUL\<rparr>, sp)))
      | XDR_DECODE \<Rightarrow>
          if length (x_in s) < n + padding n then Inr (False, s, sp)
          else (case sp of
             None \<Rightarrow> Inl Null_Deref
           | Some m \<Rightarrow> bind_res (mem_put m 0 (take n (x_in s))) (\<lambda>m1.
               Inr (True, s\<lparr>x_in := drop (n + padding n) (x_in s)\<rparr>, Some m1)))
      | XDR_FREE \<Rightarrow> Inr (True, s, sp))"

text \<open>
  A counted buffer. Decoding into a null pointer allocates (\<open>alloc\<close> says whether memory is left);
  decoding into memory trusts it to be large enough.
\<close>

definition xdr_bytes ::
  "(nat \<Rightarrow> bool) \<Rightarrow> XDR \<Rightarrow> opaque_buf \<Rightarrow> u32 \<Rightarrow> (bool \<times> XDR \<times> opaque_buf) result" where
  "xdr_bytes alloc s b maxsize =
     (case xdr_u_int s (buf_len b) of (ok, s1, len) \<Rightarrow>
        let b1 = b\<lparr>buf_len := len\<rparr>; n = unat len
        in if \<not> ok \<or> x_op s \<noteq> XDR_FREE \<and> maxsize < len then Inr (False, s1, b1)
           else case x_op s of
             XDR_ENCODE \<Rightarrow> bind_res (xdr_opaque s1 (buf_val b1) n) (\<lambda>(ok2, s2, v). Inr (ok2, s2, b1))
           | XDR_DECODE \<Rightarrow>
               if n = 0 then Inr (True, s1, b1)
               else if buf_val b1 = None \<and> \<not> alloc n then Inr (False, s1, b1)
               else (let sp = (if buf_val b1 = None then Some (replicate n NUL) else buf_val b1)
                     in bind_res (xdr_opaque s1 sp n) (\<lambda>(ok2, s2, v). Inr (ok2, s2, b1\<lparr>buf_val := v\<rparr>)))
           | XDR_FREE \<Rightarrow> Inr (True, s1, b1\<lparr>buf_val := None\<rparr>))"

text \<open>The two routines of \<open>minifyjpeg_xdr.c\<close>; the bound \<open>~0\<close> is the largest count.\<close>

definition xdr_minify_img_arg ::
  "(nat \<Rightarrow> bool) \<Rightarrow> XDR \<Rightarrow> minify_img_arg \<Rightarrow> (bool \<times> XDR \<times> minify_img_arg) result" where
  "xdr_minify_img_arg alloc s b =
     bind_res (xdr_bytes alloc s b (- 1)) (\<lambda>(ok, s1, b1). Inr (if \<not> ok then (False, s1, b1) else (True, s1, b1)))"

definition xdr_dest_buffer ::
  "(nat \<Rightarrow> bool) \<Rightarrow> XDR \<Rightarrow> dest_buffer \<Rightarrow> (bool \<times> XDR \<times> dest_buffer) result" where
  "xdr_dest_buffer alloc s b =
     bind_res (xdr_bytes alloc s b (- 1)) (\<lambda>(ok, s1, b1). Inr (if \<not> ok then (False, s1, b1) else (True, s1, b1)))"

section \<open>What the stubs put on the wire\<close>

definition counted :: "string \<Rightarrow> string" where
  "counted bs = u32_bytes (word_of_nat (length bs)) @ bs @ replicate (padding (length bs)) NUL"

lemma u32_bytes_length [simp]: "length (u32_bytes w) = 4"
  by (simp add: u32_bytes_def Let_def)

lemma u32_at_bytes [simp]: "u32_at (u32_bytes w @ rest) = w"
proof -
  have nth: "(u32_bytes w @ rest) ! 0 = char_of (uint w div 2 ^ 24)"
    "(u32_bytes w @ rest) ! 1 = char_of (uint w div 2 ^ 16)"
    "(u32_bytes w @ rest) ! 2 = char_of (uint w div 2 ^ 8)" "(u32_bytes w @ rest) ! 3 = char_of (uint w)"
    by (simp_all add: u32_bytes_def Let_def)
  have "uint w mod 2 ^ 32 = uint w" using uint_bounded [of w] by (intro mod_pos_pos_trivial) simp_all
  then show ?thesis unfolding u32_at_def nth of_char_of_int bytes_sum by simp
qed

lemma xdr_bytes_encode:
  assumes "x_op s = XDR_ENCODE" and "buf_val b = Some m" and "unat (buf_len b) \<le> length m"
  shows "xdr_bytes alloc s b (- 1) = Inr (True, s\<lparr>x_out := x_out s @ counted (take (unat (buf_len b)) m)\<rparr>, b)"
  using assms
  by (auto simp: xdr_bytes_def xdr_u_int_def xdr_opaque_def Let_def mem_slice_def counted_def padding_def
      word_order.not_eq_extremum not_less)

lemma xdr_bytes_encode_empty:
  assumes "x_op s = XDR_ENCODE" and "buf_len b = 0"
  shows "xdr_bytes alloc s b (- 1) = Inr (True, s\<lparr>x_out := x_out s @ counted []\<rparr>, b)"
  using assms by (simp add: xdr_bytes_def xdr_u_int_def xdr_opaque_def Let_def counted_def padding_def)

lemma unat_count: "n < 2 ^ 32 \<Longrightarrow> unat (word_of_nat n :: u32) = n"
  by (simp add: unsigned_of_nat take_bit_nat_eq_self)

lemma x_in_counted: "x_in s = counted bs @ rest \<Longrightarrow> length bs < 2 ^ 32 \<Longrightarrow>
    u32_at (x_in s) = word_of_nat (length bs) \<and> 4 \<le> length (x_in s) \<and>
    drop 4 (x_in s) = bs @ replicate (padding (length bs)) NUL @ rest"
  by (simp add: counted_def)

lemma xdr_bytes_decode_new:
  assumes "x_op s = XDR_DECODE" and "x_in s = counted bs @ rest" and "length bs < 2 ^ 32"
    and "buf_val b = None" and "alloc (length bs)"
  shows "xdr_bytes alloc s b (- 1) = Inr (True, s\<lparr>x_in := rest\<rparr>,
    \<lparr>buf_len = word_of_nat (length bs), buf_val = if bs = [] then None else Some bs\<rparr>)"
  using assms x_in_counted [OF assms(2,3)]
  by (cases b)
    (auto simp: xdr_bytes_def xdr_u_int_def xdr_opaque_def Let_def mem_put_0 unat_count padding_def
      word_order.not_eq_extremum not_less)

lemma xdr_bytes_decode_into:
  assumes "x_op s = XDR_DECODE" and "x_in s = counted bs @ rest" and "length bs < 2 ^ 32"
    and "buf_val b = Some m"
  shows "xdr_bytes alloc s b (- 1) =
    (if length bs \<le> length m
     then Inr (True, s\<lparr>x_in := rest\<rparr>,
       b\<lparr>buf_len := word_of_nat (length bs), buf_val := Some (bs @ drop (length bs) m)\<rparr>)
     else Inl Out_Of_Bounds)"
  using assms x_in_counted [OF assms(2,3)]
  by (cases b)
    (auto simp: xdr_bytes_def xdr_u_int_def xdr_opaque_def Let_def mem_put_def unat_count padding_def
      word_order.not_eq_extremum not_less)

text \<open>
  What both routines promise: a filled buffer is written as its counted bytes, and counted bytes are
  read back, into fresh memory or into memory that must be large enough.
\<close>

locale xdr_codec =
  fixes codec :: "(nat \<Rightarrow> bool) \<Rightarrow> XDR \<Rightarrow> opaque_buf \<Rightarrow> (bool \<times> XDR \<times> opaque_buf) result"
  assumes encodes: "x_op s = XDR_ENCODE \<Longrightarrow> buf_val b = Some m \<Longrightarrow> unat (buf_len b) \<le> length m \<Longrightarrow>
      codec alloc s b = Inr (True, s\<lparr>x_out := x_out s @ counted (take (unat (buf_len b)) m)\<rparr>, b)"
    and encodes_empty: "x_op s = XDR_ENCODE \<Longrightarrow> buf_len b = 0 \<Longrightarrow>
      codec alloc s b = Inr (True, s\<lparr>x_out := x_out s @ counted []\<rparr>, b)"
    and decodes_new: "x_op s = XDR_DECODE \<Longrightarrow> x_in s = counted bs @ rest \<Longrightarrow> length bs < 2 ^ 32 \<Longrightarrow>
      buf_val b = None \<Longrightarrow> alloc (length bs) \<Longrightarrow>
      codec alloc s b = Inr (True, s\<lparr>x_in := rest\<rparr>,
        \<lparr>buf_len = word_of_nat (length bs), buf_val = if bs = [] then None else Some bs\<rparr>)"
    and decodes_into: "x_op s = XDR_DECODE \<Longrightarrow> x_in s = counted bs @ rest \<Longrightarrow> length bs < 2 ^ 32 \<Longrightarrow>
      buf_val b = Some m \<Longrightarrow> length bs \<le> length m \<Longrightarrow>
      codec alloc s b = Inr (True, s\<lparr>x_in := rest\<rparr>,
        \<lparr>buf_len = word_of_nat (length bs), buf_val = Some (bs @ drop (length bs) m)\<rparr>)"
    and decodes_over: "x_op s = XDR_DECODE \<Longrightarrow> x_in s = counted bs @ rest \<Longrightarrow> length bs < 2 ^ 32 \<Longrightarrow>
      buf_val b = Some m \<Longrightarrow> length m < length bs \<Longrightarrow> codec alloc s b = Inl Out_Of_Bounds"
    and frees: "x_op s = XDR_FREE \<Longrightarrow> codec alloc s b = Inr (True, s, b\<lparr>buf_val := None\<rparr>)"
begin

lemma encode_bytes:
  assumes "length bs < 2 ^ 32"
  shows "codec alloc encoding \<lparr>buf_len = word_of_nat (length bs), buf_val = Some (bs @ rest)\<rparr> =
    Inr (True, encoding\<lparr>x_out := counted bs\<rparr>, \<lparr>buf_len = word_of_nat (length bs), buf_val = Some (bs @ rest)\<rparr>)"
  using encodes [of encoding "\<lparr>buf_len = word_of_nat (length bs), buf_val = Some (bs @ rest)\<rparr>" "bs @ rest" alloc] assms
  by (simp add: unat_count)

lemma decode_message:
  assumes "length bs < 2 ^ 32" and "alloc (length bs)"
  shows "codec alloc (decoding (counted bs)) \<lparr>buf_len = n, buf_val = None\<rparr> =
    Inr (True, decoding [], \<lparr>buf_len = word_of_nat (length bs), buf_val = if bs = [] then None else Some bs\<rparr>)"
  using decodes_new [of "decoding (counted bs)" bs "[]" "\<lparr>buf_len = n, buf_val = None\<rparr>" alloc] assms by simp

end

lemma xdr_routines: "xdr_minify_img_arg = (\<lambda>alloc s b. xdr_bytes alloc s b (- 1))"
  "xdr_dest_buffer = (\<lambda>alloc s b. xdr_bytes alloc s b (- 1))"
proof -
  have "bind_res m (\<lambda>(ok, s1, b1). Inr (if \<not> ok then (False, s1, b1) else (True, s1, b1))) = m"
    for m :: "(bool \<times> XDR \<times> opaque_buf) result"
    by (cases m) (auto simp: bind_res_def)
  then show "xdr_minify_img_arg = (\<lambda>alloc s b. xdr_bytes alloc s b (- 1))"
    "xdr_dest_buffer = (\<lambda>alloc s b. xdr_bytes alloc s b (- 1))"
    by (intro ext; simp add: xdr_minify_img_arg_def xdr_dest_buffer_def)+
qed

lemma xdr_bytes_codec: "xdr_codec (\<lambda>alloc s b. xdr_bytes alloc s b (- 1))"
proof
  show "xdr_bytes alloc s b (- 1) = Inr (True, s, b\<lparr>buf_val := None\<rparr>)" if "x_op s = XDR_FREE" for alloc s b
    using that by (simp add: xdr_bytes_def xdr_u_int_def Let_def)
qed (simp_all add: xdr_bytes_encode xdr_bytes_encode_empty xdr_bytes_decode_new xdr_bytes_decode_into)

interpretation xa: xdr_codec xdr_minify_img_arg
  unfolding xdr_routines by (rule xdr_bytes_codec)

interpretation xr: xdr_codec xdr_dest_buffer
  unfolding xdr_routines by (rule xdr_bytes_codec)

section \<open>ImageMagick\<close>

text \<open>
  The library as a parameter: reading an image, halving it and writing it, each with the severity of
  the exception before and after (0 is \<open>UndefinedException\<close>), and \<open>CatchException\<close>, which reports the
  exception and may end the program.
\<close>

record 'i magick =
  BlobToImage :: "string \<Rightarrow> int \<Rightarrow> 'i option \<times> int"
  MinifyImage :: "'i \<Rightarrow> int \<Rightarrow> 'i option \<times> int"
  ImageToBlob :: "'i \<Rightarrow> int \<Rightarrow> (string option \<times> nat) \<times> int"
  CatchException :: "int \<Rightarrow> int result"

definition report_exception :: "'i magick \<Rightarrow> int \<Rightarrow> int result" where
  "report_exception lib severity = (if severity \<noteq> 0 then CatchException lib severity else Inr severity)"

text \<open>
  The second test looks at \<open>image\<close> again instead of \<open>resize\<close>, so a null \<open>resize\<close> reaches the library.
\<close>

definition magickminify :: "'i magick \<Rightarrow> string option \<Rightarrow> nat \<Rightarrow> (string option \<times> nat) result" where
  "magickminify lib src src_len =
     bind_res (case src of None \<Rightarrow> (if src_len = 0 then Inr [] else Inl Null_Deref)
               | Some m \<Rightarrow> mem_slice m 0 src_len) (\<lambda>blob.
     case BlobToImage lib blob 0 of (img0, e1) \<Rightarrow>
     bind_res (report_exception lib e1) (\<lambda>e2.
     case img0 of
       None \<Rightarrow> Inl (Exit 1)
     | Some img \<Rightarrow>
         (case MinifyImage lib img e2 of (resize, e3) \<Rightarrow>
          bind_res (report_exception lib e3) (\<lambda>e4.
          case resize of
            None \<Rightarrow> Inl Null_Deref
          | Some small \<Rightarrow> Inr (fst (ImageToBlob lib small e4))))))"

section \<open>The server\<close>

text \<open>
  \<open>up\<close> says whether ImageMagick is initialised. The size of the result is stored as eight bytes over the
  four of \<open>dest_buf_len\<close> and the padding behind it: on a little-endian machine its lower half is the count.
\<close>

definition minify_image_1_svc ::
  "'i magick \<Rightarrow> minify_img_arg \<Rightarrow> bool \<Rightarrow> (int \<times> dest_buffer \<times> bool) result" where
  "minify_image_1_svc lib arg up =
     bind_res (magickminify lib (buf_val arg) (unat (buf_len arg))) (\<lambda>(ans, len).
       Inr (1, \<lparr>buf_len = word_of_nat len, buf_val = ans\<rparr>, True))"

definition image_prog_1_freeresult ::
  "(nat \<Rightarrow> bool) \<Rightarrow> dest_buffer \<Rightarrow> bool \<Rightarrow> (int \<times> dest_buffer \<times> bool) result" where
  "image_prog_1_freeresult alloc res up =
     bind_res (xdr_dest_buffer alloc freeing res) (\<lambda>(ok, s, res1). Inr (1, res1, False))"

text \<open>What goes back to the client.\<close>

datatype rpc_reply = Reply string | Err_Noproc | Err_Decode | Err_System | No_Reply

text \<open>One call, as \<open>image_prog_1\<close> dispatches it; \<open>can_send\<close> says which replies the transport takes.\<close>

definition image_prog_1 ::
  "'i magick \<Rightarrow> (nat \<Rightarrow> bool) \<Rightarrow> (string \<Rightarrow> bool) \<Rightarrow> nat \<Rightarrow> string \<Rightarrow> bool \<Rightarrow> (rpc_reply \<times> bool) result" where
  "image_prog_1 lib alloc can_send proc args up =
     (if proc = 0 then Inr (if can_send [] then Reply [] else No_Reply, up)
      else if proc \<noteq> 1 then Inr (Err_Noproc, up)
      else bind_res (xdr_minify_img_arg alloc (decoding args) \<lparr>buf_len = 0, buf_val = None\<rparr>) (\<lambda>(ok, s, arg).
        if \<not> ok then Inr (Err_Decode, up)
        else bind_res (minify_image_1_svc lib arg up) (\<lambda>(retval, res, up1).
          bind_res (if retval > 0 then
                      bind_res (xdr_dest_buffer alloc encoding res) (\<lambda>(ok1, s1, res1).
                        Inr (if ok1 \<and> can_send (x_out s1) then Reply (x_out s1) else Err_System))
                    else Inr No_Reply) (\<lambda>reply.
          bind_res (xdr_minify_img_arg alloc freeing arg) (\<lambda>(ok2, s2, arg2).
            if \<not> ok2 then Inl (Exit 1)
            else bind_res (image_prog_1_freeresult alloc res up1) (\<lambda>(r, res2, up2).
              Inr (reply, up2)))))))"

text \<open>
  The server: one call after the other, with the replies and how it ended (\<open>None\<close> while it waits for
  more). \<open>svc_run\<close> returns when waiting for calls fails.
\<close>

datatype svc_event = Call nat string | Select_Fails

primrec svc_run ::
  "'i magick \<Rightarrow> (nat \<Rightarrow> bool) \<Rightarrow> (string \<Rightarrow> bool) \<Rightarrow> svc_event list \<Rightarrow> bool \<Rightarrow>
     rpc_reply list \<times> c_error option" where
  "svc_run lib alloc can_send [] up = ([], None)"
| "svc_run lib alloc can_send (ev # evs) up =
     (case ev of
        Select_Fails \<Rightarrow> ([], Some (Exit 1))
      | Call proc args \<Rightarrow>
          (case image_prog_1 lib alloc can_send proc args up of
             Inl e \<Rightarrow> ([], Some e)
           | Inr (reply, up1) \<Rightarrow>
               (case svc_run lib alloc can_send evs up1 of (replies, e) \<Rightarrow> (reply # replies, e))))"

definition image_server_main ::
  "'i magick \<Rightarrow> (nat \<Rightarrow> bool) \<Rightarrow> (string \<Rightarrow> bool) \<Rightarrow> bool \<Rightarrow> bool \<Rightarrow> bool \<Rightarrow> bool \<Rightarrow> svc_event list \<Rightarrow>
     rpc_reply list \<times> c_error option" where
  "image_server_main lib alloc can_send udp udp_registered tcp tcp_registered evs =
     (if \<not> udp then ([], Some (Exit 1))
      else if \<not> udp_registered then ([], Some (Exit 1))
      else if \<not> tcp then ([], Some (Exit 1))
      else if \<not> tcp_registered then ([], Some (Exit 1))
      else svc_run lib alloc can_send evs False)"

section \<open>The client's call\<close>

datatype clnt_stat =
    RPC_SUCCESS | RPC_CANTENCODEARGS | RPC_CANTDECODERES | RPC_CANTSEND | RPC_CANTRECV | RPC_TIMEDOUT
  | RPC_PROCUNAVAIL | RPC_CANTDECODEARGS | RPC_SYSTEMERROR

definition MAX_JPEG_SIZE :: nat where "MAX_JPEG_SIZE = 102400000"

text \<open>
  \<open>net\<close> is what a call comes back with: a failure of the transport or a reply of the server.
\<close>

type_synonym rpc_net = "nat \<Rightarrow> string \<Rightarrow> clnt_stat + rpc_reply"

definition minify_image_1 ::
  "(nat \<Rightarrow> bool) \<Rightarrow> rpc_net \<Rightarrow> minify_img_arg \<Rightarrow> dest_buffer \<Rightarrow> (clnt_stat \<times> dest_buffer) result" where
  "minify_image_1 alloc net arg res =
     bind_res (xdr_minify_img_arg alloc encoding arg) (\<lambda>(ok, s, arg1).
       if \<not> ok then Inr (RPC_CANTENCODEARGS, res)
       else case net 1 (x_out s) of
         Inl st \<Rightarrow> Inr (st, res)
       | Inr (Reply bs) \<Rightarrow>
           bind_res (xdr_dest_buffer alloc (decoding bs) res) (\<lambda>(ok1, s1, res1).
             Inr (if ok1 then RPC_SUCCESS else RPC_CANTDECODERES, res1))
       | Inr Err_Noproc \<Rightarrow> Inr (RPC_PROCUNAVAIL, res)
       | Inr Err_Decode \<Rightarrow> Inr (RPC_CANTDECODEARGS, res)
       | Inr Err_System \<Rightarrow> Inr (RPC_SYSTEMERROR, res)
       | Inr No_Reply \<Rightarrow> Inr (RPC_TIMEDOUT, res))"

text \<open>
  The memory for the answer has \<open>MAX_JPEG_SIZE\<close> bytes, with the contents \<open>heap\<close>; the length is not
  initialised. The result is the memory and the number of bytes that belong to the answer.
\<close>

definition minify_call ::
  "(nat \<Rightarrow> bool) \<Rightarrow> rpc_net \<Rightarrow> string \<Rightarrow> u32 \<Rightarrow> string \<Rightarrow> nat \<Rightarrow> (string option \<times> nat) result" where
  "minify_call alloc net heap junk src src_len =
     bind_res (minify_image_1 alloc net \<lparr>buf_len = word_of_nat src_len, buf_val = Some src\<rparr>
         \<lparr>buf_len = junk, buf_val = if alloc MAX_JPEG_SIZE then Some heap else None\<rparr>) (\<lambda>(st, dest).
       if st \<noteq> RPC_SUCCESS then Inl (Exit 3)
       else Inr (buf_val dest, unat (buf_len dest)))"

text \<open>What \<open>write_to_file\<close> is given: the first bytes of that memory.\<close>

definition minify_answer :: "string option \<times> nat \<Rightarrow> string result" where
  "minify_answer = (\<lambda>(val, n). case val of None \<Rightarrow> (if n = 0 then Inr [] else Inl Null_Deref) | Some m \<Rightarrow> mem_slice m 0 n)"

text \<open>A server that answers calls over a network that loses nothing; if it ends there is no reply.\<close>

definition server_net :: "'i magick \<Rightarrow> (nat \<Rightarrow> bool) \<Rightarrow> (string \<Rightarrow> bool) \<Rightarrow> rpc_net" where
  "server_net lib alloc can_send proc args =
     (case image_prog_1 lib alloc can_send proc args False of
        Inl e \<Rightarrow> Inl RPC_CANTRECV
      | Inr (reply, up) \<Rightarrow> Inr reply)"

definition image_rpc ::
  "'i magick \<Rightarrow> (nat \<Rightarrow> bool) \<Rightarrow> (string \<Rightarrow> bool) \<Rightarrow> (nat \<Rightarrow> bool) \<Rightarrow> string \<Rightarrow> u32 \<Rightarrow> string \<Rightarrow> string option" where
  "image_rpc lib salloc can_send calloc heap junk src =
     (case bind_res (minify_call calloc (server_net lib salloc can_send) heap junk src (length src)) minify_answer of
        Inl e \<Rightarrow> None
      | Inr m \<Rightarrow> Some m)"

section \<open>Calls that are served\<close>

text \<open>ImageMagick turns the image \<open>d\<close> into \<open>m\<close>, with at most warnings; and an image that it refuses.\<close>

definition minifies :: "'i magick \<Rightarrow> string \<Rightarrow> string \<Rightarrow> bool" where
  "minifies lib d m \<longleftrightarrow> magickminify lib (Some d) (length d) = Inr (Some m, length m)"

definition refuses :: "'i magick \<Rightarrow> string \<Rightarrow> bool" where
  "refuses lib d \<longleftrightarrow> fst (BlobToImage lib d 0) = None \<and>
     (\<exists>e. report_exception lib (snd (BlobToImage lib d 0)) = Inr e)"

lemma magickminify_empty: "magickminify lib None 0 = magickminify lib (Some []) 0"
  by (simp add: magickminify_def mem_slice_def)

lemma svc_minifies:
  assumes "minifies lib d m" and "length d < 2 ^ 32"
  shows "minify_image_1_svc lib \<lparr>buf_len = word_of_nat (length d), buf_val = if d = [] then None else Some d\<rparr> up =
    Inr (1, \<lparr>buf_len = word_of_nat (length m), buf_val = Some m\<rparr>, True)"
  using assms magickminify_empty [of lib]
  by (cases "d = []") (simp_all add: minify_image_1_svc_def minifies_def unat_count)

lemma image_prog_served:
  assumes "minifies lib d m" and "length d < 2 ^ 32" and "length m < 2 ^ 32" and "alloc (length d)"
  shows "image_prog_1 lib alloc can_send 1 (counted d) up =
    Inr (if can_send (counted m) then Reply (counted m) else Err_System, False)"
  using xr.encode_bytes [OF assms(3), of alloc "[]"] xa.decode_message [where bs = d and alloc = alloc, OF assms(2,4)] svc_minifies [OF assms(1,2)]
  by (simp add: image_prog_1_def xa.frees image_prog_1_freeresult_def xr.frees)

lemma image_prog_refused:
  assumes "refuses lib d" and "length d < 2 ^ 32" and "alloc (length d)"
  shows "image_prog_1 lib alloc can_send 1 (counted d) up = Inl (Exit 1)"
proof -
  obtain e1 e2 where "BlobToImage lib d 0 = (None, e1)" "report_exception lib e1 = Inr e2"
    using assms(1) by (cases "BlobToImage lib d 0") (auto simp: refuses_def)
  then have "magickminify lib (Some d) (length d) = Inl (Exit 1)" by (simp add: magickminify_def mem_slice_def)
  then show ?thesis
    using xa.decode_message [where bs = d and alloc = alloc, OF assms(2,3)] magickminify_empty [of lib] assms(2)
    by (cases "d = []") (auto simp: image_prog_1_def minify_image_1_svc_def unat_count)
qed

lemma call_served:
  assumes "minifies lib d m" and "length d < 2 ^ 32" and "length m < 2 ^ 32" and "salloc (length d)"
    and "can_send (counted m)" and "calloc MAX_JPEG_SIZE" and "length m \<le> length heap"
  shows "minify_call calloc (server_net lib salloc can_send) heap junk d (length d) =
    Inr (Some (m @ drop (length m) heap), length m)"
proof -
  have "server_net lib salloc can_send 1 (counted d) = Inr (Reply (counted m))"
    using image_prog_served [where alloc = salloc and can_send = can_send, OF assms(1-4)] assms(5) by (simp add: server_net_def)
  then show ?thesis
    using xa.encode_bytes [where alloc = calloc and rest = "[]", OF assms(2)]
      xr.decodes_into [of "decoding (counted m)" m "[]" "\<lparr>buf_len = junk, buf_val = Some heap\<rparr>" heap calloc] assms(3,6,7)
    by (simp add: minify_call_def minify_image_1_def unat_count)
qed

lemma image_rpc_minifies:
  assumes "minifies lib d m" and "length d < 2 ^ 32" and "length m \<le> MAX_JPEG_SIZE" and "salloc (length d)"
    and "can_send (counted m)" and "calloc MAX_JPEG_SIZE" and "length heap = MAX_JPEG_SIZE"
  shows "image_rpc lib salloc can_send calloc heap junk d = Some m"
proof -
  have "length m < 2 ^ 32" using assms(3) by (simp add: MAX_JPEG_SIZE_def)
  from call_served [where salloc = salloc and can_send = can_send and calloc = calloc and heap = heap and junk = junk,
    OF assms(1,2) this assms(4-6)] assms(3,7) show ?thesis
    by (simp add: image_rpc_def minify_answer_def mem_slice_def)
qed

lemma svc_run_good:
  assumes "list_all2 (minifies lib) ds ms" and "\<forall>d \<in> set ds. length d < 2 ^ 32 \<and> salloc (length d)"
    and "\<forall>m \<in> set ms. length m < 2 ^ 32 \<and> can_send (counted m)"
  shows "\<exists>up1. svc_run lib salloc can_send (List.map (\<lambda>d. Call 1 (counted d)) ds @ evs) up =
    (List.map (\<lambda>m. Reply (counted m)) ms @ fst (svc_run lib salloc can_send evs up1), snd (svc_run lib salloc can_send evs up1))"
  using assms
proof (induction ds ms arbitrary: up rule: list_all2_induct)
  case Nil
  show ?case by (intro exI [of _ up]) simp
next
  case (Cons d ds m ms)
  have "image_prog_1 lib salloc can_send 1 (counted d) up = Inr (Reply (counted m), False)"
    using image_prog_served [where alloc = salloc and can_send = can_send, OF Cons(1)] Cons.prems by simp
  with Cons.IH [of False] Cons.prems show ?case by auto
qed

lemma xdr_bytes_written:
  assumes "xdr_bytes alloc s b (- 1) = Inr (True, s1, b1)" and "x_op s = XDR_ENCODE"
  shows "\<exists>d. x_out s1 = x_out s @ counted d \<and> length d < 2 ^ 32"
proof (cases "buf_len b = 0")
  case True
  with assms show ?thesis by (auto simp: xdr_bytes_encode_empty intro!: exI [of _ "[]"])
next
  case False
  then have n: "unat (buf_len b) \<noteq> 0" by (simp add: unsigned_eq_0_iff)
  with assms obtain m where m: "buf_val b = Some m" "unat (buf_len b) \<le> length m"
    by (auto simp: xdr_bytes_def xdr_u_int_def xdr_opaque_def Let_def mem_slice_def
        split: option.splits if_splits)
  have "unat (buf_len b) < 2 ^ LENGTH(32)" by (rule unsigned_less)
  then have "length (take (unat (buf_len b)) m) < 2 ^ 32" using m(2) by simp
  with xdr_bytes_encode [OF assms(2) m, of alloc] assms(1) show ?thesis by (auto intro!: exI)
qed

lemma padded_length: "(n + padding n) mod 4 = 0"
proof -
  have "n mod 4 = 0 \<or> n mod 4 = 1 \<or> n mod 4 = 2 \<or> n mod 4 = 3" by presburger
  then show ?thesis by (elim disjE; simp add: padding_def; presburger)
qed

section \<open>Properties\<close>

text \<open>
  Property C22. The two messages of the interface survive their representation: what either routine writes
  for a buffer is a whole number of four-byte units, and reading it, whatever follows it in the stream,
  gives a buffer with exactly those bytes and leaves the rest; a null pointer is given new memory.
\<close>

theorem xdr_round_trip:
  assumes "length bs < 2 ^ 32" and "alloc (length bs)" and "codec \<in> {xdr_minify_img_arg, xdr_dest_buffer}"
  shows "\<exists>s b. codec alloc encoding \<lparr>buf_len = word_of_nat (length bs), buf_val = Some (bs @ rest)\<rparr> = Inr (True, s, b) \<and>
    length (x_out s) mod 4 = 0 \<and>
    codec alloc (decoding (x_out s @ others)) \<lparr>buf_len = junk, buf_val = None\<rparr> =
      Inr (True, decoding others,
        \<lparr>buf_len = word_of_nat (length bs), buf_val = if bs = [] then None else Some bs\<rparr>)"
proof -
  have four: "length (counted bs) mod 4 = 0"
    using padded_length [of "length bs"] by (simp add: counted_def flip: mod_add_right_eq [of 4])
  have c: "xdr_codec codec" using assms(3) xa.xdr_codec_axioms xr.xdr_codec_axioms by auto
  from xdr_codec.encode_bytes [OF c assms(1), of alloc rest]
    xdr_codec.decodes_new [OF c, of "decoding (counted bs @ others)" bs others "\<lparr>buf_len = junk, buf_val = None\<rparr>" alloc]
    four assms(1,2)
  show ?thesis by simp
qed

theorem xdr_round_trip_witness:
  "\<exists>s b. xdr_dest_buffer (\<lambda>n. True) encoding \<lparr>buf_len = word_of_nat (length ''image''), buf_val = Some (''image'' @ ''xx'')\<rparr> =
      Inr (True, s, b) \<and> length (x_out s) mod 4 = 0 \<and>
    xdr_dest_buffer (\<lambda>n. True) (decoding (x_out s @ ''yy'')) \<lparr>buf_len = 9, buf_val = None\<rparr> =
      Inr (True, decoding ''yy'', \<lparr>buf_len = word_of_nat (length ''image''), buf_val = Some ''image''\<rparr>)"
  using xdr_round_trip [of "''image''" "\<lambda>n. True" xdr_dest_buffer "''xx''" "''yy''" 9] by simp

text \<open>
  Property C21. The server keeps to the types of the interface: for any bytes that arrive as arguments, any
  procedure number and any library, a reply that is sent is empty for the null procedure and the counted bytes
  of a \<open>dest_buffer\<close> for \<open>minify_image\<close>, and every other procedure is refused; when the call is over,
  the library is shut down again if it was before.
\<close>

theorem replies_typed:
  assumes "image_prog_1 lib alloc can_send proc args up = Inr (reply, up1)"
  shows "(\<forall>bs. reply = Reply bs \<longrightarrow>
      proc = 0 \<and> bs = [] \<or> proc = 1 \<and> can_send bs \<and> (\<exists>d. bs = counted d \<and> length d < 2 ^ 32)) \<and>
    (proc \<notin> {0, 1} \<longrightarrow> reply = Err_Noproc) \<and> (\<not> up \<longrightarrow> \<not> up1)"
proof -
  have w: "\<exists>d. x_out s = counted d \<and> length d < 2 ^ 32" if "xdr_dest_buffer alloc encoding b = Inr (True, s, b1)" for s b b1
    using xdr_bytes_written [of alloc encoding b s b1] that by (simp add: xdr_routines)
  show ?thesis
    using assms
    by (auto simp: image_prog_1_def image_prog_1_freeresult_def bind_res_eq_Inr xr.frees split: if_splits dest!: w)
qed

definition sample_magick :: "string magick" where
  "sample_magick =
     \<lparr>BlobToImage = (\<lambda>d e. if d = ''text'' then (None, 420) else (Some d, e)),
      MinifyImage = (\<lambda>i e. (Some (take 2 i), e)), ImageToBlob = (\<lambda>i e. ((Some i, length i), e)),
      CatchException = (\<lambda>e. Inr e)\<rparr>"

lemma sample_minifies: "d \<noteq> ''text'' \<Longrightarrow> minifies sample_magick d (take 2 d)"
  by (simp add: minifies_def magickminify_def sample_magick_def report_exception_def mem_slice_def)

lemma sample_refuses: "refuses sample_magick ''text''"
  by (simp add: refuses_def sample_magick_def report_exception_def)

theorem replies_typed_witness:
  "\<exists>reply up1 bs d. image_prog_1 sample_magick (\<lambda>n. True) (\<lambda>b. True) 1 (counted ''image'') False = Inr (reply, up1) \<and>
    reply = Reply bs \<and> bs = counted d \<and> length d < 2 ^ 32 \<and> \<not> up1"
proof -
  have run: "image_prog_1 sample_magick (\<lambda>n. True) (\<lambda>b. True) 1 (counted ''image'') False =
      Inr (Reply (counted (take 2 ''image'')), False)"
    using image_prog_served [OF sample_minifies, of "''image''" "\<lambda>n. True" "\<lambda>b. True" False] by simp
  from replies_typed [OF run] have "\<exists>d. counted (take 2 ''image'') = counted d \<and> length d < 2 ^ 32" by simp
  with run show ?thesis by blast
qed

text \<open>
  Property C23. A call goes through: if ImageMagick minifies the image, client and server stubs carry it
  there and back; the client's memory then starts with exactly the minified image, its length is returned,
  and the server has shut the library down again.
\<close>

theorem image_call_served:
  assumes "minifies lib d m" and "length d < 2 ^ 32" and "length m \<le> MAX_JPEG_SIZE" and "salloc (length d)"
    and "can_send (counted m)" and "calloc MAX_JPEG_SIZE" and "length heap = MAX_JPEG_SIZE"
  shows "minify_call calloc (server_net lib salloc can_send) heap junk d (length d) =
      Inr (Some (m @ drop (length m) heap), length m) \<and>
    image_prog_1 lib salloc can_send 1 (counted d) False = Inr (Reply (counted m), False)"
proof -
  have m: "length m < 2 ^ 32" using assms(3) by (simp add: MAX_JPEG_SIZE_def)
  show ?thesis
    using call_served [where salloc = salloc and can_send = can_send and calloc = calloc and heap = heap and junk = junk,
        OF assms(1,2) m assms(4-6)]
      image_prog_served [where alloc = salloc and can_send = can_send, OF assms(1,2) m assms(4)] assms(3,5,7)
    by simp
qed

theorem image_call_served_witness:
  "minify_call (\<lambda>n. True) (server_net sample_magick (\<lambda>n. True) (\<lambda>b. True)) (replicate MAX_JPEG_SIZE NUL) 0 ''image''
      (length ''image'') = Inr (Some (''im'' @ drop (length ''im'') (replicate MAX_JPEG_SIZE NUL)), length ''im'')"
  using image_call_served [OF sample_minifies, of "''image''" "\<lambda>n. True" "\<lambda>b. True" "\<lambda>n. True"
      "replicate MAX_JPEG_SIZE NUL" 0]
  by (simp add: MAX_JPEG_SIZE_def)

text \<open>
  Property C8. The image service as a whole: with the server behind the stubs, whatever the interleaving
  of the client's workers, once its main thread is done every output file that can be written holds what
  ImageMagick makes of its input file.
\<close>

theorem image_service_outputs:
  assumes "minify_job (image_rpc lib salloc can_send calloc heap junk) fs rs" and "length rs \<le> nodes" and "0 < n"
    and "\<forall>(a, b) \<in> set rs. \<exists>d. fs a = Some d \<and> minifies lib d (small d) \<and> length d < 2 ^ 32 \<and>
      length (small d) \<le> MAX_JPEG_SIZE \<and> salloc (length d) \<and> can_send (counted (small d))"
    and "calloc MAX_JPEG_SIZE" and "length heap = MAX_JPEG_SIZE"
  shows "\<exists>s. minify_main (image_rpc lib salloc can_send calloc heap junk) writable mem nodes
      (Some (work_file rs)) True n sched fs = Inr s \<and>
    (pl_boss s = B_Done \<longrightarrow> (\<forall>(a, b) \<in> set rs. writable b \<longrightarrow> pl_env s b = map_option small (fs a)))"
proof -
  have rpc: "image_rpc lib salloc can_send calloc heap junk d = Some (small d)"
    if "(a, b) \<in> set rs" "fs a = Some d" for a b d
    using image_rpc_minifies [where salloc = salloc and can_send = can_send and calloc = calloc, OF _ _ _ _ _ assms(5,6)]
      assms(4) that by force
  from minify_runs [OF assms(1-3), of writable mem sched] obtain s where
    s: "minify_main (image_rpc lib salloc can_send calloc heap junk) writable mem nodes
      (Some (work_file rs)) True n sched fs = Inr s"
      "pl_boss s = B_Done \<Longrightarrow> \<forall>(a, b) \<in> set rs. writable b \<longrightarrow>
         (\<exists>d. fs a = Some d \<and> pl_env s b = image_rpc lib salloc can_send calloc heap junk d)" by blast
  have "pl_env s b = map_option small (fs a)"
    if "pl_boss s = B_Done" "(a, b) \<in> set rs" "writable b" for a b
    using s(2) [OF that(1)] that(2,3) rpc [OF that(2)] by fastforce
  with s(1) show ?thesis by blast
qed

theorem image_service_outputs_witness:
  "\<exists>s. minify_main (image_rpc sample_magick (\<lambda>n. True) (\<lambda>b. True) (\<lambda>n. True) (replicate MAX_JPEG_SIZE NUL) 0)
      (\<lambda>f. True) [] 2 (Some (work_file [(''a'', ''x''), (''b'', ''y'')])) True 2
      (concat (replicate 20 [Worker 0, Worker 1, Boss])) sample_fs = Inr s \<and>
    (pl_boss s = B_Done \<longrightarrow> pl_env s ''x'' = Some ''im'')"
proof -
  let ?rpc = "image_rpc sample_magick (\<lambda>n. True) (\<lambda>b. True) (\<lambda>n. True) (replicate MAX_JPEG_SIZE NUL) 0"
  have "?rpc d = Some (take 2 d)" if "d \<noteq> ''text''" "length d < 10" for d
    using that by (intro image_rpc_minifies sample_minifies) (simp_all add: MAX_JPEG_SIZE_def)
  then have "minify_job ?rpc sample_fs [(''a'', ''x''), (''b'', ''y'')]"
    by (simp add: minify_job_def path_word_def isspace_def less_eq_char_def sample_fs_def)
  then have "\<exists>s. minify_main ?rpc (\<lambda>f. True) [] 2 (Some (work_file [(''a'', ''x''), (''b'', ''y'')])) True 2
      (concat (replicate 20 [Worker 0, Worker 1, Boss])) sample_fs = Inr s \<and>
    (pl_boss s = B_Done \<longrightarrow> (\<forall>(a, b) \<in> set [(''a'', ''x''), (''b'', ''y'')].
       True \<longrightarrow> pl_env s b = map_option (take 2) (sample_fs a)))"
    by (rule image_service_outputs)
      (auto simp: sample_fs_def MAX_JPEG_SIZE_def intro: sample_minifies [of "''image''", simplified] sample_minifies [of "''photo''", simplified])
  then show ?thesis by (auto simp: sample_fs_def)
qed

text \<open>
  Property C24. One bad image ends the service: the calls before it are answered, then the server exits
  with status 1 in the call, and no call after it gets a reply, from whatever client.
\<close>

theorem bad_image_stops_server:
  assumes "list_all2 (minifies lib) ds ms" and "\<forall>d \<in> set ds. length d < 2 ^ 32 \<and> salloc (length d)"
    and "\<forall>m \<in> set ms. length m < 2 ^ 32 \<and> can_send (counted m)"
    and "refuses lib bad" and "length bad < 2 ^ 32" and "salloc (length bad)"
  shows "image_server_main lib salloc can_send True True True True
      (List.map (\<lambda>d. Call 1 (counted d)) ds @ Call 1 (counted bad) # evs) =
    (List.map (\<lambda>m. Reply (counted m)) ms, Some (Exit 1))"
  using svc_run_good [where salloc = salloc and can_send = can_send and evs = "Call 1 (counted bad) # evs" and up = False,
      OF assms(1-3)]
    image_prog_refused [where alloc = salloc and can_send = can_send, OF assms(4-6)]
  by (auto simp: image_server_main_def)

theorem bad_image_stops_server_witness:
  "image_server_main sample_magick (\<lambda>n. True) (\<lambda>b. True) True True True True
      [Call 1 (counted ''image''), Call 1 (counted ''text''), Call 1 (counted ''photo'')] =
    ([Reply (counted ''im'')], Some (Exit 1))"
  using bad_image_stops_server [OF _ _ _ sample_refuses, of "[''image'']" "[''im'']" "\<lambda>n. True" "\<lambda>b. True"
      "[Call 1 (counted ''photo'')]"] sample_minifies [of "''image''"]
  by simp

text \<open>
  Further fact. The client's memory for the answer is not protected: an answer longer than \<open>MAX_JPEG_SIZE\<close>
  is decoded past its end, because the stubs allow any count.
\<close>

theorem long_reply_overruns:
  assumes "length d < 2 ^ 32" and "length m < 2 ^ 32" and "MAX_JPEG_SIZE < length m" and "net 1 (counted d) = Inr (Reply (counted m))"
    and "calloc MAX_JPEG_SIZE" and "length heap = MAX_JPEG_SIZE"
  shows "minify_call calloc net heap junk d (length d) = Inl Out_Of_Bounds"
  using xa.encode_bytes [where alloc = calloc and rest = "[]", OF assms(1)]
    xr.decodes_over [of "decoding (counted m)" m "[]" "\<lparr>buf_len = junk, buf_val = Some heap\<rparr>" heap calloc] assms(2-6)
  by (simp add: minify_call_def minify_image_1_def)

theorem long_reply_overruns_witness:
  "minify_call (\<lambda>n. True) (\<lambda>p a. Inr (Reply (counted (replicate (Suc MAX_JPEG_SIZE) NUL)))) (replicate MAX_JPEG_SIZE NUL) 0
      ''d'' (length ''d'') = Inl Out_Of_Bounds"
  by (rule long_reply_overruns [where m = "replicate (Suc MAX_JPEG_SIZE) NUL"]) (simp_all add: MAX_JPEG_SIZE_def)

text \<open>
  Further fact. The test after \<open>MinifyImage\<close> looks at the wrong variable: when the library cannot minify an
  image, and reports it with a warning or an error, the null result goes on into the library.
\<close>

theorem null_resize_used:
  assumes "BlobToImage lib d 0 = (Some i, e1)" and "report_exception lib e1 = Inr e2"
    and "MinifyImage lib i e2 = (None, e3)" and "report_exception lib e3 = Inr e4"
  shows "magickminify lib (Some d) (length d) = Inl Null_Deref"
  using assms by (simp add: magickminify_def mem_slice_def)

theorem null_resize_used_witness:
  "magickminify (sample_magick\<lparr>MinifyImage := \<lambda>i e. (None, 400)\<rparr>) (Some ''image'') (length ''image'') = Inl Null_Deref"
  by (rule null_resize_used [where ?e1.0 = 0 and ?e2.0 = 0 and ?e3.0 = 400 and ?e4.0 = 400])
    (simp_all add: sample_magick_def report_exception_def)

end
