(* ===== verification/Mtgf_Download.thy ===== *)
theory Mtgf_Download
  imports Pool Gfclient_Download
begin

text \<open>
  The multithreaded download client of \<open>project1/ud923-project1-mtgf/gfclient_download.c\<close>: the
  main thread takes paths from the workload and enqueues them, a pool of workers downloads them.
  The client library is not part of that directory: \<open>fetch n p\<close> is what its \<open>n\<close>-th request,
  for the path \<open>p\<close>, returns, its status and the bytes it gives to the write callback. The worker
  then releases the request with \<open>gfc_cleanup\<close>, which frees its memory (\<open>gfclient.h\<close>), and still
  asks it for its status and its two lengths: \<open>after n p\<close> is what these reads of the released request
  give, an error where the memory is no longer there. \<open>localPath\<close> and \<open>openFile\<close> are the same
  functions as in the single-threaded client. Messages are left out.
\<close>

section \<open>State\<close>

text \<open>
  The counter of \<open>localPath\<close>, shared by the threads, and the file system: names lead to files, so
  that a file stays open for a thread while another removes or reuses its name.
\<close>

record mt_env =
  mt_counter :: int
  mt_names :: "string \<rightharpoonup> nat"
  mt_data :: "nat \<Rightarrow> string"
  mt_fresh :: nat
  mt_fetches :: nat

datatype dl_stage = D_Start | D_Counter int | D_Name string | D_File string nat | D_Report nat

text \<open>Status, bytes received and length of the file, as the accessors of the library give them.\<close>

type_synonym gfc_report = "gfstatus_t \<times> nat \<times> nat"

section \<open>The work of a worker\<close>

text \<open>
  One step of \<open>perform_work\<close> per access to the shared state: \<open>counter++\<close> reads and then writes
  the counter, \<open>fopen\<close> creates or empties the file, the request fills it through its own
  offset, and the last step reads the request after \<open>gfc_cleanup\<close> has released it. The result of
  \<open>unlink\<close> is not looked at, and what the reads give is only printed.
\<close>

definition open_truncated :: "mt_env \<Rightarrow> string \<Rightarrow> nat \<times> mt_env" where
  "open_truncated e name =
     (case mt_names e name of
        Some i \<Rightarrow> (i, e\<lparr>mt_data := (mt_data e)(i := [])\<rparr>)
      | None \<Rightarrow>
          (mt_fresh e, e\<lparr>mt_names := (mt_names e)(name \<mapsto> mt_fresh e),
             mt_data := (mt_data e)(mt_fresh e := []), mt_fresh := Suc (mt_fresh e)\<rparr>))"

definition write_at_start :: "string \<Rightarrow> string \<Rightarrow> string" where
  "write_at_start bs old = bs @ drop (length bs) old"

definition unlink :: "string \<Rightarrow> mt_env \<Rightarrow> mt_env" where
  "unlink name e = e\<lparr>mt_names := (mt_names e)(name := None)\<rparr>"

definition perform_work ::
  "(string \<Rightarrow> bool) \<Rightarrow> (string \<Rightarrow> bool) \<Rightarrow> (nat \<Rightarrow> string \<Rightarrow> int \<times> gfstatus_t \<times> string) \<Rightarrow>
   (nat \<Rightarrow> string \<Rightarrow> gfc_report result) \<Rightarrow>
   string \<Rightarrow> dl_stage \<Rightarrow> mt_env \<Rightarrow> (dl_stage option \<times> mt_env) result" where
  "perform_work mk op fetch after req_path l e =
     (case l of
        D_Start \<Rightarrow> Inr (Some (D_Counter (mt_counter e)), e)
      | D_Counter c \<Rightarrow>
          bind_res (localPath req_path c) (\<lambda>(name, c1).
            Inr (Some (D_Name name), e\<lparr>mt_counter := c1\<rparr>))
      | D_Name name \<Rightarrow>
          bind_res (openFile mk op name) (\<lambda>log.
            let (i, e1) = open_truncated e name in Inr (Some (D_File name i), e1))
      | D_File name i \<Rightarrow>
          let (returncode, st, bs) = fetch (mt_fetches e) req_path;
              e1 = e\<lparr>mt_data := (mt_data e)(i := write_at_start bs (mt_data e i)),
                     mt_fetches := Suc (mt_fetches e)\<rparr>;
              e2 = (if returncode < 0 then unlink name e1 else e1);
              e3 = (if st \<noteq> GF_OK then unlink name e2 else e2)
          in Inr (Some (D_Report (mt_fetches e)), e3)
      | D_Report n \<Rightarrow> bind_res (after n req_path) (\<lambda>report. Inr (None, e)))"

section \<open>The main thread\<close>

definition mt_accept :: "string \<Rightarrow> bool" where
  "mt_accept req_path \<longleftrightarrow> length req_path \<le> 256"

text \<open>
  The pool after \<open>thread_pool_init\<close>: the workers run while the main thread still enqueues. A worker
  that runs before \<open>steque_init\<close> finds the zeroed static queue, which is the same empty queue.
\<close>

definition thread_pool_init ::
  "nat \<Rightarrow> nat \<Rightarrow> string list \<Rightarrow> mt_env \<Rightarrow> (string, dl_stage, mt_env) pool" where
  "thread_pool_init num_threads nodes reqs e =
     \<lparr>pl_queue = (steque_init, empty_sheap nodes), pl_mutex = None,
      pl_workers = replicate num_threads W_Lock, pl_boss = B_Next reqs, pl_env = e,
      pl_finished = []\<rparr>"

primrec deref_all :: "cheap \<Rightarrow> cptr list \<Rightarrow> string list result" where
  "deref_all h [] = Inr []"
| "deref_all h (p # ps) = bind_res (deref h p) (\<lambda>s. bind_res (deref_all h ps) (\<lambda>ss. Inr (s # ss)))"

definition mt_main ::
  "(string \<Rightarrow> bool) \<Rightarrow> (string \<Rightarrow> bool) \<Rightarrow> (nat \<Rightarrow> string \<Rightarrow> int \<times> gfstatus_t \<times> string) \<Rightarrow>
   (nat \<Rightarrow> string \<Rightarrow> gfc_report result) \<Rightarrow> nat \<Rightarrow>
   string option \<Rightarrow> nat \<Rightarrow> nat \<Rightarrow> owner list \<Rightarrow> mt_env \<Rightarrow> (string, dl_stage, mt_env) pool result" where
  "mt_main mk op fetch after nodes file nthreads nrequests sched e =
     bind_res (workload_init no_strings workload_start file) (\<lambda>(r, h, w).
       if r \<noteq> 0 then Inl (Exit 1)
       else bind_res (get_paths (nrequests * nthreads) w) (\<lambda>(ps, w1).
            bind_res (deref_all h ps) (\<lambda>reqs.
            run_pool (perform_work mk op fetch after) D_Start mt_accept sched
              (thread_pool_init nthreads nodes reqs e))))"

section \<open>The pool's contract\<close>

definition mt_req_ok :: "string \<Rightarrow> bool" where
  "mt_req_ok p \<longleftrightarrow> p \<noteq> [] \<and> length p \<le> 256"

text \<open>Each request takes one number of the counter, which must stay below \<open>2 ^ 31 - 1\<close>.\<close>

definition mt_env_ok :: "mt_env \<Rightarrow> nat \<Rightarrow> bool" where
  "mt_env_ok e k \<longleftrightarrow> 0 \<le> mt_counter e \<and> mt_counter e + int k \<le> int_max"

definition mt_stage_ok :: "string \<Rightarrow> dl_stage \<Rightarrow> nat \<Rightarrow> bool" where
  "mt_stage_ok r l k = (case l of D_Counter c \<Rightarrow> 0 \<le> c \<and> c + int k \<le> int_max
     | D_Name name \<Rightarrow> name \<noteq> [] | _ \<Rightarrow> True)"

fun mt_cred :: "dl_stage \<Rightarrow> nat" where
  "mt_cred D_Start = 1"
| "mt_cred (D_Counter c) = 1"
| "mt_cred (D_Name n) = 0"
| "mt_cred (D_File n i) = 0"
| "mt_cred (D_Report n) = 0"

fun mt_left :: "dl_stage \<Rightarrow> nat" where
  "mt_left D_Start = 4"
| "mt_left (D_Counter c) = 3"
| "mt_left (D_Name n) = 2"
| "mt_left (D_File n i) = 1"
| "mt_left (D_Report n) = 0"

lemma openFile_total: "name \<noteq> [] \<Longrightarrow> \<exists>log. openFile (\<lambda>d. True) (\<lambda>d. True) name = Inr log"
  using make_dirs_slashes [of 1 name "\<lambda>d. True" "[]"] by (cases name) (auto simp: openFile_def)

lemma localPath_counter: "localPath r c = Inr (name, c1) \<Longrightarrow> c1 = c + 1"
  by (auto simp: localPath_def bind_res_eq_Inr Let_def split: if_splits)

lemma perform_work_file:
  "\<exists>e'. perform_work mk op fetch after r (D_File name i) e = Inr (Some (D_Report (mt_fetches e)), e') \<and>
    mt_counter e' = mt_counter e"
proof -
  obtain rc st bs where f: "fetch (mt_fetches e) r = (rc, st, bs)" by (cases "fetch (mt_fetches e) r") auto
  then show ?thesis by (simp add: perform_work_def Let_def unlink_def)
qed

text \<open>
  The same reads with a value where there is none: the work over these cannot fail, and it is the work
  of the code up to the first read of a released request that fails.
\<close>

definition lenient :: "(nat \<Rightarrow> string \<Rightarrow> gfc_report result) \<Rightarrow> nat \<Rightarrow> string \<Rightarrow> gfc_report result" where
  "lenient after n p = (case after n p of Inl er \<Rightarrow> Inr (GF_ERROR, 0, 0) | Inr report \<Rightarrow> Inr report)"

lemma lenient_total: "\<exists>report. lenient after n p = Inr report"
  by (simp add: lenient_def split: sum.split)

lemma perform_work_agrees:
  "perform_work mk op fetch after r l e = perform_work mk op fetch (lenient after) r l e \<or>
    (\<exists>er. perform_work mk op fetch after r l e = Inl er \<and> (\<exists>n p. after n p = Inl er))"
proof (cases l)
  case (D_Report n)
  then show ?thesis
    by (cases "after n r") (auto simp: perform_work_def lenient_def)
qed (simp_all add: perform_work_def)

interpretation mt: pool_worker "perform_work (\<lambda>d. True) (\<lambda>d. True) fetch (lenient after)" D_Start mt_accept
  mt_req_ok mt_stage_ok mt_env_ok mt_cred mt_left
  for fetch after
proof
  fix r l k e
  assume r: "mt_req_ok r" and st: "mt_stage_ok r l (k + mt_cred l)" and e: "mt_env_ok e (k + mt_cred l)"
  let ?w = "perform_work (\<lambda>d. True) (\<lambda>d. True) fetch (lenient after)"
  show "\<exists>l' e'. ?w r l e = Inr (l', e') \<and>
      (case l' of
         None \<Rightarrow> mt_env_ok e' k
       | Some l1 \<Rightarrow> mt_stage_ok r l1 (k + mt_cred l1) \<and> mt_env_ok e' (k + mt_cred l1) \<and>
           mt_cred l1 \<le> mt_cred l \<and> mt_left l1 < mt_left l)"
  proof (cases l)
    case D_Start
    with e show ?thesis by (simp add: perform_work_def mt_stage_ok_def mt_env_ok_def)
  next
    case (D_Counter c)
    with st have c: "0 \<le> c" "c + int k + 1 \<le> int_max" by (simp_all add: mt_stage_ok_def)
    with r have "localPath r c = Inr (tl r @ ''-'' @ pad6 c, c + 1)"
      by (intro localPath_ok) (auto simp: mt_req_ok_def)
    with D_Counter c show ?thesis by (simp add: perform_work_def mt_stage_ok_def mt_env_ok_def)
  next
    case (D_Name name)
    with st obtain log where "openFile (\<lambda>d. True) (\<lambda>d. True) name = Inr log"
      using openFile_total by (auto simp: mt_stage_ok_def)
    with D_Name e show ?thesis
      by (auto simp: perform_work_def open_truncated_def mt_env_ok_def mt_stage_ok_def
          split: option.splits)
  next
    case (D_File name i)
    with perform_work_file [of "\<lambda>d. True" "\<lambda>d. True" fetch "lenient after" r name i e] e show ?thesis
      by (auto simp: mt_env_ok_def mt_stage_ok_def)
  next
    case (D_Report n)
    obtain report where "lenient after n r = Inr report" using lenient_total by blast
    with D_Report e show ?thesis by (simp add: perform_work_def)
  qed
qed (auto simp: mt_accept_def mt_req_ok_def mt_stage_ok_def mt_env_ok_def split: dl_stage.splits)


section \<open>From the work file to the pool\<close>

lemma deref_all_map:
  "List.map (deref h) ps = List.map (\<lambda>i. Inr (f i)) is \<Longrightarrow> deref_all h ps = Inr (List.map f is)"
proof (induction ps arbitrary: "is")
  case (Cons p ps)
  then show ?case by (cases "is") auto
qed simp

definition mt_reqs :: "string list \<Rightarrow> nat \<Rightarrow> string list" where
  "mt_reqs ws n = List.map (\<lambda>i. ws ! (Suc i mod length ws)) [0 ..< n]"

definition mt_setup :: "string list \<Rightarrow> nat \<Rightarrow> nat \<Rightarrow> mt_env \<Rightarrow> bool" where
  "mt_setup ws nodes k e \<longleftrightarrow>
     (\<forall>w \<in> set ws. path_word w) \<and> ws \<noteq> [] \<and> length ws \<le> 100 \<and> k \<le> nodes \<and>
     0 \<le> mt_counter e \<and> mt_counter e + int k \<le> int_max"

lemma mt_setup_bound: "mt_setup ws nodes k e \<Longrightarrow> k < 2 ^ 31 \<and> k \<le> nat int_max \<and> k \<le> nodes"
  by (auto simp: mt_setup_def int_max_def)

lemma mt_main_run:
  assumes "mt_setup ws nodes (nrequests * nthreads) e"
  shows "mt_main mk op fetch after nodes (Some (workload_file ws)) nthreads nrequests sched e =
    run_pool (perform_work mk op fetch after) D_Start mt_accept sched
      (thread_pool_init nthreads nodes (mt_reqs ws (nrequests * nthreads)) e)"
proof -
  have "nrequests * nthreads < 2 ^ 31"
    using mt_setup_bound [OF assms] by blast
  with workload_paths [OF _ _ _ no_strings_ok, of ws] assms obtain h w ps w' where
    "workload_init no_strings workload_start (Some (workload_file ws)) = Inr (0, h, w)"
    "get_paths (nrequests * nthreads) w = Inr (ps, w')"
    "List.map (deref h) ps = List.map (\<lambda>i. Inr (ws ! (Suc i mod length ws))) [0 ..< nrequests * nthreads]"
    unfolding mt_setup_def by blast
  moreover from deref_all_map [OF this(3)] have
    "deref_all h ps = Inr (mt_reqs ws (nrequests * nthreads))" by (simp add: mt_reqs_def)
  ultimately show ?thesis by (simp add: mt_main_def)
qed

lemma mt_reqs_ok:
  assumes "mt_setup ws nodes k e"
  shows "\<forall>p \<in> set (mt_reqs ws k). mt_req_ok p" and "length (mt_reqs ws k) = k"
proof -
  have "ws ! (Suc i mod length ws) \<in> set ws" for i
    using assms by (simp add: mt_setup_def)
  moreover have "mt_req_ok w" if "w \<in> set ws" for w
  proof -
    have "path_word w" using assms that by (simp add: mt_setup_def)
    then show ?thesis by (simp add: mt_req_ok_def path_word_def)
  qed
  ultimately show "\<forall>p \<in> set (mt_reqs ws k). mt_req_ok p"
    by (simp add: mt_reqs_def)
  show "length (mt_reqs ws k) = k" by (simp add: mt_reqs_def)
qed

lemma mt_start_good:
  fixes n :: nat
  assumes "mt_setup ws nodes k e"
  defines "s \<equiv> thread_pool_init n nodes (mt_reqs ws k) e"
  shows "mt.good s" and "pool_requests s = mset (mt_reqs ws k)" and "joined s"
    and "steque_invar (pl_queue s)" and "steque_items (pl_queue s) = []"
    and "length (mt_reqs ws k) \<le> steque_capacity (pl_queue s)"
proof -
  note q = steque_init_invar [where n = nodes and 'a = string]
  have h: "all_held (replicate n W_Lock) = {#}" by (rule no_held) simp
  show req: "pool_requests s = mset (mt_reqs ws k)"
    using h q by (simp add: pool_requests_def s_def thread_pool_init_def)
  show cap: "length (mt_reqs ws k) \<le> steque_capacity (pl_queue s)"
    using mt_setup_bound [OF assms(1)] q mt_reqs_ok(2) [OF assms(1)]
    by (simp add: s_def thread_pool_init_def)
  have "sum_list (List.map mt.held_cred (replicate n W_Lock)) = 0" by (simp add: sum_list_replicate)
  then have cr: "mt.pool_credit s = k"
    using q mt_reqs_ok(2) [OF assms(1)] by (simp add: mt.pool_credit_def s_def thread_pool_init_def)
  show "steque_invar (pl_queue s)" "steque_items (pl_queue s) = []"
    using q by (simp_all add: s_def thread_pool_init_def)
  moreover have "mt_env_ok (pl_env s) k"
    using assms(1) by (simp add: mt_env_ok_def mt_setup_def s_def thread_pool_init_def)
  ultimately show "mt.good s"
    using req cap cr mt_reqs_ok(1) [OF assms(1)] unfolding mt.good_def mt.stages_ok_def pool_ok_def
    by (auto simp: s_def thread_pool_init_def)
  show "joined s" by (simp add: joined_def s_def thread_pool_init_def)
qed


section \<open>Runs up to the first read of a released request that fails\<close>

lemma mt_run_agrees:
  "run_pool (perform_work mk op fetch after) D_Start acc sched s =
     run_pool (perform_work mk op fetch (lenient after)) D_Start acc sched s \<or>
   (\<exists>er. run_pool (perform_work mk op fetch after) D_Start acc sched s = Inl er \<and>
     (\<exists>n p. after n p = Inl er))"
  by (intro run_sched_agrees pool_act_agrees perform_work_agrees)

definition reported :: "(nat \<Rightarrow> string \<Rightarrow> gfc_report result) \<Rightarrow> (string, dl_stage, mt_env) pool \<Rightarrow> bool" where
  "reported after s \<longleftrightarrow> (\<forall>p \<in> set (pl_finished s). \<exists>n report. after n p = Inr report)"

lemma perform_work_reported:
  "perform_work mk op fetch after r l e = Inr (None, e') \<Longrightarrow> \<exists>n report. after n r = Inr report"
  by (auto simp: perform_work_def bind_res_eq_Inr Let_def split: dl_stage.splits prod.splits)

lemma reported_act:
  assumes "reported after s" and "pool_act (perform_work mk op fetch after) D_Start acc t s = Some (Inr s')"
  shows "reported after s'"
proof (cases t)
  case Boss
  with assms show ?thesis
    by (auto simp: pool_act_def boss_step_def reported_def bind_res_eq_Inr
        split: boss_pc.splits list.splits if_splits)
next
  case (Worker i)
  with assms(2) have w: "worker_step (perform_work mk op fetch after) D_Start i s = Some (Inr s')"
    by (auto simp: pool_act_def split: if_splits)
  show ?thesis
  proof (cases "pl_workers s ! i")
    case (W_Work r l)
    with w obtain l' e where e: "perform_work mk op fetch after r l (pl_env s) = Inr (l', e)"
      by (auto simp: worker_step_def bind_res_eq_Inr)
    have "l' = None \<Longrightarrow> \<exists>n report. after n r = Inr report"
      using e by (blast intro: perform_work_reported)
    moreover have "pl_finished s' = (if l' = None then pl_finished s @ [r] else pl_finished s)"
      using e w W_Work by (cases l') (auto simp: worker_step_def)
    ultimately show ?thesis
      using assms(1) unfolding reported_def by (cases l') (simp_all del: split_paired_Ex)
  qed (use w assms(1) in \<open>auto simp: worker_step_def reported_def bind_res_eq_Inr split: if_splits\<close>)
qed

lemma reported_run:
  "run_pool (perform_work mk op fetch after) D_Start acc ts s = Inr s' \<Longrightarrow> reported after s \<Longrightarrow>
    reported after s'"
  by (rule run_sched_invariant [where I = "reported after"]) (auto intro: reported_act)

text \<open>Every run from the command line's workload on, for any schedule.\<close>

lemma mt_runs:
  fixes fetch after sched
  assumes "mt_setup ws nodes (nrequests * nthreads) e"
  defines "run \<equiv> run_pool (perform_work (\<lambda>d. True) (\<lambda>d. True) fetch after) D_Start mt_accept sched
      (thread_pool_init nthreads nodes (mt_reqs ws (nrequests * nthreads)) e)"
  shows "(\<exists>er n p. run = Inl er \<and> after n p = Inl er) \<or>
    (\<exists>s. run = Inr s \<and> pool_requests s = mset (mt_reqs ws (nrequests * nthreads)) \<and> joined s \<and>
       reported after s)"
proof -
  note st = mt_start_good [OF assms(1), where n = nthreads]
  from mt.good_run [OF st(1), of fetch after sched] st(2)
    mt_run_agrees [of "\<lambda>d. True" "\<lambda>d. True" fetch after mt_accept sched] consider
    er n p where "run = Inl er" "after n p = Inl er" |
    s where "run = Inr s" "pool_requests s = mset (mt_reqs ws (nrequests * nthreads))"
    unfolding run_def by metis
  then show ?thesis
  proof cases
    case 2
    moreover have "reported after s"
      by (rule reported_run [OF 2(1) [unfolded run_def]]) (simp add: reported_def thread_pool_init_def)
    moreover note joined_run [OF st(3) 2(1) [unfolded run_def]]
    ultimately show ?thesis by blast
  qed blast
qed


section \<open>Properties\<close>

text \<open>
  Property C17. No download is made twice and none is invented, up to the reads of released requests.
  A run of the multithreaded client, for any schedule of its main thread and workers, either stops
  with an error that such a read gives (\<open>gfclient_download.c:150\<close>, after \<open>gfc_cleanup\<close>), and with no
  other, or it ends in a state in which the requests still to be enqueued, those in the queue, those
  the workers have and those completed are together the requests of the workload; once the main
  thread has joined the workers, these are the queued and the completed ones. A request is only
  completed where the reads after its release gave values.
\<close>

theorem mt_download_conserves:
  assumes "mt_setup ws nodes (nrequests * nthreads) e" and "\<forall>d. mk d" and "\<forall>d. op d"
  shows "case mt_main mk op fetch after nodes (Some (workload_file ws)) nthreads nrequests sched e of
      Inl er \<Rightarrow> \<exists>n p. after n p = Inl er
    | Inr s \<Rightarrow>
        mset (boss_todo (pl_boss s)) + mset (steque_items (pl_queue s)) + all_held (pl_workers s) +
          mset (pl_finished s) =
          mset (List.map (\<lambda>i. ws ! (Suc i mod length ws)) [0 ..< nrequests * nthreads]) \<and>
        (pl_boss s = B_Done \<longrightarrow>
           mset (pl_finished s) + mset (steque_items (pl_queue s)) =
             mset (List.map (\<lambda>i. ws ! (Suc i mod length ws)) [0 ..< nrequests * nthreads])) \<and>
        (\<forall>p \<in> set (pl_finished s). \<exists>n report. after n p = Inr report)"
proof -
  have all: "mk = (\<lambda>d. True)" "op = (\<lambda>d. True)" using assms(2,3) by auto
  from mt_runs [OF assms(1), of fetch after sched] show ?thesis
  proof (elim disjE exE conjE)
    fix s
    assume s: "run_pool (perform_work (\<lambda>d. True) (\<lambda>d. True) fetch after) D_Start mt_accept sched
        (thread_pool_init nthreads nodes (mt_reqs ws (nrequests * nthreads)) e) = Inr s"
      "pool_requests s = mset (mt_reqs ws (nrequests * nthreads))" "joined s" "reported after s"
    have "pl_boss s = B_Done \<longrightarrow> mset (pl_finished s) + mset (steque_items (pl_queue s)) =
        mset (mt_reqs ws (nrequests * nthreads))"
      using joined_requests [OF s(3)] s(2) by (auto simp: add.commute)
    with s mt_main_run [OF assms(1)] show ?thesis
      by (simp add: all pool_requests_def reported_def mt_reqs_def)
  qed (use mt_main_run [OF assms(1)] in \<open>auto simp: all\<close>)
qed

definition sample_mt_env :: mt_env where
  "sample_mt_env = \<lparr>mt_counter = 0, mt_names = Map.empty, mt_data = (\<lambda>i. []), mt_fresh = 0,
     mt_fetches = 0\<rparr>"

lemma sample_mt_setup: "mt_setup [''/a'', ''/b''] 10 (2 * 2) sample_mt_env"
  using sample_words_ok by (simp add: mt_setup_def sample_mt_env_def int_max_def)

lemma sample_mt_reqs:
  "List.map (\<lambda>i. [''/a'', ''/b''] ! (Suc i mod length [''/a'', ''/b''])) [0 ..< 2 * 2] =
    [''/b'', ''/a'', ''/b'', ''/a'']"
  by code_simp

theorem mt_download_conserves_witness:
  "case mt_main (\<lambda>d. True) (\<lambda>d. True) (\<lambda>n p. (0, GF_OK, p)) (\<lambda>n p. Inr (GF_OK, 2, 2)) 10
      (Some (workload_file [''/a'', ''/b''])) 2 2
      (replicate 9 Boss @ replicate 15 (Worker 1) @ [Worker 0, Worker 0]) sample_mt_env of
      Inl er \<Rightarrow> False
    | Inr s \<Rightarrow> mset (boss_todo (pl_boss s)) + mset (steque_items (pl_queue s)) +
        all_held (pl_workers s) + mset (pl_finished s) = mset [''/b'', ''/a'', ''/b'', ''/a'']"
  using mt_download_conserves [OF sample_mt_setup, where mk = "\<lambda>d. True" and op = "\<lambda>d. True"
      and fetch = "\<lambda>n p. (0, GF_OK, p)" and after = "\<lambda>n p. Inr (GF_OK, 2, 2)"
      and sched = "replicate 9 Boss @ replicate 15 (Worker 1) @ [Worker 0, Worker 0]"]
  unfolding sample_mt_reqs by (auto split: sum.splits)

text \<open>
  Further fact. The multithreaded client can lose every download: a worker returns as soon as it
  finds the queue empty, so if all of them run before the main thread enqueues the first request,
  the main thread joins them and returns although nothing has been downloaded.
\<close>

theorem mt_download_lost:
  assumes "mt_setup ws nodes (nrequests * nthreads) e"
  shows "\<exists>sched s. mt_main mk op fetch after nodes (Some (workload_file ws)) nthreads nrequests sched e = Inr s \<and>
    pl_boss s = B_Done \<and> pl_finished s = [] \<and> pl_env s = e \<and>
    length (steque_items (pl_queue s)) = nrequests * nthreads"
proof -
  let ?k = "nrequests * nthreads"
  let ?s = "thread_pool_init nthreads nodes (mt_reqs ws ?k) e"
  let ?t = "?s\<lparr>pl_workers := replicate nthreads W_Exit\<rparr>"
  note st = mt_start_good [OF assms(1), where n = nthreads]
  have empty: "steque_isempty (pl_queue ?s)"
    using sq.empty_law [OF st(4)] st(5) by simp
  have ws: "run_pool (perform_work mk op fetch after) D_Start mt_accept
      (concat (List.map (\<lambda>i. [Worker i, Worker i]) [0 ..< nthreads])) ?s = Inr ?t"
    using workers_alone [OF empty, of nthreads nthreads] by (simp add: thread_pool_init_def)
  have "\<forall>p \<in> set (mt_reqs ws ?k). mt_accept p"
    using mt_reqs_ok(1) [OF assms] by (auto simp: mt_req_ok_def mt_accept_def)
  with boss_alone [of ?t "mt_reqs ws ?k" mt_accept "perform_work mk op fetch after" D_Start] st(4,6) obtain q where
    b: "run_pool (perform_work mk op fetch after) D_Start mt_accept (replicate (2 * ?k + 1) Boss) ?t =
        Inr (?t\<lparr>pl_queue := q, pl_boss := B_Join\<rparr>)" "length (steque_items q) = ?k"
    using st(5) mt_reqs_ok(2) [OF assms] by (auto simp: thread_pool_init_def)
  have "pool_act (perform_work mk op fetch after) D_Start mt_accept Boss (?t\<lparr>pl_queue := q, pl_boss := B_Join\<rparr>) =
      Some (Inr (?t\<lparr>pl_queue := q, pl_boss := B_Done\<rparr>))"
    by (simp add: pool_act_def boss_step_def)
  with ws b(1) have "run_pool (perform_work mk op fetch after) D_Start mt_accept
      (concat (List.map (\<lambda>i. [Worker i, Worker i]) [0 ..< nthreads]) @
        (replicate (2 * ?k + 1) Boss @ [Boss])) ?s = Inr (?t\<lparr>pl_queue := q, pl_boss := B_Done\<rparr>)"
    unfolding run_pool_append by simp
  with mt_main_run [OF assms, of mk op fetch after] b(2) show ?thesis
    by (intro exI conjI) (auto simp: thread_pool_init_def)
qed

theorem mt_download_lost_witness:
  "\<exists>sched s. mt_main (\<lambda>d. True) (\<lambda>d. True) (\<lambda>n p. (0, GF_OK, p)) after 10
      (Some (workload_file [''/a'', ''/b''])) 2 2 sched sample_mt_env = Inr s \<and>
    pl_boss s = B_Done \<and> pl_finished s = [] \<and> pl_env s = sample_mt_env \<and>
    length (steque_items (pl_queue s)) = 4"
  using mt_download_lost [OF sample_mt_setup] by simp

text \<open>
  Property C18. The multithreaded client ends: under a round robin schedule, after a number of
  rounds that is linear in the requests and the threads, the main thread has joined all workers, or
  a read of a released request has stopped the program before.
\<close>

theorem mt_download_terminates:
  assumes "mt_setup ws nodes (nrequests * nthreads) e" and "\<forall>d. mk d" and "\<forall>d. op d"
    and "2 + 9 * (nrequests * nthreads) + 2 * nthreads \<le> k"
  shows "case mt_main mk op fetch after nodes (Some (workload_file ws)) nthreads nrequests
        (concat (replicate k (Boss # List.map Worker [0 ..< nthreads]))) e of
      Inl er \<Rightarrow> \<exists>n p. after n p = Inl er
    | Inr s \<Rightarrow> pl_boss s = B_Done \<and> (\<forall>w \<in> set (pl_workers s). w = W_Exit)"
proof -
  have all: "mk = (\<lambda>d. True)" "op = (\<lambda>d. True)" using assms(2,3) by auto
  let ?s = "thread_pool_init nthreads nodes (mt_reqs ws (nrequests * nthreads)) e"
  let ?run = "\<lambda>after. run_pool (perform_work (\<lambda>d. True) (\<lambda>d. True) fetch after) D_Start mt_accept
      (concat (replicate k (round_robin nthreads))) ?s"
  note st = mt_start_good [OF assms(1), where n = nthreads]
  have "mt.pool_weight ?s = 2 + 9 * (nrequests * nthreads) + 2 * nthreads"
    using st(5) mt_reqs_ok(2) [OF assms(1)]
    by (simp add: mt.pool_weight_def thread_pool_init_def sum_list_replicate)
  with mt.fair_terminates [OF st(1), of k nthreads fetch after] assms(4) obtain s where
    s: "?run (lenient after) = Inr s" "pl_boss s = B_Done" by (auto simp: thread_pool_init_def)
  have fin: "\<forall>w \<in> set (pl_workers s). w = W_Exit"
    using joined_run [OF st(3) s(1)] s(2) by (simp add: joined_def)
  note main = mt_main_run [OF assms(1), of "\<lambda>d. True" "\<lambda>d. True" fetch after
      "concat (replicate k (round_robin nthreads))"]
  from mt_run_agrees [of "\<lambda>d. True" "\<lambda>d. True" fetch after mt_accept
      "concat (replicate k (round_robin nthreads))" ?s] s(1) consider
    er n p where "?run after = Inl er" "after n p = Inl er" | "?run after = Inr s" by auto
  then show ?thesis
    unfolding all round_robin_def [symmetric] main
    using s(2) fin by cases (simp only: sum.case; blast)+
qed

theorem mt_download_terminates_witness:
  "case mt_main (\<lambda>d. True) (\<lambda>d. True) (\<lambda>n p. (0, GF_OK, p)) (\<lambda>n p. Inr (GF_OK, 2, 2)) 10
      (Some (workload_file [''/a'', ''/b''])) 2 2
      (concat (replicate 42 (Boss # List.map Worker [0 ..< 2]))) sample_mt_env of
      Inl er \<Rightarrow> False
    | Inr s \<Rightarrow> pl_boss s = B_Done \<and> (\<forall>w \<in> set (pl_workers s). w = W_Exit)"
  using mt_download_terminates [OF sample_mt_setup, where mk = "\<lambda>d. True" and op = "\<lambda>d. True" and k = 42
      and fetch = "\<lambda>n p. (0, GF_OK, p)" and after = "\<lambda>n p. Inr (GF_OK, 2, 2)"]
  by (auto split: sum.splits)

text \<open>Both downloads of the same path, interleaved step by step.\<close>

lemma name_race_run:
  assumes q: "steque_isempty q = False" "steque_pop q = Inr (w, q1)" "steque_isempty q1 = False"
      "steque_pop q1 = Inr (w, q2)"
    and path: "localPath w c = Inr (name, c + 1)" and opened: "openFile mk op name = Inr log"
    and e: "mt_counter e = c" "mt_names e name = None" and f: "\<forall>n. fetch n w = (0, GF_OK, bs)"
  shows "run_pool (perform_work mk op fetch after) D_Start acc
      ([Worker 0, Worker 0, Worker 1, Worker 1] @ [Worker 0, Worker 1, Worker 0, Worker 1] @
       [Worker 0, Worker 1] @ [Worker 0, Worker 1])
      \<lparr>pl_queue = q, pl_mutex = None, pl_workers = [W_Lock, W_Lock], pl_boss = B_Join, pl_env = e,
        pl_finished = []\<rparr> = Inr
      \<lparr>pl_queue = q2, pl_mutex = None, pl_workers = [W_Work w (D_Report (mt_fetches e)),
          W_Work w (D_Report (Suc (mt_fetches e)))], pl_boss = B_Join,
        pl_env = e\<lparr>mt_counter := c + 1, mt_names := (mt_names e)(name \<mapsto> mt_fresh e), 
          mt_data := (mt_data e)(mt_fresh e := bs), mt_fresh := Suc (mt_fresh e),
          mt_fetches := Suc (Suc (mt_fetches e))\<rparr>, pl_finished = []\<rparr>"
proof -
  let ?W = "perform_work mk op fetch after"
  let ?s = "\<lambda>q ws e. \<lparr>pl_queue = q, pl_mutex = None, pl_workers = ws, pl_boss = B_Join,
    pl_env = e, pl_finished = []\<rparr>"
  let ?e1 = "e\<lparr>mt_counter := c + 1\<rparr>"
  let ?e2 = "?e1\<lparr>mt_names := (mt_names e)(name \<mapsto> mt_fresh e),
    mt_data := (mt_data e)(mt_fresh e := []), mt_fresh := Suc (mt_fresh e)\<rparr>"
  have s1: "run_pool ?W D_Start acc [Worker 0, Worker 0, Worker 1, Worker 1] (?s q [W_Lock, W_Lock] e) =
    Inr (?s q2 [W_Work w D_Start, W_Work w D_Start] e)"
    using q by (simp add: pool_act_def worker_step_def)
  have s2: "run_pool ?W D_Start acc [Worker 0, Worker 1, Worker 0, Worker 1]
      (?s q2 [W_Work w D_Start, W_Work w D_Start] e) =
    Inr (?s q2 [W_Work w (D_Name name), W_Work w (D_Name name)] ?e1)"
    using e path by (simp add: pool_act_def worker_step_def perform_work_def)
  have s3: "run_pool ?W D_Start acc [Worker 0, Worker 1]
      (?s q2 [W_Work w (D_Name name), W_Work w (D_Name name)] ?e1) =
    Inr (?s q2 [W_Work w (D_File name (mt_fresh e)), W_Work w (D_File name (mt_fresh e))] ?e2)"
    using e opened by (simp add: pool_act_def worker_step_def perform_work_def open_truncated_def)
  have s4: "run_pool ?W D_Start acc [Worker 0, Worker 1]
      (?s q2 [W_Work w (D_File name (mt_fresh e)), W_Work w (D_File name (mt_fresh e))] ?e2) =
    Inr (?s q2 [W_Work w (D_Report (mt_fetches e)), W_Work w (D_Report (Suc (mt_fetches e)))]
      (?e2\<lparr>mt_data := (mt_data e)(mt_fresh e := write_at_start bs bs), mt_fetches := Suc (Suc (mt_fetches e))\<rparr>))"
    using f by (simp add: pool_act_def worker_step_def perform_work_def write_at_start_def)
  show ?thesis
    unfolding run_pool_append s1 s2 s3 s4 bind_res_simps by (simp add: write_at_start_def)
qed

text \<open>
  Further fact. The counter behind the local names is not protected: two downloads of the same path
  can take the same number, and then both transfers succeed although only one file has been made.
\<close>

theorem mt_download_name_race:
  assumes "path_word w" and "mt_counter e = c" and "0 \<le> c" and "c + 2 \<le> int_max" and "2 \<le> nodes"
    and "\<forall>d. mk d" and "\<forall>d. op d" and "\<forall>n. fetch n w = (0, GF_OK, bs)"
    and "name = tl w @ ''-'' @ pad6 c" and "mt_names e name = None"
  shows "\<exists>sched s. mt_main mk op fetch after nodes (Some (workload_file [w])) 2 1 sched e = Inr s \<and>
    (\<exists>a b. a \<noteq> b \<and> pl_workers s = [W_Work w (D_Report a), W_Work w (D_Report b)]) \<and>
    mt_names (pl_env s) = (mt_names e)(name \<mapsto> mt_fresh e)"
proof -
  let ?W = "perform_work mk op fetch after"
  let ?s = "thread_pool_init 2 nodes [w, w] e"
  have su: "mt_setup [w] nodes (1 * 2) e"
    using assms(1-5) by (simp add: mt_setup_def)
  have reqs: "mt_reqs [w] (1 * 2) = [w, w]" by (simp add: mt_reqs_def upt_rec)
  note st = mt_start_good [OF su, where n = 2, unfolded reqs]
  have "mt_accept w" using assms(1) by (simp add: mt_accept_def path_word_def)
  with boss_alone [of ?s "[w, w]" mt_accept ?W D_Start] st(4-6) obtain q where
    b: "run_pool ?W D_Start mt_accept (replicate 5 Boss) ?s = Inr (?s\<lparr>pl_queue := q, pl_boss := B_Join\<rparr>)"
    and q: "steque_invar q" "steque_items q = [w, w]"
    by (auto simp: thread_pool_init_def numeral_eq_Suc)
  have n0: "\<not> steque_isempty q" using sq.empty_law [OF q(1)] q(2) by simp
  from sq.deq_total [OF q(1) n0] obtain q1 where p1: "steque_pop q = Inr (w, q1)" using q(2) by auto
  from sq.deq_InrD [OF q(1) p1] q(2) have q1: "steque_invar q1" "steque_items q1 = [w]" by auto
  have n1: "\<not> steque_isempty q1" using sq.empty_law [OF q1(1)] q1(2) by simp
  from sq.deq_total [OF q1(1) n1] obtain q2 where p2: "steque_pop q1 = Inr (w, q2)" using q1(2) by auto
  have path: "localPath w c = Inr (name, c + 1)"
    using assms(1,3,4,9) by (subst localPath_ok) (auto simp: path_word_def)
  have all: "mk = (\<lambda>d. True)" "op = (\<lambda>d. True)" using assms(6,7) by auto
  have "name \<noteq> []" using assms(9) by simp
  from openFile_total [OF this] obtain log where opened: "openFile mk op name = Inr log"
    unfolding all by blast
  have start: "?s\<lparr>pl_queue := q, pl_boss := B_Join\<rparr> =
      \<lparr>pl_queue = q, pl_mutex = None, pl_workers = [W_Lock, W_Lock], pl_boss = B_Join, pl_env = e,
        pl_finished = []\<rparr>"
    by (simp add: thread_pool_init_def numeral_2_eq_2)
  have n0': "steque_isempty q = False" "steque_isempty q1 = False" using n0 n1 by simp_all
  note race = name_race_run [OF n0'(1) p1 n0'(2) p2 path opened assms(2,10),
      where acc = mt_accept and fetch = fetch and after = after and bs = bs, OF assms(8)]
  let ?sched = "[Worker 0, Worker 0, Worker 1, Worker 1] @ [Worker 0, Worker 1, Worker 0, Worker 1] @
       [Worker 0, Worker 1] @ [Worker 0, Worker 1]"
  have "mt_main mk op fetch after nodes (Some (workload_file [w])) 2 1 (replicate 5 Boss @ ?sched) e =
      run_pool ?W D_Start mt_accept (replicate 5 Boss @ ?sched) ?s"
    using mt_main_run [OF su] reqs by simp
  also have "\<dots> = run_pool ?W D_Start mt_accept ?sched (?s\<lparr>pl_queue := q, pl_boss := B_Join\<rparr>)"
    by (subst run_pool_append) (simp only: b bind_res_simps)
  finally have run: "mt_main mk op fetch after nodes (Some (workload_file [w])) 2 1 (replicate 5 Boss @ ?sched) e = \<dots>" .
  show ?thesis
    by (rule exI [of _ "replicate 5 Boss @ ?sched"], unfold run start race) simp
qed

theorem mt_download_name_race_witness:
  "\<exists>sched s. mt_main (\<lambda>d. True) (\<lambda>d. True) (\<lambda>n p. (0, GF_OK, ''data'')) (\<lambda>n p. Inl Bad_Deref) 5
      (Some (workload_file [''/a''])) 2 1 sched sample_mt_env = Inr s \<and>
    (\<exists>a b. a \<noteq> b \<and> pl_workers s = [W_Work ''/a'' (D_Report a), W_Work ''/a'' (D_Report b)]) \<and>
    mt_names (pl_env s) = [''a-'' @ pad6 0 \<mapsto> 0]"
  using mt_download_name_race [of "''/a''" sample_mt_env 0 5 "\<lambda>d. True" "\<lambda>d. True"
      "\<lambda>n p. (0, GF_OK, ''data'')" "''data''" "''a-'' @ pad6 0" "\<lambda>n p. Inl Bad_Deref"] sample_words_ok
  by (simp add: sample_mt_env_def int_max_def)

text \<open>The first worker alone, from its first lock to the reads of the request it has released.\<close>

lemma first_worker_works:
  assumes "work r l e = Inr (Some l1, e1)"
  shows "run_pool work l0 acc (Worker 0 # ts) \<lparr>pl_queue = q, pl_mutex = m, pl_workers = W_Work r l # ws,
      pl_boss = b, pl_env = e, pl_finished = fin\<rparr> =
    run_pool work l0 acc ts \<lparr>pl_queue = q, pl_mutex = m, pl_workers = W_Work r l1 # ws,
      pl_boss = b, pl_env = e1, pl_finished = fin\<rparr>"
  using assms by (simp add: pool_act_def worker_step_def)

lemma first_download_fails:
  assumes q: "\<not> steque_isempty q" "steque_pop q = Inr (r, q1)"
    and path: "localPath r (mt_counter e) = Inr (name, c1)" and opened: "openFile mk op name = Inr log"
    and er: "\<forall>n p. after n p = Inl er"
  shows "run_pool (perform_work mk op fetch after) D_Start acc (replicate 7 (Worker 0))
    \<lparr>pl_queue = q, pl_mutex = None, pl_workers = W_Lock # ws, pl_boss = B_Join, pl_env = e,
      pl_finished = []\<rparr> = Inl er"
proof -
  let ?W = "perform_work mk op fetch after"
  let ?s = "\<lambda>q w e. \<lparr>pl_queue = q, pl_mutex = None, pl_workers = w # ws, pl_boss = B_Join, pl_env = e,
      pl_finished = []\<rparr>"
  have take: "run_pool ?W D_Start acc (replicate 7 (Worker 0)) (?s q W_Lock e) =
      run_pool ?W D_Start acc (replicate 5 (Worker 0)) (?s q1 (W_Work r D_Start) e)"
    using q by (simp add: numeral_eq_Suc pool_act_def worker_step_def)
  let ?e1 = "e\<lparr>mt_counter := c1\<rparr>"
  obtain i e2 where opn: "open_truncated ?e1 name = (i, e2)" by (cases "open_truncated ?e1 name")
  from perform_work_file [of mk op fetch after r name i e2] obtain e3 where
    e3: "?W r (D_File name i) e2 = Inr (Some (D_Report (mt_fetches e2)), e3)" by blast
  have w: "?W r D_Start e = Inr (Some (D_Counter (mt_counter e)), e)"
    "?W r (D_Counter (mt_counter e)) e = Inr (Some (D_Name name), ?e1)"
    "?W r (D_Name name) ?e1 = Inr (Some (D_File name i), e2)"
    using path opened opn by (simp_all add: perform_work_def)
  have "run_pool ?W D_Start acc [Worker 0] (?s q1 (W_Work r (D_Report n)) e3) = Inl er" for n
    using er by (simp add: pool_act_def worker_step_def perform_work_def)
  then show ?thesis
    unfolding take
    by (simp add: numeral_eq_Suc first_worker_works [where work = ?W] w e3 del: run_sched.simps)
qed

text \<open>
  Further fact. With a library whose \<open>gfc_cleanup\<close> frees the request, as its header says, the client
  never completes a request: every run without an error ends before that, and with at least one
  request and one worker there is a schedule on which the reads of the freed request stop it.
\<close>

theorem mt_download_use_after_free:
  assumes "mt_setup ws nodes (nrequests * nthreads) e" and "0 < nrequests * nthreads"
    and "\<forall>d. mk d" and "\<forall>d. op d" and "\<forall>n p. after n p = Inl er"
  shows "(\<forall>sched s. mt_main mk op fetch after nodes (Some (workload_file ws)) nthreads nrequests sched e = Inr s \<longrightarrow>
      pl_finished s = []) \<and>
    (\<exists>sched. mt_main mk op fetch after nodes (Some (workload_file ws)) nthreads nrequests sched e = Inl er)"
proof -
  let ?k = "nrequests * nthreads"
  let ?W = "perform_work mk op fetch after"
  let ?s = "thread_pool_init nthreads nodes (mt_reqs ws ?k) e"
  note st = mt_start_good [OF assms(1), where n = nthreads]
  have fin: "pl_finished s = []" if "run_pool ?W D_Start mt_accept sched ?s = Inr s" for sched s
    using reported_run [OF that] assms(5)
    by (cases "pl_finished s") (auto simp: reported_def thread_pool_init_def)
  obtain r rs where reqs: "mt_reqs ws ?k = r # rs"
    using mt_reqs_ok(2) [OF assms(1)] assms(2) by (cases "mt_reqs ws ?k") auto
  have ok: "\<forall>p \<in> set (mt_reqs ws ?k). mt_accept p"
    using mt_reqs_ok(1) [OF assms(1)] by (auto simp: mt_req_ok_def mt_accept_def)
  with boss_alone [of ?s "mt_reqs ws ?k" mt_accept ?W D_Start] st(4,5,6) obtain q where
    b: "run_pool ?W D_Start mt_accept (replicate (2 * length (mt_reqs ws ?k) + 1) Boss) ?s =
        Inr (?s\<lparr>pl_queue := q, pl_boss := B_Join\<rparr>)"
    and q: "steque_invar q" "steque_items q = r # rs" by (auto simp: thread_pool_init_def reqs)
  have n0: "\<not> steque_isempty q" using sq.empty_law [OF q(1)] q(2) by simp
  from sq.deq_total [OF q(1) n0] q(2) obtain q1 where p1: "steque_pop q = Inr (r, q1)" by auto
  have all: "mk = (\<lambda>d. True)" "op = (\<lambda>d. True)" using assms(3,4) by auto
  have r: "mt_req_ok r" using mt_reqs_ok(1) [OF assms(1)] reqs by simp
  have c: "0 \<le> mt_counter e" "mt_counter e < int_max"
    using assms(1,2) unfolding mt_setup_def by linarith+
  define name where "name = tl r @ ''-'' @ pad6 (mt_counter e)"
  have path: "localPath r (mt_counter e) = Inr (name, mt_counter e + 1)"
    unfolding name_def using r c by (intro localPath_ok) (auto simp: mt_req_ok_def)
  have "name \<noteq> []" by (simp add: name_def)
  from openFile_total [OF this] obtain log where opened: "openFile mk op name = Inr log"
    unfolding all by blast
  obtain n where n: "nthreads = Suc n" using assms(2) by (cases nthreads) auto
  have "run_pool ?W D_Start mt_accept (replicate 7 (Worker 0)) (?s\<lparr>pl_queue := q, pl_boss := B_Join\<rparr>) = Inl er"
    using first_download_fails [OF n0 p1 path opened assms(5)] by (simp add: thread_pool_init_def n)
  with b have "run_pool ?W D_Start mt_accept
      (replicate (2 * length (mt_reqs ws ?k) + 1) Boss @ replicate 7 (Worker 0)) ?s = Inl er"
    unfolding run_pool_append by (simp only: bind_res_simps)
  with fin mt_main_run [OF assms(1)] show ?thesis by metis
qed

theorem mt_download_use_after_free_witness:
  "\<exists>sched. mt_main (\<lambda>d. True) (\<lambda>d. True) (\<lambda>n p. (0, GF_OK, p)) (\<lambda>n p. Inl Bad_Deref) 10
      (Some (workload_file [''/a'', ''/b''])) 2 2 sched sample_mt_env = Inl Bad_Deref"
  using mt_download_use_after_free [OF sample_mt_setup, of "\<lambda>d. True" "\<lambda>d. True" "\<lambda>n p. Inl Bad_Deref"
      Bad_Deref "\<lambda>n p. (0, GF_OK, p)"]
  by simp

end
