(* ===== verification/Mtgf_Handler.thy ===== *)
theory Mtgf_Handler
  imports Pool Handler
begin

text \<open>
  The worker pool of the multithreaded server, \<open>project1/ud923-project1-mtgf/handler.c\<close>: the
  server library calls \<open>handler_get\<close> for each request, which enqueues it under the mutex; the
  workers take the requests out and serve them with \<open>handler_perform\<close>. The server library is not
  part of that directory: its calls are the parameter \<open>api\<close>.
\<close>

section \<open>Threads and their steps\<close>

text \<open>
  A worker locks the mutex once, before its loop. It then tests the queue, pops and unlocks, serves
  the request and tests the queue again. A waiting worker may be woken by a signal or for no reason
  and then competes for the mutex.
\<close>

datatype 'a srv_worker = V_Start | V_Test | V_Wait | V_Pop | V_Unlock 'a | V_Work 'a

datatype 'c srv_boss = R_Next "('c \<times> string option) list" | R_Put "'c \<times> string" "('c \<times> string option) list"

text \<open>
  The contexts are values of the library's type \<open>'c\<close>; completed requests are recorded with the
  worker that served them and what \<open>handler_perform\<close> returned.
\<close>

record 'c srv_pool =
  sp_queue :: "steque \<times> ('c \<times> string) sheap"
  sp_mutex :: "owner option"
  sp_workers :: "('c \<times> string) srv_worker list"
  sp_boss :: "'c srv_boss"
  sp_content :: "item_t list \<times> file_env"
  sp_served :: "(nat \<times> ('c \<times> string) \<times> int \<times> 'c) list"

definition srv_worker_step ::
  "'c gfs_calls \<Rightarrow> nat \<Rightarrow> 'c srv_pool \<Rightarrow> 'c srv_pool result option" where
  "srv_worker_step api i s =
     (let go = (\<lambda>w. sp_workers_update (\<lambda>ws. ws[i := w]))
      in case sp_workers s ! i of
        V_Start \<Rightarrow>
          if sp_mutex s = None then Some (Inr (go V_Test (s\<lparr>sp_mutex := Some (Worker i)\<rparr>))) else None
      | V_Test \<Rightarrow>
          if steque_isempty (sp_queue s)
          then (if sp_mutex s = Some (Worker i) then Some (Inr (go V_Wait (s\<lparr>sp_mutex := None\<rparr>)))
                else Some (Inl Bad_Unlock))
          else Some (Inr (go V_Pop s))
      | V_Wait \<Rightarrow>
          if sp_mutex s = None then Some (Inr (go V_Test (s\<lparr>sp_mutex := Some (Worker i)\<rparr>))) else None
      | V_Pop \<Rightarrow>
          Some (bind_res (steque_pop (sp_queue s)) (\<lambda>(r, q).
            Inr (go (V_Unlock r) (s\<lparr>sp_queue := q\<rparr>))))
      | V_Unlock r \<Rightarrow>
          if sp_mutex s = Some (Worker i) then Some (Inr (go (V_Work r) (s\<lparr>sp_mutex := None\<rparr>)))
          else Some (Inl Bad_Unlock)
      | V_Work r \<Rightarrow>
          Some (bind_res (handler_perform api (fst r) (Some (snd r)) (sp_content s)) (\<lambda>(n, c, content).
            Inr (go V_Test (s\<lparr>sp_content := content, sp_served := sp_served s @ [(i, r, n, c)]\<rparr>)))))"

text \<open>
  \<open>handler_get\<close>, in the library's thread: \<open>strdup\<close> of the path, then the mutex, the queue and the
  signal. Without a further request the library waits.
\<close>

definition mt_handler_get :: "'c srv_pool \<Rightarrow> 'c srv_pool result option" where
  "mt_handler_get s =
     (case sp_boss s of
        R_Next [] \<Rightarrow> None
      | R_Next ((c, p) # rs) \<Rightarrow>
          (case p of
             None \<Rightarrow> Some (Inl Null_Deref)
           | Some path \<Rightarrow>
               if sp_mutex s = None
               then Some (Inr (s\<lparr>sp_mutex := Some Boss, sp_boss := R_Put (c, path) rs\<rparr>))
               else None)
      | R_Put r rs \<Rightarrow>
          Some (bind_res (steque_enqueue (sp_queue s) r) (\<lambda>q.
            Inr (s\<lparr>sp_queue := q, sp_mutex := None, sp_boss := R_Next rs\<rparr>))))"

definition srv_act :: "'c gfs_calls \<Rightarrow> owner \<Rightarrow> 'c srv_pool \<Rightarrow> 'c srv_pool result option" where
  "srv_act api t s =
     (case t of
        Boss \<Rightarrow> mt_handler_get s
      | Worker i \<Rightarrow> if i < length (sp_workers s) then srv_worker_step api i s else None)"

abbreviation srv_run :: "'c gfs_calls \<Rightarrow> owner list \<Rightarrow> 'c srv_pool \<Rightarrow> 'c srv_pool result" where
  "srv_run api \<equiv> run_sched (srv_act api)"

text \<open>The pool after \<open>handler_init\<close>, with the requests that will come.\<close>

definition handler_init ::
  "nat \<Rightarrow> nat \<Rightarrow> item_t list \<times> file_env \<Rightarrow> ('c \<times> string option) list \<Rightarrow> 'c srv_pool" where
  "handler_init num_threads nodes content reqs =
     \<lparr>sp_queue = (steque_init, empty_sheap nodes), sp_mutex = None,
      sp_workers = replicate num_threads V_Start, sp_boss = R_Next reqs, sp_content = content,
      sp_served = []\<rparr>"

section \<open>Who holds the mutex\<close>

text \<open>
  Before its first request a worker holds the mutex exactly between its lock and its unlock; after
  it, it never holds the mutex again.
\<close>

definition has_served :: "nat \<Rightarrow> (nat \<times> 'a) list \<Rightarrow> bool" where
  "has_served i log \<longleftrightarrow> i \<in> fst ` set log"

lemma has_served_simps [simp]:
  "\<not> has_served i []" "has_served i (log @ [(j, x)]) \<longleftrightarrow> has_served i log \<or> i = j"
  by (auto simp: has_served_def)

fun in_section :: "'a srv_worker \<Rightarrow> bool" where
  "in_section V_Start = False"
| "in_section V_Test = True"
| "in_section V_Wait = False"
| "in_section V_Pop = True"
| "in_section (V_Unlock r) = True"
| "in_section (V_Work r) = False"

definition srv_inv :: "'c srv_pool \<Rightarrow> bool" where
  "srv_inv s \<longleftrightarrow>
     (\<forall>i < length (sp_workers s).
        if has_served i (sp_served s) then in_section (sp_workers s ! i) \<and> sp_mutex s \<noteq> Some (Worker i)
        else in_section (sp_workers s ! i) \<longleftrightarrow> sp_mutex s = Some (Worker i)) \<and>
     distinct (List.map fst (sp_served s)) \<and>
     (\<forall>i. has_served i (sp_served s) \<longrightarrow> i < length (sp_workers s)) \<and>
     (sp_mutex s = Some Boss \<longleftrightarrow> (\<exists>c p rs. sp_boss s = R_Put (c, p) rs))"

lemma srv_inv_boss:
  assumes "srv_inv s" and "mt_handler_get s = Some (Inr s')"
  shows "srv_inv s'"
  using assms
  by (fastforce simp: srv_inv_def mt_handler_get_def bind_res_eq_Inr
      split: srv_boss.splits list.splits option.splits if_splits)

lemma srv_inv_worker:
  assumes inv: "srv_inv s" and i: "i < length (sp_workers s)"
    and w: "srv_worker_step api i s = Some (Inr s')"
  shows "srv_inv s'"
proof -
  have ns: "\<not> has_served i (sp_served s)" if "\<not> in_section (sp_workers s ! i)"
    using inv i that by (auto simp: srv_inv_def)
  have mx: "in_section (sp_workers s ! i) \<longleftrightarrow> sp_mutex s = Some (Worker i)"
    if "\<not> has_served i (sp_served s)"
    using inv i that by (auto simp: srv_inv_def)
  show ?thesis
  proof (cases "sp_workers s ! i")
    case V_Start
    with assms ns show ?thesis
      by (auto simp: srv_inv_def srv_worker_step_def nth_list_update split: if_splits)
  next
    case V_Test
    with assms mx show ?thesis
      by (auto simp: srv_inv_def srv_worker_step_def nth_list_update split: if_splits)
  next
    case V_Wait
    with assms ns show ?thesis
      by (auto simp: srv_inv_def srv_worker_step_def nth_list_update split: if_splits)
  next
    case V_Pop
    with assms mx show ?thesis
      by (auto simp: srv_inv_def srv_worker_step_def nth_list_update bind_res_eq_Inr split: if_splits)
  next
    case (V_Unlock r)
    with assms mx show ?thesis
      by (auto simp: srv_inv_def srv_worker_step_def nth_list_update split: if_splits)
  next
    case (V_Work r)
    with ns have "i \<notin> fst ` set (sp_served s)" by (simp add: has_served_def)
    with V_Work assms mx ns show ?thesis
      by (auto simp: srv_inv_def srv_worker_step_def nth_list_update bind_res_eq_Inr)
  qed
qed

lemma srv_inv_act:
  assumes "srv_inv s" and "srv_act api t s = Some (Inr s')"
  shows "srv_inv s' \<and> length (sp_workers s') = length (sp_workers s)"
proof
  show "srv_inv s'"
    using assms srv_inv_boss [of s s'] srv_inv_worker [of s _ api s']
    by (auto simp: srv_act_def split: owner.splits if_splits)
  show "length (sp_workers s') = length (sp_workers s)"
    using assms(2)
    by (auto simp: srv_act_def srv_worker_step_def mt_handler_get_def bind_res_eq_Inr Let_def
        split: owner.splits srv_worker.splits srv_boss.splits list.splits option.splits if_splits)
qed

lemma srv_inv_run:
  assumes "srv_inv s" and "srv_run api ts s = Inr s'"
  shows "srv_inv s' \<and> length (sp_workers s') = length (sp_workers s)"
proof (rule run_sched_invariant [OF assms(2)])
  fix t x y
  assume "srv_inv x \<and> length (sp_workers x) = length (sp_workers s)" and "srv_act api t x = Some (Inr y)"
  with srv_inv_act [of x api t y] show "srv_inv y \<and> length (sp_workers y) = length (sp_workers s)" by simp
qed (use assms(1) in simp)

lemma srv_inv_init: "srv_inv (handler_init n nodes content reqs)"
  by (simp add: srv_inv_def handler_init_def)

lemma distinct_bounded_length:
  "distinct xs \<Longrightarrow> \<forall>x \<in> set xs. x < n \<Longrightarrow> length xs \<le> (n :: nat)"
  using card_mono [of "{..<n}" "set xs"] by (force simp: distinct_card)

section \<open>Properties\<close>

text \<open>
  Further fact. A worker of the multithreaded server serves at most one request: it takes the mutex
  only once, so in every schedule that runs without undefined behaviour no worker has completed two
  requests, and the server has served at most as many requests as it has workers.
\<close>

theorem srv_serves_once:
  assumes "srv_run api sched (handler_init n nodes content reqs) = Inr s"
  shows "distinct (List.map fst (sp_served s)) \<and> length (sp_served s) \<le> n"
proof -
  from srv_inv_run [OF srv_inv_init assms] have "srv_inv s" "length (sp_workers s) = n"
    by (simp_all add: handler_init_def)
  then have "distinct (List.map fst (sp_served s))" "\<forall>i \<in> set (List.map fst (sp_served s)). i < n"
    by (auto simp: srv_inv_def has_served_def)
  with distinct_bounded_length [of "List.map fst (sp_served s)" n] show ?thesis by simp
qed

lemma serve_one_run:
  assumes "0 < n" and "0 < nodes" and "handler_perform api c (Some k) content = Inr (m, c', content')"
  shows "\<exists>s. srv_run api [Boss, Boss, Worker 0, Worker 0, Worker 0, Worker 0, Worker 0]
      (handler_init n nodes content ((c, Some k) # reqs)) = Inr s \<and>
    sp_served s = [(0, (c, k), m, c')] \<and> sp_content s = content' \<and> sp_mutex s = None \<and>
    sp_boss s = R_Next reqs \<and> sp_workers s = V_Test # replicate (n - 1) V_Start \<and>
    steque_invar (sp_queue s) \<and> steque_items (sp_queue s) = [] \<and>
    steque_capacity (sp_queue s) = min nodes (nat int_max)"
proof -
  let ?q = "(steque_init, empty_sheap nodes) :: steque \<times> ('a \<times> string) sheap"
  have q: "steque_invar ?q" "steque_items ?q = []" "steque_capacity ?q = min nodes (nat int_max)"
    using steque_init_invar by blast+
  have cap: "0 < steque_capacity ?q" using q(3) assms(2) by (simp add: int_max_def)
  from sq.enq_law [OF q(1) cap, of "(c, k)"] obtain q1 where q1: "steque_enqueue ?q (c, k) = Inr q1"
    "steque_invar q1" "steque_items q1 = [(c, k)]" "steque_capacity q1 = steque_capacity ?q - 1"
    using q(2) by auto
  have ne: "\<not> steque_isempty q1" using sq.empty_law [OF q1(2)] q1(3) by simp
  from sq.deq_total [OF q1(2) ne] obtain q2 where p: "steque_pop q1 = Inr ((c, k), q2)"
    using q1(3) by auto
  from sq.deq_InrD [OF q1(2) p] q1(3,4) cap have
    q2: "steque_invar q2" "steque_items q2 = []" "steque_capacity q2 = steque_capacity ?q" by auto
  obtain m' where n: "n = Suc m'" using assms(1) by (cases n) auto
  show ?thesis
    using q1(1) ne p q2 q(3) assms(3)
    by (simp add: n handler_init_def srv_act_def mt_handler_get_def srv_worker_step_def)
qed

text \<open>
  Further fact. The first request is served right, and then the server breaks: a request for a key
  of the content table is answered with the header and the file, and whatever the worker that served
  it does next releases a mutex that it does not hold.
\<close>

theorem srv_serves_then_breaks:
  assumes "gfs_api api wire ready" and "ready c" and "disk_ok f" and "length (fdata f fd) < 2 ^ 64"
    and "table_ok items" and "NUL \<notin> set k" and "distinct (List.map fst (table_entries items))"
    and "map_of (table_entries items) k = Some fd" and "0 < n" and "0 < nodes"
  shows "\<exists>sched s c'. srv_run api sched (handler_init n nodes (items, f) ((c, Some k) # reqs)) = Inr s \<and>
    sp_served s = [(0, (c, k), int (length (fdata f fd)), c')] \<and>
    wire c' = wire c @ header_line ''OK'' (length (fdata f fd)) @ fdata f fd \<and>
    srv_act api (Worker 0) s = Some (Inl Bad_Unlock)"
proof -
  from gfs_api.perform_serves [OF assms(1,5-8,2-4)] obtain c' f' where
    p: "handler_perform api c (Some k) (items, f) = Inr (int (length (fdata f fd)), c', items, f')"
      "wire c' = wire c @ header_line ''OK'' (length (fdata f fd)) @ fdata f fd" by blast
  from serve_one_run [OF assms(9,10) p(1), of reqs] obtain s where
    s: "srv_run api [Boss, Boss, Worker 0, Worker 0, Worker 0, Worker 0, Worker 0]
        (handler_init n nodes (items, f) ((c, Some k) # reqs)) = Inr s"
      "sp_served s = [(0, (c, k), int (length (fdata f fd)), c')]" "sp_mutex s = None"
      "sp_workers s = V_Test # replicate (n - 1) V_Start" "steque_invar (sp_queue s)"
      "steque_items (sp_queue s) = []" by blast
  have "steque_isempty (sp_queue s)" using sq.empty_law [OF s(5)] s(6) by simp
  then have "srv_act api (Worker 0) s = Some (Inl Bad_Unlock)"
    using s(3,4) by (simp add: srv_act_def srv_worker_step_def)
  with s(1,2) p(2) show ?thesis by blast
qed


lemma sample_perform:
  "\<exists>c' f'. handler_perform gflib_calls (gfcontext_create False (new_conn [] [])) (Some ''/a'')
      (sample_table, sample_env) = Inr (8, c', sample_table, f')"
  using gl.perform_serves [OF sample_table_ok(1) _ _ _ sample_ready, of "''/a''" 4 sample_env]
  by (auto simp: sample_table_ok(2) sample_env_def disk_ok_def)

theorem srv_serves_once_witness:
  "\<exists>s. srv_run gflib_calls [Boss, Boss, Worker 0, Worker 0, Worker 0, Worker 0, Worker 0]
      (handler_init 2 5 (sample_table, sample_env)
        [(gfcontext_create False (new_conn [] []), Some ''/a'')]) = Inr s \<and>
    length (sp_served s) = 1 \<and> length (sp_served s) \<le> 2"
proof -
  from sample_perform obtain c' f' where
    p: "handler_perform gflib_calls (gfcontext_create False (new_conn [] [])) (Some ''/a'')
      (sample_table, sample_env) = Inr (8, c', sample_table, f')" by blast
  from serve_one_run [OF _ _ p, of 2 5 "[]"] obtain s where
    s: "srv_run gflib_calls [Boss, Boss, Worker 0, Worker 0, Worker 0, Worker 0, Worker 0]
      (handler_init 2 5 (sample_table, sample_env)
        [(gfcontext_create False (new_conn [] []), Some ''/a'')]) = Inr s" "length (sp_served s) = 1"
    by auto
  with srv_serves_once [OF s(1)] show ?thesis by blast
qed

theorem srv_serves_then_breaks_witness:
  "\<exists>sched s c'. srv_run gflib_calls sched (handler_init 1 5 (sample_table, sample_env)
      [(gfcontext_create False (new_conn [] []), Some ''/a'')]) = Inr s \<and>
    sp_served s = [(0, (gfcontext_create False (new_conn [] []), ''/a''), 8, c')] \<and>
    tx (ctx_conn c') = header_line ''OK'' (length ''contents'') @ ''contents'' \<and>
    srv_act gflib_calls (Worker 0) s = Some (Inl Bad_Unlock)"
  using srv_serves_then_breaks [OF gl.gfs_api_axioms sample_ready, of sample_env 4 sample_table "''/a''" 1 5 "[]"]
    sample_table_ok
  by (auto simp: sample_env_def disk_ok_def gfcontext_create_def new_conn_def)

text \<open>
  Further fact. Without the mutex two workers can take the same request: after a worker has served
  its first request, it and a second worker both see the next request in the queue, both pop, and
  the queue ends the whole server for an underflow.
\<close>

theorem srv_pop_race:
  assumes "handler_perform api c (Some k) content = Inr (m, c', content')" and "1 < n" and "0 < nodes"
  shows "\<exists>sched. srv_run api sched (handler_init n nodes content [(c, Some k), (d, Some l)]) = Inl (Exit 1)"
proof -
  from serve_one_run [OF _ assms(3,1), of n "[(d, Some l)]"] assms(2) obtain s where
    s: "srv_run api [Boss, Boss, Worker 0, Worker 0, Worker 0, Worker 0, Worker 0]
        (handler_init n nodes content [(c, Some k), (d, Some l)]) = Inr s"
      "sp_mutex s = None" "sp_boss s = R_Next [(d, Some l)]"
      "sp_workers s = V_Test # replicate (n - 1) V_Start" "steque_invar (sp_queue s)"
      "steque_items (sp_queue s) = []" "steque_capacity (sp_queue s) = min nodes (nat int_max)" by auto
  have cap: "0 < steque_capacity (sp_queue s)" using s(7) assms(3) by (simp add: int_max_def)
  from sq.enq_law [OF s(5) cap, of "(d, l)"] s(6) obtain q1 where
    q1: "steque_enqueue (sp_queue s) (d, l) = Inr q1" "steque_invar q1" "steque_items q1 = [(d, l)]"
    by auto
  have ne: "\<not> steque_isempty q1" using sq.empty_law [OF q1(2)] q1(3) by simp
  from sq.deq_total [OF q1(2) ne] obtain q2 where p: "steque_pop q1 = Inr ((d, l), q2)"
    using q1(3) by auto
  from sq.deq_InrD [OF q1(2) p] q1(3) have "steque_invar q2" "steque_items q2 = []" by auto
  then have under: "steque_pop q2 = Inl (Exit 1)" by (rule sq.deq_empty_law)
  obtain m' where n: "n = Suc (Suc m')" using assms(2) by (cases n; cases "n - 1") auto
  have "srv_run api [Boss, Boss, Worker 1, Worker 1, Worker 0, Worker 1, Worker 0] s = Inl (Exit 1)"
    using s(2-4) q1(1) ne p under
    by (simp add: n srv_act_def mt_handler_get_def srv_worker_step_def)
  with s(1) show ?thesis by (metis run_sched_append bind_res_simps(2))
qed

theorem srv_pop_race_witness:
  "\<exists>sched. srv_run gflib_calls sched (handler_init 2 5 (sample_table, sample_env)
      [(gfcontext_create False (new_conn [] []), Some ''/a''),
       (gfcontext_create False (new_conn [] []), Some ''/a'')]) = Inl (Exit 1)"
proof -
  from sample_perform obtain c' f' where
    "handler_perform gflib_calls (gfcontext_create False (new_conn [] [])) (Some ''/a'')
      (sample_table, sample_env) = Inr (8, c', sample_table, f')" by blast
  from srv_pop_race [OF this] show ?thesis by simp
qed

end
