(* ===== verification/Shm_Channel.thy ===== *)
theory Shm_Channel
  imports Steque Os_Model
begin

text \<open>
  The channel between the proxy and its cache, \<open>project3/shm_channel.c\<close>: shared-memory segments
  and POSIX message queues, found by name, and the pool of segment descriptors that each of the
  two processes makes for itself.
\<close>

section \<open>Messages, queues and segments\<close>

definition MAX_SEG :: nat where "MAX_SEG = 10"
definition MAX_REQUEST_LEN :: nat where "MAX_REQUEST_LEN = 128"
definition MAX_MSGS :: nat where "MAX_MSGS = 20"

record ctrl_msg =
  ctl_segment_size :: int
  ctl_num_segments :: int

record thread_packet =
  requested_file :: string
  file_size :: int
  chunk_size :: int
  segment_size :: int
  cache_hit :: int
  segment_index :: int

text \<open>The layout of the structs: characters and 4-byte integers, without padding.\<close>

definition sizeof_ctrl_msg :: nat where "sizeof_ctrl_msg = 8"
definition sizeof_thread_packet :: nat where "sizeof_thread_packet = MAX_REQUEST_LEN + 5 * 4"

record segment_item =
  seg_index :: nat
  seg_id :: string
  seg_ptr :: string
  mq_data_tx :: string
  mq_data_rx :: string
  mq_data_tx_str :: string
  mq_data_rx_str :: string

text \<open>
  What the kernel keeps: message queues and shared memory by name. A descriptor and a mapping are
  represented by the name they were opened with.
\<close>

record 'm mqueue =
  mq_msgsize :: nat
  mq_maxmsg :: nat
  mq_msgs :: "'m list"

record 'm ipc =
  ipc_queues :: "string \<rightharpoonup> 'm mqueue"
  ipc_shm :: "string \<rightharpoonup> string"

section \<open>Message queues\<close>

text \<open>
  \<open>mq_open\<close> with \<open>O_CREAT\<close> opens the queue, or makes it with room for ten messages whatever the
  caller asks for; \<open>can_open\<close> says which names it refuses.
\<close>

definition create_message_queue ::
  "(string \<Rightarrow> bool) \<Rightarrow> string \<Rightarrow> nat \<Rightarrow> nat \<Rightarrow> 'm ipc \<Rightarrow> (string \<times> 'm ipc) result" where
  "create_message_queue can_open name msg_sz max_msgs k =
     (if \<not> can_open name then Inl (Exit (-1))
      else case ipc_queues k name of
             Some q \<Rightarrow> Inr (name, k)
           | None \<Rightarrow> Inr (name, k\<lparr>ipc_queues := (ipc_queues k)(name \<mapsto>
                        \<lparr>mq_msgsize = msg_sz, mq_maxmsg = 10, mq_msgs = []\<rparr>)\<rparr>))"

text \<open>Sending waits (\<open>None\<close>) on a full queue and receiving on an empty one.\<close>

definition tx_mq :: "string \<Rightarrow> 'm \<Rightarrow> nat \<Rightarrow> 'm ipc \<Rightarrow> 'm ipc result option" where
  "tx_mq d m len k =
     (case ipc_queues k d of
        None \<Rightarrow> Some (Inl (Exit (-1)))
      | Some q \<Rightarrow>
          if mq_msgsize q < len then Some (Inl (Exit (-1)))
          else if length (mq_msgs q) < mq_maxmsg q
          then Some (Inr (k\<lparr>ipc_queues := (ipc_queues k)(d \<mapsto> q\<lparr>mq_msgs := mq_msgs q @ [m]\<rparr>)\<rparr>))
          else None)"

definition rx_mq :: "string \<Rightarrow> nat \<Rightarrow> 'm ipc \<Rightarrow> ('m \<times> 'm ipc) result option" where
  "rx_mq d len k =
     (case ipc_queues k d of
        None \<Rightarrow> Some (Inl (Exit (-1)))
      | Some q \<Rightarrow>
          if len < mq_msgsize q then Some (Inl (Exit (-1)))
          else case mq_msgs q of
                 [] \<Rightarrow> None
               | m # ms \<Rightarrow> Some (Inr (m, k\<lparr>ipc_queues := (ipc_queues k)(d \<mapsto> q\<lparr>mq_msgs := ms\<rparr>)\<rparr>)))"

definition get_queue_attr :: "string \<Rightarrow> 'm ipc \<Rightarrow> (nat \<times> nat \<times> nat) result" where
  "get_queue_attr d k =
     (case ipc_queues k d of
        None \<Rightarrow> Inl (Exit 1)
      | Some q \<Rightarrow> Inr (mq_maxmsg q, mq_msgsize q, length (mq_msgs q)))"

definition mq_unlink :: "string \<Rightarrow> 'm ipc \<Rightarrow> 'm ipc" where
  "mq_unlink name k = k\<lparr>ipc_queues := (ipc_queues k)(name := None)\<rparr>"

definition shm_unlink :: "string \<Rightarrow> 'm ipc \<Rightarrow> 'm ipc" where
  "shm_unlink name k = k\<lparr>ipc_shm := (ipc_shm k)(name := None)\<rparr>"

section \<open>Segments\<close>

definition shm_path :: string where "shm_path = ''/segment_sebdel''"
definition proxy_prefix :: string where "proxy_prefix = ''/proxy-to-cache''"
definition cache_prefix :: string where "cache_prefix = ''/cache-to-proxy''"

text \<open>The buffer for the digits has \<open>MAX_SEG\<close> bytes, that for the name the length of \<open>shm_path\<close>.\<close>

definition shm_create_id :: "string \<Rightarrow> nat \<Rightarrow> string result" where
  "shm_create_id prefix index =
     bind_res (mem_put (replicate MAX_SEG NUL) 0 (cstr (dec_of_nat index))) (\<lambda>index_str.
     bind_res (cstr_at index_str 0) (\<lambda>s.
     bind_res (mem_put (replicate (length shm_path + length s + 1) NUL) 0 (cstr prefix)) (\<lambda>id0.
     bind_res (mem_put id0 (length prefix) (cstr s)) (\<lambda>id1. cstr_at id1 0))))"

text \<open>A fresh segment is filled with zeros; an existing one is cut or extended.\<close>

definition shm_map_segment :: "(string \<Rightarrow> bool) \<Rightarrow> string \<Rightarrow> int \<Rightarrow> 'm ipc \<Rightarrow> (string \<times> 'm ipc) result" where
  "shm_map_segment can_open name sz k =
     (if \<not> can_open name then Inl (Exit 1)
      else if sz \<le> 0 then Inl (Exit 1)
      else let old = (case ipc_shm k name of None \<Rightarrow> [] | Some m \<Rightarrow> m)
           in Inr (name, k\<lparr>ipc_shm := (ipc_shm k)(name \<mapsto>
                 take (nat sz) old @ replicate (nat sz - length old) NUL)\<rparr>))"

definition make_segment ::
  "(string \<Rightarrow> bool) \<Rightarrow> int \<Rightarrow> bool \<Rightarrow> nat \<Rightarrow> 'm ipc \<Rightarrow> (segment_item \<times> 'm ipc) result" where
  "make_segment can_open sz proxy i k =
     bind_res (shm_create_id shm_path i) (\<lambda>sid.
     bind_res (shm_map_segment can_open sid sz k) (\<lambda>(mem, k1).
     let tx_prefix = (if proxy then proxy_prefix else cache_prefix);
         rx_prefix = (if proxy then cache_prefix else proxy_prefix)
     in bind_res (shm_create_id tx_prefix i) (\<lambda>tx_str.
        bind_res (shm_create_id rx_prefix i) (\<lambda>rx_str.
        bind_res (create_message_queue can_open tx_str sizeof_thread_packet MAX_MSGS k1) (\<lambda>(txq, k2).
        bind_res (create_message_queue can_open rx_str sizeof_thread_packet MAX_MSGS k2) (\<lambda>(rxq, k3).
        Inr (\<lparr>seg_index = i, seg_id = sid, seg_ptr = mem, mq_data_tx = txq, mq_data_rx = rxq,
              mq_data_tx_str = tx_str, mq_data_rx_str = rx_str\<rparr>, k3)))))))"

text \<open>The loop of \<open>shm_create_segments\<close> from \<open>i\<close> on, for \<open>n\<close> further segments.\<close>

primrec create_segments ::
  "(string \<Rightarrow> bool) \<Rightarrow> int \<Rightarrow> bool \<Rightarrow> nat \<Rightarrow> nat \<Rightarrow> steque \<times> segment_item sheap \<Rightarrow> 'm ipc \<Rightarrow>
     ((steque \<times> segment_item sheap) \<times> 'm ipc) result" where
  "create_segments can_open sz proxy 0 i q k = Inr (q, k)"
| "create_segments can_open sz proxy (Suc n) i q k =
     bind_res (make_segment can_open sz proxy i k) (\<lambda>(seg, k1).
     bind_res (steque_push q seg) (\<lambda>q1. create_segments can_open sz proxy n (Suc i) q1 k1))"

definition shm_create_segments ::
  "(string \<Rightarrow> bool) \<Rightarrow> nat \<Rightarrow> int \<Rightarrow> int \<Rightarrow> bool \<Rightarrow> 'm ipc \<Rightarrow>
     ((steque \<times> segment_item sheap) \<times> 'm ipc) result" where
  "shm_create_segments can_open nodes num_segments sz proxy k =
     create_segments can_open sz proxy (nat num_segments) 0 (steque_init, empty_sheap nodes) k"

text \<open>
  The first loop of \<open>shm_clean_segments\<close> makes the names of the queues again and removes them
  from the shared memory; the second goes once around the pool and removes the queues.
\<close>

primrec clean_names :: "nat \<Rightarrow> nat \<Rightarrow> 'm ipc \<Rightarrow> 'm ipc result" where
  "clean_names 0 i k = Inr k"
| "clean_names (Suc n) i k =
     bind_res (shm_create_id proxy_prefix i) (\<lambda>tx_str.
     bind_res (shm_create_id cache_prefix i) (\<lambda>rx_str.
     clean_names n (Suc i) (shm_unlink rx_str (shm_unlink tx_str k))))"

primrec clean_pool ::
  "nat \<Rightarrow> steque \<times> segment_item sheap \<Rightarrow> 'm ipc \<Rightarrow> ((steque \<times> segment_item sheap) \<times> 'm ipc) result" where
  "clean_pool 0 q k = Inr (q, k)"
| "clean_pool (Suc n) q k =
     bind_res (steque_front q) (\<lambda>seg.
     bind_res (steque_cycle q) (\<lambda>q1.
     clean_pool n q1 (mq_unlink (mq_data_rx_str seg) (mq_unlink (mq_data_tx_str seg) k))))"

definition shm_clean_segments ::
  "steque \<times> segment_item sheap \<Rightarrow> 'm ipc \<Rightarrow> ((steque \<times> segment_item sheap) \<times> 'm ipc) result" where
  "shm_clean_segments q k =
     bind_res (clean_names (nat (steque_size q)) 0 k) (\<lambda>k1. clean_pool (nat (steque_size q)) q k1)"

section \<open>Names\<close>

lemma create_id_fits:
  assumes "length prefix \<le> length shm_path" and "NUL \<notin> set prefix" and "i < 10 ^ 9"
  shows "shm_create_id prefix i = Inr (prefix @ dec_of_nat i)"
proof -
  let ?d = "dec_of_nat i" and ?n = "length shm_path"
  have len: "length ?d \<le> 9" using length_dec_of_nat [of i 8] assms(3) by simp
  then have b: "mem_put (replicate MAX_SEG NUL) 0 (cstr ?d) =
      Inr (?d @ NUL # drop (Suc (length ?d)) (replicate MAX_SEG NUL))"
    by (simp add: mem_put_0 cstr_def MAX_SEG_def)
  have s: "cstr_at (?d @ NUL # r) 0 = Inr ?d" for r by (simp add: cstr_at_def)
  define z where "z = replicate (?n + length ?d + 1) NUL"
  have c: "mem_put z 0 (cstr prefix) = Inr (prefix @ NUL # drop (Suc (length prefix)) z)"
    using assms(1) dec_of_nat_nonempty [of i] by (simp add: mem_put_0 cstr_def z_def)
  have "length (prefix @ NUL # drop (Suc (length prefix)) z) = length z"
    using assms(1) by (simp add: z_def)
  then have "length prefix + length (cstr ?d) \<le> length (prefix @ NUL # drop (Suc (length prefix)) z)"
    using assms(1) by (simp add: z_def cstr_def)
  then have "mem_put (prefix @ NUL # drop (Suc (length prefix)) z) (length prefix) (cstr ?d) =
      Inr (prefix @ ?d @ NUL # drop (length prefix + length (cstr ?d))
        (prefix @ NUL # drop (Suc (length prefix)) z))"
    unfolding mem_put_def by (simp add: cstr_def)
  moreover have "cstr_at (prefix @ ?d @ NUL # r) 0 = Inr (prefix @ ?d)" for r
    using scan_nul_append [of "prefix @ ?d" r] assms(2) by (simp add: cstr_at_def)
  ultimately show ?thesis
    using b s c by (simp add: shm_create_id_def z_def)
qed

lemma dec_of_nat_inj: "dec_of_nat i = dec_of_nat j \<Longrightarrow> i = j"
  using dec_val_dec_of_nat by (metis of_nat_eq_iff)


section \<open>Making and removing the pool\<close>

definition segment_of :: "bool \<Rightarrow> nat \<Rightarrow> segment_item" where
  "segment_of proxy i =
     (let p = proxy_prefix @ dec_of_nat i; c = cache_prefix @ dec_of_nat i;
          tx = (if proxy then p else c); rx = (if proxy then c else p)
      in \<lparr>seg_index = i, seg_id = shm_path @ dec_of_nat i, seg_ptr = shm_path @ dec_of_nat i,
          mq_data_tx = tx, mq_data_rx = rx, mq_data_tx_str = tx, mq_data_rx_str = rx\<rparr>)"

definition queue_names :: "nat \<Rightarrow> string set" where
  "queue_names i = {proxy_prefix @ dec_of_nat i, cache_prefix @ dec_of_nat i}"

lemma code_ids:
  assumes "i < 10 ^ 9"
  shows "shm_create_id shm_path i = Inr (shm_path @ dec_of_nat i)"
    and "shm_create_id proxy_prefix i = Inr (proxy_prefix @ dec_of_nat i)"
    and "shm_create_id cache_prefix i = Inr (cache_prefix @ dec_of_nat i)"
  using assms by (simp_all add: create_id_fits shm_path_def proxy_prefix_def cache_prefix_def)

lemma segment_name_not_queue: "shm_path @ x \<noteq> proxy_prefix @ y" "shm_path @ x \<noteq> cache_prefix @ y"
  by (simp_all add: shm_path_def proxy_prefix_def cache_prefix_def)

lemma make_segment_ok:
  assumes "i < 10 ^ 9" and "\<forall>n. can_open n" and "0 < sz"
  shows "\<exists>k'. make_segment can_open sz proxy i k = Inr (segment_of proxy i, k') \<and>
    dom (ipc_shm k') = insert (shm_path @ dec_of_nat i) (dom (ipc_shm k)) \<and>
    dom (ipc_queues k') = dom (ipc_queues k) \<union> queue_names i"
  using assms code_ids [OF assms(1)]
  by (auto simp: make_segment_def shm_map_segment_def create_message_queue_def segment_of_def Let_def
      queue_names_def dom_def split: option.splits)

lemma create_segments_ok:
  assumes "i + n \<le> 10 ^ 9" and "\<forall>n. can_open n" and "0 < sz"
    and "steque_invar q" and "n \<le> steque_capacity q"
  shows "\<exists>q' k'. create_segments can_open sz proxy n i q k = Inr (q', k') \<and> steque_invar q' \<and>
    steque_items q' = rev (List.map (segment_of proxy) [i ..< i + n]) @ steque_items q \<and>
    dom (ipc_shm k') = dom (ipc_shm k) \<union> (\<lambda>j. shm_path @ dec_of_nat j) ` {i ..< i + n} \<and>
    dom (ipc_queues k') = dom (ipc_queues k) \<union> (\<Union>j \<in> {i ..< i + n}. queue_names j)"
  using assms
proof (induction n arbitrary: i q k)
  case (Suc n)
  from make_segment_ok [of i can_open sz proxy k] Suc.prems obtain k1 where
    k1: "make_segment can_open sz proxy i k = Inr (segment_of proxy i, k1)"
      "dom (ipc_shm k1) = insert (shm_path @ dec_of_nat i) (dom (ipc_shm k))"
      "dom (ipc_queues k1) = dom (ipc_queues k) \<union> queue_names i" by auto
  from dq.push_law [of q "segment_of proxy i"] Suc.prems obtain q1 where
    q1: "steque_push q (segment_of proxy i) = Inr q1" "steque_invar q1"
      "steque_items q1 = segment_of proxy i # steque_items q"
      "steque_capacity q1 = steque_capacity q - 1" by auto
  have "Suc i + n \<le> 10 ^ 9" "n \<le> steque_capacity q1" using Suc.prems q1(4) by simp_all
  from Suc.IH [OF this(1) Suc.prems(2,3) q1(2) this(2), of k1] obtain q' k' where
    ih: "create_segments can_open sz proxy n (Suc i) q1 k1 = Inr (q', k')" "steque_invar q'"
      "steque_items q' = rev (List.map (segment_of proxy) [Suc i ..< Suc i + n]) @ steque_items q1"
      "dom (ipc_shm k') = dom (ipc_shm k1) \<union> (\<lambda>j. shm_path @ dec_of_nat j) ` {Suc i ..< Suc i + n}"
      "dom (ipc_queues k') = dom (ipc_queues k1) \<union> (\<Union>j \<in> {Suc i ..< Suc i + n}. queue_names j)"
    by (elim exE conjE) (rule that)
  have up: "[i ..< i + Suc n] = i # [Suc i ..< Suc i + n]" by (simp add: upt_conv_Cons)
  have ivl: "{i ..< i + Suc n} = insert i {Suc i ..< Suc i + n}" by auto
  have "create_segments can_open sz proxy (Suc n) i q k = Inr (q', k')"
    by (simp add: k1(1) q1(1) ih(1))
  moreover have "steque_items q' = rev (List.map (segment_of proxy) [i ..< i + Suc n]) @ steque_items q"
    unfolding up by (simp only: ih(3) q1(3)) simp
  moreover have "dom (ipc_shm k') = dom (ipc_shm k) \<union> (\<lambda>j. shm_path @ dec_of_nat j) ` {i ..< i + Suc n}"
    unfolding ivl ih(4) k1(2) by blast
  moreover have "dom (ipc_queues k') = dom (ipc_queues k) \<union> (\<Union>j \<in> {i ..< i + Suc n}. queue_names j)"
    unfolding ivl ih(5) k1(3) by blast
  ultimately show ?case using ih(2) by blast
qed simp

lemma clean_names_ok:
  assumes "i + n \<le> 10 ^ 9"
  shows "\<exists>k'. clean_names n i k = Inr k' \<and> ipc_queues k' = ipc_queues k \<and>
    (\<forall>j. ipc_shm k' (shm_path @ dec_of_nat j) = ipc_shm k (shm_path @ dec_of_nat j))"
  using assms
proof (induction n arbitrary: i k)
  case (Suc n)
  let ?k = "shm_unlink (cache_prefix @ dec_of_nat i) (shm_unlink (proxy_prefix @ dec_of_nat i) k)"
  from Suc.IH [of "Suc i" ?k] Suc.prems obtain k' where
    "clean_names n (Suc i) ?k = Inr k'" "ipc_queues k' = ipc_queues ?k"
    "\<forall>j. ipc_shm k' (shm_path @ dec_of_nat j) = ipc_shm ?k (shm_path @ dec_of_nat j)" by auto
  then show ?case
    using Suc.prems by (simp add: code_ids shm_unlink_def segment_name_not_queue)
qed simp

lemma clean_pool_ok:
  assumes "steque_invar q" and "n \<le> length (steque_items q)"
  shows "\<exists>q' k'. clean_pool n q k = Inr (q', k') \<and> steque_invar q' \<and>
    steque_items q' = drop n (steque_items q) @ take n (steque_items q) \<and> ipc_shm k' = ipc_shm k \<and>
    dom (ipc_queues k') = dom (ipc_queues k) -
      (\<Union>g \<in> set (take n (steque_items q)). {mq_data_tx_str g, mq_data_rx_str g})"
  using assms
proof (induction n arbitrary: q k)
  case (Suc n)
  then obtain g gs where g: "steque_items q = g # gs" by (cases "steque_items q") auto
  from dq.cycle_law [OF Suc.prems(1) g] obtain q1 where
    q1: "steque_cycle q = Inr q1" "steque_invar q1" "steque_items q1 = gs @ [g]" by blast
  let ?k = "mq_unlink (mq_data_rx_str g) (mq_unlink (mq_data_tx_str g) k)"
  have d: "dom (ipc_queues ?k) = dom (ipc_queues k) - {mq_data_tx_str g, mq_data_rx_str g}"
    by (auto simp: mq_unlink_def)
  have m: "ipc_shm ?k = ipc_shm k" by (simp add: mq_unlink_def)
  from Suc.IH [OF q1(2), of ?k] Suc.prems(2) g q1(3) obtain q' k' where
    "clean_pool n q1 ?k = Inr (q', k')" "steque_invar q'"
    "steque_items q' = drop n (gs @ [g]) @ take n (gs @ [g])" "ipc_shm k' = ipc_shm k"
    "dom (ipc_queues k') = dom (ipc_queues ?k) -
      (\<Union>g \<in> set (take n (gs @ [g])). {mq_data_tx_str g, mq_data_rx_str g})"
    using m by auto
  then show ?case
    using dq.front_law [OF Suc.prems(1) g] q1(1) g d Suc.prems(2) by auto
qed simp


lemma shm_create_segments_ok:
  assumes "num \<le> 10 ^ 9" and "\<forall>n. can_open n" and "0 < sz" and "num \<le> int nodes"
  shows "\<exists>q' k'. shm_create_segments can_open nodes num sz proxy k = Inr (q', k') \<and> steque_invar q' \<and>
    steque_items q' = rev (List.map (segment_of proxy) [0 ..< nat num]) \<and>
    dom (ipc_shm k') = dom (ipc_shm k) \<union> (\<lambda>j. shm_path @ dec_of_nat j) ` {0 ..< nat num} \<and>
    dom (ipc_queues k') = dom (ipc_queues k) \<union> (\<Union>j \<in> {0 ..< nat num}. queue_names j)"
proof -
  note q = steque_init_invar [where n = nodes and 'a = segment_item]
  have "0 + nat num \<le> 10 ^ 9" "nat num \<le> steque_capacity (steque_init, empty_sheap nodes :: segment_item sheap)"
    using assms(1,4) q(3) by (auto simp: int_max_def)
  from create_segments_ok [OF this(1) assms(2,3) q(1) this(2), of proxy k] q(2) show ?thesis
    by (simp add: shm_create_segments_def)
qed

section \<open>Properties\<close>

text \<open>
  Property C33. The names of segments and queues: for the prefixes of the code and fewer than
  a billion segments \<open>shm_create_id\<close> stays inside its two buffers and gives the prefix followed by
  the decimal index, and two names are equal only for the same prefix and index.
\<close>

theorem shm_ids:
  assumes "p \<in> {shm_path, proxy_prefix, cache_prefix}" and "r \<in> {shm_path, proxy_prefix, cache_prefix}"
    and "i < 10 ^ 9" and "j < 10 ^ 9"
  shows "shm_create_id p i = Inr (p @ dec_of_nat i) \<and>
    (shm_create_id p i = shm_create_id r j \<longleftrightarrow> p = r \<and> i = j)"
proof -
  have "shm_create_id p i = Inr (p @ dec_of_nat i)" "shm_create_id r j = Inr (r @ dec_of_nat j)"
    using assms code_ids by blast+
  moreover have "length p = length r"
    using assms(1,2) by (auto simp: shm_path_def proxy_prefix_def cache_prefix_def)
  ultimately show ?thesis by (auto dest: dec_of_nat_inj)
qed

theorem shm_ids_witness:
  "shm_create_id proxy_prefix 7 = Inr ''/proxy-to-cache7'' \<and>
   shm_create_id proxy_prefix 7 \<noteq> shm_create_id cache_prefix 7"
proof -
  have "dec_of_nat 7 = ''7''" by code_simp
  with shm_ids [of proxy_prefix cache_prefix 7 7] show ?thesis
    by (auto simp: proxy_prefix_def cache_prefix_def)
qed

text \<open>
  Further fact. The pools of the two processes fit together: when the proxy and then the cache
  make their segments, the descriptors at the same place of both pools have the same index and
  name the same shared memory, each one's sending queue is the other's receiving queue, all these
  exist, and no two descriptors of a pool share memory.
\<close>

theorem segments_match:
  assumes "num \<le> 10 ^ 9" and "\<forall>n. can_open n" and "0 < sz" and "num \<le> int nodes"
  shows "\<exists>qp k1 qc k2. shm_create_segments can_open nodes num sz True k = Inr (qp, k1) \<and>
    shm_create_segments can_open nodes num sz False k1 = Inr (qc, k2) \<and>
    length (steque_items qp) = nat num \<and> length (steque_items qc) = nat num \<and>
    distinct (List.map seg_ptr (steque_items qp)) \<and>
    (\<forall>j < nat num. let a = steque_items qp ! j; b = steque_items qc ! j in
       seg_index a = seg_index b \<and> seg_ptr a = seg_ptr b \<and> seg_ptr a \<in> dom (ipc_shm k2) \<and>
       mq_data_tx a = mq_data_rx b \<and> mq_data_rx a = mq_data_tx b \<and>
       {mq_data_tx a, mq_data_rx a} \<subseteq> dom (ipc_queues k2))"
proof -
  from shm_create_segments_ok [OF assms, of True k] obtain qp k1 where
    p: "shm_create_segments can_open nodes num sz True k = Inr (qp, k1)"
      "steque_items qp = rev (List.map (segment_of True) [0 ..< nat num])"
    by (elim exE conjE) (rule that)
  from shm_create_segments_ok [OF assms, of False k1] obtain qc k2 where
    c: "shm_create_segments can_open nodes num sz False k1 = Inr (qc, k2)"
      "steque_items qc = rev (List.map (segment_of False) [0 ..< nat num])"
      "dom (ipc_shm k2) = dom (ipc_shm k1) \<union> (\<lambda>j. shm_path @ dec_of_nat j) ` {0 ..< nat num}"
      "dom (ipc_queues k2) = dom (ipc_queues k1) \<union> (\<Union>j \<in> {0 ..< nat num}. queue_names j)"
    by (elim exE conjE) (rule that)
  have "seg_ptr (segment_of True i) = shm_path @ dec_of_nat i" for i
    by (simp add: segment_of_def Let_def)
  then have "distinct (List.map seg_ptr (steque_items qp))"
    by (auto simp: p(2) distinct_map rev_map [symmetric] comp_def inj_on_def dest: dec_of_nat_inj)
  moreover have "let a = steque_items qp ! j; b = steque_items qc ! j in
       seg_index a = seg_index b \<and> seg_ptr a = seg_ptr b \<and> seg_ptr a \<in> dom (ipc_shm k2) \<and>
       mq_data_tx a = mq_data_rx b \<and> mq_data_rx a = mq_data_tx b \<and>
       {mq_data_tx a, mq_data_rx a} \<subseteq> dom (ipc_queues k2)" if "j < nat num" for j
  proof -
    let ?i = "nat num - Suc j"
    have i: "?i < nat num" using that by simp
    have "steque_items qp ! j = segment_of True ?i" "steque_items qc ! j = segment_of False ?i"
      using that by (simp_all add: p(2) c(2) rev_nth)
    moreover have "shm_path @ dec_of_nat ?i \<in> dom (ipc_shm k2)" "queue_names ?i \<subseteq> dom (ipc_queues k2)"
      unfolding c(3,4) using i by auto
    ultimately show ?thesis by (simp add: segment_of_def Let_def queue_names_def)
  qed
  ultimately show ?thesis using p c by (intro exI [of _ qp] exI [of _ k1] exI [of _ qc] exI [of _ k2]) simp
qed

definition no_ipc :: "thread_packet ipc" where
  "no_ipc = \<lparr>ipc_queues = Map.empty, ipc_shm = Map.empty\<rparr>"

theorem segments_match_witness:
  "\<exists>qp k1 qc k2. shm_create_segments (\<lambda>n. True) 10 3 1024 True no_ipc = Inr (qp, k1) \<and>
    shm_create_segments (\<lambda>n. True) 10 3 1024 False k1 = Inr (qc, k2) \<and>
    length (steque_items qp) = 3 \<and> mq_data_tx (steque_items qp ! 0) = mq_data_rx (steque_items qc ! 0)"
proof -
  from segments_match [of 3 "\<lambda>n. True" 1024 10 no_ipc] obtain qp k1 qc k2 where
    w: "shm_create_segments (\<lambda>n. True) 10 3 1024 True no_ipc = Inr (qp, k1)"
      "shm_create_segments (\<lambda>n. True) 10 3 1024 False k1 = Inr (qc, k2)"
      "length (steque_items qp) = nat 3"
      "\<forall>j < nat 3. let a = steque_items qp ! j; b = steque_items qc ! j in
       seg_index a = seg_index b \<and> seg_ptr a = seg_ptr b \<and> seg_ptr a \<in> dom (ipc_shm k2) \<and>
       mq_data_tx a = mq_data_rx b \<and> mq_data_rx a = mq_data_tx b \<and>
       {mq_data_tx a, mq_data_rx a} \<subseteq> dom (ipc_queues k2)" by auto
  have "mq_data_tx (steque_items qp ! 0) = mq_data_rx (steque_items qc ! 0)"
    using spec [OF w(4), of 0] by (simp add: Let_def)
  with w(1-3) show ?thesis
    by (intro exI [of _ qp] exI [of _ k1] exI [of _ qc] exI [of _ k2]) simp
qed

text \<open>
  Further fact. The shutdown of the proxy removes every message queue of its pool, but none of the
  shared-memory segments: it passes the names of the queues to \<open>shm_unlink\<close> and never names a
  segment, so all of them stay in the system.
\<close>

theorem clean_leaves_segments:
  assumes "num \<le> 10 ^ 9" and "\<forall>n. can_open n" and "0 < sz" and "num \<le> int nodes"
  shows "\<exists>q k1 q2 k2. shm_create_segments can_open nodes num sz True k = Inr (q, k1) \<and>
    shm_clean_segments q k1 = Inr (q2, k2) \<and>
    (\<forall>g \<in> set (steque_items q).
       ipc_queues k2 (mq_data_tx g) = None \<and> ipc_queues k2 (mq_data_rx g) = None \<and>
       ipc_shm k2 (seg_id g) = ipc_shm k1 (seg_id g) \<and> ipc_shm k2 (seg_id g) \<noteq> None)"
proof -
  from shm_create_segments_ok [OF assms, of True k] obtain q k1 where
    p: "shm_create_segments can_open nodes num sz True k = Inr (q, k1)" "steque_invar q"
      "steque_items q = rev (List.map (segment_of True) [0 ..< nat num])"
      "dom (ipc_shm k1) = dom (ipc_shm k) \<union> (\<lambda>j. shm_path @ dec_of_nat j) ` {0 ..< nat num}" by (elim exE conjE) (rule that)
  have n: "nat (steque_size q) = length (steque_items q)" "length (steque_items q) = nat num"
    using steque_size_items [OF p(2)] p(3) by simp_all
  have "0 + nat num \<le> 10 ^ 9" using assms(1) by simp
  from clean_names_ok [OF this, of k1] obtain k3 where
    c: "clean_names (nat num) 0 k1 = Inr k3" "ipc_queues k3 = ipc_queues k1"
      "\<forall>j. ipc_shm k3 (shm_path @ dec_of_nat j) = ipc_shm k1 (shm_path @ dec_of_nat j)"
    by (elim exE conjE) (rule that)
  have "nat num \<le> length (steque_items q)" using n(2) by simp
  from clean_pool_ok [OF p(2) this, of k3] obtain q2 k2 where
    d: "clean_pool (nat num) q k3 = Inr (q2, k2)" "ipc_shm k2 = ipc_shm k3"
      "dom (ipc_queues k2) = dom (ipc_queues k3) -
        (\<Union>g \<in> set (take (nat num) (steque_items q)). {mq_data_tx_str g, mq_data_rx_str g})"
    by (elim exE conjE) (rule that)
  have tk: "take (nat num) (steque_items q) = steque_items q" using n(2) by simp
  have run: "shm_clean_segments q k1 = Inr (q2, k2)"
    using c(1) d(1) n by (simp add: shm_clean_segments_def)
  have "ipc_queues k2 (mq_data_tx g) = None \<and> ipc_queues k2 (mq_data_rx g) = None \<and>
       ipc_shm k2 (seg_id g) = ipc_shm k1 (seg_id g) \<and> ipc_shm k2 (seg_id g) \<noteq> None"
    if g: "g \<in> set (steque_items q)" for g
  proof -
    obtain i where i: "g = segment_of True i" "i < nat num" using g p(3) by auto
    have "{mq_data_tx_str g, mq_data_rx_str g} \<inter> dom (ipc_queues k2) = {}"
      unfolding d(3) tk using g by blast
    moreover have "mq_data_tx_str g = mq_data_tx g" "mq_data_rx_str g = mq_data_rx g"
      "seg_id g = shm_path @ dec_of_nat i"
      by (simp_all add: i(1) segment_of_def Let_def)
    moreover have "shm_path @ dec_of_nat i \<in> dom (ipc_shm k1)" unfolding p(4) using i(2) by auto
    ultimately show ?thesis using c(3) d(2) by auto
  qed
  with p(1) run show ?thesis by blast
qed

theorem clean_leaves_segments_witness:
  "\<exists>q k1 q2 k2. shm_create_segments (\<lambda>n. True) 10 2 1024 True no_ipc = Inr (q, k1) \<and>
    shm_clean_segments q k1 = Inr (q2, k2) \<and>
    (\<forall>g \<in> set (steque_items q). ipc_queues k2 (mq_data_tx g) = None \<and> ipc_shm k2 (seg_id g) \<noteq> None)"
  using clean_leaves_segments [of 2 "\<lambda>n. True" 1024 10 no_ipc] by (simp add: no_ipc_def) blast

end
