(* ===== verification/Segment_Pool.thy ===== *)
theory Segment_Pool
  imports Schedule Shm_Channel "HOL-Library.Multiset"
begin

text \<open>
  The pool of segments that the proxy's threads share, \<open>acquire_segment\<close>, \<open>release_segment\<close> and
  \<open>handle_with_cache\<close> of \<open>project3/handle_with_cache.c\<close>: a queue under a mutex with a condition
  variable. What a thread does with its segment in between (\<open>handle_request\<close>) is one step here.
\<close>

section \<open>Threads and their steps\<close>

text \<open>
  A thread still has \<open>n\<close> requests to handle (after the current one): it takes the mutex, tests the
  queue, sleeps on the condition until it is woken, pops, uses its segment, and takes the
  mutex again to push the segment back and to signal.
\<close>

datatype seg_pc =
    G_Idle nat
  | G_Test nat
  | G_Sleep nat
  | G_Woken nat
  | G_Use nat segment_item
  | G_Release nat segment_item
  | G_Push nat segment_item

record seg_pool =
  gp_queue :: "steque \<times> segment_item sheap"
  gp_mutex :: "nat option"
  gp_threads :: "seg_pc list"

text \<open>\<open>pthread_cond_signal\<close> wakes one sleeping thread, if there is any: thread \<open>j\<close> if it sleeps.\<close>

fun sleeps :: "seg_pc \<Rightarrow> bool" where
  "sleeps (G_Sleep n) = True"
| "sleeps pc = False"

fun wake :: "seg_pc \<Rightarrow> seg_pc" where
  "wake (G_Sleep n) = G_Woken n"
| "wake pc = pc"

primrec wake_first :: "seg_pc list \<Rightarrow> seg_pc list" where
  "wake_first [] = []"
| "wake_first (t # ts) = (if sleeps t then wake t # ts else t # wake_first ts)"

definition cond_signal :: "nat \<Rightarrow> seg_pc list \<Rightarrow> seg_pc list" where
  "cond_signal j ts =
     (if j < length ts \<and> sleeps (ts ! j) then ts[j := wake (ts ! j)] else wake_first ts)"

text \<open>\<open>acquire_segment\<close>: the lock, the test with the wait, and the pop with the unlock.\<close>

definition acquire_segment :: "nat \<Rightarrow> seg_pool \<Rightarrow> seg_pool result option" where
  "acquire_segment i s =
     (case gp_threads s ! i of
        G_Idle (Suc n) \<Rightarrow>
          if gp_mutex s = None
          then Some (Inr (s\<lparr>gp_mutex := Some i, gp_threads := (gp_threads s)[i := G_Test n]\<rparr>))
          else None
      | G_Test n \<Rightarrow>
          if steque_isempty (gp_queue s)
          then Some (Inr (s\<lparr>gp_mutex := None, gp_threads := (gp_threads s)[i := G_Sleep n]\<rparr>))
          else Some (bind_res (steque_pop (gp_queue s)) (\<lambda>(seg, q).
                 Inr (s\<lparr>gp_queue := q, gp_mutex := None,
                        gp_threads := (gp_threads s)[i := G_Use n seg]\<rparr>)))
      | G_Woken n \<Rightarrow>
          if gp_mutex s = None
          then Some (Inr (s\<lparr>gp_mutex := Some i, gp_threads := (gp_threads s)[i := G_Test n]\<rparr>))
          else None
      | _ \<Rightarrow> None)"

definition release_segment :: "nat \<Rightarrow> nat \<Rightarrow> seg_pool \<Rightarrow> seg_pool result option" where
  "release_segment i j s =
     (case gp_threads s ! i of
        G_Release n seg \<Rightarrow>
          if gp_mutex s = None
          then Some (Inr (s\<lparr>gp_mutex := Some i, gp_threads := (gp_threads s)[i := G_Push n seg]\<rparr>))
          else None
      | G_Push n seg \<Rightarrow>
          Some (bind_res (steque_push (gp_queue s) seg) (\<lambda>q.
            Inr (s\<lparr>gp_queue := q, gp_mutex := None,
                   gp_threads := (cond_signal j (gp_threads s))[i := G_Idle n]\<rparr>)))
      | _ \<Rightarrow> None)"

text \<open>\<open>handle_with_cache\<close> in thread \<open>i\<close>; a signal it sends goes to thread \<open>j\<close>.\<close>

definition handle_with_cache :: "nat \<times> nat \<Rightarrow> seg_pool \<Rightarrow> seg_pool result option" where
  "handle_with_cache = (\<lambda>(i, j) s.
     if i < length (gp_threads s) then
       (case gp_threads s ! i of
          G_Use n seg \<Rightarrow> Some (Inr (s\<lparr>gp_threads := (gp_threads s)[i := G_Release n seg]\<rparr>))
        | G_Release n seg \<Rightarrow> release_segment i j s
        | G_Push n seg \<Rightarrow> release_segment i j s
        | _ \<Rightarrow> acquire_segment i s)
     else None)"

definition seg_start :: "steque \<times> segment_item sheap \<Rightarrow> nat list \<Rightarrow> seg_pool" where
  "seg_start q ns = \<lparr>gp_queue = q, gp_mutex = None, gp_threads = List.map G_Idle ns\<rparr>"

section \<open>Where the segments are\<close>

fun seg_held :: "seg_pc \<Rightarrow> segment_item multiset" where
  "seg_held (G_Use n g) = {#g#}"
| "seg_held (G_Release n g) = {#g#}"
| "seg_held (G_Push n g) = {#g#}"
| "seg_held pc = {#}"

fun holds_mutex :: "seg_pc \<Rightarrow> bool" where
  "holds_mutex (G_Test n) = True"
| "holds_mutex (G_Push n g) = True"
| "holds_mutex pc = False"

text \<open>A thread that will take or give a segment without being woken.\<close>

fun active :: "seg_pc \<Rightarrow> bool" where
  "active (G_Idle n) = False"
| "active (G_Sleep n) = False"
| "active pc = True"

fun seg_weight :: "seg_pc \<Rightarrow> nat" where
  "seg_weight (G_Idle n) = 10 * n"
| "seg_weight (G_Push n g) = 10 * n + 3"
| "seg_weight (G_Release n g) = 10 * n + 4"
| "seg_weight (G_Use n g) = 10 * n + 5"
| "seg_weight (G_Sleep n) = 10 * n + 7"
| "seg_weight (G_Test n) = 10 * n + 8"
| "seg_weight (G_Woken n) = 10 * n + 9"

definition all_seg_held :: "seg_pc list \<Rightarrow> segment_item multiset" where
  "all_seg_held ts = sum_list (List.map seg_held ts)"

definition total_weight :: "seg_pc list \<Rightarrow> nat" where
  "total_weight ts = sum_list (List.map seg_weight ts)"

definition segments :: "seg_pool \<Rightarrow> segment_item multiset" where
  "segments s = mset (steque_items (gp_queue s)) + all_seg_held (gp_threads s)"

definition seg_ok :: "segment_item multiset \<Rightarrow> seg_pool \<Rightarrow> bool" where
  "seg_ok S s \<longleftrightarrow>
     steque_invar (gp_queue s) \<and> segments s = S \<and> S \<noteq> {#} \<and>
     size (all_seg_held (gp_threads s)) \<le> steque_capacity (gp_queue s) \<and>
     (\<forall>i < length (gp_threads s). holds_mutex (gp_threads s ! i) \<longleftrightarrow> gp_mutex s = Some i) \<and>
     (\<forall>i. gp_mutex s = Some i \<longrightarrow> i < length (gp_threads s)) \<and>
     ((\<exists>t \<in> set (gp_threads s). sleeps t) \<longrightarrow> (\<exists>t \<in> set (gp_threads s). active t))"

lemma all_seg_held_update:
  "i < length ts \<Longrightarrow> all_seg_held (ts[i := t]) + seg_held (ts ! i) = all_seg_held ts + seg_held t"
  by (induction ts arbitrary: i) (auto simp: all_seg_held_def ac_simps split: nat.split)

lemma total_weight_update:
  "i < length ts \<Longrightarrow> total_weight (ts[i := t]) + seg_weight (ts ! i) = total_weight ts + seg_weight t"
  by (induction ts arbitrary: i) (auto simp: total_weight_def split: nat.split)


lemma seg_held_le: "i < length ts \<Longrightarrow> seg_held (ts ! i) \<subseteq># all_seg_held ts"
proof (induction ts arbitrary: i)
  case (Cons t ts)
  have "seg_held u \<subseteq># seg_held t + all_seg_held ts" if "u = t \<or> seg_held u \<subseteq># all_seg_held ts" for u
    using that by (auto intro: subset_mset.add_increasing)
  with Cons show ?case by (cases i) (auto simp: all_seg_held_def)
qed simp

lemma seg_held_active: "seg_held t \<noteq> {#} \<Longrightarrow> active t"
  by (cases t) auto

lemma all_seg_held_nonempty: "all_seg_held ts \<noteq> {#} \<Longrightarrow> \<exists>k < length ts. seg_held (ts ! k) \<noteq> {#}"
proof (induction ts)
  case (Cons t ts)
  show ?case
  proof (cases "seg_held t = {#}")
    case True
    with Cons obtain k where "k < length ts" "seg_held (ts ! k) \<noteq> {#}"
      by (auto simp: all_seg_held_def)
    then show ?thesis by (intro exI [of _ "Suc k"]) simp
  qed (auto intro: exI [of _ 0])
qed (simp add: all_seg_held_def)

lemma wake_first_cases:
  "(\<forall>t \<in> set ts. \<not> sleeps t) \<and> wake_first ts = ts \<or>
   (\<exists>k < length ts. sleeps (ts ! k) \<and> wake_first ts = ts[k := wake (ts ! k)])"
proof (induction ts)
  case (Cons t ts)
  show ?case
  proof (cases "sleeps t")
    case True
    then show ?thesis by (intro disjI2 exI [of _ 0]) simp
  next
    case False
    from Cons show ?thesis
    proof
      assume "\<exists>k < length ts. sleeps (ts ! k) \<and> wake_first ts = ts[k := wake (ts ! k)]"
      then obtain k where "k < length ts" "sleeps (ts ! k)" "wake_first ts = ts[k := wake (ts ! k)]" by blast
      with False show ?thesis by (intro disjI2 exI [of _ "Suc k"]) simp
    qed (use False in simp)
  qed
qed simp

lemma cond_signal_cases:
  obtains (none) "\<forall>t \<in> set ts. \<not> sleeps t" "cond_signal j ts = ts"
  | (one) k n where "k < length ts" "ts ! k = G_Sleep n" "cond_signal j ts = ts[k := G_Woken n]"
proof -
  have sl: "\<exists>n. t = G_Sleep n" if "sleeps t" for t using that by (cases t) auto
  show thesis
  proof (cases "j < length ts \<and> sleeps (ts ! j)")
    case True
    with sl [of "ts ! j"] one [of j] show ?thesis by (auto simp: cond_signal_def)
  next
    case False
    then have c: "cond_signal j ts = wake_first ts" by (auto simp: cond_signal_def)
    from wake_first_cases [of ts] show ?thesis
    proof
      assume "\<exists>k < length ts. sleeps (ts ! k) \<and> wake_first ts = ts[k := wake (ts ! k)]"
      then obtain k where k: "k < length ts" "sleeps (ts ! k)" "wake_first ts = ts[k := wake (ts ! k)]" by blast
      from sl [OF k(2)] obtain n where "ts ! k = G_Sleep n" by blast
      with one [of k n] k c show ?thesis by simp
    qed (use none c in simp)
  qed
qed

text \<open>The general step: thread \<open>i\<close> changes its program counter, the queue and the mutex.\<close>

lemma seg_ok_step:
  assumes ok: "seg_ok S s" and i: "i < length (gp_threads s)"
    and q: "steque_invar q" "mset (steque_items q) + seg_held pc =
        mset (steque_items (gp_queue s)) + seg_held (gp_threads s ! i)"
      "steque_capacity q + size (seg_held (gp_threads s ! i)) =
        steque_capacity (gp_queue s) + size (seg_held pc)"
    and m: "m = (if holds_mutex pc then Some i
        else if holds_mutex (gp_threads s ! i) then None else gp_mutex s)"
      "holds_mutex pc \<Longrightarrow> gp_mutex s = None \<or> holds_mutex (gp_threads s ! i)"
    and act: "active pc \<or> (\<exists>k < length (gp_threads s). k \<noteq> i \<and> active (gp_threads s ! k)) \<or>
      \<not> sleeps pc \<and> (\<forall>t \<in> set (gp_threads s). \<not> sleeps t)"
  shows "seg_ok S \<lparr>gp_queue = q, gp_mutex = m, gp_threads = (gp_threads s)[i := pc]\<rparr>"
proof -
  let ?ts = "gp_threads s"
  have h: "all_seg_held (?ts[i := pc]) + seg_held (?ts ! i) = all_seg_held ?ts + seg_held pc"
    by (rule all_seg_held_update [OF i])
  have S: "mset (steque_items (gp_queue s)) + all_seg_held ?ts = S"
    using ok by (simp add: seg_ok_def segments_def)
  have "mset (steque_items q) + all_seg_held (?ts[i := pc]) + (seg_held pc + seg_held (?ts ! i)) =
      (mset (steque_items q) + seg_held pc) + (all_seg_held (?ts[i := pc]) + seg_held (?ts ! i))"
    by (simp add: ac_simps)
  also have "\<dots> = S + (seg_held pc + seg_held (?ts ! i))"
    unfolding q(2) h S [symmetric] by (simp add: ac_simps)
  finally have "mset (steque_items q) + all_seg_held (?ts[i := pc]) = S" by simp
  moreover have "size (all_seg_held (?ts[i := pc])) \<le> steque_capacity q"
  proof -
    have "size (all_seg_held ?ts) \<le> steque_capacity (gp_queue s)" using ok by (simp add: seg_ok_def)
    moreover have "size (all_seg_held (?ts[i := pc])) + size (seg_held (?ts ! i)) =
        size (all_seg_held ?ts) + size (seg_held pc)"
      using arg_cong [OF h, of size] by simp
    ultimately show ?thesis using q(3) by linarith
  qed
  moreover have "(\<exists>t \<in> set (?ts[i := pc]). sleeps t) \<longrightarrow> (\<exists>t \<in> set (?ts[i := pc]). active t)"
    using act
  proof (elim disjE)
    assume "active pc"
    with i show ?thesis by (auto intro: set_update_memI)
  next
    assume "\<exists>k < length ?ts. k \<noteq> i \<and> active (?ts ! k)"
    then obtain k where "k < length ?ts" "k \<noteq> i" "active (?ts ! k)" by blast
    then have "?ts[i := pc] ! k = ?ts ! k" "k < length (?ts[i := pc])" by simp_all
    with \<open>active (?ts ! k)\<close> show ?thesis by (metis nth_mem)
  next
    assume "\<not> sleeps pc \<and> (\<forall>t \<in> set ?ts. \<not> sleeps t)"
    then show ?thesis using set_update_subset_insert [of ?ts i pc] by auto
  qed
  moreover have "(\<forall>k < length ?ts. holds_mutex (?ts[i := pc] ! k) \<longleftrightarrow> m = Some k) \<and>
      (\<forall>k. m = Some k \<longrightarrow> k < length ?ts)"
    using ok i m by (auto simp: seg_ok_def nth_list_update)
  ultimately show ?thesis
    using ok q(1) by (simp add: seg_ok_def segments_def)
qed


text \<open>Record updates as whole records.\<close>

lemma seg_pool_updates:
  "s\<lparr>gp_mutex := m, gp_threads := ts\<rparr> = \<lparr>gp_queue = gp_queue s, gp_mutex = m, gp_threads = ts\<rparr>"
  "s\<lparr>gp_threads := ts\<rparr> = \<lparr>gp_queue = gp_queue s, gp_mutex = gp_mutex s, gp_threads = ts\<rparr>"
  "s\<lparr>gp_queue := q, gp_mutex := m, gp_threads := ts\<rparr> = \<lparr>gp_queue = q, gp_mutex = m, gp_threads = ts\<rparr>"
  by simp_all

lemma seg_ok_queue:
  assumes "seg_ok S s"
  shows "steque_invar (gp_queue s)"
  using assms by (simp add: seg_ok_def)

definition seg_progress :: "segment_item multiset \<Rightarrow> seg_pool \<Rightarrow> seg_pool result \<Rightarrow> bool" where
  "seg_progress S s r \<longleftrightarrow> (\<exists>s'. r = Inr s' \<and> seg_ok S s' \<and>
     total_weight (gp_threads s') < total_weight (gp_threads s) \<and>
     length (gp_threads s') = length (gp_threads s))"

lemma seg_progressI:
  assumes "seg_ok S \<lparr>gp_queue = q, gp_mutex = m, gp_threads = (gp_threads s)[i := pc]\<rparr>"
    and "i < length (gp_threads s)" and "seg_weight pc < seg_weight (gp_threads s ! i)"
  shows "seg_progress S s (Inr \<lparr>gp_queue = q, gp_mutex = m, gp_threads = (gp_threads s)[i := pc]\<rparr>)"
  using assms total_weight_update [OF assms(2), of pc] by (auto simp: seg_progress_def)

lemma seg_test_keeps:
  assumes ok: "seg_ok S s" and i: "i < length (gp_threads s)" and pc: "gp_threads s ! i = G_Test n"
    and step: "acquire_segment i s = Some r"
  shows "seg_progress S s r"
proof (cases "steque_isempty (gp_queue s)")
  case True
  note inv = seg_ok_queue [OF ok]
  then have empty: "steque_items (gp_queue s) = []" using sq.empty_law True by blast
  then have "all_seg_held (gp_threads s) \<noteq> {#}" using ok by (auto simp: seg_ok_def segments_def)
  from all_seg_held_nonempty [OF this] obtain k where
    k: "k < length (gp_threads s)" "seg_held (gp_threads s ! k) \<noteq> {#}" by blast
  then have "k \<noteq> i" "active (gp_threads s ! k)" using pc seg_held_active by auto
  with k(1) have "seg_ok S \<lparr>gp_queue = gp_queue s, gp_mutex = None, gp_threads = (gp_threads s)[i := G_Sleep n]\<rparr>"
    by (intro seg_ok_step [OF ok i inv]) (use pc in auto)
  moreover have "r = Inr \<lparr>gp_queue = gp_queue s, gp_mutex = None, gp_threads = (gp_threads s)[i := G_Sleep n]\<rparr>"
    using step pc True by (simp add: acquire_segment_def seg_pool_updates)
  ultimately show ?thesis using seg_progressI [OF _ i] pc by simp
next
  case False
  note inv = seg_ok_queue [OF ok]
  from sq.deq_total [OF inv False] obtain g q where p: "steque_pop (gp_queue s) = Inr (g, q)" by blast
  from sq.deq_InrD [OF inv p] have
    q: "steque_invar q" "steque_items (gp_queue s) = g # steque_items q"
      "steque_capacity q = Suc (steque_capacity (gp_queue s))" by auto
  have "seg_ok S \<lparr>gp_queue = q, gp_mutex = None, gp_threads = (gp_threads s)[i := G_Use n g]\<rparr>"
    by (intro seg_ok_step [OF ok i q(1)]) (use pc q in auto)
  moreover have "r = Inr \<lparr>gp_queue = q, gp_mutex = None, gp_threads = (gp_threads s)[i := G_Use n g]\<rparr>"
    using step pc False p by (simp add: acquire_segment_def seg_pool_updates)
  ultimately show ?thesis using seg_progressI [OF _ i] pc by simp
qed

lemma seg_lock_keeps:
  assumes ok: "seg_ok S s" and i: "i < length (gp_threads s)"
    and pc: "gp_threads s ! i = G_Idle (Suc n) \<or> gp_threads s ! i = G_Woken n"
    and step: "acquire_segment i s = Some r"
  shows "seg_progress S s r"
proof -
  note inv = seg_ok_queue [OF ok]
  have free: "gp_mutex s = None" using step pc by (auto simp: acquire_segment_def split: if_splits)
  have "seg_ok S \<lparr>gp_queue = gp_queue s, gp_mutex = Some i, gp_threads = (gp_threads s)[i := G_Test n]\<rparr>"
    by (intro seg_ok_step [OF ok i inv]) (use pc free in auto)
  moreover have "r = Inr \<lparr>gp_queue = gp_queue s, gp_mutex = Some i, gp_threads = (gp_threads s)[i := G_Test n]\<rparr>"
    using step pc free by (auto simp: acquire_segment_def seg_pool_updates)
  ultimately show ?thesis using pc by (auto intro!: seg_progressI [OF _ i])
qed

lemma seg_use_keeps:
  assumes ok: "seg_ok S s" and i: "i < length (gp_threads s)"
    and pc: "gp_threads s ! i = G_Use n g"
  shows "seg_progress S s (Inr (s\<lparr>gp_threads := (gp_threads s)[i := G_Release n g]\<rparr>))"
proof -
  note inv = seg_ok_queue [OF ok]
  have "seg_ok S \<lparr>gp_queue = gp_queue s, gp_mutex = gp_mutex s, gp_threads = (gp_threads s)[i := G_Release n g]\<rparr>"
    by (intro seg_ok_step [OF ok i inv]) (use pc in auto)
  then show ?thesis using seg_progressI [OF _ i] pc by (simp add: seg_pool_updates)
qed

lemma seg_release_keeps:
  assumes ok: "seg_ok S s" and i: "i < length (gp_threads s)"
    and pc: "gp_threads s ! i = G_Release n g" and step: "release_segment i j s = Some r"
  shows "seg_progress S s r"
proof -
  note inv = seg_ok_queue [OF ok]
  have free: "gp_mutex s = None" using step pc by (auto simp: release_segment_def split: if_splits)
  have "seg_ok S \<lparr>gp_queue = gp_queue s, gp_mutex = Some i, gp_threads = (gp_threads s)[i := G_Push n g]\<rparr>"
    by (intro seg_ok_step [OF ok i inv]) (use pc free in auto)
  moreover have "r = Inr \<lparr>gp_queue = gp_queue s, gp_mutex = Some i, gp_threads = (gp_threads s)[i := G_Push n g]\<rparr>"
    using step pc free by (auto simp: release_segment_def seg_pool_updates)
  ultimately show ?thesis using seg_progressI [OF _ i] pc by simp
qed


lemma seg_push_keeps:
  assumes ok: "seg_ok S s" and i: "i < length (gp_threads s)"
    and pc: "gp_threads s ! i = G_Push n g" and step: "release_segment i j s = Some r"
  shows "seg_progress S s r"
proof -
  note inv = seg_ok_queue [OF ok]
  have "size {#g#} \<le> size (all_seg_held (gp_threads s))"
    using seg_held_le [OF i] pc by (intro size_mset_mono) simp
  then have room: "0 < steque_capacity (gp_queue s)" using ok by (auto simp: seg_ok_def)
  from dq.push_law [OF inv room, of g] obtain q where q: "steque_push (gp_queue s) g = Inr q"
      "steque_invar q" "steque_items q = g # steque_items (gp_queue s)"
      "steque_capacity q = steque_capacity (gp_queue s) - 1" by blast
  have r: "r = Inr \<lparr>gp_queue = q, gp_mutex = None,
      gp_threads = (cond_signal j (gp_threads s))[i := G_Idle n]\<rparr>"
    using step pc q(1) by (simp add: release_segment_def seg_pool_updates)
  show ?thesis
  proof (cases rule: cond_signal_cases [of "gp_threads s" j])
    case none
    then have "seg_ok S \<lparr>gp_queue = q, gp_mutex = None, gp_threads = (gp_threads s)[i := G_Idle n]\<rparr>"
      by (intro seg_ok_step [OF ok i q(2)]) (use pc q room in auto)
    then show ?thesis unfolding r none(2) by (rule seg_progressI [OF _ i]) (simp add: pc)
  next
    case (one k m)
    let ?s = "\<lparr>gp_queue = gp_queue s, gp_mutex = gp_mutex s, gp_threads = (gp_threads s)[k := G_Woken m]\<rparr>"
    have ki: "k \<noteq> i" using one(2) pc by auto
    have ok1: "seg_ok S ?s"
      by (intro seg_ok_step [OF ok one(1) inv]) (use one in auto)
    have "seg_ok S \<lparr>gp_queue = q, gp_mutex = None, gp_threads = (gp_threads ?s)[i := G_Idle n]\<rparr>"
      by (intro seg_ok_step [OF ok1 _ q(2)])
        (use i pc ki q room one(1) in \<open>auto intro: exI [of _ k]\<close>)
    moreover have "total_weight ((gp_threads s)[k := G_Woken m, i := G_Idle n]) + 3 = total_weight (gp_threads s) + 2"
      using total_weight_update [OF one(1), of "G_Woken m"]
        total_weight_update [of i "(gp_threads s)[k := G_Woken m]" "G_Idle n"] i ki pc one(2) by simp
    ultimately show ?thesis unfolding r one(3) by (simp add: seg_progress_def)
  qed
qed

lemma handle_with_cache_keeps:
  assumes ok: "seg_ok S s" and step: "handle_with_cache (i, j) s = Some r"
  shows "seg_progress S s r"
proof -
  have i: "i < length (gp_threads s)" using step by (auto simp: handle_with_cache_def split: if_splits)
  show ?thesis
  proof (cases "gp_threads s ! i")
    case (G_Idle n)
    then show ?thesis
      using seg_lock_keeps [OF ok i] step i
      by (cases n) (auto simp: handle_with_cache_def acquire_segment_def)
  next
    case (G_Test n)
    then show ?thesis using seg_test_keeps [OF ok i] step i by (simp add: handle_with_cache_def)
  next
    case (G_Woken n)
    then show ?thesis using seg_lock_keeps [OF ok i] step i by (simp add: handle_with_cache_def)
  next
    case (G_Use n g)
    then show ?thesis using seg_use_keeps [OF ok i] step i by (auto simp: handle_with_cache_def)
  next
    case (G_Release n g)
    then show ?thesis using seg_release_keeps [OF ok i] step i by (simp add: handle_with_cache_def)
  next
    case (G_Push n g)
    then show ?thesis using seg_push_keeps [OF ok i] step i by (simp add: handle_with_cache_def)
  next
    case (G_Sleep n)
    with step i show ?thesis by (simp add: handle_with_cache_def acquire_segment_def)
  qed
qed

section \<open>No thread waits for ever\<close>

definition all_returned :: "seg_pool \<Rightarrow> bool" where
  "all_returned s \<longleftrightarrow> (\<forall>t \<in> set (gp_threads s). t = G_Idle 0)"

text \<open>
  A thread that owns the mutex can act; if nobody owns it, every thread that is neither asleep nor
  at its end can act, and if all of these are at their end, nobody sleeps.
\<close>

lemma seg_enabled:
  assumes ok: "seg_ok S s" and left: "\<not> all_returned s"
  shows "\<exists>i < length (gp_threads s). handle_with_cache (i, 0) s \<noteq> None"
proof (cases "gp_mutex s")
  case (Some i)
  then have i: "i < length (gp_threads s)" "holds_mutex (gp_threads s ! i)" using ok by (auto simp: seg_ok_def)
  then show ?thesis
    by (intro exI [of _ i], cases "gp_threads s ! i")
      (auto simp: handle_with_cache_def acquire_segment_def release_segment_def)
next
  case None
  have en: "handle_with_cache (i, 0) s \<noteq> None"
    if "i < length (gp_threads s)" "gp_threads s ! i \<noteq> G_Idle 0" "\<not> sleeps (gp_threads s ! i)" for i
    using that None
    by (cases "gp_threads s ! i")
      (auto simp: handle_with_cache_def acquire_segment_def release_segment_def split: nat.splits)
  show ?thesis
  proof (cases "\<exists>t \<in> set (gp_threads s). sleeps t")
    case True
    then obtain t where "t \<in> set (gp_threads s)" "active t" using ok by (auto simp: seg_ok_def)
    then obtain k where "k < length (gp_threads s)" "active (gp_threads s ! k)" by (metis in_set_conv_nth)
    with en [of k] show ?thesis by (cases "gp_threads s ! k") auto
  next
    case False
    with left obtain k where "k < length (gp_threads s)" "gp_threads s ! k \<noteq> G_Idle 0"
      by (auto simp: all_returned_def in_set_conv_nth)
    with False en [of k] show ?thesis by auto
  qed
qed

lemma returned_stays:
  assumes "all_returned s" and "handle_with_cache t s = Some (Inr s')"
  shows "all_returned s'"
proof -
  obtain i j where t: "t = (i, j)" by (cases t)
  have "gp_threads s ! i = G_Idle 0" if "i < length (gp_threads s)"
    using assms(1) that by (simp add: all_returned_def)
  with assms(2) show ?thesis by (auto simp: t handle_with_cache_def acquire_segment_def split: if_splits)
qed

definition seg_turn :: "seg_pool \<Rightarrow> (nat \<times> nat) list" where
  "seg_turn s = List.map (\<lambda>i. (i, 0)) [0..<length (gp_threads s)]"

abbreviation run_segs :: "(nat \<times> nat) list \<Rightarrow> seg_pool \<Rightarrow> seg_pool result" where
  "run_segs \<equiv> run_sched handle_with_cache"

interpretation gp: schedule_system handle_with_cache "seg_ok S" "total_weight \<circ> gp_threads" seg_turn
  all_returned for S
proof unfold_locales
  show "\<exists>s'. r = Inr s' \<and> seg_ok S s' \<and> (total_weight \<circ> gp_threads) s' < (total_weight \<circ> gp_threads) s \<and>
      seg_turn s' = seg_turn s" if "seg_ok S s" "handle_with_cache t s = Some r" for s t r
    using handle_with_cache_keeps [OF that(1), of "fst t" "snd t"] that(2)
    by (auto simp: seg_progress_def seg_turn_def)
  show "\<exists>t \<in> set (seg_turn s). handle_with_cache t s \<noteq> None" if "seg_ok S s" "\<not> all_returned s" for s
    using seg_enabled [OF that] by (auto simp: seg_turn_def)
qed (rule returned_stays)


section \<open>The pool that the proxy creates\<close>

lemma seg_held_two:
  assumes "i < length ts" and "k < length ts" and "i \<noteq> k"
  shows "seg_held (ts ! i) + seg_held (ts ! k) \<subseteq># all_seg_held ts"
proof -
  have "seg_held (ts[i := G_Idle 0] ! k) \<subseteq># all_seg_held (ts[i := G_Idle 0])"
    by (rule seg_held_le) (simp add: assms(2))
  then have "seg_held (ts ! k) + seg_held (ts ! i) \<subseteq># all_seg_held (ts[i := G_Idle 0]) + seg_held (ts ! i)"
    using assms(3) by simp
  moreover have "all_seg_held (ts[i := G_Idle 0]) + seg_held (ts ! i) = all_seg_held ts"
    using all_seg_held_update [OF assms(1), of "G_Idle 0"] by simp
  ultimately show ?thesis by (metis add.commute)
qed

lemma exclusive:
  assumes ok: "seg_ok (mset xs) s" and "distinct xs" and i: "i < length (gp_threads s)"
    and g: "g \<in># seg_held (gp_threads s ! i)"
  shows "g \<notin> set (steque_items (gp_queue s))"
    and "\<And>k. k < length (gp_threads s) \<Longrightarrow> k \<noteq> i \<Longrightarrow> g \<notin># seg_held (gp_threads s ! k)"
proof -
  have all: "mset (steque_items (gp_queue s)) + all_seg_held (gp_threads s) = mset xs"
    using ok by (simp add: seg_ok_def segments_def)
  have one: "count (mset xs) g \<le> 1" using \<open>distinct xs\<close> by (simp add: distinct_count_atmost_1)
  then have 1: "count (mset (steque_items (gp_queue s))) g + count (all_seg_held (gp_threads s)) g \<le> 1"
    unfolding all [symmetric] by simp
  have "1 \<le> count (seg_held (gp_threads s ! i)) g" using g by (simp add: Suc_leI)
  moreover have "count (seg_held (gp_threads s ! i)) g \<le> count (all_seg_held (gp_threads s)) g"
    by (rule mset_subset_eq_count [OF seg_held_le [OF i]])
  ultimately have "count (mset (steque_items (gp_queue s))) g = 0" using 1 by linarith
  then show "g \<notin> set (steque_items (gp_queue s))" by (simp add: count_eq_zero_iff)
  show "g \<notin># seg_held (gp_threads s ! k)" if "k < length (gp_threads s)" "k \<noteq> i" for k
  proof
    assume "g \<in># seg_held (gp_threads s ! k)"
    then have "1 \<le> count (seg_held (gp_threads s ! k)) g" by (simp add: Suc_leI)
    moreover have "count (seg_held (gp_threads s ! i)) g + count (seg_held (gp_threads s ! k)) g
        \<le> count (all_seg_held (gp_threads s)) g"
      using mset_subset_eq_count [OF seg_held_two [OF i that(1)]] that(2) by simp
    ultimately show False using \<open>1 \<le> count (seg_held (gp_threads s ! i)) g\<close> 1 by linarith
  qed
qed

lemma all_seg_held_idle: "all_seg_held (List.map G_Idle ns) = {#}"
  by (induction ns) (simp_all add: all_seg_held_def)

lemma total_weight_idle: "total_weight (List.map G_Idle ns) = 10 * sum_list ns"
  by (induction ns) (simp_all add: total_weight_def)

lemma seg_start_ok:
  assumes "steque_invar q" and "steque_items q \<noteq> []"
  shows "seg_ok (mset (steque_items q)) (seg_start q ns)"
  using assms by (auto simp: seg_ok_def seg_start_def segments_def all_seg_held_idle)

lemma proxy_pool_ok:
  assumes "num \<le> 10 ^ 9" and "\<forall>n. can_open n" and "0 < sz" and "num \<le> int nodes" and "0 < num"
  shows "\<exists>q k1. shm_create_segments can_open nodes num sz True k = Inr (q, k1) \<and>
    distinct (steque_items q) \<and> seg_ok (mset (steque_items q)) (seg_start q ns)"
proof -
  from shm_create_segments_ok [OF assms(1-4), of True k] obtain q k1 where
    p: "shm_create_segments can_open nodes num sz True k = Inr (q, k1)" "steque_invar q"
      "steque_items q = rev (List.map (segment_of True) [0 ..< nat num])" by (elim exE conjE) (rule that)
  have "distinct (steque_items q)"
    by (auto simp: p(3) distinct_map inj_on_def segment_of_def Let_def dec_of_nat_inj)
  moreover have "steque_items q \<noteq> []" using assms(5) by (simp add: p(3))
  ultimately show ?thesis using p seg_start_ok by blast
qed

text \<open>
  Property C11. A segment of the proxy's pool belongs to one request at a time: whatever the schedule
  of the threads and the choice of the thread a signal wakes, no step of \<open>acquire_segment\<close> or
  \<open>release_segment\<close> fails, no segment is lost or duplicated, and a segment that a thread uses is
  neither in the queue nor in use by another thread.
\<close>

theorem segments_exclusive:
  assumes "num \<le> 10 ^ 9" and "\<forall>n. can_open n" and "0 < sz" and "num \<le> int nodes" and "0 < num"
  shows "\<exists>q k1 s. shm_create_segments can_open nodes num sz True k = Inr (q, k1) \<and>
    run_segs sched (seg_start q ns) = Inr s \<and> segments s = mset (steque_items q) \<and>
    (\<forall>i < length (gp_threads s). \<forall>g \<in># seg_held (gp_threads s ! i).
       g \<notin> set (steque_items (gp_queue s)) \<and>
       (\<forall>j < length (gp_threads s). j \<noteq> i \<longrightarrow> g \<notin># seg_held (gp_threads s ! j)))"
proof -
  from proxy_pool_ok [OF assms, of k ns] obtain q k1 where
    q: "shm_create_segments can_open nodes num sz True k = Inr (q, k1)" "distinct (steque_items q)"
      "seg_ok (mset (steque_items q)) (seg_start q ns)" by (elim exE conjE) (rule that)
  from gp.run_good [OF q(3), of sched] obtain s where
    s: "run_segs sched (seg_start q ns) = Inr s" "seg_ok (mset (steque_items q)) s" by blast
  have "segments s = mset (steque_items q)" using s(2) by (simp add: seg_ok_def)
  with q(1) s exclusive [OF s(2) q(2)] show ?thesis by blast
qed

theorem segments_exclusive_witness:
  "\<exists>q k1 s. shm_create_segments (\<lambda>n. True) 10 2 1024 True no_ipc = Inr (q, k1) \<and>
    run_segs [(0, 0), (1, 0), (0, 0), (1, 0), (1, 0)] (seg_start q [1, 2]) = Inr s \<and>
    segments s = mset (steque_items q)"
  using segments_exclusive [of 2 "\<lambda>n. True" 1024 10 no_ipc "[(0, 0), (1, 0), (0, 0), (1, 0), (1, 0)]" "[1, 2]"]
  by simp blast

text \<open>
  Property C12. No request waits for a segment for ever: with at least one segment, however many
  threads and requests there are, taking turns finishes all of them, because a thread that pushes a
  segment back wakes a sleeper; at the end the mutex is free and every segment is in the queue.
\<close>

theorem segments_all_return:
  assumes "num \<le> 10 ^ 9" and "\<forall>n. can_open n" and "0 < sz" and "num \<le> int nodes" and "0 < num"
  shows "\<exists>q k1 s. shm_create_segments can_open nodes num sz True k = Inr (q, k1) \<and>
    run_segs (concat (replicate (10 * sum_list ns) (seg_turn (seg_start q ns)))) (seg_start q ns) = Inr s \<and>
    all_returned s \<and> gp_mutex s = None \<and> mset (steque_items (gp_queue s)) = mset (steque_items q)"
proof -
  from proxy_pool_ok [OF assms, of k ns] obtain q k1 where
    q: "shm_create_segments can_open nodes num sz True k = Inr (q, k1)"
      "seg_ok (mset (steque_items q)) (seg_start q ns)" by (elim exE conjE) (rule that)
  have "total_weight (gp_threads (seg_start q ns)) = 10 * sum_list ns"
    by (simp add: seg_start_def total_weight_idle)
  with gp.fair_ends [OF q(2), of "10 * sum_list ns"] obtain s where
    s: "run_segs (concat (replicate (10 * sum_list ns) (seg_turn (seg_start q ns)))) (seg_start q ns) = Inr s"
      "seg_ok (mset (steque_items q)) s" "all_returned s" by auto
  have "gp_threads s = List.map G_Idle (replicate (length (gp_threads s)) 0)"
    using s(3) by (simp add: all_returned_def list_eq_iff_nth_eq)
  then have "all_seg_held (gp_threads s) = {#}" by (metis all_seg_held_idle)
  moreover have "gp_mutex s = None"
  proof (rule ccontr)
    assume "gp_mutex s \<noteq> None"
    then obtain i where "gp_mutex s = Some i" by auto
    then have "i < length (gp_threads s)" "holds_mutex (gp_threads s ! i)" using s(2) by (auto simp: seg_ok_def)
    moreover from this(1) s(3) have "gp_threads s ! i = G_Idle 0" by (simp add: all_returned_def)
    ultimately show False by simp
  qed
  moreover have "segments s = mset (steque_items q)" using s(2) by (simp add: seg_ok_def)
  ultimately show ?thesis using q(1) s(1,3) by (auto simp: segments_def)
qed

theorem segments_all_return_witness:
  "\<exists>q k1 s. shm_create_segments (\<lambda>n. True) 10 1 1024 True no_ipc = Inr (q, k1) \<and>
    run_segs (concat (replicate 60 (seg_turn (seg_start q [1, 2, 3])))) (seg_start q [1, 2, 3]) = Inr s \<and>
    all_returned s"
  using segments_all_return [of 1 "\<lambda>n. True" 1024 10 no_ipc "[1, 2, 3]"] by simp blast

end
