(* ===== verification/Cache_Transfer.thy ===== *)
theory Cache_Transfer
  imports Schedule Shm_Channel Handler
begin

text \<open>
  A transfer from the cache to a client of the proxy: \<open>handle_request\<close> of
  \<open>project3/handle_with_cache.c\<close> in the proxy and \<open>perform_task\<close> of \<open>project3/simplecached.c\<close> in
  the cache, as two processes that share a segment and three message queues (the control queue,
  and one queue per direction for the segment). Every interleaving of the two is a schedule.
\<close>

section \<open>The segment of a request\<close>

text \<open>
  The loop of \<open>find_segment\<close> never changes its counter, so it runs until the segment turns up;
  \<open>None\<close> is a loop that does not end.
\<close>

partial_function (option) find_loop ::
  "int \<Rightarrow> int \<Rightarrow> int \<Rightarrow> steque \<times> segment_item sheap \<Rightarrow>
     (segment_item option \<times> bool \<times> (steque \<times> segment_item sheap)) result option" where
  "find_loop num index i q =
     (if i < num then
        (case steque_front q of
           Inl e \<Rightarrow> Some (Inl e)
         | Inr seg \<Rightarrow>
             (case steque_cycle q of
                Inl e \<Rightarrow> Some (Inl e)
              | Inr q1 \<Rightarrow>
                  if int (seg_index seg) = index then Some (Inr (Some seg, True, q1))
                  else find_loop num index i q1))
      else Some (Inr (None, False, q)))"

declare find_loop.simps [code]

definition find_segment ::
  "int \<Rightarrow> int \<Rightarrow> steque \<times> segment_item sheap \<Rightarrow>
     (segment_item option \<times> bool \<times> (steque \<times> segment_item sheap)) result option" where
  "find_segment num index q = find_loop num index 0 q"

lemma find_loop_found:
  assumes "steque_invar q" and "steque_items q = pre @ g # post" and "int (seg_index g) = index"
    and "\<forall>h \<in> set pre. int (seg_index h) \<noteq> index" and "i < num"
  shows "\<exists>q'. find_loop num index i q = Some (Inr (Some g, True, q')) \<and> steque_invar q' \<and>
    steque_items q' = post @ pre @ [g]"
  using assms
proof (induction pre arbitrary: q post)
  case Nil
  then have c: "steque_items q = g # post" by simp
  from dq.cycle_law [OF Nil.prems(1) c] obtain q1 where
    "steque_cycle q = Inr q1" "steque_invar q1" "steque_items q1 = post @ [g]" by blast
  with dq.front_law [OF Nil.prems(1) c] Nil.prems show ?case
    by (subst find_loop.simps) simp
next
  case (Cons h pre)
  then have c: "steque_items q = h # pre @ g # post" by simp
  from dq.cycle_law [OF Cons.prems(1) c] obtain q1 where
    q1: "steque_cycle q = Inr q1" "steque_invar q1" "steque_items q1 = (pre @ g # post) @ [h]" by blast
  have "find_loop num index i q = find_loop num index i q1"
    using dq.front_law [OF Cons.prems(1) c] q1(1) Cons.prems(4,5)
    by (subst find_loop.simps) simp
  with Cons.IH [OF q1(2), of "post @ [h]"] q1(3) Cons.prems show ?case by simp
qed

lemma find_loop_diverges:
  assumes "find_loop num index i q = Some r" and "steque_invar q" and "steque_items q \<noteq> []"
    and "\<forall>h \<in> set (steque_items q). int (seg_index h) \<noteq> index" and "i < num"
  shows False
  using assms
proof (induction rule: find_loop.raw_induct [rotated, consumes 1])
  case (1 find num index i q r)
  obtain g gs where c: "steque_items q = g # gs" using 1(4) by (cases "steque_items q") auto
  from dq.cycle_law [OF 1(3) c] obtain q1 where
    q1: "steque_cycle q = Inr q1" "steque_invar q1" "steque_items q1 = gs @ [g]" by blast
  have "find num index i q1 = Some r"
    using 1(2,5,6) dq.front_law [OF 1(3) c] q1(1) c by simp
  from 1(1) [OF this q1(2)] q1(3) 1(5,6) c show ?case by auto
qed


section \<open>The two processes\<close>

text \<open>
  The program counters name the next message or access: for the proxy the request, the answer with
  the file's size, a chunk that has been filled, its sending to the client and its acknowledgement;
  for the cache the request, the answer, the filling of a chunk, its announcement and the wait
  for the acknowledgement. A negative result of the proxy's header is passed on.
\<close>

datatype proxy_pc =
    PX_Request thread_packet
  | PX_Size thread_packet
  | PX_Data int
  | PX_Send thread_packet int
  | PX_Ack thread_packet int
  | PX_Done int

datatype cache_pc =
    CX_Wait
  | CX_Miss thread_packet segment_item
  | CX_Hit thread_packet int segment_item
  | CX_Fill thread_packet int int segment_item
  | CX_Tell thread_packet int int segment_item
  | CX_Ack int int segment_item

record 'c xfer =
  xf_proxy :: proxy_pc
  xf_cache :: cache_pc
  xf_ipc :: "thread_packet ipc"
  xf_pool :: "steque \<times> segment_item sheap"
  xf_content :: "item_t list \<times> file_env"
  xf_ctx :: 'c

definition on_msg :: "'a result option \<Rightarrow> ('a \<Rightarrow> 'b result) \<Rightarrow> 'b result option" where
  "on_msg m f = map_option (\<lambda>r. bind_res r f) m"

text \<open>
  \<open>memcpy\<close> copies \<open>MAX_REQUEST_LEN\<close> bytes from the path, whatever its length; \<open>raw\<close> is the packet
  on the stack before its fields are set.
\<close>

definition init_thread_pkt :: "thread_packet \<Rightarrow> string \<Rightarrow> segment_item \<Rightarrow> thread_packet result" where
  "init_thread_pkt raw path seg =
     bind_res (mem_slice path 0 MAX_REQUEST_LEN) (\<lambda>f.
       Inr (raw\<lparr>requested_file := f, segment_size := 0, chunk_size := 0,
                segment_index := int (seg_index seg)\<rparr>))"

text \<open>The end of a round of the loop in \<open>handle_request\<close>, with the value to return so far.\<close>

definition next_round :: "int \<Rightarrow> int \<Rightarrow> int \<Rightarrow> proxy_pc" where
  "next_round sofar fsize ret = (if sofar < fsize then PX_Data sofar else PX_Done ret)"

text \<open>
  The answer of the cache: a hit sends the header and goes on with the data, a miss sends
  \<open>FILE_NOT_FOUND\<close> and ends. The variable with the result is not initialised (\<open>junk\<close>).
\<close>

definition rx_filesize ::
  "'c gfs_calls \<Rightarrow> int \<Rightarrow> thread_packet \<Rightarrow> 'c xfer \<Rightarrow> 'c xfer result" where
  "rx_filesize api junk p s =
     (if cache_hit p \<noteq> 0 then
        bind_res (api_sendheader api (xf_ctx s) S_GF_OK (size_t_of (file_size p))) (\<lambda>(n, c).
          Inr (s\<lparr>xf_ctx := c, xf_proxy := next_round 0 (file_size p) junk\<rparr>))
      else
        bind_res (api_sendheader api (xf_ctx s) S_GF_FILE_NOT_FOUND 0) (\<lambda>(n, c).
          Inr (s\<lparr>xf_ctx := c, xf_proxy := PX_Done n\<rparr>)))"

definition proxy_step ::
  "'c gfs_calls \<Rightarrow> int \<Rightarrow> string \<Rightarrow> segment_item \<Rightarrow> 'c xfer \<Rightarrow> 'c xfer result option" where
  "proxy_step api junk ctrl_tx seg s =
     (case xf_proxy s of
        PX_Request p \<Rightarrow>
          on_msg (tx_mq ctrl_tx p sizeof_thread_packet (xf_ipc s)) (\<lambda>k.
            Inr (s\<lparr>xf_ipc := k, xf_proxy := PX_Size p\<rparr>))
      | PX_Size p0 \<Rightarrow>
          on_msg (rx_mq (mq_data_rx seg) sizeof_thread_packet (xf_ipc s)) (\<lambda>(p, k).
            rx_filesize api junk p (s\<lparr>xf_ipc := k\<rparr>))
      | PX_Data sofar \<Rightarrow>
          on_msg (rx_mq (mq_data_rx seg) sizeof_thread_packet (xf_ipc s)) (\<lambda>(p, k).
            Inr (s\<lparr>xf_ipc := k, xf_proxy := PX_Send p sofar\<rparr>))
      | PX_Send p sofar \<Rightarrow>
          Some (case ipc_shm (xf_ipc s) (seg_ptr seg) of
                  None \<Rightarrow> Inl Bad_Deref
                | Some mem \<Rightarrow>
                    bind_res (mem_slice mem 0 (size_t_of (chunk_size p))) (\<lambda>bs.
                    let (n, c) = api_send api (xf_ctx s) bs
                    in if n \<noteq> chunk_size p then Inl (Exit (-1))
                       else bind_res (int_add sofar (chunk_size p)) (\<lambda>t.
                            Inr (s\<lparr>xf_ctx := c, xf_proxy := PX_Ack p t\<rparr>))))
      | PX_Ack p sofar \<Rightarrow>
          on_msg (tx_mq (mq_data_tx seg) p sizeof_thread_packet (xf_ipc s)) (\<lambda>k.
            Inr (s\<lparr>xf_ipc := k, xf_proxy := next_round sofar (file_size p) sofar\<rparr>))
      | PX_Done r \<Rightarrow> None)"

text \<open>
  A request taken by a worker of the cache: the lookup by the C string in the packet, the segment,
  and the size of the file, which goes through a 32-bit unsigned and \<open>"%d"\<close> and \<open>atoi\<close>.
\<close>

definition take_request ::
  "ctrl_msg \<Rightarrow> thread_packet \<Rightarrow> 'c xfer \<Rightarrow> 'c xfer result option" where
  "take_request ctl p0 s =
     (let p = p0\<lparr>segment_size := ctl_segment_size ctl, chunk_size := -1\<rparr>;
          (items, f) = xf_content s
      in case bind_res (cstr_at (requested_file p) 0) (\<lambda>path. simplecache_get items (Some path)) of
           Inl e \<Rightarrow> Some (Inl e)
         | Inr fd \<Rightarrow>
             on_msg (find_segment (ctl_num_segments ctl) (segment_index p) (xf_pool s)) (\<lambda>(seg, found, q).
               case seg of
                 None \<Rightarrow> Inl (Exit (-1))
               | Some g \<Rightarrow>
                   if \<not> found then Inl (Exit (-1))
                   else if fd = -1 then
                     Inr (s\<lparr>xf_pool := q, xf_cache := CX_Miss (p\<lparr>cache_hit := 0, file_size := 0\<rparr>) g\<rparr>)
                   else
                     let (len, f1) = lseek_end f fd; w = (word_of_int len :: u32)
                     in if w = 0 then Inl (Exit (-1))
                        else Inr (s\<lparr>xf_pool := q, xf_content := (items, lseek_set f1 fd 0),
                               xf_cache := CX_Hit (p\<lparr>cache_hit := 1, file_size := sint w\<rparr>) fd g\<rparr>)))"

definition fill_chunk :: "thread_packet \<Rightarrow> int \<Rightarrow> int \<Rightarrow> segment_item \<Rightarrow> 'c xfer \<Rightarrow> 'c xfer result" where
  "fill_chunk p fd sofar seg s =
     (if sofar < file_size p then
        let offset = file_size p - sofar;
            chunk = (if offset < segment_size p then offset else segment_size p);
            (items, f) = xf_content s;
            (r, f1) = pread f fd (size_t_of chunk) (nat sofar)
        in case r of
             None \<Rightarrow> Inl (Exit (-1))
           | Some bs \<Rightarrow>
               if bs = [] then Inl (Exit (-1))
               else if segment_size p < int (length bs) then Inl (Exit (-1))
               else (case ipc_shm (xf_ipc s) (seg_ptr seg) of
                       None \<Rightarrow> Inl Bad_Deref
                     | Some mem \<Rightarrow>
                         bind_res (mem_put mem 0 bs) (\<lambda>mem1.
                           let k = xf_ipc s
                           in Inr (s\<lparr>xf_content := (items, f1),
                                 xf_ipc := k\<lparr>ipc_shm := (ipc_shm k)(seg_ptr seg \<mapsto> mem1)\<rparr>,
                                 xf_cache := CX_Tell (p\<lparr>chunk_size := int (length bs)\<rparr>) fd sofar seg\<rparr>)))
      else Inr (s\<lparr>xf_cache := CX_Wait\<rparr>))"

definition cache_step :: "ctrl_msg \<Rightarrow> string \<Rightarrow> 'c xfer \<Rightarrow> 'c xfer result option" where
  "cache_step ctl ctrl_rx s =
     (case xf_cache s of
        CX_Wait \<Rightarrow>
          (case rx_mq ctrl_rx sizeof_thread_packet (xf_ipc s) of
             None \<Rightarrow> None
           | Some (Inl e) \<Rightarrow> Some (Inl e)
           | Some (Inr (p, k)) \<Rightarrow> take_request ctl p (s\<lparr>xf_ipc := k\<rparr>))
      | CX_Miss p seg \<Rightarrow>
          on_msg (tx_mq (mq_data_tx seg) p sizeof_thread_packet (xf_ipc s)) (\<lambda>k.
            Inr (s\<lparr>xf_ipc := k, xf_cache := CX_Wait\<rparr>))
      | CX_Hit p fd seg \<Rightarrow>
          on_msg (tx_mq (mq_data_tx seg) p sizeof_thread_packet (xf_ipc s)) (\<lambda>k.
            Inr (s\<lparr>xf_ipc := k, xf_cache := CX_Fill p fd 0 seg\<rparr>))
      | CX_Fill p fd sofar seg \<Rightarrow> Some (fill_chunk p fd sofar seg s)
      | CX_Tell p fd sofar seg \<Rightarrow>
          on_msg (tx_mq (mq_data_tx seg) p sizeof_thread_packet (xf_ipc s)) (\<lambda>k.
            bind_res (int_add sofar (chunk_size p)) (\<lambda>t.
            Inr (s\<lparr>xf_ipc := k, xf_cache := CX_Ack fd t seg\<rparr>)))
      | CX_Ack fd sofar seg \<Rightarrow>
          on_msg (rx_mq (mq_data_rx seg) sizeof_thread_packet (xf_ipc s)) (\<lambda>(p, k).
            Inr (s\<lparr>xf_ipc := k, xf_cache := CX_Fill p fd sofar seg\<rparr>)))"

datatype process = Proxy | Cache

definition xfer_act ::
  "'c gfs_calls \<Rightarrow> int \<Rightarrow> ctrl_msg \<Rightarrow> string \<Rightarrow> segment_item \<Rightarrow> process \<Rightarrow> 'c xfer \<Rightarrow>
     'c xfer result option" where
  "xfer_act api junk ctl ctrl seg t s =
     (case t of Proxy \<Rightarrow> proxy_step api junk ctrl seg s | Cache \<Rightarrow> cache_step ctl ctrl s)"

abbreviation run_xfer ::
  "'c gfs_calls \<Rightarrow> int \<Rightarrow> ctrl_msg \<Rightarrow> string \<Rightarrow> segment_item \<Rightarrow> process list \<Rightarrow> 'c xfer \<Rightarrow>
     'c xfer result" where
  "run_xfer api junk ctl ctrl seg \<equiv> run_sched (xfer_act api junk ctl ctrl seg)"

text \<open>\<open>handle_request\<close> against an idle worker of the cache.\<close>

definition handle_request ::
  "'c gfs_calls \<Rightarrow> thread_packet \<Rightarrow> int \<Rightarrow> ctrl_msg \<Rightarrow> string \<Rightarrow> segment_item \<Rightarrow> string \<Rightarrow>
   process list \<Rightarrow> thread_packet ipc \<Rightarrow> steque \<times> segment_item sheap \<Rightarrow> item_t list \<times> file_env \<Rightarrow>
   'c \<Rightarrow> 'c xfer result" where
  "handle_request api raw junk ctl ctrl seg path sched k pool content c =
     bind_res (init_thread_pkt raw path seg) (\<lambda>p.
       run_xfer api junk ctl ctrl seg sched
         \<lparr>xf_proxy = PX_Request p, xf_cache = CX_Wait, xf_ipc = k, xf_pool = pool,
          xf_content = content, xf_ctx = c\<rparr>)"

end
