(* ===== verification/Cache_Transfer_Correct.thy ===== *)
theory Cache_Transfer_Correct
  imports Cache_Transfer
begin

text \<open>
  The transfer of \<open>Cache_Transfer\<close> is right for every interleaving: the phases a transfer goes
  through, kept by every step of either process, with a measure that every step decreases.
\<close>

section \<open>Queues and memory of one segment\<close>

definition ctrl_name :: string where "ctrl_name = ''/control_proxy_cache''"

definition chan :: "'m ipc \<Rightarrow> string \<Rightarrow> 'm list \<Rightarrow> bool" where
  "chan k d ms \<longleftrightarrow>
     ipc_queues k d = Some \<lparr>mq_msgsize = sizeof_thread_packet, mq_maxmsg = 10, mq_msgs = ms\<rparr>"

abbreviation proxy_seg :: "nat \<Rightarrow> segment_item" where "proxy_seg i \<equiv> segment_of True i"
abbreviation cache_seg :: "nat \<Rightarrow> segment_item" where "cache_seg i \<equiv> segment_of False i"

definition c2p_name :: "nat \<Rightarrow> string" where "c2p_name i = cache_prefix @ dec_of_nat i"
definition p2c_name :: "nat \<Rightarrow> string" where "p2c_name i = proxy_prefix @ dec_of_nat i"
definition mem_name :: "nat \<Rightarrow> string" where "mem_name i = shm_path @ dec_of_nat i"

lemma segment_names [simp]:
  "seg_index (segment_of b i) = i" "seg_ptr (segment_of b i) = mem_name i"
  "mq_data_rx (proxy_seg i) = c2p_name i" "mq_data_tx (proxy_seg i) = p2c_name i"
  "mq_data_tx (cache_seg i) = c2p_name i" "mq_data_rx (cache_seg i) = p2c_name i"
  by (simp_all add: segment_of_def Let_def c2p_name_def p2c_name_def mem_name_def)

lemma names_distinct [simp]:
  "c2p_name i \<noteq> p2c_name i" "c2p_name i \<noteq> ctrl_name" "p2c_name i \<noteq> ctrl_name"
  "p2c_name i \<noteq> c2p_name i" "ctrl_name \<noteq> c2p_name i" "ctrl_name \<noteq> p2c_name i"
  by (simp_all add: c2p_name_def p2c_name_def ctrl_name_def cache_prefix_def proxy_prefix_def)

text \<open>The messages on the three queues and the bytes of the segment.\<close>

definition chans ::
  "nat \<Rightarrow> nat \<Rightarrow> thread_packet ipc \<Rightarrow> thread_packet list \<Rightarrow> thread_packet list \<Rightarrow> thread_packet list \<Rightarrow>
     string \<Rightarrow> bool" where
  "chans i sz k cm c2p p2c m \<longleftrightarrow>
     chan k ctrl_name cm \<and> chan k (c2p_name i) c2p \<and> chan k (p2c_name i) p2c \<and>
     ipc_shm k (mem_name i) = Some m \<and> length m = sz"

lemma tx_chans:
  assumes "chans i sz k cm c2p p2c m"
  shows "length cm < 10 \<Longrightarrow> \<exists>k'. tx_mq ctrl_name p sizeof_thread_packet k = Some (Inr k') \<and>
      chans i sz k' (cm @ [p]) c2p p2c m"
    and "length c2p < 10 \<Longrightarrow> \<exists>k'. tx_mq (c2p_name i) p sizeof_thread_packet k = Some (Inr k') \<and>
      chans i sz k' cm (c2p @ [p]) p2c m"
    and "length p2c < 10 \<Longrightarrow> \<exists>k'. tx_mq (p2c_name i) p sizeof_thread_packet k = Some (Inr k') \<and>
      chans i sz k' cm c2p (p2c @ [p]) m"
  using assms by (auto simp: chans_def chan_def tx_mq_def)

lemma rx_chans:
  assumes "chans i sz k cm c2p p2c m"
  shows "cm = [] \<Longrightarrow> rx_mq ctrl_name sizeof_thread_packet k = None"
    and "c2p = [] \<Longrightarrow> rx_mq (c2p_name i) sizeof_thread_packet k = None"
    and "p2c = [] \<Longrightarrow> rx_mq (p2c_name i) sizeof_thread_packet k = None"
    and "cm = p # ps \<Longrightarrow> \<exists>k'. rx_mq ctrl_name sizeof_thread_packet k = Some (Inr (p, k')) \<and>
      chans i sz k' ps c2p p2c m"
    and "c2p = p # ps \<Longrightarrow> \<exists>k'. rx_mq (c2p_name i) sizeof_thread_packet k = Some (Inr (p, k')) \<and>
      chans i sz k' cm ps p2c m"
    and "p2c = p # ps \<Longrightarrow> \<exists>k'. rx_mq (p2c_name i) sizeof_thread_packet k = Some (Inr (p, k')) \<and>
      chans i sz k' cm c2p ps m"
  using assms by (auto simp: chans_def chan_def rx_mq_def)

lemma chans_mem: "chans i sz k cm c2p p2c m \<Longrightarrow> ipc_shm k (mem_name i) = Some m"
  by (simp add: chans_def)

lemma chans_fill:
  "chans i sz k cm c2p p2c m \<Longrightarrow> length m' = sz \<Longrightarrow>
     chans i sz (k\<lparr>ipc_shm := (ipc_shm k)(mem_name i \<mapsto> m')\<rparr>) cm c2p p2c m'"
  by (simp add: chans_def chan_def)

section \<open>The phases of a transfer\<close>

text \<open>
  The packets of a transfer differ only in the chunk size. A chunk \<open>n\<close> at offset \<open>j\<close> is in
  the segment from its filling until the proxy has sent it.
\<close>

definition hit_packet :: "thread_packet \<Rightarrow> nat \<Rightarrow> string \<Rightarrow> int \<Rightarrow> thread_packet" where
  "hit_packet p0 sz D n =
     p0\<lparr>segment_size := int sz, chunk_size := n, cache_hit := 1, file_size := int (length D)\<rparr>"

lemma hit_packet_simps [simp]:
  "segment_size (hit_packet p0 sz D n) = int sz" "chunk_size (hit_packet p0 sz D n) = n"
  "cache_hit (hit_packet p0 sz D n) = 1" "file_size (hit_packet p0 sz D n) = int (length D)"
  "(hit_packet p0 sz D n)\<lparr>chunk_size := n'\<rparr> = hit_packet p0 sz D n'"
  by (simp_all add: hit_packet_def)

definition chunk_at :: "string \<Rightarrow> nat \<Rightarrow> nat \<Rightarrow> string \<Rightarrow> bool" where
  "chunk_at D j n m \<longleftrightarrow> 0 < n \<and> j + n \<le> length D \<and> n \<le> length m \<and> take n m = take n (drop j D)"

text \<open>The proxy before the next chunk: it has not read the answer yet, or it has sent \<open>j\<close> bytes.\<close>

inductive awaiting ::
  "thread_packet \<Rightarrow> string \<Rightarrow> string \<Rightarrow> nat \<Rightarrow> proxy_pc \<Rightarrow> thread_packet list \<Rightarrow> nat \<Rightarrow> string \<Rightarrow> bool"
  for p0 H D sz where
  answer: "awaiting p0 H D sz (PX_Size p0) [hit_packet p0 sz D (-1)] 0 []"
| data: "j < length D \<Longrightarrow> awaiting p0 H D sz (PX_Data (int j)) [] j (H @ take j D)"

inductive phase ::
  "thread_packet \<Rightarrow> string \<Rightarrow> string \<Rightarrow> nat \<Rightarrow> int \<Rightarrow> nat \<Rightarrow> proxy_pc \<Rightarrow> cache_pc \<Rightarrow> thread_packet list \<Rightarrow>
     thread_packet list \<Rightarrow> thread_packet list \<Rightarrow> string \<Rightarrow> string \<Rightarrow> bool"
  for p0 H D sz fd i where
  request: "phase p0 H D sz fd i (PX_Request p0) CX_Wait [] [] [] m []"
| asked: "phase p0 H D sz fd i (PX_Size p0) CX_Wait [p0] [] [] m []"
| found: "phase p0 H D sz fd i (PX_Size p0) (CX_Hit (hit_packet p0 sz D (-1)) fd (cache_seg i)) [] [] [] m []"
| fill: "awaiting p0 H D sz P c2p j sent \<Longrightarrow>
    phase p0 H D sz fd i P (CX_Fill (hit_packet p0 sz D c) fd (int j) (cache_seg i)) [] c2p [] m sent"
| tell: "awaiting p0 H D sz P c2p j sent \<Longrightarrow> chunk_at D j n m \<Longrightarrow>
    phase p0 H D sz fd i P (CX_Tell (hit_packet p0 sz D (int n)) fd (int j) (cache_seg i)) [] c2p [] m sent"
| told: "awaiting p0 H D sz P c2p j sent \<Longrightarrow> chunk_at D j n m \<Longrightarrow>
    phase p0 H D sz fd i P (CX_Ack fd (int (j + n)) (cache_seg i)) []
      (c2p @ [hit_packet p0 sz D (int n)]) [] m sent"
| got: "chunk_at D j n m \<Longrightarrow>
    phase p0 H D sz fd i (PX_Send (hit_packet p0 sz D (int n)) (int j))
      (CX_Ack fd (int (j + n)) (cache_seg i)) [] [] [] m (H @ take j D)"
| sent: "0 < j \<Longrightarrow> j \<le> length D \<Longrightarrow>
    phase p0 H D sz fd i (PX_Ack (hit_packet p0 sz D c) (int j)) (CX_Ack fd (int j) (cache_seg i))
      [] [] [] m (H @ take j D)"
| acked: "0 < j \<Longrightarrow> j \<le> length D \<Longrightarrow>
    phase p0 H D sz fd i (next_round (int j) (int (length D)) (int j)) (CX_Ack fd (int j) (cache_seg i))
      [] [] [hit_packet p0 sz D c] m (H @ take j D)"
| last: "phase p0 H D sz fd i (PX_Done (int (length D)))
      (CX_Fill (hit_packet p0 sz D c) fd (int (length D)) (cache_seg i)) [] [] [] m (H @ D)"
| finished: "phase p0 H D sz fd i (PX_Done (int (length D))) CX_Wait [] [] [] m (H @ D)"

fun proxy_weight :: "string \<Rightarrow> proxy_pc \<Rightarrow> nat" where
  "proxy_weight D (PX_Request p) = 3 * length D + 2"
| "proxy_weight D (PX_Size p) = 3 * length D + 1"
| "proxy_weight D (PX_Data j) = 3 * (length D - nat j)"
| "proxy_weight D (PX_Send p j) = 3 * (length D - nat j) - 1"
| "proxy_weight D (PX_Ack p j) = 3 * (length D - nat j) + 1"
| "proxy_weight D (PX_Done r) = 0"

fun cache_weight :: "string \<Rightarrow> bool \<Rightarrow> cache_pc \<Rightarrow> nat" where
  "cache_weight D ended CX_Wait = (if ended then 0 else 3 * length D + 3)"
| "cache_weight D ended (CX_Miss p g) = 1"
| "cache_weight D ended (CX_Hit p fd g) = 3 * length D + 2"
| "cache_weight D ended (CX_Fill p fd j g) = 3 * (length D - nat j) + 1"
| "cache_weight D ended (CX_Tell p fd j g) = 3 * (length D - nat j)"
| "cache_weight D ended (CX_Ack fd j g) = 3 * (length D - nat j) + 2"

definition xfer_weight :: "string \<Rightarrow> 'c xfer \<Rightarrow> nat" where
  "xfer_weight D s = proxy_weight D (xf_proxy s) +
     cache_weight D (\<exists>r. xf_proxy s = PX_Done r) (xf_cache s)"

text \<open>What a transfer relies on in the cache: the table entry, the file, and the segment in the pool.\<close>

definition cache_has :: "ctrl_msg \<Rightarrow> nat \<Rightarrow> nat \<Rightarrow> string \<Rightarrow> int \<Rightarrow> string \<Rightarrow>
    steque \<times> segment_item sheap \<Rightarrow> item_t list \<times> file_env \<Rightarrow> bool" where
  "cache_has ctl i sz nm fd D pool = (\<lambda>(items, f).
     steque_invar pool \<and> cache_seg i \<in> set (steque_items pool) \<and>
     (\<forall>g \<in> set (steque_items pool). \<exists>j. g = cache_seg j) \<and>
     0 < ctl_num_segments ctl \<and> ctl_segment_size ctl = int sz \<and> 0 < sz \<and> sz < 2 ^ 31 \<and>
     table_ok items \<and> NUL \<notin> set nm \<and> distinct (List.map fst (table_entries items)) \<and>
     map_of (table_entries items) nm = Some fd \<and> fd \<noteq> -1 \<and> fdata f fd = D \<and> disk_ok f \<and>
     D \<noteq> [] \<and> length D < 2 ^ 31)"


definition xfer_ok ::
  "('c \<Rightarrow> string) \<Rightarrow> ('c \<Rightarrow> bool) \<Rightarrow> string \<Rightarrow> thread_packet \<Rightarrow> string \<Rightarrow> ctrl_msg \<Rightarrow> nat \<Rightarrow> nat \<Rightarrow> string \<Rightarrow>
     int \<Rightarrow> string \<Rightarrow> 'c xfer \<Rightarrow> bool" where
  "xfer_ok wire ready w0 p0 H ctl i sz nm fd D s \<longleftrightarrow>
     (\<exists>cm c2p p2c m sent.
        phase p0 H D sz fd i (xf_proxy s) (xf_cache s) cm c2p p2c m sent \<and>
        chans i sz (xf_ipc s) cm c2p p2c m \<and>
        cache_has ctl i sz nm fd D (xf_pool s) (xf_content s) \<and>
        wire (xf_ctx s) = w0 @ sent \<and> ready (xf_ctx s))"

lemma xfer_okI:
  assumes "phase p0 H D sz fd i (xf_proxy s) (xf_cache s) cm c2p p2c m sent"
    and "chans i sz (xf_ipc s) cm c2p p2c m" and "cache_has ctl i sz nm fd D (xf_pool s) (xf_content s)"
    and "wire (xf_ctx s) = w0 @ sent" and "ready (xf_ctx s)"
  shows "xfer_ok wire ready w0 p0 H ctl i sz nm fd D s"
  unfolding xfer_ok_def using assms by blast

definition xfer_progress ::
  "('c \<Rightarrow> string) \<Rightarrow> ('c \<Rightarrow> bool) \<Rightarrow> string \<Rightarrow> thread_packet \<Rightarrow> string \<Rightarrow> ctrl_msg \<Rightarrow> nat \<Rightarrow> nat \<Rightarrow> string \<Rightarrow>
     int \<Rightarrow> string \<Rightarrow> 'c xfer \<Rightarrow> 'c xfer result \<Rightarrow> bool" where
  "xfer_progress wire ready w0 p0 H ctl i sz nm fd D s r \<longleftrightarrow>
     (\<exists>s'. r = Inr s' \<and> xfer_ok wire ready w0 p0 H ctl i sz nm fd D s' \<and> xfer_weight D s' < xfer_weight D s)"

lemma xfer_progressI:
  "xfer_ok wire ready w0 p0 H ctl i sz nm fd D s' \<Longrightarrow> xfer_weight D s' < xfer_weight D s \<Longrightarrow>
     xfer_progress wire ready w0 p0 H ctl i sz nm fd D s (Inr s')"
  by (simp add: xfer_progress_def)

context gfs_api
begin

lemma proxy_answer:
  assumes "wire c = w0" and "ready c" and "length D < 2 ^ 31" and "xf_ctx s = c" and "D \<noteq> []"
  shows "\<exists>c'. rx_filesize api junk (hit_packet p0 sz D n) s =
      Inr (s\<lparr>xf_ctx := c', xf_proxy := PX_Data 0\<rparr>) \<and>
    wire c' = w0 @ header_line ''OK'' (length D) \<and> ready c'"
proof -
  note n = size_t_of_nat [OF assms(3)]
  have b: "length D < 2 ^ 64" using assms(3) by simp
  from header_ready [OF assms(2) gfs_strstatus_known(1) b] obtain c1 where
    h: "api_sendheader api c S_GF_OK (length D) = Inr (int (length (header_line ''OK'' (length D))), c1)"
      "ready c1" by blast
  with header_law [OF gfs_strstatus_known(1) b, of c] assms(1) have
    "wire c1 = w0 @ header_line ''OK'' (length D)" by simp
  with h assms(4,5) show ?thesis by (intro exI [of _ c1]) (simp add: rx_filesize_def n next_round_def)
qed

lemma proxy_sends_chunk:
  assumes "chunk_at D j n m" and "ready c" and "xf_ctx s = c" and "ipc_shm (xf_ipc s) (mem_name i) = Some m"
    and "xf_proxy s = PX_Send (hit_packet p0 sz D (int n)) (int j)" and "length D < 2 ^ 31"
  shows "\<exists>c'. proxy_step api junk ctrl_name (proxy_seg i) s =
      Some (Inr (s\<lparr>xf_ctx := c', xf_proxy := PX_Ack (hit_packet p0 sz D (int n)) (int (j + n))\<rparr>)) \<and>
    wire c' = wire c @ take n (drop j D) \<and> ready c'"
proof -
  let ?bs = "take n (drop j D)"
  have n: "0 < n" "j + n \<le> length D" "n \<le> length m" "take n m = ?bs" using assms(1) by (auto simp: chunk_at_def)
  have "size_t_of (int n) = n" using n(2) assms(6) by (simp add: size_t_of_nat)
  then have sl: "mem_slice m 0 (size_t_of (int n)) = Inr ?bs" using n by (simp add: mem_slice_def)
  have len: "length ?bs = n" using n(2) by simp
  from send_ready [OF assms(2), of ?bs] obtain c' where
    c: "api_send api c ?bs = (int n, c')" "ready c'" using len by auto
  from send_law [OF c(1)] len have "wire c' = wire c @ ?bs" by simp
  moreover have "int_add (int j) (int n) = Inr (int (j + n))"
    using n(2) assms(6) by (simp add: int_add_def int_max_def)
  ultimately show ?thesis
    using assms(3-5) sl c by (intro exI [of _ c']) (simp add: proxy_step_def)
qed

lemma proxy_receives_answer:
  assumes "chans i sz (xf_ipc s) cm (hit_packet p0 sz D n # rest) p2c m" and "xf_proxy s = PX_Size p"
    and "wire (xf_ctx s) = w0" and "ready (xf_ctx s)" and "length D < 2 ^ 31" and "D \<noteq> []"
  shows "\<exists>s'. proxy_step api junk ctrl_name (proxy_seg i) s = Some (Inr s') \<and> xf_proxy s' = PX_Data 0 \<and>
    xf_cache s' = xf_cache s \<and> xf_pool s' = xf_pool s \<and> xf_content s' = xf_content s \<and>
    chans i sz (xf_ipc s') cm rest p2c m \<and>
    wire (xf_ctx s') = w0 @ header_line ''OK'' (length D) \<and> ready (xf_ctx s')"
proof -
  from rx_chans(5) [OF assms(1), of "hit_packet p0 sz D n" rest] obtain k where
    k: "rx_mq (c2p_name i) sizeof_thread_packet (xf_ipc s) = Some (Inr (hit_packet p0 sz D n, k))"
      "chans i sz k cm rest p2c m" by auto
  from proxy_answer [OF assms(3,4,5) _ assms(6), of "s\<lparr>xf_ipc := k\<rparr>" junk p0 sz n]
  obtain c where c: "rx_filesize api junk (hit_packet p0 sz D n) (s\<lparr>xf_ipc := k\<rparr>) =
      Inr (s\<lparr>xf_ipc := k, xf_ctx := c, xf_proxy := PX_Data 0\<rparr>)"
      "wire c = w0 @ header_line ''OK'' (length D)" "ready c" by auto
  then show ?thesis
    using assms(2) k
    by (intro exI [of _ "s\<lparr>xf_ipc := k, xf_ctx := c, xf_proxy := PX_Data 0\<rparr>"])
      (simp add: proxy_step_def on_msg_def)
qed

lemma proxy_keeps:
  assumes ok: "xfer_ok wire ready w0 p0 (header_line ''OK'' (length D)) ctl i sz nm fd D s"
    and step: "proxy_step api junk ctrl_name (proxy_seg i) s = Some r"
  shows "xfer_progress wire ready w0 p0 (header_line ''OK'' (length D)) ctl i sz nm fd D s r"
proof -
  let ?H = "header_line ''OK'' (length D)"
  from ok obtain cm c2p p2c m sent where
    ph: "phase p0 ?H D sz fd i (xf_proxy s) (xf_cache s) cm c2p p2c m sent" and
    ch: "chans i sz (xf_ipc s) cm c2p p2c m" and
    has: "cache_has ctl i sz nm fd D (xf_pool s) (xf_content s)" and
    w: "wire (xf_ctx s) = w0 @ sent" and rd: "ready (xf_ctx s)"
    unfolding xfer_ok_def by blast
  have D: "D \<noteq> []" "length D < 2 ^ 31" using has by (auto simp: cache_has_def split: prod.splits)
  note ans = proxy_receives_answer [where junk = junk, OF _ _ _ rd D(2,1)]
  have aw: ?thesis
    if a: "awaiting p0 ?H D sz P c2p0 j sent" and P: "xf_proxy s = P" and c2p: "c2p = c2p0 @ rest"
      and rest: "rest = [] \<or> rest = [hit_packet p0 sz D (int n)] \<and> chunk_at D j n m \<and>
        xf_cache s = CX_Ack fd (int (j + n)) (cache_seg i) \<and> cm = [] \<and> p2c = []"
      and nxt: "phase p0 ?H D sz fd i (PX_Data 0) (xf_cache s) cm rest p2c m ?H \<or> P \<noteq> PX_Size p0"
    for P c2p0 j rest n
    using a
  proof cases
    case answer
    then have "chans i sz (xf_ipc s) cm (hit_packet p0 sz D (-1) # rest) p2c m" using ch c2p by simp
    from ans [OF this, of p0 w0] answer P w step obtain s' where
      s': "r = Inr s'" "xf_proxy s' = PX_Data 0" "xf_cache s' = xf_cache s" "xf_pool s' = xf_pool s"
        "xf_content s' = xf_content s" "chans i sz (xf_ipc s') cm rest p2c m"
        "wire (xf_ctx s') = w0 @ ?H" "ready (xf_ctx s')" by auto
    have "xfer_ok wire ready w0 p0 ?H ctl i sz nm fd D s'"
      by (rule xfer_okI [where sent = ?H]) (use s' nxt answer has in auto)
    moreover have "xfer_weight D s' < xfer_weight D s"
      using s'(2,3) P answer by (simp add: xfer_weight_def)
    ultimately show ?thesis using s'(1) by (auto intro: xfer_progressI)
  next
    case data
    show ?thesis
    proof (cases "rest = []")
      case True
      with rx_chans(2) [OF ch] c2p data step P show ?thesis
        by (simp add: proxy_step_def on_msg_def)
    next
      case False
      with rest have r: "rest = [hit_packet p0 sz D (int n)]" "chunk_at D j n m"
        "xf_cache s = CX_Ack fd (int (j + n)) (cache_seg i)" "cm = []" "p2c = []" by auto
      from rx_chans(5) [OF ch] c2p data r obtain k where
        k: "rx_mq (c2p_name i) sizeof_thread_packet (xf_ipc s) = Some (Inr (hit_packet p0 sz D (int n), k))"
          "chans i sz k cm [] p2c m" by auto
      let ?s = "s\<lparr>xf_ipc := k, xf_proxy := PX_Send (hit_packet p0 sz D (int n)) (int j)\<rparr>"
      have "r = Inr ?s" using step k(1) P data by (simp add: proxy_step_def on_msg_def)
      moreover have "xfer_ok wire ready w0 p0 ?H ctl i sz nm fd D ?s"
        by (rule xfer_okI [where sent = "?H @ take j D"])
          (use k r has w rd data phase.got [OF r(2)] in auto)
      moreover have "xfer_weight D ?s < xfer_weight D s"
        using P data by (simp add: xfer_weight_def)
      ultimately show ?thesis by (auto intro: xfer_progressI)
    qed
  qed
  show ?thesis
    using ph
  proof cases
    case request
    from tx_chans(1) [OF ch, of p0] request obtain k where
      k: "tx_mq ctrl_name p0 sizeof_thread_packet (xf_ipc s) = Some (Inr k)"
        "chans i sz k [p0] [] [] m" by auto
    let ?s = "s\<lparr>xf_ipc := k, xf_proxy := PX_Size p0\<rparr>"
    have "r = Inr ?s" using step k(1) request by (simp add: proxy_step_def on_msg_def)
    moreover have "xfer_ok wire ready w0 p0 ?H ctl i sz nm fd D ?s"
      by (rule xfer_okI [where sent = "[]"]) (use k request has w rd phase.asked in auto)
    moreover have "xfer_weight D ?s < xfer_weight D s"
      using request by (simp add: xfer_weight_def)
    ultimately show ?thesis by (auto intro: xfer_progressI)
  next
    case asked
    with rx_chans(2) [OF ch] step show ?thesis by (simp add: proxy_step_def on_msg_def)
  next
    case found
    with rx_chans(2) [OF ch] step show ?thesis by (simp add: proxy_step_def on_msg_def)
  next
    case (fill j c)
    have "phase p0 ?H D sz fd i (PX_Data 0) (xf_cache s) cm [] p2c m ?H"
      if "xf_proxy s = PX_Size p0"
    proof -
      have "j = 0" using fill(4) that by cases auto
      with fill phase.fill [OF awaiting.data [of 0 D p0 ?H sz]] D(1) show ?thesis by simp
    qed
    then show ?thesis using aw [OF fill(4) refl, of "[]"] fill by blast
  next
    case (tell j n)
    have "phase p0 ?H D sz fd i (PX_Data 0) (xf_cache s) cm [] p2c m ?H"
      if "xf_proxy s = PX_Size p0"
    proof -
      have "j = 0" using tell(4) that by cases auto
      with tell phase.tell [OF awaiting.data [of 0 D p0 ?H sz]] D(1) show ?thesis by simp
    qed
    then show ?thesis using aw [OF tell(4) refl, of "[]"] tell by blast
  next
    case (told c2p0 j n)
    have "phase p0 ?H D sz fd i (PX_Data 0) (xf_cache s) cm [hit_packet p0 sz D (int n)] p2c m ?H"
      if "xf_proxy s = PX_Size p0"
    proof -
      have "j = 0" using told(5) that by cases auto
      with told phase.told [OF awaiting.data [of 0 D p0 ?H sz]] D(1) show ?thesis by simp
    qed
    then show ?thesis using aw [OF told(5) refl, of "[hit_packet p0 sz D (int n)]" n] told by blast
  next
    case (got j n)
    have P: "xf_proxy s = PX_Send (hit_packet p0 sz D (int n)) (int j)" using got by simp
    from proxy_sends_chunk [OF got(7) rd refl chans_mem [OF ch] P D(2)]
    obtain c where c: "proxy_step api junk ctrl_name (proxy_seg i) s =
        Some (Inr (s\<lparr>xf_ctx := c, xf_proxy := PX_Ack (hit_packet p0 sz D (int n)) (int (j + n))\<rparr>))"
      "wire c = wire (xf_ctx s) @ take n (drop j D)" "ready c" by blast
    let ?s = "s\<lparr>xf_ctx := c, xf_proxy := PX_Ack (hit_packet p0 sz D (int n)) (int (j + n))\<rparr>"
    have jn: "0 < j + n" "j + n \<le> length D" "0 < n" using got(7) by (auto simp: chunk_at_def)
    have "r = Inr ?s" using step c(1) by simp
    moreover have "xfer_ok wire ready w0 p0 ?H ctl i sz nm fd D ?s"
      by (rule xfer_okI [where sent = "?H @ take (j + n) D"])
        (use c got has w ch phase.sent [OF jn(1,2)] in \<open>auto simp: take_add\<close>)
    moreover have "xfer_weight D ?s < xfer_weight D s"
      using got(1) jn by (simp add: xfer_weight_def)
    ultimately show ?thesis by (auto intro: xfer_progressI)
  next
    case (sent j c)
    from tx_chans(3) [OF ch, of "hit_packet p0 sz D c"] sent obtain k where
      k: "tx_mq (p2c_name i) (hit_packet p0 sz D c) sizeof_thread_packet (xf_ipc s) = Some (Inr k)"
        "chans i sz k [] [] [hit_packet p0 sz D c] m" by auto
    let ?s = "s\<lparr>xf_ipc := k, xf_proxy := next_round (int j) (int (length D)) (int j)\<rparr>"
    have "r = Inr ?s" using step k(1) sent by (simp add: proxy_step_def on_msg_def)
    moreover have "xfer_ok wire ready w0 p0 ?H ctl i sz nm fd D ?s"
      by (rule xfer_okI [where sent = "?H @ take j D"])
        (use k sent has w rd phase.acked [of j D p0 ?H sz fd i c m] in auto)
    moreover have "xfer_weight D ?s < xfer_weight D s"
      using sent(1,2) by (simp add: xfer_weight_def next_round_def)
    ultimately show ?thesis by (auto intro: xfer_progressI)
  next
    case (acked j c)
    then show ?thesis
    proof (cases "j < length D")
      case True
      with acked(1) rx_chans(2) [OF ch] acked step show ?thesis
        by (simp add: proxy_step_def on_msg_def next_round_def)
    next
      case False
      with acked step show ?thesis by (simp add: proxy_step_def next_round_def)
    qed
  next
    case (last c)
    with step show ?thesis by (simp add: proxy_step_def)
  next
    case finished
    with step show ?thesis by (simp add: proxy_step_def)
  qed
qed

end

section \<open>The steps of the cache\<close>

lemma awaiting_facts:
  "awaiting p0 H D sz P c2p j sent \<Longrightarrow> D \<noteq> [] \<Longrightarrow> j < length D \<and> length c2p < 2"
  by (induction rule: awaiting.induct) auto

lemma find_cache_seg:
  assumes "steque_invar pool" and "cache_seg i \<in> set (steque_items pool)"
    and "\<forall>g \<in> set (steque_items pool). \<exists>j. g = cache_seg j" and "0 < num"
  shows "\<exists>q. find_segment num (int i) pool = Some (Inr (Some (cache_seg i), True, q)) \<and>
    steque_invar q \<and> set (steque_items q) = set (steque_items pool)"
proof -
  from assms(2) obtain pre post where
    split: "steque_items pool = pre @ cache_seg i # post" "cache_seg i \<notin> set pre"
    by (meson split_list_first)
  have "int (seg_index h) \<noteq> int i" if "h \<in> set pre" for h
  proof -
    have "h \<in> set (steque_items pool)" using split(1) that by simp
    with assms(3) obtain j where "h = cache_seg j" by blast
    with split(2) that show ?thesis by auto
  qed
  with find_loop_found [OF assms(1) split(1), of "int i" 0 num] assms(4) split(1) show ?thesis
    by (auto simp: find_segment_def)
qed

definition asks :: "thread_packet \<Rightarrow> nat \<Rightarrow> string \<Rightarrow> bool" where
  "asks p0 i nm \<longleftrightarrow> cstr_at (requested_file p0) 0 = Inr nm \<and> segment_index p0 = int i"

lemma cache_hit_step:
  assumes has: "cache_has ctl i sz nm fd D (xf_pool s) (xf_content s)" and p: "asks p0 i nm"
  shows "\<exists>q content. take_request ctl p0 s = Some (Inr (s\<lparr>xf_pool := q, xf_content := content,
      xf_cache := CX_Hit (hit_packet p0 sz D (-1)) fd (cache_seg i)\<rparr>)) \<and>
    cache_has ctl i sz nm fd D q content \<and> set (steque_items q) = set (steque_items (xf_pool s)) \<and>
    fst content = fst (xf_content s) \<and> fdata (snd content) = fdata (snd (xf_content s)) \<and>
    disk_ok (snd content)"
proof -
  obtain items f where c: "xf_content s = (items, f)" by fastforce
  from has have h: "table_ok items" "NUL \<notin> set nm" "distinct (List.map fst (table_entries items))"
    "map_of (table_entries items) nm = Some fd" "fd \<noteq> -1" "fdata f fd = D" "D \<noteq> []"
    "length D < 2 ^ 31" "ctl_segment_size ctl = int sz"
    by (auto simp: cache_has_def c)
  have get: "simplecache_get items (Some nm) = Inr fd"
    using sc.get_lookup [OF h(1-3)] h(4) by simp
  have pool: "steque_invar (xf_pool s)" "cache_seg i \<in> set (steque_items (xf_pool s))"
    "\<forall>g \<in> set (steque_items (xf_pool s)). \<exists>j. g = cache_seg j" "0 < ctl_num_segments ctl"
    using has by (auto simp: cache_has_def c)
  from find_cache_seg [OF pool] obtain q where
    q: "find_segment (ctl_num_segments ctl) (int i) (xf_pool s) = Some (Inr (Some (cache_seg i), True, q))"
      "steque_invar q" "set (steque_items q) = set (steque_items (xf_pool s))" by blast
  have w: "sint (word_of_int (int (length D)) :: u32) = int (length D)"
    using u32_sint [OF h(8)] by simp
  moreover have "word_of_int (int (length D)) \<noteq> (0 :: u32)"
  proof
    assume "word_of_int (int (length D)) = (0 :: u32)"
    with w have "int (length D) = sint (0 :: u32)" by (simp only:)
    with h(7) show False by simp
  qed
  ultimately have "take_request ctl p0 s = Some (Inr (s\<lparr>xf_pool := q,
      xf_content := (items, lseek_set (lseek_set f fd (length D)) fd 0),
      xf_cache := CX_Hit (hit_packet p0 sz D (-1)) fd (cache_seg i)\<rparr>))"
    using p get q(1) c h(5,6,9)
    by (simp add: take_request_def asks_def Let_def on_msg_def lseek_end_def hit_packet_def)
  moreover have "cache_has ctl i sz nm fd D q (items, lseek_set (lseek_set f fd (length D)) fd 0)"
    using has q(2,3) by (simp add: cache_has_def c)
  moreover have "disk_ok (lseek_set (lseek_set f fd (length D)) fd 0)"
    using has by (simp add: cache_has_def c)
  ultimately show ?thesis using q(3) c by (intro exI [of _ q] exI) (auto intro!: conjI)
qed

lemma pread_length: "pread f fd n off = (Some bs, f') \<Longrightarrow> length bs \<le> n"
  by (auto simp: pread_def Let_def split: list.splits if_splits)

lemma cache_fill_step:
  assumes has: "cache_has ctl i sz nm fd D (xf_pool s) (xf_content s)" and j: "j < length D"
    and ch: "chans i sz (xf_ipc s) cm c2p p2c m"
  shows "\<exists>n k m' content. fill_chunk (hit_packet p0 sz D c) fd (int j) (cache_seg i) s =
      Inr (s\<lparr>xf_content := content, xf_ipc := k,
             xf_cache := CX_Tell (hit_packet p0 sz D (int n)) fd (int j) (cache_seg i)\<rparr>) \<and>
    chans i sz k cm c2p p2c m' \<and> chunk_at D j n m' \<and> cache_has ctl i sz nm fd D (xf_pool s) content"
proof -
  obtain items f where c: "xf_content s = (items, f)" by fastforce
  from has have h: "fdata f fd = D" "disk_ok f" "0 < sz" "sz < 2 ^ 31" "length D < 2 ^ 31"
    by (auto simp: cache_has_def c)
  define chunk where "chunk = min (length D - j) sz"
  have chunk: "0 < chunk" "chunk < 2 ^ 31" "chunk \<le> sz" "j + chunk \<le> length D"
    using j h(3,4) by (auto simp: chunk_def)
  have ch_eq: "size_t_of (if int (length D) - int j < int sz then int (length D) - int j else int sz) = chunk"
  proof -
    have "(if int (length D) - int j < int sz then int (length D) - int j else int sz) = int chunk"
      using j by (auto simp: chunk_def)
    then show ?thesis by (simp only: size_t_of_nat [OF chunk(2)])
  qed
  obtain bs f1 where pr: "pread f fd chunk j = (Some bs, f1)" "bs \<noteq> []" "bs = take (length bs) (drop j D)"
    "length bs \<le> chunk" "disk_ok f1" "fdata f1 fd = D"
    using pread_all [OF h(1,2) j chunk(1)] pread_length by metis
  have m: "ipc_shm (xf_ipc s) (mem_name i) = Some m" "length m = sz" using ch by (auto simp: chans_def)
  let ?m = "bs @ drop (length bs) m"
  have put: "mem_put m 0 bs = Inr ?m" using pr(4) chunk(3) m(2) by (simp add: mem_put_0)
  have "length ?m = sz" using pr(4) chunk(3) m(2) by simp
  from chans_fill [OF ch this] have ch': "chans i sz ((xf_ipc s)\<lparr>ipc_shm :=
      (ipc_shm (xf_ipc s))(mem_name i \<mapsto> ?m)\<rparr>) cm c2p p2c ?m" .
  have "chunk_at D j (length bs) ?m"
    using pr chunk m(2) by (auto simp: chunk_at_def)
  moreover have "fill_chunk (hit_packet p0 sz D c) fd (int j) (cache_seg i) s =
      Inr (s\<lparr>xf_content := (items, f1), xf_ipc := (xf_ipc s)\<lparr>ipc_shm :=
        (ipc_shm (xf_ipc s))(mem_name i \<mapsto> ?m)\<rparr>,
        xf_cache := CX_Tell (hit_packet p0 sz D (int (length bs))) fd (int j) (cache_seg i)\<rparr>)"
    unfolding fill_chunk_def Let_def hit_packet_simps ch_eq c
    using j pr(1,2,4) chunk(3) put m(1) by simp
  moreover have "cache_has ctl i sz nm fd D (xf_pool s) (items, f1)"
    using has pr(5,6) by (simp add: cache_has_def c)
  ultimately show ?thesis using ch' by blast
qed


lemma cache_keeps:
  assumes ok: "xfer_ok wire ready w0 p0 H ctl i sz nm fd D s" and p0: "asks p0 i nm"
    and step: "cache_step ctl ctrl_name s = Some r"
  shows "xfer_progress wire ready w0 p0 H ctl i sz nm fd D s r"
proof -
  from ok obtain cm c2p p2c m sent where
    ph: "phase p0 H D sz fd i (xf_proxy s) (xf_cache s) cm c2p p2c m sent" and
    ch: "chans i sz (xf_ipc s) cm c2p p2c m" and
    has: "cache_has ctl i sz nm fd D (xf_pool s) (xf_content s)" and
    w: "wire (xf_ctx s) = w0 @ sent" and rd: "ready (xf_ctx s)"
    unfolding xfer_ok_def by blast
  have D: "D \<noteq> []" "length D < 2 ^ 31" using has by (auto simp: cache_has_def split: prod.splits)
  show ?thesis
    using ph
  proof cases
    case request
    with rx_chans(1) [OF ch] step show ?thesis by (simp add: cache_step_def)
  next
    case asked
    from rx_chans(4) [OF ch, of p0 "[]"] asked obtain k where
      k: "rx_mq ctrl_name sizeof_thread_packet (xf_ipc s) = Some (Inr (p0, k))"
        "chans i sz k [] [] [] m" by auto
    let ?t = "s\<lparr>xf_ipc := k\<rparr>"
    have "cache_has ctl i sz nm fd D (xf_pool ?t) (xf_content ?t)" using has by simp
    from cache_hit_step [OF this p0] obtain q content where
      q: "take_request ctl p0 ?t = Some (Inr (?t\<lparr>xf_pool := q, xf_content := content,
          xf_cache := CX_Hit (hit_packet p0 sz D (-1)) fd (cache_seg i)\<rparr>))"
        "cache_has ctl i sz nm fd D q content" by blast
    let ?s = "?t\<lparr>xf_pool := q, xf_content := content,
        xf_cache := CX_Hit (hit_packet p0 sz D (-1)) fd (cache_seg i)\<rparr>"
    have "r = Inr ?s" using step k(1) q(1) asked by (simp add: cache_step_def)
    moreover have "xfer_ok wire ready w0 p0 H ctl i sz nm fd D ?s"
      by (rule xfer_okI [where sent = "[]"]) (use k q asked w rd phase.found in auto)
    moreover have "xfer_weight D ?s < xfer_weight D s" using asked by (simp add: xfer_weight_def)
    ultimately show ?thesis by (auto intro: xfer_progressI)
  next
    case found
    let ?p = "hit_packet p0 sz D (-1)"
    from tx_chans(2) [OF ch, of ?p] found obtain k where
      k: "tx_mq (c2p_name i) ?p sizeof_thread_packet (xf_ipc s) = Some (Inr k)"
        "chans i sz k [] [?p] [] m" by auto
    let ?s = "s\<lparr>xf_ipc := k, xf_cache := CX_Fill ?p fd 0 (cache_seg i)\<rparr>"
    have "r = Inr ?s" using step k(1) found by (simp add: cache_step_def on_msg_def)
    moreover have "xfer_ok wire ready w0 p0 H ctl i sz nm fd D ?s"
      by (rule xfer_okI [where sent = "[]"])
        (use k found has w rd phase.fill [OF awaiting.answer [of p0 H D sz], of fd i "-1" m] in auto)
    moreover have "xfer_weight D ?s < xfer_weight D s" using found by (simp add: xfer_weight_def)
    ultimately show ?thesis by (auto intro: xfer_progressI)
  next
    case (fill j c)
    have j: "j < length D" using awaiting_facts [OF fill(4) D(1)] by simp
    from cache_fill_step [OF has j ch] obtain n k m' content where
      f: "fill_chunk (hit_packet p0 sz D c) fd (int j) (cache_seg i) s =
        Inr (s\<lparr>xf_content := content, xf_ipc := k,
             xf_cache := CX_Tell (hit_packet p0 sz D (int n)) fd (int j) (cache_seg i)\<rparr>)"
      "chans i sz k cm c2p p2c m'" "chunk_at D j n m'" "cache_has ctl i sz nm fd D (xf_pool s) content"
      by blast
    let ?s = "s\<lparr>xf_content := content, xf_ipc := k,
             xf_cache := CX_Tell (hit_packet p0 sz D (int n)) fd (int j) (cache_seg i)\<rparr>"
    have "r = Inr ?s" using step f(1) fill by (simp add: cache_step_def)
    moreover have "xfer_ok wire ready w0 p0 H ctl i sz nm fd D ?s"
      by (rule xfer_okI [where sent = sent]) (use f fill w rd phase.tell [OF fill(4) f(3)] in auto)
    moreover have "xfer_weight D ?s < xfer_weight D s" using fill by (simp add: xfer_weight_def)
    ultimately show ?thesis by (auto intro: xfer_progressI)
  next
    case (tell j n)
    let ?p = "hit_packet p0 sz D (int n)"
    have j: "length c2p < 10" using awaiting_facts [OF tell(4) D(1)] by simp
    from tx_chans(2) [OF ch j, of ?p] obtain k where
      k: "tx_mq (c2p_name i) ?p sizeof_thread_packet (xf_ipc s) = Some (Inr k)"
        "chans i sz k cm (c2p @ [?p]) p2c m" by auto
    have n: "0 < n" "j + n \<le> length D" using tell(5) by (auto simp: chunk_at_def)
    then have add: "int_add (int j) (int n) = Inr (int (j + n))"
      using D(2) by (simp add: int_add_def int_max_def)
    let ?s = "s\<lparr>xf_ipc := k, xf_cache := CX_Ack fd (int (j + n)) (cache_seg i)\<rparr>"
    have "r = Inr ?s" using step k(1) tell add by (simp add: cache_step_def on_msg_def)
    moreover have "xfer_ok wire ready w0 p0 H ctl i sz nm fd D ?s"
      by (rule xfer_okI [where sent = sent]) (use k tell has w rd phase.told [OF tell(4,5)] in auto)
    moreover have "xfer_weight D ?s < xfer_weight D s" using tell n by (simp add: xfer_weight_def)
    ultimately show ?thesis by (auto intro: xfer_progressI)
  next
    case (told c2p0 j n)
    with rx_chans(3) [OF ch] step show ?thesis by (simp add: cache_step_def on_msg_def)
  next
    case (got j n)
    with rx_chans(3) [OF ch] step show ?thesis by (simp add: cache_step_def on_msg_def)
  next
    case (sent j c)
    with rx_chans(3) [OF ch] step show ?thesis by (simp add: cache_step_def on_msg_def)
  next
    case (acked j c)
    let ?p = "hit_packet p0 sz D c"
    from rx_chans(6) [OF ch, of ?p "[]"] acked obtain k where
      k: "rx_mq (p2c_name i) sizeof_thread_packet (xf_ipc s) = Some (Inr (?p, k))"
        "chans i sz k [] [] [] m" by auto
    let ?s = "s\<lparr>xf_ipc := k, xf_cache := CX_Fill ?p fd (int j) (cache_seg i)\<rparr>"
    have "r = Inr ?s" using step k(1) acked by (simp add: cache_step_def on_msg_def)
    moreover have "phase p0 H D sz fd i (xf_proxy s) (CX_Fill ?p fd (int j) (cache_seg i)) [] [] [] m
        (H @ take j D)"
    proof (cases "j < length D")
      case True
      with acked(1) phase.fill [OF awaiting.data [OF True, of p0 H sz]] show ?thesis
        by (simp add: next_round_def)
    next
      case False
      with acked(1,8) phase.last [of p0 H D sz fd i c m] show ?thesis by (simp add: next_round_def)
    qed
    then have "xfer_ok wire ready w0 p0 H ctl i sz nm fd D ?s"
      by (intro xfer_okI [where sent = "H @ take j D"]) (use k acked has w rd in auto)
    moreover have "xfer_weight D ?s < xfer_weight D s" using acked(2) by (simp add: xfer_weight_def)
    ultimately show ?thesis by (auto intro: xfer_progressI)
  next
    case (last c)
    let ?s = "s\<lparr>xf_cache := CX_Wait\<rparr>"
    have "r = Inr ?s" using step last by (simp add: cache_step_def fill_chunk_def)
    moreover have "xfer_ok wire ready w0 p0 H ctl i sz nm fd D ?s"
      by (rule xfer_okI [where sent = "H @ D"]) (use last ch has w rd phase.finished in auto)
    moreover have "xfer_weight D ?s < xfer_weight D s" using last by (simp add: xfer_weight_def)
    ultimately show ?thesis by (auto intro: xfer_progressI)
  next
    case finished
    with rx_chans(1) [OF ch] step show ?thesis by (simp add: cache_step_def)
  qed
qed

section \<open>Runs of a transfer\<close>

lemma phase_prefix: "phase p0 H D sz fd i P C cm c2p p2c m sent \<Longrightarrow> \<exists>rest. sent @ rest = H @ D"
proof (induction rule: phase.induct)
  case (fill P c2p j sent c m)
  then show ?case by cases (auto intro: exI [of _ "drop j D"])
next
  case (tell P c2p j sent n m)
  from tell(1) show ?case by cases (auto intro: exI [of _ "drop j D"])
next
  case (told P c2p j sent n m)
  from told(1) show ?case by cases (auto intro: exI [of _ "drop j D"])
qed (auto intro: append_take_drop_id)

lemma phase_done:
  assumes "phase p0 H D sz fd i P C cm c2p p2c m sent" and "P = PX_Done r"
  shows "r = int (length D) \<and> sent = H @ D"
  using assms
proof cases
  case (acked j c)
  with assms(2) show ?thesis by (auto simp: next_round_def split: if_splits)
qed (auto elim: awaiting.cases)

lemma xfer_enabled:
  assumes ok: "xfer_ok wire ready w0 p0 H ctl i sz nm fd D s"
    and "\<not> ((\<exists>r. xf_proxy s = PX_Done r) \<and> xf_cache s = CX_Wait)" and p0: "asks p0 i nm"
  shows "\<exists>t. xfer_act api junk ctl ctrl_name (proxy_seg i) t s \<noteq> None"
proof -
  from ok obtain cm c2p p2c m sent where
    ph: "phase p0 H D sz fd i (xf_proxy s) (xf_cache s) cm c2p p2c m sent" and
    ch: "chans i sz (xf_ipc s) cm c2p p2c m" and
    has: "cache_has ctl i sz nm fd D (xf_pool s) (xf_content s)"
    unfolding xfer_ok_def by blast
  have D: "D \<noteq> []" using has by (auto simp: cache_has_def split: prod.splits)
  have P: ?thesis if "proxy_step api junk ctrl_name (proxy_seg i) s \<noteq> None"
    using that by (intro exI [of _ Proxy]) (simp add: xfer_act_def)
  have C: ?thesis if "cache_step ctl ctrl_name s \<noteq> None"
    using that by (intro exI [of _ Cache]) (simp add: xfer_act_def)
  show ?thesis
    using ph
  proof cases
    case request
    with tx_chans(1) [OF ch, of p0] show ?thesis by (intro P) (auto simp: proxy_step_def on_msg_def)
  next
    case asked
    from rx_chans(4) [OF ch, of p0 "[]"] asked obtain k where
      k: "rx_mq ctrl_name sizeof_thread_packet (xf_ipc s) = Some (Inr (p0, k))" by auto
    from cache_hit_step [of ctl i sz nm fd D "s\<lparr>xf_ipc := k\<rparr>", OF _ p0] has k asked show ?thesis
      by (intro C) (auto simp: cache_step_def)
  next
    case found
    with tx_chans(2) [OF ch] show ?thesis by (intro C) (fastforce simp: cache_step_def on_msg_def)
  next
    case (fill j c)
    then show ?thesis by (intro C) (simp add: cache_step_def)
  next
    case (tell j n)
    with tx_chans(2) [OF ch] awaiting_facts [OF tell(4) D] show ?thesis
      by (intro C) (fastforce simp: cache_step_def on_msg_def)
  next
    case (told c2p0 j n)
    from told(5) show ?thesis
    proof cases
      case answer
      with rx_chans(5) [OF ch] told(3) show ?thesis
        by (intro P) (fastforce simp: proxy_step_def on_msg_def)
    next
      case data
      with rx_chans(5) [OF ch] told(3) show ?thesis
        by (intro P) (fastforce simp: proxy_step_def on_msg_def)
    qed
  next
    case (got j n)
    then show ?thesis by (intro P) (simp add: proxy_step_def)
  next
    case (sent j c)
    with tx_chans(3) [OF ch] show ?thesis by (intro P) (fastforce simp: proxy_step_def on_msg_def)
  next
    case (acked j c)
    with rx_chans(6) [OF ch] show ?thesis by (intro C) (fastforce simp: cache_step_def on_msg_def)
  next
    case (last c)
    then show ?thesis by (intro C) (simp add: cache_step_def)
  next
    case finished
    with assms(2) show ?thesis by simp
  qed
qed


context gfs_api
begin

lemma xfer_act_keeps:
  assumes "xfer_ok wire ready w0 p0 (header_line ''OK'' (length D)) ctl i sz nm fd D s"
    and "asks p0 i nm" and "xfer_act api junk ctl ctrl_name (proxy_seg i) t s = Some r"
  shows "xfer_progress wire ready w0 p0 (header_line ''OK'' (length D)) ctl i sz nm fd D s r"
  using assms proxy_keeps [OF assms(1)] cache_keeps [OF assms(1,2)]
  by (cases t) (simp_all add: xfer_act_def)

text \<open>A transfer is a system that makes progress until the proxy is done and the cache waits.\<close>

lemma xfer_system:
  assumes p0: "asks p0 i nm"
  shows "schedule_system (xfer_act api junk ctl ctrl_name (proxy_seg i))
    (xfer_ok wire ready w0 p0 (header_line ''OK'' (length D)) ctl i sz nm fd D) (xfer_weight D)
    (\<lambda>s. [Proxy, Cache]) (\<lambda>s. (\<exists>r. xf_proxy s = PX_Done r) \<and> xf_cache s = CX_Wait \<and>
       xfer_ok wire ready w0 p0 (header_line ''OK'' (length D)) ctl i sz nm fd D s)"
    (is "schedule_system ?act ?ok _ _ ?end")
proof
  fix s t r
  assume "?ok s" and "?act t s = Some r"
  from xfer_act_keeps [OF this(1) p0 this(2)]
  show "\<exists>s'. r = Inr s' \<and> ?ok s' \<and> xfer_weight D s' < xfer_weight D s \<and> [Proxy, Cache] = [Proxy, Cache]"
    by (simp add: xfer_progress_def)
next
  fix s
  assume ok: "?ok s" and "\<not> ?end s"
  then have "\<not> ((\<exists>r. xf_proxy s = PX_Done r) \<and> xf_cache s = CX_Wait)" by blast
  from xfer_enabled [OF ok this p0] obtain t where "?act t s \<noteq> None" by blast
  then show "\<exists>t \<in> set [Proxy, Cache]. ?act t s \<noteq> None" by (cases t) auto
next
  fix s t s'
  assume e: "?end s" and "?act t s = Some (Inr s')"
  then have "xfer_weight D s' < xfer_weight D s"
    using xfer_act_keeps [OF _ p0, of w0 D ctl sz fd s junk t "Inr s'"] by (auto simp: xfer_progress_def)
  moreover have "xfer_weight D s = 0" using e by (auto simp: xfer_weight_def)
  ultimately show "?end s'" by simp
qed

end

lemma init_pkt_asks:
  assumes "128 \<le> length path" and "path = nm @ NUL # rest" and "length nm < 128" and "NUL \<notin> set nm"
  shows "\<exists>p. init_thread_pkt raw path (proxy_seg i) = Inr p \<and> asks p i nm"
proof -
  obtain n where "128 - length nm = Suc n" using assms(3) by (cases "128 - length nm") auto
  then have "take 128 path = nm @ NUL # take n rest"
    using assms(2,3) by simp
  then show ?thesis
    using assms(1,4) by (simp add: init_thread_pkt_def mem_slice_def MAX_REQUEST_LEN_def asks_def cstr_at_def)
qed

lemma handle_request_start:
  assumes "gfs_api api wire ready" and "ready c" and "cache_has ctl i sz nm fd D pool content"
    and "chans i sz k [] [] [] m" and "128 \<le> length path" and "path = nm @ NUL # rest" and "length nm < 128"
  shows "\<exists>p s0. asks p i nm \<and> xfer_weight D s0 = 6 * length D + 5 \<and>
    xfer_ok wire ready (wire c) p H ctl i sz nm fd D s0 \<and>
    (\<forall>sched. handle_request api raw junk ctl ctrl_name (proxy_seg i) path sched k pool content c =
      run_xfer api junk ctl ctrl_name (proxy_seg i) sched s0)"
proof -
  have "NUL \<notin> set nm" using assms(3) by (auto simp: cache_has_def split: prod.splits)
  from init_pkt_asks [OF assms(5-7) this] obtain p where
    p: "init_thread_pkt raw path (proxy_seg i) = Inr p" "asks p i nm" by blast
  let ?s = "\<lparr>xf_proxy = PX_Request p, xf_cache = CX_Wait, xf_ipc = k, xf_pool = pool,
          xf_content = content, xf_ctx = c\<rparr>"
  have "xfer_ok wire ready (wire c) p H ctl i sz nm fd D ?s"
    by (rule xfer_okI [where sent = "[]"]) (use assms(2-4) phase.request in auto)
  moreover have "xfer_weight D ?s = 6 * length D + 5" by (simp add: xfer_weight_def)
  ultimately show ?thesis using p by (auto simp: handle_request_def)
qed

section \<open>Properties\<close>

text \<open>
  Property C9. A file of the cache reaches the client unharmed under every interleaving of proxy
  and cache: nothing goes wrong, the client has always been sent a prefix of the header and the
  file (so the cache never overwrites a chunk that has not been sent), and when the proxy's handler
  returns, it returns the length of the file and has sent all of it.
\<close>

theorem cache_transfer_serves:
  assumes "gfs_api api wire ready" and "ready c" and "cache_has ctl i sz nm fd D pool content"
    and "chans i sz k [] [] [] m" and "128 \<le> length path" and "path = nm @ NUL # rest" and "length nm < 128"
  shows "\<exists>s. handle_request api raw junk ctl ctrl_name (proxy_seg i) path sched k pool content c = Inr s \<and>
    (\<exists>x. wire (xf_ctx s) @ x = wire c @ header_line ''OK'' (length D) @ D) \<and>
    (\<forall>r. xf_proxy s = PX_Done r \<longrightarrow>
       r = int (length D) \<and> wire (xf_ctx s) = wire c @ header_line ''OK'' (length D) @ D)"
proof -
  from handle_request_start [OF assms, of "header_line ''OK'' (length D)" raw junk] obtain p s0 where
    s0: "asks p i nm" "xfer_ok wire ready (wire c) p (header_line ''OK'' (length D)) ctl i sz nm fd D s0"
      "\<forall>sched. handle_request api raw junk ctl ctrl_name (proxy_seg i) path sched k pool content c =
      run_xfer api junk ctl ctrl_name (proxy_seg i) sched s0" by blast
  from schedule_system.run_good [OF gfs_api.xfer_system [OF assms(1) s0(1)] s0(2), of junk sched]
  obtain s where
    s: "run_xfer api junk ctl ctrl_name (proxy_seg i) sched s0 = Inr s"
      "xfer_ok wire ready (wire c) p (header_line ''OK'' (length D)) ctl i sz nm fd D s" by blast
  from s(2) obtain cm c2p p2c m' sent where
    ph: "phase p (header_line ''OK'' (length D)) D sz fd i (xf_proxy s) (xf_cache s) cm c2p p2c m' sent" and
    w: "wire (xf_ctx s) = wire c @ sent" unfolding xfer_ok_def by blast
  from phase_prefix [OF ph] w have "\<exists>x. wire (xf_ctx s) @ x = wire c @ header_line ''OK'' (length D) @ D"
    by auto
  moreover have "\<forall>r. xf_proxy s = PX_Done r \<longrightarrow>
       r = int (length D) \<and> wire (xf_ctx s) = wire c @ header_line ''OK'' (length D) @ D"
    using phase_done [OF ph] w by auto
  ultimately show ?thesis using s(1) s0(3) by simp
qed

definition sample_ipc :: "thread_packet ipc" where
  "sample_ipc =
     (let q = \<lparr>mq_msgsize = sizeof_thread_packet, mq_maxmsg = 10, mq_msgs = []\<rparr>
      in \<lparr>ipc_queues = [ctrl_name \<mapsto> q, c2p_name 0 \<mapsto> q, p2c_name 0 \<mapsto> q],
          ipc_shm = [mem_name 0 \<mapsto> replicate 3 NUL]\<rparr>)"

lemma sample_chans: "chans 0 3 sample_ipc [] [] [] (replicate 3 NUL)"
  by (simp add: chans_def chan_def sample_ipc_def Let_def)

definition sample_raw :: thread_packet where
  "sample_raw = \<lparr>requested_file = [], file_size = 77, chunk_size = 5, segment_size = 9, cache_hit = 3,
     segment_index = -1\<rparr>"

definition sample_path :: string where
  "sample_path = ''/a'' @ NUL # replicate 125 NUL"

lemma sample_pool: "\<exists>pool. steque_invar pool \<and> steque_items pool = [cache_seg 0]"
proof -
  note q = steque_init_invar [where n = 1 and 'a = segment_item]
  from dq.push_law [OF q(1), of "cache_seg 0"] q(2,3) show ?thesis by (auto simp: int_max_def)
qed

lemma sample_cache_has:
  assumes "steque_invar pool" and "steque_items pool = [cache_seg 0]"
  shows "cache_has \<lparr>ctl_segment_size = 3, ctl_num_segments = 1\<rparr> 0 3 ''/a'' 4 ''contents'' pool
    (sample_table, sample_env)"
  using assms sample_table_ok exI [of "\<lambda>j. cache_seg 0 = cache_seg j" 0]
  by (simp add: cache_has_def sample_env_def disk_ok_def)

theorem cache_transfer_serves_witness:
  "\<exists>pool s. handle_request gflib_calls sample_raw 0 \<lparr>ctl_segment_size = 3, ctl_num_segments = 1\<rparr> ctrl_name
      (proxy_seg 0) sample_path (concat (replicate 60 [Cache, Proxy, Proxy])) sample_ipc pool
      (sample_table, sample_env) (gfcontext_create False (new_conn [] [])) = Inr s \<and>
    (\<exists>x. tx (ctx_conn (xf_ctx s)) @ x = header_line ''OK'' (length ''contents'') @ ''contents'')"
proof -
  obtain pool where p: "steque_invar pool" "steque_items pool = [cache_seg 0]" using sample_pool by blast
  have path: "128 \<le> length sample_path" "length ''/a'' < 128" by (simp_all add: sample_path_def)
  have t: "tx (ctx_conn (gfcontext_create False (new_conn [] []))) = []"
    by (simp add: gfcontext_create_def new_conn_def)
  from cache_transfer_serves [OF gl.gfs_api_axioms sample_ready sample_cache_has [OF p] sample_chans path(1)
      sample_path_def path(2), of sample_raw 0 "concat (replicate 60 [Cache, Proxy, Proxy])"]
  show ?thesis unfolding t by (intro exI [of _ pool]) auto
qed

text \<open>
  Further fact. A transfer from the cache ends: with the two processes taking turns it is over
  after six rounds per byte of the file and five more, the cache's worker waits for the next
  request, and the queues of the segment are empty again for its next use.
\<close>

theorem cache_transfer_ends:
  assumes "gfs_api api wire ready" and "ready c" and "cache_has ctl i sz nm fd D pool content"
    and "chans i sz k [] [] [] m" and "128 \<le> length path" and "path = nm @ NUL # rest" and "length nm < 128"
    and "6 * length D + 5 \<le> n"
  shows "\<exists>s m'. handle_request api raw junk ctl ctrl_name (proxy_seg i) path
      (concat (replicate n [Proxy, Cache])) k pool content c = Inr s \<and>
    xf_proxy s = PX_Done (int (length D)) \<and> xf_cache s = CX_Wait \<and> chans i sz (xf_ipc s) [] [] [] m'"
proof -
  from handle_request_start [OF assms(1-7), of "header_line ''OK'' (length D)" raw junk] obtain p s0 where
    s0: "asks p i nm" "xfer_weight D s0 = 6 * length D + 5"
      "xfer_ok wire ready (wire c) p (header_line ''OK'' (length D)) ctl i sz nm fd D s0"
      "\<forall>sched. handle_request api raw junk ctl ctrl_name (proxy_seg i) path sched k pool content c =
      run_xfer api junk ctl ctrl_name (proxy_seg i) sched s0" by blast
  from schedule_system.fair_ends [OF gfs_api.xfer_system [OF assms(1) s0(1)] s0(3), of n junk] s0(2) assms(8)
  obtain s r where
    s: "run_xfer api junk ctl ctrl_name (proxy_seg i) (concat (replicate n [Proxy, Cache])) s0 = Inr s"
      "xfer_ok wire ready (wire c) p (header_line ''OK'' (length D)) ctl i sz nm fd D s"
      "xf_proxy s = PX_Done r" "xf_cache s = CX_Wait" by auto
  from s(2) obtain cm c2p p2c m' sent where
    ph: "phase p (header_line ''OK'' (length D)) D sz fd i (xf_proxy s) (xf_cache s) cm c2p p2c m' sent" and
    ch: "chans i sz (xf_ipc s) cm c2p p2c m'" unfolding xfer_ok_def by blast
  from phase_done [OF ph s(3)] have "r = int (length D)" by simp
  moreover from ph s(3,4) have "cm = [] \<and> c2p = [] \<and> p2c = []" by cases auto
  ultimately show ?thesis using s s0(4) ch by auto
qed

theorem cache_transfer_ends_witness:
  "\<exists>pool s. handle_request gflib_calls sample_raw 0 \<lparr>ctl_segment_size = 3, ctl_num_segments = 1\<rparr> ctrl_name
      (proxy_seg 0) sample_path (concat (replicate 53 [Proxy, Cache])) sample_ipc pool
      (sample_table, sample_env) (gfcontext_create False (new_conn [] [])) = Inr s \<and>
    xf_proxy s = PX_Done 8 \<and> xf_cache s = CX_Wait"
proof -
  obtain pool where p: "steque_invar pool" "steque_items pool = [cache_seg 0]" using sample_pool by blast
  have path: "128 \<le> length sample_path" "length ''/a'' < 128" by (simp_all add: sample_path_def)
  have n: "6 * length ''contents'' + 5 \<le> (53 :: nat)" by simp
  from cache_transfer_ends [OF gl.gfs_api_axioms sample_ready sample_cache_has [OF p] sample_chans path(1)
      sample_path_def path(2) n, of sample_raw 0]
  show ?thesis by (intro exI [of _ pool]) auto
qed

text \<open>
  Further fact. The cache never gives up looking for a segment: if no descriptor of its pool has the
  index of the request, the loop of \<open>find_segment\<close> does not end, because it does not count.
\<close>

theorem find_segment_forever:
  assumes "steque_invar q" and "steque_items q \<noteq> []" and "0 < num"
    and "\<forall>h \<in> set (steque_items q). int (seg_index h) \<noteq> index"
  shows "find_segment num index q = None"
  using find_loop_diverges [OF _ assms(1,2,4,3)] by (cases "find_loop num index 0 q") (auto simp: find_segment_def)

theorem find_segment_forever_witness:
  "\<exists>q. steque_items q = [cache_seg 0] \<and> find_segment 1 5 q = None"
proof -
  obtain pool where p: "steque_invar pool" "steque_items pool = [cache_seg 0]" using sample_pool by blast
  from find_segment_forever [OF p(1), of 1 5] p(2) show ?thesis by (intro exI [of _ pool]) simp
qed

end
