(* ===== verification/Proxy_Cache.thy ===== *)
theory Proxy_Cache
  imports Segment_Pool Cache_Transfer_Correct
begin

text \<open>
  The whole path of a request through the proxy and the cache daemon: any number of proxy threads,
  each running \<open>handle_with_cache\<close> of \<open>project3/handle_with_cache.c\<close> on its requests, share the pool
  of segments and the control queue, and the workers of \<open>project3/simplecached.c\<close> take the requests
  from that queue. A thread's steps are those of \<open>Segment_Pool\<close> before and after the transfer and those
  of \<open>Cache_Transfer\<close> during it.
\<close>

section \<open>Threads with requests, and workers\<close>

text \<open>
  A request: the memory from its path on, the packet on the stack and the result variable before they
  are set, and the context of the server library that the answer goes to.
\<close>

record 'c web_request =
  rq_path :: string
  rq_raw :: thread_packet
  rq_junk :: int
  rq_ctx :: 'c

text \<open>
  A thread's requests still to be answered (the current one first), the state of its transfer, and
  the results and contexts of the answered ones.
\<close>

record 'c job =
  jb_todo :: "'c web_request list"
  jb_pc :: proxy_pc
  jb_ctx :: 'c
  jb_done :: "(int \<times> 'c) list"

record 'c proxy_cache =
  sy_pool :: seg_pool
  sy_jobs :: "'c job list"
  sy_workers :: "cache_pc list"
  sy_ipc :: "thread_packet ipc"
  sy_cpool :: "steque \<times> segment_item sheap"
  sy_content :: "item_t list \<times> file_env"

datatype actor = Thread nat nat | Worker nat

abbreviation xview ::
  "proxy_pc \<Rightarrow> 'c \<Rightarrow> cache_pc \<Rightarrow> thread_packet ipc \<Rightarrow> steque \<times> segment_item sheap \<Rightarrow>
     item_t list \<times> file_env \<Rightarrow> 'c xfer" where
  "xview P c C k pool content \<equiv>
     \<lparr>xf_proxy = P, xf_cache = C, xf_ipc = k, xf_pool = pool, xf_content = content, xf_ctx = c\<rparr>"

definition start_request :: "'c job \<Rightarrow> segment_item \<Rightarrow> 'c job result" where
  "start_request b seg =
     (case jb_todo b of
        [] \<Rightarrow> Inr b
      | q # qs \<Rightarrow> bind_res (init_thread_pkt (rq_raw q) (rq_path q) seg) (\<lambda>p.
          Inr (b\<lparr>jb_pc := PX_Request p, jb_ctx := rq_ctx q\<rparr>)))"

definition finish_request :: "int \<Rightarrow> 'c job \<Rightarrow> 'c job" where
  "finish_request r b = b\<lparr>jb_todo := tl (jb_todo b), jb_done := jb_done b @ [(r, jb_ctx b)]\<rparr>"

text \<open>
  A step of thread \<open>i\<close> in \<open>handle_with_cache\<close>: while it has a segment and its transfer is not over,
  a step of \<open>handle_request\<close>; else a step of acquiring or releasing (a signal goes to thread \<open>j\<close>). The
  pop of a segment starts the transfer, its release ends the request.
\<close>

definition transfer_step ::
  "'c gfs_calls \<Rightarrow> nat \<Rightarrow> segment_item \<Rightarrow> 'c proxy_cache \<Rightarrow> 'c proxy_cache result option" where
  "transfer_step api i seg s =
     (let b = sy_jobs s ! i
      in on_msg (proxy_step api (rq_junk (hd (jb_todo b))) ctrl_name seg
           (xview (jb_pc b) (jb_ctx b) CX_Wait (sy_ipc s) (sy_cpool s) (sy_content s))) (\<lambda>x.
         Inr (s\<lparr>sy_ipc := xf_ipc x,
                sy_jobs := (sy_jobs s)[i := b\<lparr>jb_pc := xf_proxy x, jb_ctx := xf_ctx x\<rparr>]\<rparr>)))"

definition pool_step :: "nat \<Rightarrow> nat \<Rightarrow> 'c proxy_cache \<Rightarrow> 'c proxy_cache result option" where
  "pool_step i j s =
     on_msg (handle_with_cache (i, j) (sy_pool s)) (\<lambda>p.
       let b = sy_jobs s ! i
       in bind_res
            (case (gp_threads (sy_pool s) ! i, gp_threads p ! i) of
               (G_Test n, G_Use m seg) \<Rightarrow> start_request b seg
             | (G_Use n seg, t) \<Rightarrow> (case jb_pc b of PX_Done r \<Rightarrow> Inr (finish_request r b) | _ \<Rightarrow> Inr b)
             | _ \<Rightarrow> Inr b) (\<lambda>b1.
          Inr (s\<lparr>sy_pool := p, sy_jobs := (sy_jobs s)[i := b1]\<rparr>)))"

definition thread_act ::
  "'c gfs_calls \<Rightarrow> nat \<Rightarrow> nat \<Rightarrow> 'c proxy_cache \<Rightarrow> 'c proxy_cache result option" where
  "thread_act api i j s =
     (if i < length (sy_jobs s) then
        (case (gp_threads (sy_pool s) ! i, jb_pc (sy_jobs s ! i)) of
           (G_Use n seg, PX_Done r) \<Rightarrow> pool_step i j s
         | (G_Use n seg, _) \<Rightarrow> transfer_step api i seg s
         | _ \<Rightarrow> pool_step i j s)
      else None)"

text \<open>A step of \<open>perform_task\<close> in worker \<open>w\<close> of the daemon.\<close>

definition worker_act :: "ctrl_msg \<Rightarrow> nat \<Rightarrow> 'c proxy_cache \<Rightarrow> 'c proxy_cache result option" where
  "worker_act ctl w s =
     (if w < length (sy_workers s) then
        on_msg (cache_step ctl ctrl_name
           (xview (PX_Done 0) () (sy_workers s ! w) (sy_ipc s) (sy_cpool s) (sy_content s))) (\<lambda>x.
         Inr (s\<lparr>sy_workers := (sy_workers s)[w := xf_cache x], sy_ipc := xf_ipc x,
                sy_cpool := xf_pool x, sy_content := xf_content x\<rparr>))
      else None)"

definition system_act ::
  "'c gfs_calls \<Rightarrow> ctrl_msg \<Rightarrow> actor \<Rightarrow> 'c proxy_cache \<Rightarrow> 'c proxy_cache result option" where
  "system_act api ctl a s =
     (case a of Thread i j \<Rightarrow> thread_act api i j s | Worker w \<Rightarrow> worker_act ctl w s)"

abbreviation run_system ::
  "'c gfs_calls \<Rightarrow> ctrl_msg \<Rightarrow> actor list \<Rightarrow> 'c proxy_cache \<Rightarrow> 'c proxy_cache result" where
  "run_system api ctl \<equiv> run_sched (system_act api ctl)"

text \<open>
  The start: the two pools, \<open>m\<close> workers of the daemon that wait for requests, one proxy thread per list of
  requests.
\<close>

definition system_start ::
  "nat \<Rightarrow> 'c web_request list list \<Rightarrow> steque \<times> segment_item sheap \<Rightarrow> steque \<times> segment_item sheap \<Rightarrow>
     item_t list \<times> file_env \<Rightarrow> thread_packet ipc \<Rightarrow> 'c \<Rightarrow> 'c proxy_cache" where
  "system_start m reqs qp qc content k c0 =
     \<lparr>sy_pool = seg_start qp (List.map length reqs),
      sy_jobs = List.map (\<lambda>qs. \<lparr>jb_todo = qs, jb_pc = PX_Done 0, jb_ctx = c0, jb_done = []\<rparr>) reqs,
      sy_workers = replicate m CX_Wait, sy_ipc = k, sy_cpool = qc, sy_content = content\<rparr>"

end
