(* ===== verification/Transfer_Table.thy ===== *)
theory Transfer_Table
  imports Proxy_Cache
begin

text \<open>
  The transfers that run at the same time in the system of \<open>Proxy_Cache\<close>, as a table from threads to
  transfers, with one worker in the daemon: every step of a thread in its transfer and every step of
  the worker keeps the table right and does work, and as long as there is a transfer one of these steps
  can be taken. What a single transfer does is taken from \<open>Cache_Transfer_Correct\<close>.
\<close>

section \<open>Frames: the control queue and the other segments\<close>

definition set_ctrl :: "thread_packet mqueue \<Rightarrow> thread_packet ipc \<Rightarrow> thread_packet ipc" where
  "set_ctrl q k = k\<lparr>ipc_queues := (ipc_queues k)(ctrl_name \<mapsto> q)\<rparr>"

lemma set_ctrl_simps [simp]:
  "ipc_shm (set_ctrl q k) = ipc_shm k"
  "d \<noteq> ctrl_name \<Longrightarrow> ipc_queues (set_ctrl q k) d = ipc_queues k d"
  "ipc_queues (set_ctrl q k) ctrl_name = Some q"
  "set_ctrl q (set_ctrl q' k) = set_ctrl q k"
  "set_ctrl q k\<lparr>ipc_shm := h\<rparr> = set_ctrl q (k\<lparr>ipc_shm := h\<rparr>)"
  by (simp_all add: set_ctrl_def)

lemma set_ctrl_same: "ipc_queues k ctrl_name = Some q \<Longrightarrow> set_ctrl q k = k"
  by (simp add: set_ctrl_def fun_upd_idem)

lemma tx_set_ctrl:
  "d \<noteq> ctrl_name \<Longrightarrow> tx_mq d p n (set_ctrl q k) = on_msg (tx_mq d p n k) (\<lambda>k. Inr (set_ctrl q k))"
  by (auto simp: tx_mq_def on_msg_def set_ctrl_def fun_upd_twist split: option.split)

lemma rx_set_ctrl:
  "d \<noteq> ctrl_name \<Longrightarrow> rx_mq d n (set_ctrl q k) = on_msg (rx_mq d n k) (\<lambda>(p, k). Inr (p, set_ctrl q k))"
  by (auto simp: rx_mq_def on_msg_def set_ctrl_def fun_upd_twist split: option.split list.split)

lemma on_msg_on_msg: "on_msg (on_msg m f) g = on_msg m (\<lambda>x. bind_res (f x) g)"
  by (cases m) (simp_all add: on_msg_def bind_res_assoc)

lemma on_msg_simps [simp]:
  "on_msg None f = None" "on_msg (Some r) f = Some (bind_res r f)"
  by (simp_all add: on_msg_def)

lemma on_msg_cong: "(\<And>x. m = Some (Inr x) \<Longrightarrow> f x = g x) \<Longrightarrow> on_msg m f = on_msg m g"
  by (cases m) (auto intro: bind_res_cong)

abbreviation with_ctrl :: "thread_packet mqueue \<Rightarrow> 'c xfer \<Rightarrow> 'c xfer" where
  "with_ctrl q x \<equiv> x\<lparr>xf_ipc := set_ctrl q (xf_ipc x)\<rparr>"

text \<open>After its request the proxy does not look at the control queue, nor does a cache that has one.\<close>

lemma rx_filesize_frame:
  "rx_filesize api junk p (with_ctrl q s) = bind_res (rx_filesize api junk p s) (\<lambda>x. Inr (with_ctrl q x))"
  by (cases s) (simp add: rx_filesize_def bind_res_assoc case_prod_unfold)

lemma proxy_step_frame:
  assumes "\<forall>p. P \<noteq> PX_Request p"
  shows "proxy_step api junk ctrl_name (proxy_seg g) (xview P c C (set_ctrl q k) pool content) =
    on_msg (proxy_step api junk ctrl_name (proxy_seg g) (xview P c C k pool content)) (\<lambda>x. Inr (with_ctrl q x))"
proof (cases P)
  case (PX_Request p)
  with assms show ?thesis by simp
next
  case (PX_Size p0)
  have "rx_filesize api junk p (xview P c C (set_ctrl q k) pool content) =
      bind_res (rx_filesize api junk p (xview P c C k pool content)) (\<lambda>x. Inr (with_ctrl q x))" for p k P
    using rx_filesize_frame [of api junk p q "xview P c C k pool content"] by simp
  then show ?thesis
    by (simp add: PX_Size proxy_step_def rx_set_ctrl on_msg_on_msg case_prod_unfold)
next
  case (PX_Send p n)
  show ?thesis
    by (simp add: PX_Send proxy_step_def Let_def case_prod_unfold bind_res_assoc
        split: option.split) (auto simp: bind_res_def split: sum.splits)
qed (simp_all add: proxy_step_def rx_set_ctrl tx_set_ctrl on_msg_on_msg case_prod_unfold)

lemma fill_chunk_frame:
  "fill_chunk p fd j g (with_ctrl q s) = bind_res (fill_chunk p fd j g s) (\<lambda>x. Inr (with_ctrl q x))"
  by (cases s) (auto simp: fill_chunk_def Let_def case_prod_unfold bind_res_assoc split: option.split)

lemma cache_step_frame:
  assumes "C \<noteq> CX_Wait"
    and "\<forall>p g. C = CX_Miss p g \<longrightarrow> mq_data_tx g \<noteq> ctrl_name" and "\<forall>p fd g. C = CX_Hit p fd g \<longrightarrow> mq_data_tx g \<noteq> ctrl_name"
    and "\<forall>p fd j g. C = CX_Tell p fd j g \<longrightarrow> mq_data_tx g \<noteq> ctrl_name"
    and "\<forall>fd j g. C = CX_Ack fd j g \<longrightarrow> mq_data_rx g \<noteq> ctrl_name"
  shows "cache_step ctl ctrl_name (xview P c C (set_ctrl q k) pool content) =
    on_msg (cache_step ctl ctrl_name (xview P c C k pool content)) (\<lambda>x. Inr (with_ctrl q x))"
proof (cases C)
  case (CX_Fill p fd j g)
  with fill_chunk_frame [of p fd j g q "xview P c C k pool content"] show ?thesis
    by (simp add: cache_step_def)
qed (use assms in \<open>simp_all add: cache_step_def rx_set_ctrl tx_set_ctrl on_msg_on_msg case_prod_unfold bind_res_assoc\<close>)

section \<open>Each process keeps to its part of the state\<close>

lemma proxy_step_view:
  "proxy_step api junk ctrl seg (xview P c C k pool content) =
     on_msg (proxy_step api junk ctrl seg (xview P c C' k pool' content'))
       (\<lambda>x. Inr (xview (xf_proxy x) (xf_ctx x) C (xf_ipc x) pool content))"
proof (cases P)
  case (PX_Size p0)
  have "rx_filesize api junk p (xview P c C k pool content) =
      bind_res (rx_filesize api junk p (xview P c C' k pool' content'))
        (\<lambda>x. Inr (xview (xf_proxy x) (xf_ctx x) C (xf_ipc x) pool content))" for p k P
    by (simp add: rx_filesize_def bind_res_assoc case_prod_unfold)
  then show ?thesis by (simp add: PX_Size proxy_step_def on_msg_on_msg case_prod_unfold)
next
  case (PX_Send p n)
  show ?thesis
    by (simp add: PX_Send proxy_step_def Let_def case_prod_unfold bind_res_assoc split: option.split)
      (auto simp: bind_res_def split: sum.splits)
qed (simp_all add: proxy_step_def on_msg_on_msg case_prod_unfold)

lemma take_request_view:
  "take_request ctl p (xview P c C k pool content) =
     on_msg (take_request ctl p (xview P' c' C' k pool content))
       (\<lambda>x. Inr (xview P c (xf_cache x) (xf_ipc x) (xf_pool x) (xf_content x)))"
  unfolding take_request_def Let_def
  by (auto simp: on_msg_on_msg case_prod_unfold intro!: on_msg_cong split: sum.split option.split)

lemma fill_chunk_view:
  "fill_chunk p fd j g (xview P c C k pool content) =
     bind_res (fill_chunk p fd j g (xview P' c' C' k pool content))
       (\<lambda>x. Inr (xview P c (xf_cache x) (xf_ipc x) (xf_pool x) (xf_content x)))"
  by (auto simp: fill_chunk_def Let_def case_prod_unfold bind_res_assoc split: option.split)

lemma cache_step_view:
  fixes c :: 'c and c' :: 'd
  shows "cache_step ctl ctrl (xview P c C k pool content) =
     on_msg (cache_step ctl ctrl (xview P' c' C k pool content))
       (\<lambda>x. Inr (xview P c (xf_cache x) (xf_ipc x) (xf_pool x) (xf_content x)))"
proof (cases C)
  case CX_Wait
  then show ?thesis
    using take_request_view [where P = P and c = c and C = CX_Wait and P' = P' and c' = c' and C' = CX_Wait]
    by (auto simp: cache_step_def split: option.split sum.split)
next
  case (CX_Fill p fd j g)
  with fill_chunk_view [where P = P and c = c and C = C and P' = P' and c' = c' and C' = C] show ?thesis by (simp add: cache_step_def)
qed (simp_all add: cache_step_def on_msg_on_msg case_prod_unfold bind_res_assoc)

text \<open>A step on the queues of segment \<open>g\<close> and its memory leaves the other segments alone.\<close>

definition same_but :: "nat \<Rightarrow> thread_packet ipc \<Rightarrow> thread_packet ipc \<Rightarrow> bool" where
  "same_but g k k' \<longleftrightarrow>
     (\<forall>d. d \<notin> {c2p_name g, p2c_name g} \<longrightarrow> ipc_queues k' d = ipc_queues k d) \<and>
     (\<forall>m. m \<noteq> mem_name g \<longrightarrow> ipc_shm k' m = ipc_shm k m)"

lemma same_but_refl [simp]: "same_but g k k"
  by (simp add: same_but_def)

lemma on_msg_InrE:
  assumes "on_msg m f = Some (Inr y)"
  obtains x where "m = Some (Inr x)" "f x = Inr y"
proof (cases m)
  case (Some r)
  with assms that show ?thesis by (cases r) auto
qed (use assms in simp)

lemma mq_same_but:
  "tx_mq (c2p_name g) p n k = Some (Inr k') \<Longrightarrow> same_but g k k'"
  "tx_mq (p2c_name g) p n k = Some (Inr k') \<Longrightarrow> same_but g k k'"
  "rx_mq (c2p_name g) n k = Some (Inr (p, k')) \<Longrightarrow> same_but g k k'"
  "rx_mq (p2c_name g) n k = Some (Inr (p, k')) \<Longrightarrow> same_but g k k'"
  by (auto simp: tx_mq_def rx_mq_def same_but_def split: option.splits if_splits list.splits)

lemma proxy_step_same_but:
  assumes "proxy_step api junk ctrl_name (proxy_seg g) s = Some (Inr x)" and "\<forall>p. xf_proxy s \<noteq> PX_Request p"
  shows "same_but g (xf_ipc s) (xf_ipc x)"
proof (cases "xf_proxy s")
  case (PX_Send p j)
  have "res_all (\<lambda>x. xf_ipc x = xf_ipc s) r"
    if "proxy_step api junk ctrl_name (proxy_seg g) s = Some r" for r
    using that PX_Send
    by (auto simp: proxy_step_def Let_def case_prod_unfold intro!: res_all_bindI split: option.splits)
  from res_allD [OF this [OF assms(1)] refl] show ?thesis by simp
qed (use assms in \<open>auto simp: proxy_step_def rx_filesize_def bind_res_eq_Inr mq_same_but elim!: on_msg_InrE
      split: if_splits\<close>)

lemma fill_chunk_same_but:
  "fill_chunk p fd j (cache_seg g) s = Inr x \<Longrightarrow> same_but g (xf_ipc s) (xf_ipc x)"
  by (auto simp: fill_chunk_def bind_res_eq_Inr Let_def same_but_def split: option.splits prod.splits if_splits)

lemma cache_step_same_but:
  assumes "cache_step ctl ctrl_name s = Some (Inr x)"
    and "(\<exists>p. xf_cache s = CX_Miss p (cache_seg g)) \<or> (\<exists>p fd. xf_cache s = CX_Hit p fd (cache_seg g)) \<or>
      (\<exists>p fd j. xf_cache s = CX_Fill p fd j (cache_seg g)) \<or>
      (\<exists>p fd j. xf_cache s = CX_Tell p fd j (cache_seg g)) \<or> (\<exists>fd j. xf_cache s = CX_Ack fd j (cache_seg g))"
  shows "same_but g (xf_ipc s) (xf_ipc x)"
  using assms
  by (auto simp: cache_step_def bind_res_eq_Inr mq_same_but elim!: on_msg_InrE dest: fill_chunk_same_but
      split: prod.splits)

section \<open>Requests and their answers\<close>

type_synonym catalog = "string \<Rightarrow> (int \<times> string) option"

definition rq_name :: "'c web_request \<Rightarrow> string" where
  "rq_name q = takeWhile (\<lambda>c. c \<noteq> NUL) (rq_path q)"

definition rq_ok :: "('c \<Rightarrow> bool) \<Rightarrow> 'c web_request \<Rightarrow> bool" where
  "rq_ok ready q \<longleftrightarrow> 128 \<le> length (rq_path q) \<and> length (rq_name q) < 128 \<and> ready (rq_ctx q)"

text \<open>What the client is to get, and what the handler is to return.\<close>

definition file_of :: "catalog \<Rightarrow> string \<Rightarrow> string" where
  "file_of cat nm = (case cat nm of None \<Rightarrow> [] | Some (fd, D) \<Rightarrow> D)"

definition reply :: "catalog \<Rightarrow> string \<Rightarrow> int \<times> string" where
  "reply cat nm =
     (case cat nm of
        None \<Rightarrow> (int (length (header_line ''FILE_NOT_FOUND'' 0)), header_line ''FILE_NOT_FOUND'' 0)
      | Some (fd, D) \<Rightarrow> (int (length D), header_line ''OK'' (length D) @ D))"

definition answered :: "('c \<Rightarrow> string) \<Rightarrow> catalog \<Rightarrow> 'c web_request \<Rightarrow> int \<times> 'c \<Rightarrow> bool" where
  "answered wire cat q rc \<longleftrightarrow>
     fst rc = fst (reply cat (rq_name q)) \<and>
     wire (snd rc) = wire (rq_ctx q) @ snd (reply cat (rq_name q))"

text \<open>The daemon's table and files as a catalog, and its pool of \<open>n\<close> segments of size \<open>sz\<close>.\<close>

definition cache_all ::
  "ctrl_msg \<Rightarrow> nat \<Rightarrow> nat \<Rightarrow> catalog \<Rightarrow> steque \<times> segment_item sheap \<Rightarrow> item_t list \<times> file_env \<Rightarrow> bool" where
  "cache_all ctl sz n cat pool = (\<lambda>(items, f).
     steque_invar pool \<and> set (steque_items pool) = cache_seg ` {0 ..< n} \<and>
     0 < ctl_num_segments ctl \<and> ctl_segment_size ctl = int sz \<and> 0 < sz \<and> sz < 2 ^ 31 \<and>
     table_ok items \<and> distinct (List.map fst (table_entries items)) \<and> disk_ok f \<and>
     (\<forall>nm. cat nm = map_option (\<lambda>fd. (fd, fdata f fd)) (map_of (table_entries items) nm)) \<and>
     (\<forall>nm fd D. cat nm = Some (fd, D) \<longrightarrow> fd \<noteq> -1 \<and> D \<noteq> [] \<and> length D < 2 ^ 31))"

lemma rq_split:
  assumes "rq_ok ready q"
  shows "\<exists>rest. rq_path q = rq_name q @ NUL # rest" and "NUL \<notin> set (rq_name q)"
proof -
  have "dropWhile (\<lambda>c. c \<noteq> NUL) (rq_path q) \<noteq> []"
  proof
    assume "dropWhile (\<lambda>c. c \<noteq> NUL) (rq_path q) = []"
    then have "rq_name q = rq_path q"
      unfolding rq_name_def by (metis append_Nil2 takeWhile_dropWhile_id)
    with assms show False by (auto simp: rq_ok_def)
  qed
  moreover from this have "hd (dropWhile (\<lambda>c. c \<noteq> NUL) (rq_path q)) = NUL"
    using hd_dropWhile [of "\<lambda>c. c \<noteq> NUL"] by auto
  ultimately show "\<exists>rest. rq_path q = rq_name q @ NUL # rest"
    unfolding rq_name_def by (metis list.collapse takeWhile_dropWhile_id)
  show "NUL \<notin> set (rq_name q)" by (auto simp: rq_name_def dest: set_takeWhileD)
qed

lemma rq_packet:
  assumes "rq_ok ready q"
  shows "\<exists>p. init_thread_pkt (rq_raw q) (rq_path q) (proxy_seg g) = Inr p \<and> asks p g (rq_name q)"
proof -
  from rq_split(1) [OF assms] obtain rest where "rq_path q = rq_name q @ NUL # rest" ..
  from init_pkt_asks [OF _ this _ rq_split(2) [OF assms]] assms show ?thesis by (simp add: rq_ok_def)
qed

lemma cache_all_has:
  assumes "cache_all ctl sz n cat pool content" and "g < n" and "NUL \<notin> set nm" and "cat nm = Some (fd, D)"
  shows "cache_has ctl g sz nm fd D pool content"
proof -
  obtain items f where c: "content = (items, f)" by fastforce
  from assms(1,4) have "map_option (\<lambda>fd. (fd, fdata f fd)) (map_of (table_entries items) nm) = Some (fd, D)"
    by (simp add: cache_all_def c)
  then have "map_of (table_entries items) nm = Some fd" "fdata f fd = D" by auto
  moreover have "cache_seg g \<in> set (steque_items pool)" "\<forall>h \<in> set (steque_items pool). \<exists>j. h = cache_seg j"
    using assms(1,2) by (auto simp: cache_all_def c)
  moreover have "fd \<noteq> -1" "D \<noteq> []" "length D < 2 ^ 31"
    using assms(1,4) unfolding cache_all_def c prod.case by blast+
  ultimately show ?thesis
    using assms(1,3) by (simp add: cache_has_def cache_all_def c)
qed

text \<open>The lookup and the search of the segment for a request whose path is not in the table.\<close>

definition miss_packet :: "nat \<Rightarrow> thread_packet \<Rightarrow> thread_packet" where
  "miss_packet sz p0 = p0\<lparr>segment_size := int sz, chunk_size := -1, cache_hit := 0, file_size := 0\<rparr>"

lemma cache_miss_step:
  assumes has: "cache_all ctl sz n cat (xf_pool s) (xf_content s)" and p: "asks p0 g nm" and "g < n"
    and nm: "NUL \<notin> set nm" and "cat nm = None"
  shows "\<exists>pool. take_request ctl p0 s = Some (Inr (s\<lparr>xf_pool := pool,
      xf_cache := CX_Miss (miss_packet sz p0) (cache_seg g)\<rparr>)) \<and> cache_all ctl sz n cat pool (xf_content s)"
proof -
  obtain items f where c: "xf_content s = (items, f)" by fastforce
  have h: "table_ok items" "distinct (List.map fst (table_entries items))" "ctl_segment_size ctl = int sz"
    "map_of (table_entries items) nm = None" "steque_invar (xf_pool s)" "0 < ctl_num_segments ctl"
    using has assms(5) by (auto simp: cache_all_def c)
  have pool: "cache_seg g \<in> set (steque_items (xf_pool s))"
    "\<forall>h \<in> set (steque_items (xf_pool s)). \<exists>j. h = cache_seg j"
    using has \<open>g < n\<close> by (auto simp: cache_all_def c)
  have get: "simplecache_get items (Some nm) = Inr (-1)"
    using sc.get_lookup [OF h(1) nm h(2)] h(4) by simp
  from find_cache_seg [OF h(5) pool h(6)] obtain q where
    q: "find_segment (ctl_num_segments ctl) (int g) (xf_pool s) = Some (Inr (Some (cache_seg g), True, q))"
      "steque_invar q" "set (steque_items q) = set (steque_items (xf_pool s))" by blast
  have "take_request ctl p0 s = Some (Inr (s\<lparr>xf_pool := q,
      xf_cache := CX_Miss (miss_packet sz p0) (cache_seg g)\<rparr>))"
    using p get q(1) c h(3) by (simp add: take_request_def asks_def Let_def miss_packet_def)
  moreover have "cache_all ctl sz n cat q (xf_content s)"
    using has q(2,3) by (simp add: cache_all_def c)
  ultimately show ?thesis by blast
qed

text \<open>What the daemon stores changes only in the offsets and the coming reads of its files.\<close>

lemma cache_all_store:
  assumes "cache_all ctl sz n cat pool content" and "steque_invar pool'"
    and "set (steque_items pool') = set (steque_items pool)" and "fst content' = fst content"
    and "fdata (snd content') = fdata (snd content)" and "disk_ok (snd content')"
  shows "cache_all ctl sz n cat pool' content'"
  using assms by (cases content, cases content') (simp add: cache_all_def)

lemma cache_hit_all:
  assumes has: "cache_all ctl sz n cat (xf_pool s) (xf_content s)" and p: "asks p0 g nm" and "g < n"
    and nm: "NUL \<notin> set nm" and cat: "cat nm = Some (fd, D)"
  shows "\<exists>pool content. take_request ctl p0 s = Some (Inr (s\<lparr>xf_pool := pool, xf_content := content,
      xf_cache := CX_Hit (hit_packet p0 sz D (-1)) fd (cache_seg g)\<rparr>)) \<and>
    cache_all ctl sz n cat pool content \<and> fdata (snd content) = fdata (snd (xf_content s))"
proof -
  from cache_hit_step [OF cache_all_has [OF has assms(3) nm cat] p] obtain pool content where
    t: "take_request ctl p0 s = Some (Inr (s\<lparr>xf_pool := pool, xf_content := content,
        xf_cache := CX_Hit (hit_packet p0 sz D (-1)) fd (cache_seg g)\<rparr>))"
      "cache_has ctl g sz nm fd D pool content" "set (steque_items pool) = set (steque_items (xf_pool s))"
      "fst content = fst (xf_content s)" "fdata (snd content) = fdata (snd (xf_content s))"
      "disk_ok (snd content)" by blast
  have "steque_invar pool" using t(2) by (auto simp: cache_has_def split: prod.splits)
  from cache_all_store [OF has this t(3-6)] t(1,5) show ?thesis by blast
qed

lemma fill_chunk_store:
  assumes "fill_chunk p fd j g s = Inr x"
  shows "xf_pool x = xf_pool s \<and> fst (xf_content x) = fst (xf_content s) \<and>
    fdata (snd (xf_content x)) = fdata (snd (xf_content s)) \<and>
    (disk_ok (snd (xf_content s)) \<longrightarrow> disk_ok (snd (xf_content x)))"
  using assms
  by (auto simp: fill_chunk_def bind_res_eq_Inr Let_def dest: pread_fdata pread_disk_ok
      split: option.splits prod.splits if_splits)

lemma cache_step_store:
  assumes "cache_step ctl ctrl_name s = Some (Inr x)" and "xf_cache s \<noteq> CX_Wait"
  shows "xf_pool x = xf_pool s \<and> fst (xf_content x) = fst (xf_content s) \<and>
    fdata (snd (xf_content x)) = fdata (snd (xf_content s)) \<and>
    (disk_ok (snd (xf_content s)) \<longrightarrow> disk_ok (snd (xf_content x)))"
  using assms
  by (cases "xf_cache s")
    (auto simp: cache_step_def bind_res_eq_Inr elim!: on_msg_InrE dest: fill_chunk_store)

lemma cache_step_all:
  assumes "cache_step ctl ctrl_name s = Some (Inr x)" and "xf_cache s \<noteq> CX_Wait"
    and "cache_all ctl' sz n cat (xf_pool s) (xf_content s)"
  shows "cache_all ctl' sz n cat (xf_pool x) (xf_content x)"
proof -
  note st = cache_step_store [OF assms(1,2)]
  have "steque_invar (xf_pool s)" "disk_ok (snd (xf_content s))"
    using assms(3) by (auto simp: cache_all_def split: prod.splits)
  with cache_all_store [OF assms(3), of "xf_pool x" "xf_content x"] st show ?thesis by simp
qed

section \<open>The transfers in progress\<close>

text \<open>
  Thread \<open>i\<close> is in a transfer over segment \<open>g\<close> for request \<open>q\<close>, with a program counter and a
  context. The fixed things of a run: what the server library does, the files and the segments.
\<close>

type_synonym 'c transfers = "nat \<Rightarrow> (nat \<times> 'c web_request \<times> proxy_pc \<times> 'c) option"

record 'c world =
  wd_wire :: "'c \<Rightarrow> string"
  wd_ready :: "'c \<Rightarrow> bool"
  wd_cat :: catalog
  wd_ctl :: ctrl_msg
  wd_size :: nat
  wd_num :: nat

definition queues_ok :: "'c world \<Rightarrow> thread_packet ipc \<Rightarrow> bool" where
  "queues_ok W k \<longleftrightarrow>
     (\<forall>g < wd_num W. \<exists>m. ipc_shm k (mem_name g) = Some m \<and> length m = wd_size W)"

definition p2c_clear :: "'c world \<Rightarrow> nat set \<Rightarrow> thread_packet ipc \<Rightarrow> bool" where
  "p2c_clear W G k \<longleftrightarrow> (\<forall>g < wd_num W. g \<notin> G \<longrightarrow> chan k (p2c_name g) [])"

text \<open>A transfer that the daemon does not know of yet, or whose file it does not have.\<close>

inductive waiting :: "'c world \<Rightarrow> thread_packet ipc \<Rightarrow> nat \<Rightarrow> string \<Rightarrow> proxy_pc \<Rightarrow> bool"
  for W k g nm where
  request: "asks p0 g nm \<Longrightarrow> chan k (c2p_name g) [] \<Longrightarrow> waiting W k g nm (PX_Request p0)"
| asked: "asks p0 g nm \<Longrightarrow> chan k (c2p_name g) [] \<Longrightarrow> waiting W k g nm (PX_Size p0)"
| missed: "wd_cat W nm = None \<Longrightarrow> chan k (c2p_name g) [miss_packet (wd_size W) p0] \<Longrightarrow>
    waiting W k g nm (PX_Size p)"

inductive_cases waiting_requestE: "waiting W k g nm (PX_Request p)"
inductive_cases waiting_sizeE: "waiting W k g nm (PX_Size p)"
inductive_simps waiting_simps: "waiting W k g nm P"
inductive_simps waiting_request [simp]: "waiting W k g nm (PX_Request p)"

definition no_msgs :: "thread_packet mqueue" where
  "no_msgs = \<lparr>mq_msgsize = sizeof_thread_packet, mq_maxmsg = 10, mq_msgs = []\<rparr>"

text \<open>The transfer that the daemon works on.\<close>

definition serving ::
  "'c world \<Rightarrow> thread_packet ipc \<Rightarrow> nat \<Rightarrow> 'c web_request \<Rightarrow> proxy_pc \<Rightarrow> 'c \<Rightarrow> cache_pc \<Rightarrow>
     steque \<times> segment_item sheap \<Rightarrow> item_t list \<times> file_env \<Rightarrow> bool" where
  "serving W k g q P c C pool content \<longleftrightarrow>
     (\<exists>p0. asks p0 g (rq_name q) \<and>
       (case wd_cat W (rq_name q) of
          None \<Rightarrow> P = PX_Size p0 \<and> c = rq_ctx q \<and> C = CX_Miss (miss_packet (wd_size W) p0) (cache_seg g) \<and>
            chan k (c2p_name g) [] \<and> chan k (p2c_name g) []
        | Some (fd, D) \<Rightarrow> C \<noteq> CX_Wait \<and>
            xfer_ok (wd_wire W) (wd_ready W) (wd_wire W (rq_ctx q)) p0 (header_line ''OK'' (length D)) (wd_ctl W)
              g (wd_size W) (rq_name q) fd D (xview P c C (set_ctrl no_msgs k) pool content)))"

text \<open>After the proxy is done with a transfer, the daemon still has to take the last acknowledgement.\<close>

inductive tail :: "'c world \<Rightarrow> thread_packet ipc \<Rightarrow> cache_pc \<Rightarrow> bool" for W k where
  idle: "p2c_clear W {} k \<Longrightarrow> tail W k CX_Wait"
| over: "p2c_clear W {} k \<Longrightarrow> file_size p \<le> j \<Longrightarrow> tail W k (CX_Fill p fd j (cache_seg g))"
| ack: "p2c_clear W {g} k \<Longrightarrow> g < wd_num W \<Longrightarrow> chan k (p2c_name g) [p] \<Longrightarrow> file_size p \<le> j \<Longrightarrow>
    tail W k (CX_Ack fd j (cache_seg g))"

definition asked_by :: "thread_packet ipc \<Rightarrow> 'c transfers \<Rightarrow> nat \<Rightarrow> bool" where
  "asked_by k T i \<longleftrightarrow> (\<exists>g q p c. T i = Some (g, q, PX_Size p, c) \<and> chan k (c2p_name g) [])"

definition packet_of :: "'c transfers \<Rightarrow> nat \<Rightarrow> thread_packet" where
  "packet_of T i = (case T i of Some (g, q, PX_Size p, c) \<Rightarrow> p)"

text \<open>The transfers have different segments, and \<open>own\<close> is the thread that the daemon serves.\<close>

definition table_wf :: "'c world \<Rightarrow> 'c transfers \<Rightarrow> bool" where
  "table_wf W T \<longleftrightarrow>
     (\<forall>i g q P c. T i = Some (g, q, P, c) \<longrightarrow>
        g < wd_num W \<and> rq_ok (wd_ready W) q \<and> (\<forall>r. P \<noteq> PX_Done r) \<and>
        (\<forall>j q' P' c'. T j = Some (g, q', P', c') \<longrightarrow> j = i))"

lemma table_wfD:
  assumes "table_wf W T" and "T i = Some (g, q, P, c)"
  shows "g < wd_num W" and "rq_ok (wd_ready W) q" and "P \<noteq> PX_Done r"
  using assms unfolding table_wf_def by blast+

lemma table_wf_unique:
  assumes "table_wf W T" and "T i = Some (g, q, P, c)" and "T j = Some (g, q', P', c')"
  shows "j = i"
  using assms unfolding table_wf_def by simp

definition waits_ok :: "'c world \<Rightarrow> 'c transfers \<Rightarrow> nat option \<Rightarrow> thread_packet ipc \<Rightarrow> bool" where
  "waits_ok W T own k \<longleftrightarrow>
     (\<forall>i g q P c. T i = Some (g, q, P, c) \<longrightarrow> own \<noteq> Some i \<longrightarrow> waiting W k g (rq_name q) P \<and> c = rq_ctx q) \<and>
     (\<forall>g < wd_num W. (\<forall>i q P c. T i \<noteq> Some (g, q, P, c)) \<longrightarrow> chan k (c2p_name g) [])"

lemma waits_okD:
  assumes "waits_ok W T own k" and "T i = Some (g, q, P, c)" and "own \<noteq> Some i"
  shows "waiting W k g (rq_name q) P \<and> c = rq_ctx q"
  using assms unfolding waits_ok_def by blast

definition ctrl_ok :: "'c transfers \<Rightarrow> nat option \<Rightarrow> thread_packet ipc \<Rightarrow> bool" where
  "ctrl_ok T own k \<longleftrightarrow>
     (\<exists>ts. distinct ts \<and> chan k ctrl_name (List.map (packet_of T) ts) \<and>
        (\<forall>i. i \<in> set ts \<longleftrightarrow> own \<noteq> Some i \<and> asked_by k T i))"

definition own_ok ::
  "'c world \<Rightarrow> 'c transfers \<Rightarrow> nat option \<Rightarrow> thread_packet ipc \<Rightarrow> cache_pc \<Rightarrow>
     steque \<times> segment_item sheap \<Rightarrow> item_t list \<times> file_env \<Rightarrow> bool" where
  "own_ok W T own k C pool content \<longleftrightarrow>
     (case own of
        None \<Rightarrow> tail W k C
      | Some i \<Rightarrow> \<exists>g q P c. T i = Some (g, q, P, c) \<and> serving W k g q P c C pool content \<and> p2c_clear W {g} k)"

definition transfers_ok ::
  "'c world \<Rightarrow> 'c transfers \<Rightarrow> nat option \<Rightarrow> thread_packet ipc \<Rightarrow> cache_pc \<Rightarrow>
     steque \<times> segment_item sheap \<Rightarrow> item_t list \<times> file_env \<Rightarrow> bool" where
  "transfers_ok W T own k C pool content \<longleftrightarrow>
     table_wf W T \<and> cache_all (wd_ctl W) (wd_size W) (wd_num W) (wd_cat W) pool content \<and> queues_ok W k \<and>
     waits_ok W T own k \<and> ctrl_ok T own k \<and> own_ok W T own k C pool content"

section \<open>Steps of a transfer seen from the others\<close>

lemma chan_unique: "chan k d ms \<Longrightarrow> chan k d ms' \<Longrightarrow> ms = ms'"
  by (simp add: chan_def)

lemma name_eq [simp]:
  "c2p_name g = c2p_name h \<longleftrightarrow> g = h" "p2c_name g = p2c_name h \<longleftrightarrow> g = h" "mem_name g = mem_name h \<longleftrightarrow> g = h"
  "c2p_name g \<noteq> p2c_name h" "p2c_name g \<noteq> c2p_name h"
  by (auto simp: c2p_name_def p2c_name_def mem_name_def cache_prefix_def proxy_prefix_def dest: dec_of_nat_inj)

lemma chan_same_but:
  "same_but g k k' \<Longrightarrow> d \<notin> {c2p_name g, p2c_name g} \<Longrightarrow> chan k' d ms = chan k d ms"
  by (simp add: chan_def same_but_def)

lemma chan_others:
  assumes "same_but g k k'" and "h \<noteq> g"
  shows "chan k' (c2p_name h) ms = chan k (c2p_name h) ms" "chan k' (p2c_name h) ms = chan k (p2c_name h) ms"
  using chan_same_but [OF assms(1)] assms(2) by simp_all

lemma chan_set_ctrl [simp]: "d \<noteq> ctrl_name \<Longrightarrow> chan (set_ctrl q k) d ms = chan k d ms"
  by (simp add: chan_def)

lemma waiting_cong:
  assumes "\<And>ms. chan k' (c2p_name g) ms = chan k (c2p_name g) ms"
  shows "waiting W k' g nm P = waiting W k g nm P"
  using assms by (auto simp: waiting.simps)

lemma p2c_clear_others:
  assumes "same_but g k k'" and "g \<in> G"
  shows "p2c_clear W G k' = p2c_clear W G k"
proof -
  have "chan k' (p2c_name h) ms = chan k (p2c_name h) ms" if "h \<notin> G" for h ms
    using chan_others(2) [OF assms(1), of h] assms(2) that by auto
  then show ?thesis by (auto simp: p2c_clear_def)
qed

text \<open>
  The general step: thread \<open>i\<close> goes on to the entry \<open>t\<close> (or out of the table), with a change of the queues and
  the memory of its segment only.
\<close>

lemma waits_step:
  assumes wf: "table_wf W T" and w: "waits_ok W T own k" and sb: "same_but g k k'"
    and i: "T i = Some (g, q, P, c)"
    and t: "(\<exists>P' c'. t = Some (g, q, P', c') \<and> (own' \<noteq> Some i \<longrightarrow> waiting W k' g (rq_name q) P' \<and> c' = rq_ctx q)) \<or>
      t = None \<and> chan k' (c2p_name g) []"
    and own: "\<forall>j. j \<noteq> i \<longrightarrow> own' \<noteq> Some j \<longrightarrow> own \<noteq> Some j"
  shows "waits_ok W (T(i := t)) own' k'"
  unfolding waits_ok_def
proof (rule conjI; intro allI impI)
  have other: "h \<noteq> g" if "T j = Some (h, q1, P1, c1)" "j \<noteq> i" for j h q1 P1 c1
    using wf i that unfolding table_wf_def by blast
  fix j h q1 P1 c1
  assume j: "(T(i := t)) j = Some (h, q1, P1, c1)" and o1: "own' \<noteq> Some j"
  show "waiting W k' h (rq_name q1) P1 \<and> c1 = rq_ctx q1"
  proof (cases "j = i")
    case True
    with j t o1 show ?thesis by auto
  next
    case False
    with j have "T j = Some (h, q1, P1, c1)" by simp
    moreover from other [OF this False] chan_others(1) [OF sb]
    have "waiting W k' h (rq_name q1) P1 = waiting W k h (rq_name q1) P1" by (intro waiting_cong) simp
    moreover have "own \<noteq> Some j" using own False o1 by blast
    ultimately show ?thesis using w unfolding waits_ok_def by blast
  qed
next
  fix h
  assume h: "h < wd_num W" and free: "\<forall>j q P c. (T(i := t)) j \<noteq> Some (h, q, P, c)"
  show "chan k' (c2p_name h) []"
  proof (cases "h = g")
    case True
    with free t show ?thesis by (auto dest: spec [of _ i])
  next
    case False
    have "T j \<noteq> Some (h, q1, P1, c1)" for j q1 P1 c1
    proof (cases "j = i")
      case True
      with i False show ?thesis by simp
    next
      case False
      with free show ?thesis by (metis fun_upd_other)
    qed
    then have "chan k (c2p_name h) []" using w h unfolding waits_ok_def by blast
    with chan_others(1) [OF sb False] show ?thesis by simp
  qed
qed

lemma table_step:
  assumes "table_wf W T" and "T i = Some (g, q, P, c)"
    and "(\<exists>P' c'. t = Some (g, q, P', c') \<and> (\<forall>r. P' \<noteq> PX_Done r)) \<or> t = None"
  shows "table_wf W (T(i := t))"
proof -
  from assms(1,2) have "g < wd_num W \<and> rq_ok (wd_ready W) q \<and>
      (\<forall>j q' P' c'. T j = Some (g, q', P', c') \<longrightarrow> j = i)"
    unfolding table_wf_def by blast
  note new = this
  have old: "\<exists>q' P' c'. T j = Some (h, q', P', c')" if "(T(i := t)) j = Some (h, q1, P1, c1)" for j h q1 P1 c1
    using that assms(2,3) by (cases "j = i") auto
  show ?thesis
    unfolding table_wf_def
  proof (intro allI impI)
    fix j h q1 P1 c1
    assume j: "(T(i := t)) j = Some (h, q1, P1, c1)"
    have u: "\<forall>l q' P' c'. (T(i := t)) l = Some (h, q', P', c') \<longrightarrow> l = j"
      using assms(1) old [OF j] old unfolding table_wf_def by meson
    show "h < wd_num W \<and> rq_ok (wd_ready W) q1 \<and> (\<forall>r. P1 \<noteq> PX_Done r) \<and>
        (\<forall>l q' P' c'. (T(i := t)) l = Some (h, q', P', c') \<longrightarrow> l = j)"
    proof (cases "j = i")
      case True
      with j assms(3) have "h = g" "q1 = q" "\<forall>r. P1 \<noteq> PX_Done r" by auto
      with new u show ?thesis by simp
    next
      case False
      with j have "T j = Some (h, q1, P1, c1)" by simp
      with assms(1) u show ?thesis unfolding table_wf_def by blast
    qed
  qed
qed

lemma queues_step: "queues_ok W k \<Longrightarrow> same_but g k k' \<Longrightarrow>
    \<exists>m. ipc_shm k' (mem_name g) = Some m \<and> length m = wd_size W \<Longrightarrow> queues_ok W k'"
  unfolding queues_ok_def same_but_def by (metis name_eq(3))

text \<open>The control queue when it does not change: the same threads have asked.\<close>

lemma ctrl_step:
  assumes "ctrl_ok T own k" and "ipc_queues k' ctrl_name = ipc_queues k ctrl_name"
    and "\<forall>j. (own' \<noteq> Some j \<and> asked_by k' T' j) = (own \<noteq> Some j \<and> asked_by k T j)"
    and "\<forall>j. own \<noteq> Some j \<and> asked_by k T j \<longrightarrow> T' j = T j"
  shows "ctrl_ok T' own' k'"
proof -
  from assms(1) obtain ts where
    ts: "distinct ts" "chan k ctrl_name (List.map (packet_of T) ts)"
      "\<forall>i. i \<in> set ts \<longleftrightarrow> own \<noteq> Some i \<and> asked_by k T i" unfolding ctrl_ok_def by blast
  have "List.map (packet_of T') ts = List.map (packet_of T) ts"
    using ts(3) assms(4) by (auto simp: packet_of_def)
  then have "chan k' ctrl_name (List.map (packet_of T') ts)"
    using ts(2) assms(2) by (simp add: chan_def)
  moreover have "\<forall>i. i \<in> set ts \<longleftrightarrow> own' \<noteq> Some i \<and> asked_by k' T' i" using ts(3) assms(3) by simp
  ultimately show ?thesis using ts(1) unfolding ctrl_ok_def by (intro exI [of _ ts]) simp
qed

lemma asked_by_other:
  assumes wf: "table_wf W T" and i: "T i = Some (g, q, P, c)" and sb: "same_but g k k'" and "j \<noteq> i"
  shows "asked_by k' (T(i := t)) j = asked_by k T j"
proof -
  have "h \<noteq> g" if "T j = Some (h, q1, P1, c1)" for h q1 P1 c1
    using wf i that \<open>j \<noteq> i\<close> unfolding table_wf_def by blast
  note other = this
  show ?thesis
  proof (cases "T j")
    case (Some t1)
    obtain h q1 P1 c1 where t1: "t1 = (h, q1, P1, c1)" by (cases t1)
    from other [OF Some [unfolded t1]] have "chan k' (c2p_name h) [] = chan k (c2p_name h) []"
      by (rule chan_others(1) [OF sb])
    with Some t1 \<open>j \<noteq> i\<close> show ?thesis by (simp add: asked_by_def)
  qed (use \<open>j \<noteq> i\<close> in \<open>simp add: asked_by_def\<close>)
qed

text \<open>What the service of segment \<open>h\<close> sees of the kernel.\<close>

definition same_for :: "nat \<Rightarrow> thread_packet ipc \<Rightarrow> thread_packet ipc \<Rightarrow> bool" where
  "same_for h k k' \<longleftrightarrow> ipc_queues k' (c2p_name h) = ipc_queues k (c2p_name h) \<and>
     ipc_queues k' (p2c_name h) = ipc_queues k (p2c_name h) \<and> ipc_shm k' (mem_name h) = ipc_shm k (mem_name h)"

lemma same_but_for: "same_but g k k' \<Longrightarrow> h \<noteq> g \<Longrightarrow> same_for h k k'"
  by (simp add: same_but_def same_for_def)

lemma same_for_set_ctrl: "same_for h k (set_ctrl q k)"
  by (simp add: same_for_def)

lemma serving_cong:
  assumes "same_for h k k'"
  shows "serving W k' h q P c C pool content = serving W k h q P c C pool content"
proof -
  have "chans h sz (set_ctrl no_msgs k') cm c2p p2c m = chans h sz (set_ctrl no_msgs k) cm c2p p2c m"
    for sz cm c2p p2c m
    using assms by (simp add: chans_def chan_def same_for_def)
  then have "xfer_ok wire ready w0 p0 H ctl h sz nm fd D (xview P c C (set_ctrl no_msgs k') pool content) =
      xfer_ok wire ready w0 p0 H ctl h sz nm fd D (xview P c C (set_ctrl no_msgs k) pool content)"
    for wire ready w0 p0 H ctl sz nm fd D
    by (simp add: xfer_ok_def)
  moreover have "chan k' (c2p_name h) ms = chan k (c2p_name h) ms" "chan k' (p2c_name h) ms = chan k (p2c_name h) ms"
    for ms using assms by (simp_all add: chan_def same_for_def)
  ultimately show ?thesis
    by (cases "wd_cat W (rq_name q)") (simp_all add: serving_def case_prod_unfold)
qed

lemma serving_not_waiting:
  assumes "serving W k g q P c C pool content"
  shows "(\<forall>p. P \<noteq> PX_Request p) \<and> C \<noteq> CX_Wait"
proof (cases "wd_cat W (rq_name q)")
  case None
  with assms show ?thesis by (auto simp: serving_def)
next
  case (Some f)
  obtain fd D where f: "f = (fd, D)" by (cases f)
  from assms obtain p0 where C: "C \<noteq> CX_Wait" and
    "xfer_ok (wd_wire W) (wd_ready W) (wd_wire W (rq_ctx q)) p0 (header_line ''OK'' (length D)) (wd_ctl W)
      g (wd_size W) (rq_name q) fd D (xview P c C (set_ctrl no_msgs k) pool content)"
    by (auto simp: serving_def Some f)
  then obtain cm c2p p2c m sent where
    "phase p0 (header_line ''OK'' (length D)) D (wd_size W) fd g P C cm c2p p2c m sent"
    unfolding xfer_ok_def by auto
  then have "\<forall>p. P \<noteq> PX_Request p"
    using C by (auto elim!: phase.cases awaiting.cases simp: next_round_def split: if_splits)
  with C show ?thesis by blast
qed

text \<open>Weights: what a transfer, the messages in the control queue and the worker have still to do.\<close>

fun transfer_weight :: "catalog \<Rightarrow> (nat \<times> 'c web_request \<times> proxy_pc \<times> 'c) option \<Rightarrow> nat" where
  "transfer_weight cat None = 0"
| "transfer_weight cat (Some (g, q, PX_Request p, c)) = 6 * length (file_of cat (rq_name q)) + 5"
| "transfer_weight cat (Some (g, q, P, c)) = proxy_weight (file_of cat (rq_name q)) P"

definition message_weight :: "catalog \<Rightarrow> thread_packet \<Rightarrow> nat" where
  "message_weight cat p = 3 * length (file_of cat (takeWhile (\<lambda>c. c \<noteq> NUL) (requested_file p))) + 3"

definition ctrl_weight :: "catalog \<Rightarrow> thread_packet ipc \<Rightarrow> nat" where
  "ctrl_weight cat k =
     (case ipc_queues k ctrl_name of
        None \<Rightarrow> 0
      | Some q \<Rightarrow> sum_list (List.map (message_weight cat) (mq_msgs q)))"

fun worker_weight :: "file_env \<Rightarrow> cache_pc \<Rightarrow> nat" where
  "worker_weight f CX_Wait = 0"
| "worker_weight f (CX_Miss p g) = 1"
| "worker_weight f (CX_Hit p fd g) = 3 * length (fdata f fd) + 2"
| "worker_weight f (CX_Fill p fd j g) = 3 * (length (fdata f fd) - nat j) + 1"
| "worker_weight f (CX_Tell p fd j g) = 3 * (length (fdata f fd) - nat j)"
| "worker_weight f (CX_Ack fd j g) = 3 * (length (fdata f fd) - nat j) + 2"

lemma ctrl_weight_chan: "chan k ctrl_name ms \<Longrightarrow> ctrl_weight cat k = sum_list (List.map (message_weight cat) ms)"
  by (simp add: ctrl_weight_def chan_def)

lemma ctrl_weight_same: "ipc_queues k' ctrl_name = ipc_queues k ctrl_name \<Longrightarrow> ctrl_weight cat k' = ctrl_weight cat k"
  by (simp add: ctrl_weight_def)

lemma same_but_ctrl: "same_but g k k' \<Longrightarrow> ipc_queues k' ctrl_name = ipc_queues k ctrl_name"
  by (simp add: same_but_def)

lemma scan_nul_takeWhile: "scan_nul m = Inr s \<Longrightarrow> takeWhile (\<lambda>c. c \<noteq> NUL) m = s"
  by (induction m arbitrary: s) (auto split: if_splits sum.splits)

lemma message_weight_asks:
  assumes "asks p0 g nm"
  shows "message_weight cat p0 = 3 * length (file_of cat nm) + 3"
proof -
  from assms have "takeWhile (\<lambda>c. c \<noteq> NUL) (requested_file p0) = nm"
    using scan_nul_takeWhile by (auto simp: asks_def cstr_at_def split: if_splits)
  then show ?thesis by (simp add: message_weight_def)
qed

section \<open>A step of a proxy thread\<close>

text \<open>The entry of a transfer after a step that left the transfer in the state \<open>x\<close>.\<close>

definition next_entry :: "nat \<Rightarrow> 'c web_request \<Rightarrow> 'c xfer \<Rightarrow> (nat \<times> 'c web_request \<times> proxy_pc \<times> 'c) option" where
  "next_entry g q x = (case xf_proxy x of PX_Done r \<Rightarrow> None | P \<Rightarrow> Some (g, q, P, xf_ctx x))"

definition entry_done :: "'c world \<Rightarrow> 'c web_request \<Rightarrow> 'c xfer \<Rightarrow> bool" where
  "entry_done W q x \<longleftrightarrow> (\<forall>r. xf_proxy x = PX_Done r \<longrightarrow> answered (wd_wire W) (wd_cat W) q (r, xf_ctx x))"

definition proxy_next ::
  "'c world \<Rightarrow> 'c transfers \<Rightarrow> nat \<Rightarrow> nat \<Rightarrow> 'c web_request \<Rightarrow> thread_packet ipc \<Rightarrow> cache_pc \<Rightarrow>
     steque \<times> segment_item sheap \<Rightarrow> item_t list \<times> file_env \<Rightarrow> 'c xfer \<Rightarrow> bool" where
  "proxy_next W T i g q k C pool content x \<longleftrightarrow>
     (\<exists>own. transfers_ok W (T(i := next_entry g q x)) own (xf_ipc x) C pool content) \<and> entry_done W q x \<and>
     transfer_weight (wd_cat W) (next_entry g q x) + ctrl_weight (wd_cat W) (xf_ipc x) <
       transfer_weight (wd_cat W) (T i) + ctrl_weight (wd_cat W) k"

lemma own_not_request:
  assumes "own_ok W T own k C pool content" and "T i = Some (g, q, PX_Request p0, c)"
  shows "own \<noteq> Some i"
proof
  assume "own = Some i"
  with assms have "serving W k g q (PX_Request p0) c C pool content" by (auto simp: own_ok_def)
  from serving_not_waiting [OF this] show False by simp
qed

lemma tail_cong:
  assumes "\<And>h ms. chan k' (p2c_name h) ms = chan k (p2c_name h) ms"
  shows "tail W k' C = tail W k C"
  using assms by (auto simp: tail.simps p2c_clear_def)

lemma proxy_asks:
  assumes ok: "transfers_ok W T own k C pool content" and i: "T i = Some (g, q, PX_Request p0, c)"
    and step: "proxy_step api junk ctrl_name (proxy_seg g) (xview (PX_Request p0) c C' k pool' content') = Some r"
  shows "\<exists>x. r = Inr x \<and> proxy_next W T i g q k C pool content x"
proof -
  note d = ok [unfolded transfers_ok_def]
  have own: "own \<noteq> Some i" by (rule own_not_request [where T = T, OF _ i]) (use d in blast)
  let ?t = "Some (g, q, PX_Size p0, c)"
  have wt: "asks p0 g (rq_name q)" "chan k (c2p_name g) []" "c = rq_ctx q"
    using waits_okD [of W T own k i g q "PX_Request p0" c] d i own by simp_all
  from d obtain ts where ts: "distinct ts" "chan k ctrl_name (List.map (packet_of T) ts)"
      "\<forall>i. i \<in> set ts \<longleftrightarrow> own \<noteq> Some i \<and> asked_by k T i" unfolding ctrl_ok_def by blast
  define qm where "qm = \<lparr>mq_msgsize = sizeof_thread_packet, mq_maxmsg = 10, mq_msgs = List.map (packet_of T) ts @ [p0]\<rparr>"
  let ?k = "set_ctrl qm k"
  have r: "r = Inr (xview (PX_Size p0) c C' ?k pool' content')"
    using step ts(2) by (auto simp: proxy_step_def tx_mq_def chan_def set_ctrl_def qm_def split: if_splits)
  have notin: "i \<notin> set ts" using ts(3) i by (auto simp: asked_by_def)
  have ask: "asked_by ?k (T(i := ?t)) j \<longleftrightarrow> j = i \<or> asked_by k T j" for j
    using wt(2) i by (auto simp: asked_by_def)
  have "List.map (packet_of (T(i := ?t))) ts = List.map (packet_of T) ts"
    using notin by (auto simp: packet_of_def)
  then have "chan ?k ctrl_name (List.map (packet_of (T(i := ?t))) (ts @ [i]))"
    by (simp add: chan_def qm_def packet_of_def)
  then have "ctrl_ok (T(i := ?t)) own ?k"
    unfolding ctrl_ok_def using ts(1,3) notin ask own by (intro exI [of _ "ts @ [i]"]) auto
  moreover have "waits_ok W (T(i := ?t)) own ?k"
  proof -
    have eq: "waiting W ?k h nm P = waiting W k h nm P" for h nm P by (rule waiting_cong) simp
    have "waiting W k g (rq_name q) (PX_Size p0)" using wt by (intro waiting.asked)
    with waits_step [of W T own k g k i q "PX_Request p0" c ?t own] d i wt(3)
    have "waits_ok W (T(i := ?t)) own k" by simp
    then show ?thesis unfolding waits_ok_def eq by simp
  qed
  moreover have "own_ok W (T(i := ?t)) own ?k C pool content"
  proof (cases own)
    case None
    have "tail W ?k C = tail W k C" by (rule tail_cong) simp
    with d None show ?thesis by (simp add: own_ok_def)
  next
    case (Some j)
    then have "j \<noteq> i" using own by simp
    moreover have "p2c_clear W G ?k = p2c_clear W G k" for G by (simp add: p2c_clear_def)
    ultimately show ?thesis
      using d Some by (simp add: own_ok_def serving_cong [OF same_for_set_ctrl])
  qed
  moreover have "table_wf W (T(i := ?t))" using d i by (auto intro: table_step)
  moreover have "queues_ok W ?k" using d by (simp add: queues_ok_def)
  ultimately have "transfers_ok W (T(i := ?t)) own ?k C pool content" using d by (simp add: transfers_ok_def)
  moreover have "ctrl_weight (wd_cat W) ?k = ctrl_weight (wd_cat W) k + message_weight (wd_cat W) p0"
    using ts(2) ctrl_weight_chan [of ?k] by (simp add: ctrl_weight_chan chan_def qm_def)
  ultimately show ?thesis
    using r i message_weight_asks [OF wt(1), of "wd_cat W"]
    by (auto simp: proxy_next_def next_entry_def entry_done_def)
qed

lemma own_keeps:
  assumes own: "own \<noteq> Some i" and wf: "table_wf W T" and i: "T i = Some (g, q, P, c)"
    and sb: "same_but g k k'" and p2c: "ipc_queues k' (p2c_name g) = ipc_queues k (p2c_name g)"
    and o0: "own_ok W T own k C pool content"
  shows "own_ok W (T(i := t)) own k' C pool content"
proof -
  have ch: "chan k' (p2c_name h) ms = chan k (p2c_name h) ms" for h ms
    using chan_others(2) [OF sb, of h] p2c by (cases "h = g") (auto simp: chan_def)
  then have cl: "p2c_clear W G k' = p2c_clear W G k" for G by (simp add: p2c_clear_def)
  show ?thesis
  proof (cases own)
    case None
    with o0 tail_cong [of k' k W C] ch show ?thesis by (simp add: own_ok_def)
  next
    case (Some j)
    with o0 obtain h q1 P1 c1 where
      j: "T j = Some (h, q1, P1, c1)" "serving W k h q1 P1 c1 C pool content" "p2c_clear W {h} k"
      by (auto simp: own_ok_def)
    have ij: "j \<noteq> i" using Some own by simp
    then have "h \<noteq> g" using wf i j(1) unfolding table_wf_def by blast
    with j(2,3) have "serving W k' h q1 P1 c1 C pool content" "p2c_clear W {h} k'"
      by (simp_all add: serving_cong [OF same_but_for [OF sb]] cl)
    with Some ij j(1) show ?thesis by (auto simp: own_ok_def)
  qed
qed

lemma queues_ok_shm: "queues_ok W k \<Longrightarrow> ipc_shm k' = ipc_shm k \<Longrightarrow> queues_ok W k'"
  by (simp add: queues_ok_def)

lemma proxy_misses:
  assumes api: "gfs_api api (wd_wire W) (wd_ready W)"
    and ok: "transfers_ok W T own k C pool content" and i: "T i = Some (g, q, PX_Size p, c)"
    and own: "own \<noteq> Some i" and cat: "wd_cat W (rq_name q) = None"
    and ch: "chan k (c2p_name g) [miss_packet (wd_size W) p0]"
    and step: "proxy_step api junk ctrl_name (proxy_seg g) (xview (PX_Size p) c C' k pool' content') = Some r"
  shows "\<exists>x. r = Inr x \<and> proxy_next W T i g q k C pool content x"
proof -
  note d = ok [unfolded transfers_ok_def]
  have c: "c = rq_ctx q" using waits_okD [of W T own k i g q "PX_Size p" c] d i own by simp
  have "wd_ready W c" using table_wfD(2) [of W T i g q "PX_Size p" c] d i c by (simp add: rq_ok_def)
  from gfs_api.header_ready [OF api this gfs_strstatus_known(2), of 0] obtain c1 where
    h: "api_sendheader api c S_GF_FILE_NOT_FOUND 0 = Inr (int (length (header_line ''FILE_NOT_FOUND'' 0)), c1)"
    by auto
  with gfs_api.header_law [OF api gfs_strstatus_known(2), of 0 c] have
    w: "wd_wire W c1 = wd_wire W c @ header_line ''FILE_NOT_FOUND'' 0" by simp
  define k1 where "k1 = k\<lparr>ipc_queues := (ipc_queues k)(c2p_name g \<mapsto> no_msgs)\<rparr>"
  have rx: "rx_mq (c2p_name g) sizeof_thread_packet k = Some (Inr (miss_packet (wd_size W) p0, k1))"
    using ch by (simp add: rx_mq_def chan_def k1_def no_msgs_def)
  let ?x = "xview (PX_Done (int (length (header_line ''FILE_NOT_FOUND'' 0)))) c1 C' k1 pool' content'"
  have r: "r = Inr ?x"
    using step rx h by (simp add: proxy_step_def rx_filesize_def miss_packet_def)
  have sb: "same_but g k k1" by (simp add: same_but_def k1_def)
  have empty: "chan k1 (c2p_name g) []" by (simp add: chan_def k1_def no_msgs_def)
  have ask: "asked_by k1 (T(i := None)) j = asked_by k T j" for j
  proof (cases "j = i")
    case True
    have "\<not> asked_by k T i" using ch i by (auto simp: asked_by_def dest: chan_unique)
    with True show ?thesis by (simp add: asked_by_def)
  next
    case False
    with asked_by_other [of W T i g q "PX_Size p" c k k1 j None] d i sb show ?thesis by simp
  qed
  have "\<not> asked_by k T i" using ch i by (auto simp: asked_by_def dest: chan_unique)
  then have "own \<noteq> Some j \<and> asked_by k T j \<longrightarrow> (T(i := None)) j = T j" for j by auto
  then have "ctrl_ok (T(i := None)) own k1"
    using d by (intro ctrl_step [where T = T and own = own and k = k, OF _ same_but_ctrl [OF sb]]) (simp_all add: ask)
  moreover have "waits_ok W (T(i := None)) own k1"
    using waits_step [of W T own k g k1 i q "PX_Size p" c None own] d i sb empty by simp
  moreover have "own_ok W (T(i := None)) own k1 C pool content"
    using own_keeps [where T = T, OF own _ i sb, of W C pool content] d by (simp add: k1_def)
  moreover have "table_wf W (T(i := None))" using d i by (auto intro: table_step)
  moreover have "queues_ok W k1" using d by (auto intro: queues_ok_shm simp: k1_def)
  ultimately have "transfers_ok W (T(i := None)) own k1 C pool content" using d by (simp add: transfers_ok_def)
  moreover have "entry_done W q ?x" using w c cat by (simp add: entry_done_def answered_def reply_def)
  ultimately show ?thesis
    using r i ctrl_weight_same [OF same_but_ctrl [OF sb]] by (auto simp: proxy_next_def next_entry_def)
qed

lemma proxy_step_rest:
  assumes "proxy_step api junk ctrl seg (xview P c C k pool content) = Some (Inr x)"
  shows "x = xview (xf_proxy x) (xf_ctx x) C (xf_ipc x) pool content"
proof -
  have eq: "proxy_step api junk ctrl seg (xview P c C k pool content) =
      on_msg (proxy_step api junk ctrl seg (xview P c C k pool content))
       (\<lambda>x. Inr (xview (xf_proxy x) (xf_ctx x) C (xf_ipc x) pool content))"
    by (rule proxy_step_view)
  from eq [unfolded assms] show ?thesis by simp
qed

text \<open>The end of a transfer as the daemon sees it, and the weight of the worker in a transfer.\<close>

lemma phase_tail:
  assumes ph: "phase p0 H D sz fd g (PX_Done r) C cm c2p p2c m sent" and C: "C \<noteq> CX_Wait"
    and ch: "chans g sz k cm c2p p2c m" and g: "g < wd_num W" and cl: "p2c_clear W {g} k"
  shows "tail W k C \<and> c2p = []"
  using ph
proof cases
  case (acked j c)
  then have j: "j = length D" by (auto simp: next_round_def split: if_splits)
  show ?thesis using acked j ch cl g by (auto simp: chans_def intro!: tail.ack)
next
  case (last c)
  moreover from last ch cl have "p2c_clear W {} k" by (auto simp: chans_def p2c_clear_def)
  ultimately show ?thesis by (auto intro: tail.over)
qed (use C in \<open>auto elim: awaiting.cases\<close>)

lemma phase_queues:
  assumes "phase p0 H D sz fd g P C cm c2p p2c m sent" and "C \<noteq> CX_Wait"
  shows "cm = []"
  using assms by cases auto

lemma serving_hitD:
  assumes "serving W k g q P c C pool content" and "wd_cat W (rq_name q) = Some (fd, D)"
  obtains p0 where "asks p0 g (rq_name q)" and "C \<noteq> CX_Wait"
    and "xfer_ok (wd_wire W) (wd_ready W) (wd_wire W (rq_ctx q)) p0 (header_line ''OK'' (length D)) (wd_ctl W)
      g (wd_size W) (rq_name q) fd D (xview P c C (set_ctrl no_msgs k) pool content)"
  using assms by (auto simp: serving_def)

lemma ctrl_chan:
  assumes "ctrl_ok T own k"
  obtains qm where "k = set_ctrl qm (set_ctrl no_msgs k)" "ipc_queues k ctrl_name = Some qm"
  using assms that set_ctrl_same by (fastforce simp: ctrl_ok_def chan_def)

lemma cache_weight_any: "C \<noteq> CX_Wait \<Longrightarrow> cache_weight D e C = cache_weight D e' C"
  by (cases C) simp_all

lemma transfer_weight_proxy: "(\<forall>p. P \<noteq> PX_Request p) \<Longrightarrow>
    transfer_weight cat (Some (g, q, P, c)) = proxy_weight (file_of cat (rq_name q)) P"
  by (cases P) simp_all

lemma proxy_served:
  assumes api: "gfs_api api (wd_wire W) (wd_ready W)"
    and ok: "transfers_ok W T (Some i) k C pool content" and i: "T i = Some (g, q, P, c)"
    and cat: "wd_cat W (rq_name q) = Some (fd, D)"
    and step: "proxy_step api junk ctrl_name (proxy_seg g) (xview P c C' k pool' content') = Some r"
  shows "\<exists>x. r = Inr x \<and> proxy_next W T i g q k C pool content x"
proof -
  let ?H = "header_line ''OK'' (length D)"
  note d = ok [unfolded transfers_ok_def]
  have sv: "serving W k g q P c C pool content" and cl: "p2c_clear W {g} k"
    using d i by (auto simp: own_ok_def)
  have g: "g < wd_num W" using table_wfD(1) [of W T i g q P c] d i by simp
  note nr = serving_not_waiting [OF sv]
  from sv cat obtain p0 where C: "asks p0 g (rq_name q)" "C \<noteq> CX_Wait" and
    xo: "xfer_ok (wd_wire W) (wd_ready W) (wd_wire W (rq_ctx q)) p0 ?H (wd_ctl W)
      g (wd_size W) (rq_name q) fd D (xview P c C (set_ctrl no_msgs k) pool content)" by (rule serving_hitD)
  from d have "ctrl_ok T (Some i) k" by blast
  then obtain qm where qm: "k = set_ctrl qm (set_ctrl no_msgs k)" "ipc_queues k ctrl_name = Some qm"
    by (rule ctrl_chan)
  let ?k0 = "set_ctrl no_msgs k"
  let ?s0 = "xview P c C ?k0 pool content"
  let ?step = "proxy_step api junk ctrl_name (proxy_seg g)"
  have "?step (xview P c C' k pool' content') =
      on_msg (?step (xview P c C k pool content)) (\<lambda>x. Inr (xview (xf_proxy x) (xf_ctx x) C' (xf_ipc x) pool' content'))"
    by (rule proxy_step_view)
  moreover have "?step (xview P c C k pool content) = on_msg (?step ?s0) (\<lambda>x. Inr (with_ctrl qm x))"
    using proxy_step_frame [where k = ?k0 and q = qm and P = P] nr qm(1) by simp
  ultimately have eq: "on_msg (?step ?s0)
      (\<lambda>x. Inr (xview (xf_proxy x) (xf_ctx x) C' (set_ctrl qm (xf_ipc x)) pool' content')) = Some r"
    using step by (simp add: on_msg_on_msg)
  then obtain r0 where r0: "?step ?s0 = Some r0" by (cases "?step ?s0") auto
  from gfs_api.proxy_keeps [OF api xo r0] obtain y where
    y: "r0 = Inr y" "xfer_ok (wd_wire W) (wd_ready W) (wd_wire W (rq_ctx q)) p0 ?H (wd_ctl W)
      g (wd_size W) (rq_name q) fd D y" "xfer_weight D y < xfer_weight D ?s0"
    by (auto simp: xfer_progress_def)
  note yv = proxy_step_rest [OF r0 [unfolded y(1)]]
  define k1 where "k1 = set_ctrl qm (xf_ipc y)"
  let ?x = "xview (xf_proxy y) (xf_ctx y) C' k1 pool' content'"
  have r: "r = Inr ?x" using eq r0 y(1) by (simp add: k1_def)
  have sb0: "same_but g ?k0 (xf_ipc y)" using proxy_step_same_but [OF r0 [unfolded y(1)]] nr by simp
  have sb: "same_but g k k1"
    using sb0 qm(2) by (auto simp: same_but_def k1_def set_ctrl_def)
  from y(2) obtain cm c2p p2c m sent where
    ph: "phase p0 ?H D (wd_size W) fd g (xf_proxy y) (xf_cache y) cm c2p p2c m sent" and
    ch: "chans g (wd_size W) (xf_ipc y) cm c2p p2c m" and
    wr: "wd_wire W (xf_ctx y) = wd_wire W (rq_ctx q) @ sent"
    unfolding xfer_ok_def by blast
  have yC: "xf_cache y = C" using arg_cong [OF yv, of xf_cache] by simp
  have cm: "cm = []" using phase_queues [OF ph] yC C(2) by simp
  then have k1: "set_ctrl no_msgs k1 = xf_ipc y"
    using ch set_ctrl_same [of "xf_ipc y" no_msgs] by (simp add: k1_def chans_def chan_def no_msgs_def)
  have ch1: "chan k1 (c2p_name g) c2p" "chan k1 (p2c_name g) p2c" "ipc_shm k1 (mem_name g) = Some m"
    "length m = wd_size W" using ch by (simp_all add: chans_def k1_def)
  have cl1: "p2c_clear W {g} k1" by (simp add: p2c_clear_others [OF sb] cl)
  have q1: "queues_ok W k1" by (rule queues_step [OF _ sb]) (use d ch1 in auto)
  have D: "file_of (wd_cat W) (rq_name q) = D" using cat by (simp add: file_of_def)
  have wt: "proxy_weight D (xf_proxy y) < proxy_weight D P"
    using y(3) cache_weight_any [OF C(2), of D] by (simp add: xfer_weight_def yC)
      (metis add_less_cancel_right)
  have cw: "ctrl_weight (wd_cat W) k1 = ctrl_weight (wd_cat W) k"
    by (rule ctrl_weight_same [OF same_but_ctrl [OF sb]])
  have ask: "(own' \<noteq> Some j \<and> asked_by k1 (T(i := t)) j) = (Some i \<noteq> Some j \<and> asked_by k T j)"
    if "own' = Some i \<or> own' = None \<and> t = None" for own' t j
  proof (cases "j = i")
    case True
    with that show ?thesis by (auto simp: asked_by_def)
  next
    case False
    with asked_by_other [of W T i g q P c k k1 j t] d i sb that show ?thesis by auto
  qed
  have ctl: "ctrl_ok (T(i := t)) own' k1" if "own' = Some i \<or> own' = None \<and> t = None" for own' t
    using d by (intro ctrl_step [where T = T and own = "Some i" and k = k, OF _ same_but_ctrl [OF sb]])
      (use ask [OF that] in auto)
  show ?thesis
  proof (cases "\<exists>res. xf_proxy y = PX_Done res")
    case True
    then obtain res where res: "xf_proxy y = PX_Done res" by blast
    have tl: "tail W k1 C" "c2p = []"
      using phase_tail [of p0 ?H D "wd_size W" fd g res C "[]" c2p p2c m sent "set_ctrl no_msgs k1" W]
        ph res yC C(2) ch cm g cl1 tail_cong [of "set_ctrl no_msgs k1" k1 W C] k1
      by (simp_all add: p2c_clear_def) (metis chan_set_ctrl names_distinct(3))+
    have "waits_ok W (T(i := None)) None k1"
      using waits_step [of W T "Some i" k g k1 i q P c None None] d i sb ch1(1) tl(2) by auto
    moreover have "table_wf W (T(i := None))" using d i by (auto intro: table_step)
    moreover have "own_ok W (T(i := None)) None k1 C pool content" using tl(1) by (simp add: own_ok_def)
    ultimately have "transfers_ok W (T(i := None)) None k1 C pool content"
      using d q1 ctl [of None None] by (simp add: transfers_ok_def)
    moreover have "entry_done W q ?x"
      using phase_done [OF ph res] wr res cat by (simp add: entry_done_def answered_def reply_def)
    ultimately show ?thesis
      using r i res cw wt transfer_weight_proxy [of P "wd_cat W" g q c] nr D
      by (auto simp: proxy_next_def next_entry_def)
  next
    case False
    let ?t = "Some (g, q, xf_proxy y, xf_ctx y)"
    have nx: "next_entry g q ?x = ?t" using False by (auto simp: next_entry_def split: proxy_pc.split)
    have "serving W k1 g q (xf_proxy y) (xf_ctx y) C pool content"
      using C y(2) cat yv k1 by (auto simp: serving_def)
    note sv1 = this
    then have "own_ok W (T(i := ?t)) (Some i) k1 C pool content" using cl1 by (simp add: own_ok_def)
    moreover have "waits_ok W (T(i := ?t)) (Some i) k1"
      using waits_step [of W T "Some i" k g k1 i q P c ?t "Some i"] d i sb by auto
    moreover have "table_wf W (T(i := ?t))" using d i False by (auto intro: table_step)
    ultimately have "transfers_ok W (T(i := ?t)) (Some i) k1 C pool content"
      using d q1 ctl [of "Some i" ?t] by (simp add: transfers_ok_def)
    moreover have "entry_done W q ?x" using False by (simp add: entry_done_def)
    moreover have "transfer_weight (wd_cat W) ?t < transfer_weight (wd_cat W) (T i)"
      using serving_not_waiting [OF sv1] nr wt D i by (simp add: transfer_weight_proxy)
    ultimately show ?thesis
      using r cw nx by (auto simp: proxy_next_def)
  qed
qed

text \<open>Every step of a transfer in progress is defined, keeps the table right and lowers the weight.\<close>

lemma transfer_keeps:
  assumes api: "gfs_api api (wd_wire W) (wd_ready W)"
    and ok: "transfers_ok W T own k C pool content" and i: "T i = Some (g, q, P, c)"
    and step: "proxy_step api junk ctrl_name (proxy_seg g) (xview P c C' k pool' content') = Some r"
  shows "\<exists>x. r = Inr x \<and> proxy_next W T i g q k C pool content x"
proof (cases "own = Some i")
  case True
  note d = ok [unfolded transfers_ok_def]
  show ?thesis
  proof (cases "wd_cat W (rq_name q)")
    case None
    with d i True have "\<exists>p. P = PX_Size p" "chan k (c2p_name g) []"
      by (auto simp: own_ok_def serving_def)
    with step show ?thesis by (auto simp: proxy_step_def rx_mq_def chan_def)
  next
    case (Some f)
    with proxy_served [OF api, of T i k C pool content g q P c "fst f" "snd f"] ok i step True
    show ?thesis by simp
  qed
next
  case False
  with ok i have "waiting W k g (rq_name q) P" using waits_okD [of W T own k i g q P c]
    by (simp add: transfers_ok_def)
  then show ?thesis
  proof cases
    case (request p0)
    with proxy_asks [OF ok, of i g q p0 c] i step show ?thesis by simp
  next
    case (asked p0)
    with step show ?thesis by (auto simp: proxy_step_def rx_mq_def chan_def)
  next
    case (missed p0 p)
    with proxy_misses [OF api ok, of i g q p c p0] i step False show ?thesis by simp
  qed
qed

section \<open>A step of the worker\<close>

definition cache_next ::
  "'c world \<Rightarrow> 'c transfers \<Rightarrow> thread_packet ipc \<Rightarrow> cache_pc \<Rightarrow> item_t list \<times> file_env \<Rightarrow> 'd xfer \<Rightarrow> bool" where
  "cache_next W T k C content x \<longleftrightarrow>
     (\<exists>own. transfers_ok W T own (xf_ipc x) (xf_cache x) (xf_pool x) (xf_content x)) \<and>
     fdata (snd (xf_content x)) = fdata (snd content) \<and>
     ctrl_weight (wd_cat W) (xf_ipc x) + worker_weight (snd content) (xf_cache x) <
       ctrl_weight (wd_cat W) k + worker_weight (snd content) C"

lemma worker_ends:
  assumes ok: "transfers_ok W T None k C pool content" and C: "C \<noteq> CX_Wait"
    and step: "cache_step ctl ctrl_name (xview P0 c0 C k pool content) = Some r"
  shows "\<exists>x. r = Inr x \<and> cache_next W T k C content x"
proof -
  note d = ok [unfolded transfers_ok_def]
  from d have "tail W k C" by (simp add: own_ok_def)
  then show ?thesis
  proof cases
    case idle
    with C show ?thesis by simp
  next
    case (over p j fd g)
    let ?x = "xview P0 c0 CX_Wait k pool content"
    have "r = Inr ?x" using step over by (simp add: cache_step_def fill_chunk_def)
    moreover have "transfers_ok W T None k CX_Wait pool content"
      using d over(2) by (simp add: transfers_ok_def own_ok_def tail.idle)
    ultimately show ?thesis using over(1) by (auto simp: cache_next_def)
  next
    case (ack g p j fd)
    define k1 where "k1 = k\<lparr>ipc_queues := (ipc_queues k)(p2c_name g \<mapsto> no_msgs)\<rparr>"
    let ?x = "xview P0 c0 (CX_Fill p fd j (cache_seg g)) k1 pool content"
    have "r = Inr ?x"
      using step ack by (simp add: cache_step_def rx_mq_def chan_def k1_def no_msgs_def)
    moreover have "transfers_ok W T None k1 (CX_Fill p fd j (cache_seg g)) pool content"
    proof -
      have ch: "chan k1 (c2p_name h) ms = chan k (c2p_name h) ms" for h ms by (simp add: chan_def k1_def)
      have "waiting W k1 h nm P = waiting W k h nm P" for h nm P by (rule waiting_cong) (rule ch)
      then have "waits_ok W T None k1" using d by (simp add: waits_ok_def ch)
      moreover have ask: "asked_by k1 T j = asked_by k T j" for j by (simp add: asked_by_def ch)
      have "ipc_queues k1 ctrl_name = ipc_queues k ctrl_name" by (simp add: k1_def)
      then have "ctrl_ok T None k1"
        using d by (intro ctrl_step [where T = T and own = None and k = k and k' = k1]) (simp_all add: ask)
      moreover have "p2c_clear W {} k1"
        using ack(2) by (auto simp: p2c_clear_def k1_def chan_def no_msgs_def)
      then have "tail W k1 (CX_Fill p fd j (cache_seg g))" using ack(5) by (rule tail.over)
      then have "own_ok W T None k1 (CX_Fill p fd j (cache_seg g)) pool content" by (simp add: own_ok_def)
      moreover have "queues_ok W k1" using d by (auto intro: queues_ok_shm simp: k1_def)
      ultimately show ?thesis using d by (simp add: transfers_ok_def)
    qed
    moreover have "ctrl_weight (wd_cat W) k1 = ctrl_weight (wd_cat W) k"
      by (rule ctrl_weight_same) (simp add: k1_def)
    ultimately show ?thesis using ack(1) by (auto simp: cache_next_def)
  qed
qed

lemma worker_misses:
  assumes ok: "transfers_ok W T (Some i) k C pool content" and i: "T i = Some (g, q, P, c)"
    and cat: "wd_cat W (rq_name q) = None"
    and step: "cache_step ctl ctrl_name (xview P0 c0 C k pool content) = Some r"
  shows "\<exists>x. r = Inr x \<and> cache_next W T k C content x"
proof -
  note d = ok [unfolded transfers_ok_def]
  have sv: "serving W k g q P c C pool content" and cl: "p2c_clear W {g} k"
    using d i by (auto simp: own_ok_def)
  from sv cat obtain p0 where p0: "P = PX_Size p0" "c = rq_ctx q"
    "C = CX_Miss (miss_packet (wd_size W) p0) (cache_seg g)" "chan k (c2p_name g) []" "chan k (p2c_name g) []"
    by (auto simp: serving_def)
  define k1 where "k1 = k\<lparr>ipc_queues := (ipc_queues k)(c2p_name g \<mapsto>
      no_msgs\<lparr>mq_msgs := [miss_packet (wd_size W) p0]\<rparr>)\<rparr>"
  let ?x = "xview P0 c0 CX_Wait k1 pool content"
  have r: "r = Inr ?x"
    using step p0 by (simp add: cache_step_def tx_mq_def chan_def k1_def no_msgs_def)
  have sb: "same_but g k k1" by (simp add: same_but_def k1_def)
  have msg: "chan k1 (c2p_name g) [miss_packet (wd_size W) p0]" by (simp add: chan_def k1_def no_msgs_def)
  have T: "T(i := Some (g, q, P, c)) = T" using i by (simp add: fun_upd_idem)
  have w: "waiting W k1 g (rq_name q) P" unfolding p0(1) using cat msg by (rule waiting.missed)
  have "waits_ok W T None k1"
    using waits_step [of W T "Some i" k g k1 i q P c "Some (g, q, P, c)" None] d i sb w p0(2) T by simp
  moreover have "(None \<noteq> Some j \<and> asked_by k1 T j) = (Some i \<noteq> Some j \<and> asked_by k T j)" for j
  proof (cases "j = i")
    case True
    have "\<not> asked_by k1 T i" using msg i by (auto simp: asked_by_def dest: chan_unique)
    with True show ?thesis by simp
  next
    case False
    with asked_by_other [of W T i g q P c k k1 j "Some (g, q, P, c)"] d i sb show ?thesis by (simp add: T)
  qed
  then have "ctrl_ok T None k1"
    using d by (intro ctrl_step [where T = T and own = "Some i" and k = k, OF _ same_but_ctrl [OF sb]]) simp_all
  moreover have "p2c_clear W {} k1"
    using cl p0(5) by (auto simp: p2c_clear_def chan_def k1_def)
  then have "own_ok W T None k1 CX_Wait pool content" by (simp add: own_ok_def tail.idle)
  moreover have "queues_ok W k1" using d by (auto intro: queues_ok_shm simp: k1_def)
  ultimately have "transfers_ok W T None k1 CX_Wait pool content" using d by (simp add: transfers_ok_def)
  moreover have "ctrl_weight (wd_cat W) k1 = ctrl_weight (wd_cat W) k"
    by (rule ctrl_weight_same [OF same_but_ctrl [OF sb]])
  ultimately show ?thesis using r p0(3) by (auto simp: cache_next_def)
qed

lemma cache_step_rest:
  assumes "cache_step ctl ctrl (xview P c C k pool content) = Some (Inr x)"
  shows "x = xview P c (xf_cache x) (xf_ipc x) (xf_pool x) (xf_content x)"
proof -
  have eq: "cache_step ctl ctrl (xview P c C k pool content) =
      on_msg (cache_step ctl ctrl (xview P c C k pool content))
       (\<lambda>x. Inr (xview P c (xf_cache x) (xf_ipc x) (xf_pool x) (xf_content x)))"
    by (rule cache_step_view)
  from eq [unfolded assms] show ?thesis by simp
qed

text \<open>The worker's program counter in a transfer names the segment of the transfer.\<close>

lemma phase_worker:
  assumes "phase p0 H D sz fd g P C cm c2p p2c m sent" and "C \<noteq> CX_Wait"
  shows "(\<exists>p. C = CX_Hit p fd (cache_seg g)) \<or> (\<exists>p j. C = CX_Fill p fd j (cache_seg g)) \<or>
    (\<exists>p j. C = CX_Tell p fd j (cache_seg g)) \<or> (\<exists>j. C = CX_Ack fd j (cache_seg g))"
  using assms by cases auto

lemma worker_weight_phase:
  assumes "phase p0 H D sz fd g P C cm c2p p2c m sent" and "C \<noteq> CX_Wait" and "fdata f fd = D"
  shows "worker_weight f C = cache_weight D e C"
  using phase_worker [OF assms(1,2)] assms(3) by auto

lemma cache_stays:
  assumes ph: "phase p0 H D sz fd g (xf_proxy s) (xf_cache s) cm c2p p2c m sent" and C: "xf_cache s \<noteq> CX_Wait"
    and P: "\<forall>r. xf_proxy s \<noteq> PX_Done r" and D: "D \<noteq> []"
    and step: "cache_step ctl ctrl_name s = Some (Inr x)"
  shows "xf_cache x \<noteq> CX_Wait"
proof -
  have fill: "j < length D" if "xf_cache s = CX_Fill p fd (int j) h" for p j h
    using ph that P awaiting_facts [OF _ D] by cases auto
  from phase_worker [OF ph C] show ?thesis
  proof (elim disjE exE)
    fix p j assume f: "xf_cache s = CX_Fill p fd j (cache_seg g)"
    with ph C P obtain j' where j': "j = int j'" "file_size p = int (length D)" by cases auto
    then have "j < file_size p" using fill f by simp
    then show ?thesis
      using step f by (auto simp: cache_step_def fill_chunk_def bind_res_eq_Inr Let_def split: prod.splits option.splits if_splits)
  qed (use step in \<open>auto simp: cache_step_def bind_res_eq_Inr elim!: on_msg_InrE\<close>)
qed

lemma worker_serves:
  assumes ok: "transfers_ok W T (Some i) k C pool content" and i: "T i = Some (g, q, P, c)"
    and cat: "wd_cat W (rq_name q) = Some (fd, D)"
    and step: "cache_step (wd_ctl W) ctrl_name (xview P0 c0 C k pool content) = Some r"
  shows "\<exists>x. r = Inr x \<and> cache_next W T k C content x"
proof -
  let ?H = "header_line ''OK'' (length D)"
  note d = ok [unfolded transfers_ok_def]
  have sv: "serving W k g q P c C pool content" and cl: "p2c_clear W {g} k"
    using d i by (auto simp: own_ok_def)
  have P: "\<forall>r. P \<noteq> PX_Done r" using d i unfolding table_wf_def by blast
  from sv cat obtain p0 where C: "asks p0 g (rq_name q)" "C \<noteq> CX_Wait" and
    xo: "xfer_ok (wd_wire W) (wd_ready W) (wd_wire W (rq_ctx q)) p0 ?H (wd_ctl W)
      g (wd_size W) (rq_name q) fd D (xview P c C (set_ctrl no_msgs k) pool content)" by (rule serving_hitD)
  from d have "ctrl_ok T (Some i) k" by blast
  then obtain qm where qm: "k = set_ctrl qm (set_ctrl no_msgs k)" "ipc_queues k ctrl_name = Some qm"
    by (rule ctrl_chan)
  let ?k0 = "set_ctrl no_msgs k"
  let ?s0 = "xview P c C ?k0 pool content"
  let ?step = "cache_step (wd_ctl W) ctrl_name"
  from xo obtain cm0 c2p0 p2c0 m0 sent0 where
    ph0: "phase p0 ?H D (wd_size W) fd g P C cm0 c2p0 p2c0 m0 sent0" and
    has0: "cache_has (wd_ctl W) g (wd_size W) (rq_name q) fd D pool content"
    unfolding xfer_ok_def by auto
  note w0 = phase_worker [OF ph0 C(2)]
  have D: "D \<noteq> []" "fdata (snd content) fd = D" using has0 by (auto simp: cache_has_def)
  have "?step (xview P0 c0 C k pool content) =
      on_msg (?step (xview P c C k pool content)) (\<lambda>x. Inr (xview P0 c0 (xf_cache x) (xf_ipc x) (xf_pool x) (xf_content x)))"
    by (rule cache_step_view)
  moreover have "?step (xview P c C k pool content) = on_msg (?step ?s0) (\<lambda>x. Inr (with_ctrl qm x))"
    using cache_step_frame [where k = ?k0 and q = qm and C = C and c = c and P = P and ctl = "wd_ctl W" and pool = pool
        and content = content] w0 qm(1) by auto
  ultimately have eq: "on_msg (?step ?s0) (\<lambda>x. Inr (xview P0 c0 (xf_cache x) (set_ctrl qm (xf_ipc x)) (xf_pool x) (xf_content x))) = Some r"
    using step by (simp add: on_msg_on_msg)
  then obtain r0 where r0: "?step ?s0 = Some r0" by (cases "?step ?s0") auto
  from cache_keeps [OF xo C(1) r0] obtain y where
    y: "r0 = Inr y" "xfer_ok (wd_wire W) (wd_ready W) (wd_wire W (rq_ctx q)) p0 ?H (wd_ctl W)
      g (wd_size W) (rq_name q) fd D y" "xfer_weight D y < xfer_weight D ?s0"
    by (auto simp: xfer_progress_def)
  note st = r0 [unfolded y(1)]
  note yv = cache_step_rest [OF st]
  have yP: "xf_proxy y = P" "xf_ctx y = c" using arg_cong [OF yv, of xf_proxy] arg_cong [OF yv, of xf_ctx] by simp_all
  have yC: "xf_cache y \<noteq> CX_Wait" using cache_stays [OF _ _ _ D(1) st, of p0 ?H "wd_size W" fd g] ph0 C(2) P by simp
  define k1 where "k1 = set_ctrl qm (xf_ipc y)"
  let ?x = "xview P0 c0 (xf_cache y) k1 (xf_pool y) (xf_content y)"
  have r: "r = Inr ?x" using eq r0 y(1) by (simp add: k1_def)
  have sb0: "same_but g ?k0 (xf_ipc y)" using cache_step_same_but [OF st] w0 by auto
  have sb: "same_but g k k1"
    using sb0 qm(2) by (auto simp: same_but_def k1_def set_ctrl_def)
  from y(2) obtain cm c2p p2c m sent where
    ph: "phase p0 ?H D (wd_size W) fd g P (xf_cache y) cm c2p p2c m sent" and
    ch: "chans g (wd_size W) (xf_ipc y) cm c2p p2c m"
    unfolding xfer_ok_def yP by blast
  have k1: "set_ctrl no_msgs k1 = xf_ipc y"
    using ch phase_queues [OF ph yC] set_ctrl_same [of "xf_ipc y" no_msgs]
    by (simp add: k1_def chans_def chan_def no_msgs_def)
  have T: "T(i := Some (g, q, P, c)) = T" using i by (simp add: fun_upd_idem)
  have "serving W k1 g q P c (xf_cache y) (xf_pool y) (xf_content y)"
    using C yC y(2) cat by (auto simp: serving_def k1 yv [symmetric])
  moreover have "p2c_clear W {g} k1" by (simp add: p2c_clear_others [OF sb] cl)
  ultimately have "own_ok W T (Some i) k1 (xf_cache y) (xf_pool y) (xf_content y)" using i by (simp add: own_ok_def)
  moreover have "waits_ok W T (Some i) k1"
    using waits_step [of W T "Some i" k g k1 i q P c "Some (g, q, P, c)" "Some i"] d i sb by (simp add: T)
  moreover have "(Some i \<noteq> Some j \<and> asked_by k1 T j) = (Some i \<noteq> Some j \<and> asked_by k T j)" for j
    using asked_by_other [of W T i g q P c k k1 j "Some (g, q, P, c)"] d i sb by (auto simp: T)
  then have "ctrl_ok T (Some i) k1"
    using d by (intro ctrl_step [where T = T and own = "Some i" and k = k, OF _ same_but_ctrl [OF sb]]) simp_all
  moreover have "queues_ok W k1" by (rule queues_step [OF _ sb]) (use d ch in \<open>auto simp: chans_def k1_def\<close>)
  moreover have "cache_all (wd_ctl W) (wd_size W) (wd_num W) (wd_cat W) (xf_pool y) (xf_content y)"
    using cache_step_all [OF st] C(2) d by simp
  ultimately have "transfers_ok W T (Some i) k1 (xf_cache y) (xf_pool y) (xf_content y)"
    using d by (simp add: transfers_ok_def)
  moreover have "fdata (snd (xf_content y)) = fdata (snd content)" using cache_step_store [OF st] C(2) by simp
  moreover have "worker_weight (snd content) (xf_cache y) < worker_weight (snd content) C"
    using y(3) worker_weight_phase [OF ph0 C(2) D(2), of False] worker_weight_phase [OF ph yC D(2), of False] P
    by (simp add: xfer_weight_def yP)
  ultimately show ?thesis
    using r ctrl_weight_same [OF same_but_ctrl [OF sb]] by (auto simp: cache_next_def)
qed

text \<open>The worker takes the oldest request: of thread \<open>i\<close>, which it serves from then on.\<close>

lemma worker_takes:
  assumes ok: "transfers_ok W T None k CX_Wait pool content"
    and msg: "chan k ctrl_name (m # ms)"
  shows "\<exists>x. cache_step (wd_ctl W) ctrl_name (xview P0 c0 CX_Wait k pool content) = Some (Inr x) \<and>
    cache_next W T k CX_Wait content x"
proof -
  note d = ok [unfolded transfers_ok_def]
  have cl: "p2c_clear W {} k" using d by (auto simp: own_ok_def elim: tail.cases)
  from d obtain ts where ts: "distinct ts" "chan k ctrl_name (List.map (packet_of T) ts)"
      "\<forall>i. i \<in> set ts \<longleftrightarrow> None \<noteq> Some i \<and> asked_by k T i" unfolding ctrl_ok_def by blast
  show ?thesis
  proof (cases ts)
    case Nil
    with msg ts(2) show ?thesis by (auto dest: chan_unique)
  next
    case (Cons i us)
    then have "i \<in> set ts" by simp
    then have "asked_by k T i" using ts(3) by blast
    then obtain g q p c where i: "T i = Some (g, q, PX_Size p, c)" "chan k (c2p_name g) []"
      by (auto simp: asked_by_def)
    have g: "g < wd_num W" "rq_ok (wd_ready W) q" using table_wfD [of W T i g q "PX_Size p" c] d i(1) by simp_all
    have "waiting W k g (rq_name q) (PX_Size p)" and c: "c = rq_ctx q"
      using waits_okD [of W T None k i g q "PX_Size p" c] d i(1) by simp_all
    then have asks: "asks p g (rq_name q)" using i(2) by cases (auto dest: chan_unique)
    define qm where "qm = no_msgs\<lparr>mq_msgs := List.map (packet_of T) us\<rparr>"
    define k1 where "k1 = set_ctrl qm k"
    have rx: "rx_mq ctrl_name sizeof_thread_packet k = Some (Inr (p, k1))"
      using ts(2) Cons i(1) by (simp add: rx_mq_def chan_def k1_def qm_def no_msgs_def set_ctrl_def packet_of_def)
    have ctl: "ctrl_ok T (Some i) k1"
    proof -
      have "chan k1 ctrl_name (List.map (packet_of T) us)" by (simp add: chan_def k1_def qm_def no_msgs_def)
      moreover have "asked_by k1 T j = asked_by k T j" for j by (simp add: asked_by_def k1_def)
      moreover have "j \<in> set us \<longleftrightarrow> Some i \<noteq> Some j \<and> asked_by k T j" for j
        using ts(1) Cons spec [OF ts(3), of j] by auto
      ultimately show ?thesis using ts(1) Cons unfolding ctrl_ok_def by (intro exI [of _ us]) simp
    qed
    have "waiting W k1 h nm P = waiting W k h nm P" for h nm P by (rule waiting_cong) (simp add: k1_def)
    then have wts: "waits_ok W T (Some i) k1" using d by (simp add: waits_ok_def k1_def)
    have cl1: "p2c_clear W {g} k1" using cl by (simp add: p2c_clear_def k1_def)
    have q1: "queues_ok W k1" using d by (auto intro: queues_ok_shm simp: k1_def)
    have cw: "ctrl_weight (wd_cat W) k = ctrl_weight (wd_cat W) k1 + message_weight (wd_cat W) p"
      using ctrl_weight_chan [OF ts(2)] Cons i(1) by (simp add: ctrl_weight_def k1_def qm_def packet_of_def)
    note mw = message_weight_asks [OF asks, of "wd_cat W"]
    have final: ?thesis
      if take: "take_request (wd_ctl W) p (xview P0 c0 CX_Wait k1 pool content) = Some (Inr (xview P0 c0 C1 k1 pool1 content1))"
        and all: "cache_all (wd_ctl W) (wd_size W) (wd_num W) (wd_cat W) pool1 content1"
        and fd: "fdata (snd content1) = fdata (snd content)"
        and sv: "serving W k1 g q (PX_Size p) c C1 pool1 content1"
        and wt: "worker_weight (snd content) C1 < message_weight (wd_cat W) p" for C1 pool1 content1
    proof -
      have "own_ok W T (Some i) k1 C1 pool1 content1" using i(1) sv cl1 by (simp add: own_ok_def)
      then have "transfers_ok W T (Some i) k1 C1 pool1 content1"
        using d q1 wts ctl all by (simp add: transfers_ok_def)
      moreover have "cache_step (wd_ctl W) ctrl_name (xview P0 c0 CX_Wait k pool content) =
          Some (Inr (xview P0 c0 C1 k1 pool1 content1))"
        using rx take by (simp add: cache_step_def)
      ultimately show ?thesis using fd wt cw by (auto simp: cache_next_def)
    qed
    have all: "cache_all (wd_ctl W) (wd_size W) (wd_num W) (wd_cat W) pool content" using d by blast
    have nul: "NUL \<notin> set (rq_name q)" by (rule rq_split(2) [OF g(2)])
    have chs: "chan k1 (c2p_name g) []" "chan k1 (p2c_name g) []"
      using i(2) cl g(1) by (simp_all add: k1_def p2c_clear_def)
    show ?thesis
    proof (cases "wd_cat W (rq_name q)")
      case None
      have sv: "serving W k1 g q (PX_Size p) c (CX_Miss (miss_packet (wd_size W) p) (cache_seg g)) pool' content" for pool'
        using None asks c chs by (auto simp: serving_def)
      from cache_miss_step [of "wd_ctl W" "wd_size W" "wd_num W" "wd_cat W" "xview P0 c0 CX_Wait k1 pool content",
          OF _ asks g(1) nul None] all obtain pool1 where
        "take_request (wd_ctl W) p (xview P0 c0 CX_Wait k1 pool content) = Some (Inr (xview P0 c0
          (CX_Miss (miss_packet (wd_size W) p) (cache_seg g)) k1 pool1 content))"
        "cache_all (wd_ctl W) (wd_size W) (wd_num W) (wd_cat W) pool1 content" by auto
      from final [OF this refl sv] mw show ?thesis by simp
    next
      case (Some f)
      obtain fd D where f: "wd_cat W (rq_name q) = Some (fd, D)" using Some by (cases f) auto
      from cache_hit_all [of "wd_ctl W" "wd_size W" "wd_num W" "wd_cat W" "xview P0 c0 CX_Wait k1 pool content",
          OF _ asks g(1) nul f] all obtain pool1 content1 where
        t: "take_request (wd_ctl W) p (xview P0 c0 CX_Wait k1 pool content) = Some (Inr (xview P0 c0
          (CX_Hit (hit_packet p (wd_size W) D (-1)) fd (cache_seg g)) k1 pool1 content1))"
        "cache_all (wd_ctl W) (wd_size W) (wd_num W) (wd_cat W) pool1 content1"
        "fdata (snd content1) = fdata (snd content)" by auto
      note has = cache_all_has [OF t(2) g(1) nul f]
      obtain m where m: "ipc_shm k1 (mem_name g) = Some m" "length m = wd_size W"
        using q1 g(1) by (auto simp: queues_ok_def)
      have "chans g (wd_size W) (set_ctrl no_msgs k1) [] [] [] m"
        using chs m by (simp add: chans_def) (simp add: chan_def no_msgs_def)
      then have "xfer_ok (wd_wire W) (wd_ready W) (wd_wire W (rq_ctx q)) p (header_line ''OK'' (length D)) (wd_ctl W)
          g (wd_size W) (rq_name q) fd D (xview (PX_Size p) c (CX_Hit (hit_packet p (wd_size W) D (-1)) fd (cache_seg g))
            (set_ctrl no_msgs k1) pool1 content1)"
        by (intro xfer_okI [where sent = "[]"]) (use has c g(2) phase.found in \<open>auto simp: rq_ok_def\<close>)
      then have sv: "serving W k1 g q (PX_Size p) c (CX_Hit (hit_packet p (wd_size W) D (-1)) fd (cache_seg g)) pool1 content1"
        using f asks by (auto simp: serving_def)
      have "fdata (snd content) fd = D" using has t(3) by (auto simp: cache_has_def split: prod.splits)
      with final [OF t sv] mw f show ?thesis by (simp add: file_of_def)
    qed
  qed
qed

lemma worker_keeps:
  assumes ok: "transfers_ok W T own k C pool content"
    and step: "cache_step (wd_ctl W) ctrl_name (xview P0 c0 C k pool content) = Some r"
  shows "\<exists>x. r = Inr x \<and> cache_next W T k C content x"
proof (cases own)
  case None
  show ?thesis
  proof (cases "C = CX_Wait")
    case True
    from ok obtain ms where ms: "chan k ctrl_name ms" by (auto simp: transfers_ok_def ctrl_ok_def)
    show ?thesis
    proof (cases ms)
      case Nil
      with ms step True show ?thesis by (simp add: cache_step_def rx_mq_def chan_def)
    next
      case (Cons m us)
      with worker_takes [of W T k pool content m us P0 c0] ms ok None True step show ?thesis by auto
    qed
  next
    case False
    with worker_ends [of W T k C pool content "wd_ctl W" P0 c0 r] ok step None show ?thesis by simp
  qed
next
  case (Some i)
  with ok obtain g q P c where i: "T i = Some (g, q, P, c)" by (auto simp: transfers_ok_def own_ok_def)
  show ?thesis
  proof (cases "wd_cat W (rq_name q)")
    case None
    with worker_misses [of W T i k C pool content g q P c "wd_ctl W" P0 c0 r] ok step Some i show ?thesis by simp
  next
    case f: (Some f)
    with worker_serves [of W T i k C pool content g q P c "fst f" "snd f" P0 c0 r] ok step Some i
    show ?thesis by simp
  qed
qed

section \<open>No transfer waits for ever\<close>

lemma on_msg_None [simp]: "on_msg m f = None \<longleftrightarrow> m = None"
  by (cases m) simp_all

lemma serving_enabled:
  assumes ok: "transfers_ok W T (Some i) k C pool content"
  shows "cache_step (wd_ctl W) ctrl_name (xview P0 c0 C k pool content) \<noteq> None \<or>
    (\<exists>i g q P c. T i = Some (g, q, P, c) \<and>
       proxy_step api (junk q) ctrl_name (proxy_seg g) (xview P c C' k pool' content') \<noteq> None)"
proof -
  note d = ok [unfolded transfers_ok_def]
  then obtain g q P c where i: "T i = Some (g, q, P, c)" and sv: "serving W k g q P c C pool content"
    by (auto simp: own_ok_def)
  show ?thesis
  proof (cases "wd_cat W (rq_name q)")
    case None
    with sv obtain p where "C = CX_Miss p (cache_seg g)" "chan k (c2p_name g) []" by (auto simp: serving_def)
    then show ?thesis by (simp add: cache_step_def tx_mq_def chan_def)
  next
    case (Some f)
    then have cat: "wd_cat W (rq_name q) = Some (fst f, snd f)" by simp
    let ?k0 = "set_ctrl no_msgs k"
    from sv cat obtain p0 where C: "asks p0 g (rq_name q)" "C \<noteq> CX_Wait" and
      xo: "xfer_ok (wd_wire W) (wd_ready W) (wd_wire W (rq_ctx q)) p0 (header_line ''OK'' (length (snd f))) (wd_ctl W)
        g (wd_size W) (rq_name q) (fst f) (snd f) (xview P c C ?k0 pool content)" by (rule serving_hitD)
    from d have "ctrl_ok T (Some i) k" by blast
    then obtain qm where qm: "k = set_ctrl qm ?k0" by (rule ctrl_chan)
    from xo obtain cm c2p p2c m sent where
      "phase p0 (header_line ''OK'' (length (snd f))) (snd f) (wd_size W) (fst f) g P C cm c2p p2c m sent"
      unfolding xfer_ok_def by auto
    note w = phase_worker [OF this C(2)]
    from xfer_enabled [OF xo _ C(1), of api "junk q"] C(2) obtain t where
      "xfer_act api (junk q) (wd_ctl W) ctrl_name (proxy_seg g) t (xview P c C ?k0 pool content) \<noteq> None" by auto
    then consider "proxy_step api (junk q) ctrl_name (proxy_seg g) (xview P c C ?k0 pool content) \<noteq> None"
      | "cache_step (wd_ctl W) ctrl_name (xview P c C ?k0 pool content) \<noteq> None"
      by (cases t) (auto simp: xfer_act_def)
    then show ?thesis
    proof cases
      case 1
      then have "proxy_step api (junk q) ctrl_name (proxy_seg g) (xview P c C k pool content) \<noteq> None"
        using proxy_step_frame [where k = ?k0 and q = qm and P = P and C = C and c = c and pool = pool and
            content = content and api = api and junk = "junk q" and g = g] serving_not_waiting [OF sv] qm by simp
      then have "proxy_step api (junk q) ctrl_name (proxy_seg g) (xview P c C' k pool' content') \<noteq> None"
        using proxy_step_view [of api "junk q" ctrl_name "proxy_seg g" P C k pool content c C' pool' content'] by simp
      with i show ?thesis by blast
    next
      case 2
      have "cache_step (wd_ctl W) ctrl_name (xview P c C k pool content) \<noteq> None"
        using cache_step_frame [where k = ?k0 and q = qm and C = C and c = c and P = P and ctl = "wd_ctl W" and
            pool = pool and content = content] w qm 2 by auto
      then show ?thesis
        using cache_step_view [of "wd_ctl W" ctrl_name P C k pool content c P0 c0] by simp
    qed
  qed
qed

lemma transfers_enabled:
  assumes ok: "transfers_ok W T own k C pool content" and left: "C \<noteq> CX_Wait \<or> (\<exists>i. T i \<noteq> None)"
  shows "cache_step (wd_ctl W) ctrl_name (xview P0 c0 C k pool content) \<noteq> None \<or>
    (\<exists>i g q P c. T i = Some (g, q, P, c) \<and>
       proxy_step api (junk q) ctrl_name (proxy_seg g) (xview P c C' k pool' content') \<noteq> None)"
proof (cases own)
  case (Some i)
  with serving_enabled [of W T i k C pool content] ok show ?thesis by simp
next
  case None
  note d = ok [unfolded transfers_ok_def]
  from d None have "tail W k C" by (simp add: own_ok_def)
  then show ?thesis
  proof cases
    case idle
    from d obtain ts where ts: "chan k ctrl_name (List.map (packet_of T) ts)"
      "\<forall>i. i \<in> set ts \<longleftrightarrow> own \<noteq> Some i \<and> asked_by k T i" unfolding ctrl_ok_def by blast
    show ?thesis
    proof (cases ts)
      case Nil
      from left idle(1) obtain i t where "T i = Some t" by auto
      moreover obtain g q P c where "t = (g, q, P, c)" by (cases t)
      ultimately have i: "T i = Some (g, q, P, c)" by simp
      have "waits_ok W T own k" using d by blast
      with i None have "waiting W k g (rq_name q) P" using waits_okD [of W T own k i g q P c] by simp
      then have "proxy_step api (junk q) ctrl_name (proxy_seg g) (xview P c C' k pool' content') \<noteq> None"
      proof cases
        case (request p0)
        with ts(1) Nil show ?thesis by (simp add: proxy_step_def tx_mq_def chan_def)
      next
        case (asked p0)
        with i have "asked_by k T i" by (auto simp: asked_by_def)
        with ts(2) None Nil show ?thesis by simp
      next
        case (missed p0 p)
        then show ?thesis by (simp add: proxy_step_def rx_mq_def chan_def)
      qed
      with i show ?thesis by blast
    next
      case (Cons i us)
      with worker_takes [of W T k pool content "packet_of T i" "List.map (packet_of T) us" P0 c0] ok None idle(1) ts(1)
      show ?thesis by auto
    qed
  next
    case (over p j fd g)
    then show ?thesis by (simp add: cache_step_def)
  next
    case (ack g p j fd)
    then show ?thesis by (simp add: cache_step_def rx_mq_def chan_def)
  qed
qed

section \<open>A new transfer\<close>

lemma transfers_enter:
  assumes ok: "transfers_ok W T own k C pool content" and new: "T i = None"
    and g: "g < wd_num W" "\<forall>j q P c. T j \<noteq> Some (g, q, P, c)" and q: "rq_ok (wd_ready W) q"
    and p0: "asks p0 g (rq_name q)"
  shows "transfers_ok W (T(i \<mapsto> (g, q, PX_Request p0, rq_ctx q))) own k C pool content"
proof -
  let ?t = "(g, q, PX_Request p0, rq_ctx q)"
  note d = ok [unfolded transfers_ok_def]
  have free: "chan k (c2p_name g) []" using d g unfolding waits_ok_def by blast
  have own: "own \<noteq> Some i" using d new by (auto simp: own_ok_def)
  have entry: "j = i \<and> (h, q1, P1, c1) = ?t \<or> j \<noteq> i \<and> h \<noteq> g \<and> T j = Some (h, q1, P1, c1)"
    if "(T(i \<mapsto> ?t)) j = Some (h, q1, P1, c1)" for j h q1 P1 c1
    using that g(2) by (auto split: if_splits)
  have "table_wf W (T(i \<mapsto> ?t))"
    unfolding table_wf_def
  proof (intro allI impI)
    fix j h q1 P1 c1
    assume "(T(i \<mapsto> ?t)) j = Some (h, q1, P1, c1)"
    note e = entry [OF this]
    have "table_wf W T" using d by blast
    then have old: "h < wd_num W \<and> rq_ok (wd_ready W) q1 \<and> (\<forall>r. P1 \<noteq> PX_Done r)" if "j \<noteq> i"
      using e that unfolding table_wf_def by blast
    have uniq: "l = j" if "(T(i \<mapsto> ?t)) l = Some (h, q', P', c')" for l q' P' c'
    proof (cases "j = i")
      case True
      with e entry [OF that] show ?thesis by auto
    next
      case False
      with e have tj: "T j = Some (h, q1, P1, c1)" and "h \<noteq> g" by auto
      from this(2) entry [OF that] have "T l = Some (h, q', P', c')" by auto
      with \<open>table_wf W T\<close> tj show ?thesis by (rule table_wf_unique [where T = T])
    qed
    have "h < wd_num W \<and> rq_ok (wd_ready W) q1 \<and> (\<forall>r. P1 \<noteq> PX_Done r)"
    proof (cases "j = i")
      case True
      with e g(1) q show ?thesis by auto
    qed (rule old)
    moreover have "\<forall>l q' P' c'. (T(i \<mapsto> ?t)) l = Some (h, q', P', c') \<longrightarrow> l = j"
      by (intro allI impI) (rule uniq)
    ultimately show "h < wd_num W \<and> rq_ok (wd_ready W) q1 \<and> (\<forall>r. P1 \<noteq> PX_Done r) \<and>
        (\<forall>l q' P' c'. (T(i \<mapsto> ?t)) l = Some (h, q', P', c') \<longrightarrow> l = j)"
      by (elim conjE) (intro conjI)
  qed
  moreover have "waits_ok W (T(i \<mapsto> ?t)) own k"
    unfolding waits_ok_def
  proof (rule conjI; intro allI impI)
    fix j h q1 P1 c1
    assume "(T(i \<mapsto> ?t)) j = Some (h, q1, P1, c1)" and o1: "own \<noteq> Some j"
    note e = entry [OF this(1)]
    have "waits_ok W T own k" using d by blast
    from waits_okD [OF this, of j h q1 P1 c1] e o1 p0 free
    show "waiting W k h (rq_name q1) P1 \<and> c1 = rq_ctx q1" by auto
  next
    fix h
    assume h: "h < wd_num W" and free': "\<forall>j q P c. (T(i \<mapsto> ?t)) j \<noteq> Some (h, q, P, c)"
    have "T j \<noteq> Some (h, q1, P1, c1)" for j q1 P1 c1
    proof (cases "j = i")
      case False
      with free' show ?thesis by (auto dest: spec [of _ j])
    qed (use new in simp)
    moreover have "waits_ok W T own k" using d by blast
    ultimately show "chan k (c2p_name h) []" using h unfolding waits_ok_def by blast
  qed
  moreover have ask: "asked_by k (T(i \<mapsto> ?t)) j = asked_by k T j" for j using new by (auto simp: asked_by_def)
  have "ctrl_ok (T(i \<mapsto> ?t)) own k"
  proof (rule ctrl_step)
    show "ctrl_ok T own k" using d by blast
    show "\<forall>j. own \<noteq> Some j \<and> asked_by k T j \<longrightarrow> (T(i \<mapsto> ?t)) j = T j"
      using new by (auto simp: asked_by_def)
  qed (simp_all add: ask)
  moreover have "own_ok W (T(i \<mapsto> ?t)) own k C pool content"
    using d own by (auto simp: own_ok_def split: option.splits)
  ultimately show ?thesis using d by (simp add: transfers_ok_def)
qed

end
