(* ===== verification/Proxy_Cache_Correct.thy ===== *)
theory Proxy_Cache_Correct
  imports Transfer_Table
begin

text \<open>
  The system of \<open>Proxy_Cache\<close> with one worker in the daemon (its default): whatever the interleaving,
  every request of every thread is answered with the header and the file, or with \<open>FILE_NOT_FOUND\<close>, and
  taking turns answers all of them.
\<close>

section \<open>How the pool of segments changes\<close>

text \<open>The requests a thread has left, its current one included, and the segment it uses.\<close>

fun left :: "seg_pc \<Rightarrow> nat" where
  "left (G_Idle n) = n"
| "left (G_Test n) = Suc n"
| "left (G_Sleep n) = Suc n"
| "left (G_Woken n) = Suc n"
| "left (G_Use n g) = Suc n"
| "left (G_Release n g) = n"
| "left (G_Push n g) = n"

fun seg_used :: "seg_pc \<Rightarrow> segment_item option" where
  "seg_used (G_Use n g) = Some g"
| "seg_used t = None"

inductive pc_step :: "seg_pc \<Rightarrow> seg_pc \<Rightarrow> bool" where
  quiet: "left t' = left t \<Longrightarrow> seg_used t = None \<Longrightarrow> seg_used t' = None \<Longrightarrow> pc_step t t'"
| pop: "pc_step (G_Test n) (G_Use n g)"
| give: "pc_step (G_Use n g) (G_Release n g)"

lemma wake_kept: "left (wake t) = left t" "seg_used (wake t) = seg_used t"
  by (cases t; simp)+

lemma cond_signal_kept:
  assumes "k < length ts"
  shows "left (cond_signal j ts ! k) = left (ts ! k)" "seg_used (cond_signal j ts ! k) = seg_used (ts ! k)"
proof -
  have "left (cond_signal j ts ! k) = left (ts ! k) \<and> seg_used (cond_signal j ts ! k) = seg_used (ts ! k)"
  proof (cases rule: cond_signal_cases [of ts j])
    case (one m n)
    then show ?thesis by (cases "k = m") simp_all
  qed simp
  then show "left (cond_signal j ts ! k) = left (ts ! k)" "seg_used (cond_signal j ts ! k) = seg_used (ts ! k)" by simp_all
qed

lemma cond_signal_length: "length (cond_signal j ts) = length ts"
  by (cases rule: cond_signal_cases [of ts j]) simp_all

lemma pool_effect:
  assumes "handle_with_cache (i, j) p = Some (Inr p')"
  shows "i < length (gp_threads p) \<and> length (gp_threads p') = length (gp_threads p) \<and>
    pc_step (gp_threads p ! i) (gp_threads p' ! i) \<and>
    (\<forall>k < length (gp_threads p). k \<noteq> i \<longrightarrow>
       left (gp_threads p' ! k) = left (gp_threads p ! k) \<and> seg_used (gp_threads p' ! k) = seg_used (gp_threads p ! k))"
proof (cases "gp_threads p ! i")
  case (G_Test n)
  then show ?thesis
    using assms
    by (auto simp: handle_with_cache_def acquire_segment_def bind_res_eq_Inr intro: pc_step.intros split: if_splits)
next
  case (G_Push n g)
  then show ?thesis
    using assms
    by (auto simp: handle_with_cache_def release_segment_def bind_res_eq_Inr cond_signal_length
        intro!: pc_step.quiet cond_signal_kept split: if_splits)
qed (use assms in \<open>auto simp: handle_with_cache_def acquire_segment_def release_segment_def
      intro: pc_step.intros split: if_splits nat.splits\<close>)

section \<open>The invariant of the system\<close>

definition pool_segments :: "'c world \<Rightarrow> segment_item multiset" where
  "pool_segments W = mset (List.map proxy_seg [0 ..< wd_num W])"

definition entry :: "seg_pc \<Rightarrow> 'c job \<Rightarrow> (nat \<times> 'c web_request \<times> proxy_pc \<times> 'c) option" where
  "entry t b =
     (case seg_used t of
        None \<Rightarrow> None
      | Some seg \<Rightarrow> (case jb_pc b of PX_Done r \<Rightarrow> None | P \<Rightarrow> Some (seg_index seg, hd (jb_todo b), P, jb_ctx b)))"

definition transfers_of :: "'c proxy_cache \<Rightarrow> 'c transfers" where
  "transfers_of s i =
     (if i < length (sy_jobs s) then entry (gp_threads (sy_pool s) ! i) (sy_jobs s ! i) else None)"

definition job_ok :: "'c world \<Rightarrow> 'c web_request list \<Rightarrow> seg_pc \<Rightarrow> 'c job \<Rightarrow> bool" where
  "job_ok W qs t b \<longleftrightarrow>
     (\<exists>d. qs = d @ jb_todo b \<and> list_all2 (answered (wd_wire W) (wd_cat W)) d (jb_done b)) \<and>
     length (jb_todo b) = left t \<and>
     (\<forall>r. seg_used t \<noteq> None \<longrightarrow> jb_pc b = PX_Done r \<longrightarrow>
        answered (wd_wire W) (wd_cat W) (hd (jb_todo b)) (r, jb_ctx b))"

definition system_ok :: "'c world \<Rightarrow> 'c web_request list list \<Rightarrow> 'c proxy_cache \<Rightarrow> bool" where
  "system_ok W reqs s \<longleftrightarrow>
     seg_ok (pool_segments W) (sy_pool s) \<and> length (gp_threads (sy_pool s)) = length reqs \<and>
     length (sy_jobs s) = length reqs \<and>
     (\<forall>i < length reqs. job_ok W (reqs ! i) (gp_threads (sy_pool s) ! i) (sy_jobs s ! i)) \<and>
     (\<exists>own C. sy_workers s = [C] \<and> transfers_ok W (transfers_of s) own (sy_ipc s) C (sy_cpool s) (sy_content s))"

definition todo_weight :: "catalog \<Rightarrow> 'c web_request list \<Rightarrow> nat" where
  "todo_weight cat qs = sum_list (List.map (\<lambda>q. 6 * length (file_of cat (rq_name q)) + 5) qs)"

definition job_weight :: "catalog \<Rightarrow> seg_pc \<Rightarrow> 'c job \<Rightarrow> nat" where
  "job_weight cat t b =
     todo_weight cat (if seg_used t = None then jb_todo b else tl (jb_todo b)) + transfer_weight cat (entry t b)"

definition system_weight :: "'c world \<Rightarrow> 'c proxy_cache \<Rightarrow> nat" where
  "system_weight W s =
     total_weight (gp_threads (sy_pool s)) +
     (\<Sum>i < length (sy_jobs s). job_weight (wd_cat W) (gp_threads (sy_pool s) ! i) (sy_jobs s ! i)) +
     ctrl_weight (wd_cat W) (sy_ipc s) + worker_weight (snd (sy_content s)) (hd (sy_workers s))"

definition system_turn :: "'c proxy_cache \<Rightarrow> actor list" where
  "system_turn s = List.map (\<lambda>i. Thread i 0) [0 ..< length (sy_jobs s)] @ [Worker 0]"

definition system_progress ::
  "'c world \<Rightarrow> 'c web_request list list \<Rightarrow> 'c proxy_cache \<Rightarrow> 'c proxy_cache result \<Rightarrow> bool" where
  "system_progress W reqs s r \<longleftrightarrow> (\<exists>s'. r = Inr s' \<and> system_ok W reqs s' \<and>
     system_weight W s' < system_weight W s \<and> length (sy_jobs s') = length (sy_jobs s))"

lemma sum_change:
  fixes f f' :: "nat \<Rightarrow> nat"
  assumes "i < n" and "\<And>j. j < n \<Longrightarrow> j \<noteq> i \<Longrightarrow> f' j = f j"
  shows "(\<Sum>j < n. f' j) + f i = (\<Sum>j < n. f j) + f' i"
proof -
  have same: "(\<Sum>j \<in> {..<n} - {i}. f' j) = (\<Sum>j \<in> {..<n} - {i}. f j)"
    using assms(2) by (intro sum.cong) auto
  have one: "sum h {..<n} = h i + sum h ({..<n} - {i})" for h :: "nat \<Rightarrow> nat"
    using assms(1) by (intro sum.remove) simp_all
  show ?thesis using one [of f] one [of f'] same by simp
qed

lemma entry_using: "seg_used t = None \<Longrightarrow> entry t b = None"
  by (simp add: entry_def)

lemma entry_kept: "seg_used t' = seg_used t \<Longrightarrow> entry t' b = entry t b"
  by (simp add: entry_def)

lemma job_weight_kept: "seg_used t' = seg_used t \<Longrightarrow> job_weight cat t' b = job_weight cat t b"
  by (simp add: job_weight_def entry_def)

lemma job_ok_kept: "seg_used t' = seg_used t \<Longrightarrow> left t' = left t \<Longrightarrow> job_ok W qs t' b = job_ok W qs t b"
  by (simp add: job_ok_def)

lemma used_segment:
  assumes "seg_ok (pool_segments W) p" and "i < length (gp_threads p)" and "seg_used (gp_threads p ! i) = Some seg"
  shows "\<exists>g < wd_num W. seg = proxy_seg g"
proof -
  have "seg \<in># seg_held (gp_threads p ! i)" using assms(3) by (cases "gp_threads p ! i") simp_all
  moreover have "seg_held (gp_threads p ! i) \<subseteq># pool_segments W"
    using seg_held_le [OF assms(2)] assms(1) unfolding seg_ok_def segments_def
    by (metis mset_subset_eq_add_right subset_mset.order_trans)
  ultimately have "seg \<in># pool_segments W" by (rule mset_subset_eqD [rotated])
  then show ?thesis by (auto simp: pool_segments_def)
qed

section \<open>A step of a thread\<close>

lemma system_okD:
  assumes "system_ok W reqs s"
  shows "seg_ok (pool_segments W) (sy_pool s)" and "length (gp_threads (sy_pool s)) = length reqs"
    and "length (sy_jobs s) = length reqs"
    and "i < length reqs \<Longrightarrow> job_ok W (reqs ! i) (gp_threads (sy_pool s) ! i) (sy_jobs s ! i)"
    and "\<exists>own C. sy_workers s = [C] \<and> transfers_ok W (transfers_of s) own (sy_ipc s) C (sy_cpool s) (sy_content s)"
  using assms by (simp_all add: system_ok_def)

lemma thread_progress:
  assumes ok: "system_ok W reqs s" and i: "i < length (sy_jobs s)" and C: "sy_workers s = [C]"
    and p: "seg_ok (pool_segments W) p'" "length (gp_threads p') = length (gp_threads (sy_pool s))"
      "\<forall>k < length (gp_threads p'). k \<noteq> i \<longrightarrow> left (gp_threads p' ! k) = left (gp_threads (sy_pool s) ! k) \<and>
        seg_used (gp_threads p' ! k) = seg_used (gp_threads (sy_pool s) ! k)"
    and b: "job_ok W (reqs ! i) (gp_threads p' ! i) b'"
    and t: "transfers_ok W ((transfers_of s)(i := entry (gp_threads p' ! i) b')) own' k' C (sy_cpool s) (sy_content s)"
    and w: "total_weight (gp_threads p') + job_weight (wd_cat W) (gp_threads p' ! i) b' + ctrl_weight (wd_cat W) k' <
        total_weight (gp_threads (sy_pool s)) + job_weight (wd_cat W) (gp_threads (sy_pool s) ! i) (sy_jobs s ! i) +
        ctrl_weight (wd_cat W) (sy_ipc s)"
  shows "system_progress W reqs s (Inr (s\<lparr>sy_pool := p', sy_jobs := (sy_jobs s)[i := b'], sy_ipc := k'\<rparr>))"
proof -
  let ?s = "s\<lparr>sy_pool := p', sy_jobs := (sy_jobs s)[i := b'], sy_ipc := k'\<rparr>"
  note d = system_okD [OF ok]
  have T: "transfers_of ?s = (transfers_of s)(i := entry (gp_threads p' ! i) b')"
  proof
    fix j
    show "transfers_of ?s j = ((transfers_of s)(i := entry (gp_threads p' ! i) b')) j"
    proof (cases "j = i")
      case True
      with i show ?thesis by (simp add: transfers_of_def)
    next
      case False
      have "entry (gp_threads p' ! j) (sy_jobs s ! j) = entry (gp_threads (sy_pool s) ! j) (sy_jobs s ! j)"
        if "j < length (sy_jobs s)"
        using p(2,3) d(2,3) that False by (intro entry_kept) simp
      with False show ?thesis by (simp add: transfers_of_def)
    qed
  qed
  have "job_ok W (reqs ! j) (gp_threads p' ! j) ((sy_jobs s)[i := b'] ! j)" if "j < length reqs" for j
  proof (cases "j = i")
    case True
    with b i show ?thesis by simp
  next
    case False
    then have "job_ok W (reqs ! j) (gp_threads p' ! j) (sy_jobs s ! j) =
        job_ok W (reqs ! j) (gp_threads (sy_pool s) ! j) (sy_jobs s ! j)"
      using p(2,3) d(2) that by (intro job_ok_kept) simp_all
    with False d(4) [OF that] show ?thesis by simp
  qed
  then have jobs: "\<forall>j < length reqs. job_ok W (reqs ! j) (gp_threads (sy_pool ?s) ! j) (sy_jobs ?s ! j)" by simp
  have "transfers_ok W (transfers_of ?s) own' k' C (sy_cpool s) (sy_content s)" unfolding T by (rule t)
  then have ex: "\<exists>own C. sy_workers ?s = [C] \<and>
      transfers_ok W (transfers_of ?s) own (sy_ipc ?s) C (sy_cpool ?s) (sy_content ?s)"
    using C by (intro exI [of _ own'] exI [of _ C]) simp
  have "system_ok W reqs ?s"
    unfolding system_ok_def by (intro conjI ex jobs) (simp_all add: p(1,2) d(2,3))
  moreover have "job_weight (wd_cat W) (gp_threads p' ! j) ((sy_jobs s)[i := b'] ! j) =
      job_weight (wd_cat W) (gp_threads (sy_pool s) ! j) (sy_jobs s ! j)" if "j < length (sy_jobs s)" "j \<noteq> i" for j
  proof -
    have "seg_used (gp_threads p' ! j) = seg_used (gp_threads (sy_pool s) ! j)" using p(2,3) d(2,3) that by simp
    from job_weight_kept [OF this] that(2) show ?thesis by simp
  qed
  then have "(\<Sum>j < length (sy_jobs s). job_weight (wd_cat W) (gp_threads p' ! j) ((sy_jobs s)[i := b'] ! j)) +
      job_weight (wd_cat W) (gp_threads (sy_pool s) ! i) (sy_jobs s ! i) =
      (\<Sum>j < length (sy_jobs s). job_weight (wd_cat W) (gp_threads (sy_pool s) ! j) (sy_jobs s ! j)) +
      job_weight (wd_cat W) (gp_threads p' ! i) ((sy_jobs s)[i := b'] ! i)"
    by (intro sum_change [OF i])
  then have "system_weight W ?s < system_weight W s"
    using w i by (simp add: system_weight_def)
  ultimately show ?thesis by (simp add: system_progress_def)
qed

lemma system_updates: "s\<lparr>sy_ipc := k, sy_jobs := js\<rparr> = s\<lparr>sy_jobs := js, sy_ipc := k\<rparr>"
  by (cases s) simp

lemma transfer_step_keeps:
  assumes api: "gfs_api api (wd_wire W) (wd_ready W)" and ok: "system_ok W reqs s"
    and i: "i < length (sy_jobs s)" and u: "gp_threads (sy_pool s) ! i = G_Use n seg"
    and pc: "\<forall>r. jb_pc (sy_jobs s ! i) \<noteq> PX_Done r" and step: "transfer_step api i seg s = Some r"
  shows "system_progress W reqs s r"
proof -
  note d = system_okD [OF ok]
  let ?b = "sy_jobs s ! i" and ?t = "gp_threads (sy_pool s) ! i"
  from d(5) obtain own C where C: "sy_workers s = [C]"
    "transfers_ok W (transfers_of s) own (sy_ipc s) C (sy_cpool s) (sy_content s)" by blast
  from used_segment [OF d(1), of i seg] u i d(2,3) obtain g where g: "seg = proxy_seg g" by auto
  from d(4) [of i] i d(3) have b: "job_ok W (reqs ! i) ?t ?b" by simp
  then obtain q qs where q: "jb_todo ?b = q # qs" using u by (cases "jb_todo ?b") (auto simp: job_ok_def)
  have T: "transfers_of s i = Some (g, q, jb_pc ?b, jb_ctx ?b)"
    using i u pc q g by (simp add: transfers_of_def entry_def split: proxy_pc.split)
  from step obtain r0 where
    r0: "proxy_step api (rq_junk q) ctrl_name (proxy_seg g)
      (xview (jb_pc ?b) (jb_ctx ?b) CX_Wait (sy_ipc s) (sy_cpool s) (sy_content s)) = Some r0"
    using q g by (cases "proxy_step api (rq_junk q) ctrl_name (proxy_seg g)
      (xview (jb_pc ?b) (jb_ctx ?b) CX_Wait (sy_ipc s) (sy_cpool s) (sy_content s))") (auto simp: transfer_step_def Let_def)
  from transfer_keeps [OF api C(2), of i g q, OF T r0] obtain x own' where
    x: "r0 = Inr x" "transfers_ok W ((transfers_of s)(i := next_entry g q x)) own' (xf_ipc x) C (sy_cpool s) (sy_content s)"
      "entry_done W q x"
      "transfer_weight (wd_cat W) (next_entry g q x) + ctrl_weight (wd_cat W) (xf_ipc x) <
       transfer_weight (wd_cat W) (transfers_of s i) + ctrl_weight (wd_cat W) (sy_ipc s)"
    by (auto simp: proxy_next_def)
  let ?b' = "?b\<lparr>jb_pc := xf_proxy x, jb_ctx := xf_ctx x\<rparr>"
  have e: "entry ?t ?b' = next_entry g q x"
    using u q g by (simp add: entry_def next_entry_def split: proxy_pc.split)
  have "job_ok W (reqs ! i) ?t ?b'"
    using b u q x(3) by (auto simp: job_ok_def entry_done_def)
  moreover have "job_weight (wd_cat W) ?t ?b' + ctrl_weight (wd_cat W) (xf_ipc x) <
      job_weight (wd_cat W) ?t ?b + ctrl_weight (wd_cat W) (sy_ipc s)"
    using x(4) T i e [unfolded u] by (simp add: job_weight_def transfers_of_def u)
  ultimately have "system_progress W reqs s (Inr (s\<lparr>sy_pool := sy_pool s,
      sy_jobs := (sy_jobs s)[i := ?b'], sy_ipc := xf_ipc x\<rparr>))"
    using x(2) d(1) e by (intro thread_progress [OF ok i C(1)]) simp_all
  moreover have "r = Inr (s\<lparr>sy_pool := sy_pool s, sy_jobs := (sy_jobs s)[i := ?b'], sy_ipc := xf_ipc x\<rparr>)"
    using step r0 x(1) q g by (simp add: transfer_step_def Let_def system_updates)
  ultimately show ?thesis by simp
qed

lemma next_transfer_weight: "transfer_weight cat (Some (g, q, PX_Request p, c)) = 6 * length (file_of cat (rq_name q)) + 5"
  by simp

lemma unused_elsewhere:
  assumes ok: "system_ok W reqs s" and p: "seg_ok (pool_segments W) p'"
    and len: "length (gp_threads p') = length (gp_threads (sy_pool s))"
    and others: "\<forall>k < length (gp_threads p'). k \<noteq> i \<longrightarrow> seg_used (gp_threads p' ! k) = seg_used (gp_threads (sy_pool s) ! k)"
    and i: "i < length (gp_threads p')" "seg_used (gp_threads p' ! i) = Some (proxy_seg g)"
      "seg_used (gp_threads (sy_pool s) ! i) = None"
  shows "transfers_of s j \<noteq> Some (g, q, P, c)"
proof
  assume T: "transfers_of s j = Some (g, q, P, c)"
  then have j: "j < length (sy_jobs s)" by (auto simp: transfers_of_def split: if_splits)
  then have jl: "j < length (gp_threads p')" using system_okD(2,3) [OF ok] len by simp
  from T j obtain seg where seg: "seg_used (gp_threads (sy_pool s) ! j) = Some seg" "seg_index seg = g"
    by (auto simp: transfers_of_def entry_def split: option.splits proxy_pc.splits)
  have ji: "j \<noteq> i" using seg(1) i(3) by auto
  from used_segment [OF system_okD(1) [OF ok] _ seg(1)] jl len obtain h where "seg = proxy_seg h" by auto
  with seg(2) have "seg = proxy_seg g" by simp
  with seg(1) others ji jl have uj: "seg_used (gp_threads p' ! j) = Some (proxy_seg g)" by simp
  have held: "proxy_seg g \<in># seg_held t" if "seg_used t = Some (proxy_seg g)" for t using that by (cases t) simp_all
  have "distinct (List.map proxy_seg [0 ..< wd_num W])"
    by (auto simp: distinct_map inj_on_def segment_of_def Let_def)
  from exclusive(2) [OF p [unfolded pool_segments_def] this i(1) held [OF i(2)] jl ji] held [OF uj]
  show False by simp
qed

lemma pool_step_keeps:
  assumes reqs: "\<forall>qs \<in> set reqs. \<forall>q \<in> set qs. rq_ok (wd_ready W) q" and ok: "system_ok W reqs s"
    and i: "i < length (sy_jobs s)"
    and pc: "seg_used (gp_threads (sy_pool s) ! i) = None \<or> (\<exists>r. jb_pc (sy_jobs s ! i) = PX_Done r)"
    and step: "pool_step i j s = Some r"
  shows "system_progress W reqs s r"
proof -
  note d = system_okD [OF ok]
  let ?b = "sy_jobs s ! i" and ?p = "sy_pool s"
  let ?t = "gp_threads ?p ! i"
  from d(5) obtain own C where C: "sy_workers s = [C]"
    "transfers_ok W (transfers_of s) own (sy_ipc s) C (sy_cpool s) (sy_content s)" by blast
  from d(4) [of i] i d(3) have b: "job_ok W (reqs ! i) ?t ?b" by simp
  from step obtain r0 where r0: "handle_with_cache (i, j) ?p = Some r0"
    by (cases "handle_with_cache (i, j) ?p") (auto simp: pool_step_def)
  from handle_with_cache_keeps [OF d(1) r0] obtain p' where
    p: "r0 = Inr p'" "seg_ok (pool_segments W) p'" "total_weight (gp_threads p') < total_weight (gp_threads ?p)"
      "length (gp_threads p') = length (gp_threads ?p)" by (auto simp: seg_progress_def)
  from pool_effect [OF r0 [unfolded p(1)]] have
    e: "pc_step ?t (gp_threads p' ! i)" "\<forall>k < length (gp_threads p'). k \<noteq> i \<longrightarrow>
       left (gp_threads p' ! k) = left (gp_threads ?p ! k) \<and> seg_used (gp_threads p' ! k) = seg_used (gp_threads ?p ! k)"
    by auto
  let ?t' = "gp_threads p' ! i"
  have none: "transfers_of s i = None"
    using pc by (auto simp: transfers_of_def entry_def split: option.split)
  have final: ?thesis
    if "r = Inr (s\<lparr>sy_pool := p', sy_jobs := (sy_jobs s)[i := b']\<rparr>)" and "job_ok W (reqs ! i) ?t' b'"
      and "transfers_ok W ((transfers_of s)(i := entry ?t' b')) own (sy_ipc s) C (sy_cpool s) (sy_content s)"
      and "job_weight (wd_cat W) ?t' b' \<le> job_weight (wd_cat W) ?t ?b" for b'
  proof -
    have "system_progress W reqs s (Inr (s\<lparr>sy_pool := p', sy_jobs := (sy_jobs s)[i := b'], sy_ipc := sy_ipc s\<rparr>))"
      using p that(2-4) by (intro thread_progress [OF ok i C(1) _ _ e(2)]) simp_all
    moreover have "s\<lparr>sy_pool := p', sy_jobs := (sy_jobs s)[i := b'], sy_ipc := sy_ipc s\<rparr> =
        s\<lparr>sy_pool := p', sy_jobs := (sy_jobs s)[i := b']\<rparr>" by (cases s) simp
    ultimately show ?thesis using that(1) by simp
  qed
  have keep: "(transfers_of s)(i := None) = transfers_of s" using none by (simp add: fun_upd_idem)
  from e(1) show ?thesis
  proof cases
    case quiet
    have "r = Inr (s\<lparr>sy_pool := p', sy_jobs := (sy_jobs s)[i := ?b]\<rparr>)"
      using step r0 p(1) quiet by (auto simp: pool_step_def Let_def split: seg_pc.splits)
    moreover have "job_ok W (reqs ! i) ?t' ?b" using b quiet by (simp add: job_ok_def)
    moreover have "entry ?t' ?b = None" using quiet by (simp add: entry_using)
    moreover have "job_weight (wd_cat W) ?t' ?b = job_weight (wd_cat W) ?t ?b"
      using quiet by (intro job_weight_kept) simp
    ultimately show ?thesis using C(2) by (intro final [of ?b]) (simp_all add: keep)
  next
    case (give n g)
    then obtain res where res: "jb_pc ?b = PX_Done res" using pc by auto
    let ?b' = "finish_request res ?b"
    have "r = Inr (s\<lparr>sy_pool := p', sy_jobs := (sy_jobs s)[i := ?b']\<rparr>)"
      using step r0 p(1) give res by (simp add: pool_step_def Let_def)
    moreover obtain q qs where q: "jb_todo ?b = q # qs"
      using b give by (cases "jb_todo ?b") (auto simp: job_ok_def)
    have "job_ok W (reqs ! i) ?t' ?b'"
    proof -
      from b obtain dn where dn: "reqs ! i = dn @ jb_todo ?b"
        "list_all2 (answered (wd_wire W) (wd_cat W)) dn (jb_done ?b)" by (auto simp: job_ok_def)
      have "answered (wd_wire W) (wd_cat W) q (res, jb_ctx ?b)" using b give res q by (simp add: job_ok_def)
      then have "list_all2 (answered (wd_wire W) (wd_cat W)) (dn @ [q]) (jb_done ?b @ [(res, jb_ctx ?b)])"
        using dn(2) by (simp add: list_all2_appendI)
      with dn(1) b give q show ?thesis
        by (auto simp: job_ok_def finish_request_def intro!: exI [of _ "dn @ [q]"])
    qed
    moreover have "entry ?t' ?b' = None" using give by (simp add: entry_using)
    moreover have "job_weight (wd_cat W) ?t' ?b' = job_weight (wd_cat W) ?t ?b"
      using give res by (simp add: job_weight_def entry_def finish_request_def)
    ultimately show ?thesis using C(2) by (intro final [of ?b']) (simp_all add: keep)
  next
    case (pop n seg)
    from used_segment [OF p(2), of i seg] pop p(4) i d(2,3) obtain g where
      g: "g < wd_num W" "seg = proxy_seg g" by auto
    obtain q qs where q: "jb_todo ?b = q # qs" using b pop by (cases "jb_todo ?b") (auto simp: job_ok_def)
    have "q \<in> set (reqs ! i)" using b q by (auto simp: job_ok_def)
    moreover have "reqs ! i \<in> set reqs" using i d(3) by simp
    ultimately have rq: "rq_ok (wd_ready W) q" using reqs by blast
    from rq_packet [OF this, of g] obtain p0 where
      p0: "init_thread_pkt (rq_raw q) (rq_path q) (proxy_seg g) = Inr p0" "asks p0 g (rq_name q)" by blast
    let ?b' = "?b\<lparr>jb_pc := PX_Request p0, jb_ctx := rq_ctx q\<rparr>"
    have "r = Inr (s\<lparr>sy_pool := p', sy_jobs := (sy_jobs s)[i := ?b']\<rparr>)"
      using step r0 p(1) pop q p0(1) g(2) by (simp add: pool_step_def Let_def start_request_def)
    moreover have "job_ok W (reqs ! i) ?t' ?b'" using b pop by (simp add: job_ok_def)
    moreover have en: "entry ?t' ?b' = Some (g, q, PX_Request p0, rq_ctx q)"
      using pop q g(2) by (simp add: entry_def)
    have "transfers_of s k \<noteq> Some (g, q1, P, c)" for k q1 P c
      using unused_elsewhere [OF ok p(2,4), of i g] e(2) pop g(2) i d(2,3) p(4) by simp
    then have "transfers_ok W ((transfers_of s)(i := entry ?t' ?b')) own (sy_ipc s) C (sy_cpool s) (sy_content s)"
      unfolding en using transfers_enter [OF C(2) none g(1) _ rq p0(2)] by blast
    moreover have "job_weight (wd_cat W) ?t' ?b' = job_weight (wd_cat W) ?t ?b"
      using pop q en by (simp add: job_weight_def entry_using todo_weight_def)
    ultimately show ?thesis by (intro final [of ?b']) simp_all
  qed
qed

section \<open>The system makes progress\<close>

lemma thread_act_keeps:
  assumes api: "gfs_api api (wd_wire W) (wd_ready W)"
    and reqs: "\<forall>qs \<in> set reqs. \<forall>q \<in> set qs. rq_ok (wd_ready W) q" and ok: "system_ok W reqs s"
    and step: "thread_act api i j s = Some r"
  shows "system_progress W reqs s r"
proof -
  have i: "i < length (sy_jobs s)" using step by (auto simp: thread_act_def split: if_splits)
  show ?thesis
  proof (cases "\<exists>n seg. gp_threads (sy_pool s) ! i = G_Use n seg \<and> (\<forall>r. jb_pc (sy_jobs s ! i) \<noteq> PX_Done r)")
    case True
    then obtain n seg where u: "gp_threads (sy_pool s) ! i = G_Use n seg" "\<forall>r. jb_pc (sy_jobs s ! i) \<noteq> PX_Done r" by blast
    then have "transfer_step api i seg s = Some r"
      using step i by (auto simp: thread_act_def split: proxy_pc.splits)
    with transfer_step_keeps [OF api ok i u] show ?thesis by blast
  next
    case False
    then have "seg_used (gp_threads (sy_pool s) ! i) = None \<or> (\<exists>r. jb_pc (sy_jobs s ! i) = PX_Done r)"
      by (cases "gp_threads (sy_pool s) ! i") auto
    moreover have "pool_step i j s = Some r"
      using step i False by (auto simp: thread_act_def split: seg_pc.splits proxy_pc.splits)
    ultimately show ?thesis using pool_step_keeps [OF reqs ok i] by blast
  qed
qed

lemma worker_act_keeps:
  assumes ok: "system_ok W reqs s" and step: "worker_act (wd_ctl W) w s = Some r"
  shows "system_progress W reqs s r"
proof -
  note d = system_okD [OF ok]
  from d(5) obtain own C where C: "sy_workers s = [C]"
    "transfers_ok W (transfers_of s) own (sy_ipc s) C (sy_cpool s) (sy_content s)" by blast
  have w: "w = 0" using step C(1) by (auto simp: worker_act_def split: if_splits)
  let ?x = "xview (PX_Done 0) () C (sy_ipc s) (sy_cpool s) (sy_content s)"
  from step w C(1) obtain r0 where r0: "cache_step (wd_ctl W) ctrl_name ?x = Some r0"
    by (cases "cache_step (wd_ctl W) ctrl_name ?x") (auto simp: worker_act_def)
  from worker_keeps [OF C(2) r0] obtain x own' where
    x: "r0 = Inr x" "transfers_ok W (transfers_of s) own' (xf_ipc x) (xf_cache x) (xf_pool x) (xf_content x)"
      "fdata (snd (xf_content x)) = fdata (snd (sy_content s))"
      "ctrl_weight (wd_cat W) (xf_ipc x) + worker_weight (snd (sy_content s)) (xf_cache x) <
       ctrl_weight (wd_cat W) (sy_ipc s) + worker_weight (snd (sy_content s)) C"
    by (auto simp: cache_next_def)
  let ?s = "s\<lparr>sy_workers := [xf_cache x], sy_ipc := xf_ipc x, sy_cpool := xf_pool x, sy_content := xf_content x\<rparr>"
  have r: "r = Inr ?s" using step w C(1) r0 x(1) by (simp add: worker_act_def)
  have T: "transfers_of ?s = transfers_of s" by (rule ext) (simp add: transfers_of_def)
  have ex: "\<exists>own C. sy_workers ?s = [C] \<and>
      transfers_ok W (transfers_of ?s) own (sy_ipc ?s) C (sy_cpool ?s) (sy_content ?s)"
    unfolding T using x(2) by (intro exI [of _ own'] exI [of _ "xf_cache x"]) simp
  have jobs: "\<forall>i < length reqs. job_ok W (reqs ! i) (gp_threads (sy_pool ?s) ! i) (sy_jobs ?s ! i)"
    using d(4) by simp
  have "system_ok W reqs ?s"
    unfolding system_ok_def by (intro conjI ex jobs) (simp_all add: d(1,2,3))
  moreover have "worker_weight (snd (xf_content x)) (xf_cache x) = worker_weight (snd (sy_content s)) (xf_cache x)"
    using x(3) by (cases "xf_cache x") simp_all
  then have "system_weight W ?s < system_weight W s"
    using x(4) C(1) by (simp add: system_weight_def)
  ultimately show ?thesis using r by (simp add: system_progress_def)
qed

definition system_ended :: "'c proxy_cache \<Rightarrow> bool" where
  "system_ended s \<longleftrightarrow> all_returned (sy_pool s) \<and> sy_workers s = [CX_Wait]"

lemma system_enabled:
  assumes ok: "system_ok W reqs s" and left: "\<not> system_ended s"
  shows "\<exists>a \<in> set (system_turn s). system_act api (wd_ctl W) a s \<noteq> None"
proof -
  note d = system_okD [OF ok]
  from d(5) obtain own C where C: "sy_workers s = [C]"
    "transfers_ok W (transfers_of s) own (sy_ipc s) C (sy_cpool s) (sy_content s)" by blast
  have thread: ?thesis if "i < length (sy_jobs s)" "thread_act api i 0 s \<noteq> None" for i
    using that by (intro bexI [of _ "Thread i 0"]) (auto simp: system_act_def system_turn_def)
  have worker: ?thesis if "worker_act (wd_ctl W) 0 s \<noteq> None"
    using that by (intro bexI [of _ "Worker 0"]) (auto simp: system_act_def system_turn_def)
  show ?thesis
  proof (cases "C \<noteq> CX_Wait \<or> (\<exists>i. transfers_of s i \<noteq> None)")
    case True
    from transfers_enabled [OF C(2) True, of "PX_Done 0" "()" api rq_junk CX_Wait "sy_cpool s" "sy_content s"]
    show ?thesis
    proof (elim disjE exE conjE)
      assume "cache_step (wd_ctl W) ctrl_name (xview (PX_Done 0) () C (sy_ipc s) (sy_cpool s) (sy_content s)) \<noteq> None"
      then show ?thesis using C(1) by (intro worker) (simp add: worker_act_def)
    next
      fix i g q P c
      assume T: "transfers_of s i = Some (g, q, P, c)" and
        en: "proxy_step api (rq_junk q) ctrl_name (proxy_seg g)
          (xview P c CX_Wait (sy_ipc s) (sy_cpool s) (sy_content s)) \<noteq> None"
      have i: "i < length (sy_jobs s)" using T by (auto simp: transfers_of_def split: if_splits)
      have "table_wf W (transfers_of s)" using C(2) by (simp add: transfers_ok_def)
      then have nd: "P \<noteq> PX_Done r" for r using T by (rule table_wfD(3))
      from T obtain seg where seg: "seg_used (gp_threads (sy_pool s) ! i) = Some seg" "seg_index seg = g"
        "hd (jb_todo (sy_jobs s ! i)) = q" "jb_pc (sy_jobs s ! i) = P" "jb_ctx (sy_jobs s ! i) = c"
        by (cases "jb_pc (sy_jobs s ! i)") (auto simp: transfers_of_def entry_def split: option.splits if_splits)
      from used_segment [OF d(1) _ seg(1)] i d(2,3) seg(2) have "seg = proxy_seg g" by auto
      moreover obtain n where "gp_threads (sy_pool s) ! i = G_Use n seg"
        using seg(1) by (cases "gp_threads (sy_pool s) ! i") auto
      ultimately have "thread_act api i 0 s \<noteq> None"
        using en seg i nd by (auto simp: thread_act_def transfer_step_def Let_def split: proxy_pc.split)
      with i show ?thesis by (rule thread)
    qed
  next
    case False
    then have "\<not> all_returned (sy_pool s)" using left C(1) by (simp add: system_ended_def)
    from seg_enabled [OF d(1) this] obtain i where
      i: "i < length (gp_threads (sy_pool s))" "handle_with_cache (i, 0) (sy_pool s) \<noteq> None" by blast
    have il: "i < length (sy_jobs s)" using i(1) d(2,3) by simp
    have "transfers_of s i = None" using False by blast
    then have "entry (gp_threads (sy_pool s) ! i) (sy_jobs s ! i) = None" using il by (simp add: transfers_of_def)
    then have "thread_act api i 0 s = pool_step i 0 s"
      using il by (auto simp: thread_act_def entry_def split: seg_pc.split proxy_pc.splits)
    with i(2) have "thread_act api i 0 s \<noteq> None" by (simp add: pool_step_def)
    with il show ?thesis by (rule thread)
  qed
qed

lemma ended_weight:
  assumes ok: "system_ok W reqs s" and e: "system_ended s"
  shows "system_weight W s = 0"
proof -
  note d = system_okD [OF ok]
  from d(5) obtain own C where C: "sy_workers s = [C]"
    "transfers_ok W (transfers_of s) own (sy_ipc s) C (sy_cpool s) (sy_content s)" by blast
  have idle: "gp_threads (sy_pool s) ! i = G_Idle 0" if "i < length reqs" for i
    using e d(2) that by (simp add: system_ended_def all_returned_def)
  have T: "transfers_of s i = None" for i
    using idle d(3) by (simp add: transfers_of_def entry_def)
  have "gp_threads (sy_pool s) = List.map G_Idle (replicate (length reqs) 0)"
    using idle d(2) by (simp add: list_eq_iff_nth_eq)
  then have "total_weight (gp_threads (sy_pool s)) = 0" by (simp only: total_weight_idle) (simp add: sum_list_replicate)
  moreover have "job_weight cat (gp_threads (sy_pool s) ! i) (sy_jobs s ! i) = 0" if "i < length reqs" for i cat
    using d(4) [OF that] idle [OF that] by (simp add: job_weight_def job_ok_def entry_def todo_weight_def)
  moreover have "ctrl_weight (wd_cat W) (sy_ipc s) = 0"
  proof -
    from C(2) obtain ts where "chan (sy_ipc s) ctrl_name (List.map (packet_of (transfers_of s)) ts)"
      "\<forall>i. i \<in> set ts \<longleftrightarrow> own \<noteq> Some i \<and> asked_by (sy_ipc s) (transfers_of s) i"
      unfolding transfers_ok_def ctrl_ok_def by blast
    moreover from this(2) have "set ts = {}" using T by (auto simp: asked_by_def)
    ultimately show ?thesis by (simp add: ctrl_weight_def chan_def)
  qed
  ultimately show ?thesis using e d(3) by (simp add: system_weight_def system_ended_def)
qed

text \<open>The system with the invariant and the weight is an instance of \<open>schedule_system\<close>.\<close>

lemma system_system:
  assumes api: "gfs_api api (wd_wire W) (wd_ready W)"
    and reqs: "\<forall>qs \<in> set reqs. \<forall>q \<in> set qs. rq_ok (wd_ready W) q"
  shows "schedule_system (system_act api (wd_ctl W)) (system_ok W reqs) (system_weight W) system_turn
    (\<lambda>s. system_ended s \<and> system_ok W reqs s)"
proof
  have keeps: "system_progress W reqs s r" if "system_ok W reqs s" "system_act api (wd_ctl W) a s = Some r" for s a r
    using that thread_act_keeps [OF api reqs that(1)] worker_act_keeps [OF that(1)]
    by (cases a) (simp_all add: system_act_def)
  fix s a r
  assume "system_ok W reqs s" and "system_act api (wd_ctl W) a s = Some r"
  from keeps [OF this] show "\<exists>s'. r = Inr s' \<and> system_ok W reqs s' \<and> system_weight W s' < system_weight W s \<and>
      system_turn s' = system_turn s" by (auto simp: system_progress_def system_turn_def)
next
  fix s
  assume "system_ok W reqs s" and "\<not> (system_ended s \<and> system_ok W reqs s)"
  then show "\<exists>a \<in> set (system_turn s). system_act api (wd_ctl W) a s \<noteq> None" using system_enabled by blast
next
  have keeps: "system_progress W reqs s r" if "system_ok W reqs s" "system_act api (wd_ctl W) a s = Some r" for s a r
    using that thread_act_keeps [OF api reqs that(1)] worker_act_keeps [OF that(1)]
    by (cases a) (simp_all add: system_act_def)
  fix s a s'
  assume "system_ended s \<and> system_ok W reqs s" and "system_act api (wd_ctl W) a s = Some (Inr s')"
  with keeps [of s a "Inr s'"] ended_weight [of W reqs s] show "system_ended s' \<and> system_ok W reqs s'"
    by (simp add: system_progress_def)
qed

section \<open>The pools that both programs make\<close>

lemma make_segment_chans:
  assumes "i < 10 ^ 9" and "make_segment can_open sz proxy i k = Inr (g, k1)"
  shows "(\<forall>d ms. chan k d ms \<longrightarrow> chan k1 d ms) \<and>
    (\<forall>d. ipc_queues k d = None \<longrightarrow> ipc_queues k1 d = None \<and> d \<notin> queue_names i \<or> chan k1 d []) \<and>
    (\<forall>d \<in> queue_names i. ipc_queues k1 d \<noteq> None) \<and>
    (\<exists>m. ipc_shm k1 (mem_name i) = Some m \<and> length m = nat sz) \<and>
    (\<forall>j. j \<noteq> i \<longrightarrow> ipc_shm k1 (mem_name j) = ipc_shm k (mem_name j))"
  using assms(2) name_eq(3)
  by (auto simp: make_segment_def code_ids [OF assms(1)] shm_map_segment_def create_message_queue_def Let_def
      chan_def queue_names_def mem_name_def bind_res_eq_Inr split: if_splits option.splits)

lemma create_segments_chans:
  assumes "i + n \<le> 10 ^ 9" and "create_segments can_open sz proxy n i q k = Inr (q', k')"
  shows "(\<forall>d ms. chan k d ms \<longrightarrow> chan k' d ms) \<and>
    (\<forall>j \<in> {i ..< i + n}. \<forall>d \<in> queue_names j. ipc_queues k d = None \<longrightarrow> chan k' d []) \<and>
    (\<forall>j \<in> {i ..< i + n}. \<exists>m. ipc_shm k' (mem_name j) = Some m \<and> length m = nat sz) \<and>
    (\<forall>j. j \<notin> {i ..< i + n} \<longrightarrow> ipc_shm k' (mem_name j) = ipc_shm k (mem_name j))"
  using assms
proof (induction n arbitrary: i q k)
  case (Suc n)
  from Suc.prems(2) obtain g k1 q1 where
    m: "make_segment can_open sz proxy i k = Inr (g, k1)" and
    c: "create_segments can_open sz proxy n (Suc i) q1 k1 = Inr (q', k')" by (auto simp: bind_res_eq_Inr)
  from Suc.prems(1) have "i < 10 ^ 9" by simp
  note one = make_segment_chans [OF this m]
  have "Suc i + n \<le> 10 ^ 9" using Suc.prems(1) by simp
  note ih = Suc.IH [OF this c]
  have ivl: "{i ..< i + Suc n} = insert i {Suc i ..< Suc i + n}" by auto
  have "chan k' d []" if "j \<in> {i ..< i + Suc n}" "d \<in> queue_names j" "ipc_queues k d = None" for j d
  proof (cases "ipc_queues k1 d = None")
    case True
    then have "d \<notin> queue_names i" using one by blast
    with that(1,2) have "j \<in> {Suc i ..< Suc i + n}" unfolding ivl by auto
    with ih that(2) True show ?thesis by blast
  next
    case False
    with one [THEN conjunct2, THEN conjunct1, rule_format, OF that(3)] have "chan k1 d []" by simp
    with ih show ?thesis by blast
  qed
  moreover have "\<exists>m. ipc_shm k' (mem_name j) = Some m \<and> length m = nat sz" if "j \<in> {i ..< i + Suc n}" for j
  proof (cases "j = i")
    case True
    have "i \<notin> {Suc i ..< Suc i + n}" by simp
    with ih have "ipc_shm k' (mem_name i) = ipc_shm k1 (mem_name i)" by blast
    with one True show ?thesis by simp
  next
    case False
    with that ih show ?thesis unfolding ivl by blast
  qed
  moreover have "ipc_shm k' (mem_name j) = ipc_shm k (mem_name j)" if "j \<notin> {i ..< i + Suc n}" for j
  proof -
    have "j \<notin> {Suc i ..< Suc i + n}" "j \<noteq> i" using that by auto
    with ih one show ?thesis by simp
  qed
  ultimately show ?case using one ih by blast
qed simp

text \<open>A kernel before the pools are made: the control queue is there, the queues of the segments are not.\<close>

definition kernel_fresh :: "nat \<Rightarrow> thread_packet ipc \<Rightarrow> bool" where
  "kernel_fresh n k \<longleftrightarrow> chan k ctrl_name [] \<and> (\<forall>g < n. \<forall>d \<in> queue_names g. ipc_queues k d = None)"

definition pools_ready ::
  "nat \<Rightarrow> nat \<Rightarrow> steque \<times> segment_item sheap \<Rightarrow> steque \<times> segment_item sheap \<Rightarrow> thread_packet ipc \<Rightarrow> bool" where
  "pools_ready n sz qp qc k \<longleftrightarrow>
     steque_invar qp \<and> steque_items qp = rev (List.map proxy_seg [0 ..< n]) \<and>
     steque_invar qc \<and> steque_items qc = rev (List.map cache_seg [0 ..< n]) \<and> chan k ctrl_name [] \<and>
     (\<forall>g < n. chan k (c2p_name g) [] \<and> chan k (p2c_name g) [] \<and>
        (\<exists>m. ipc_shm k (mem_name g) = Some m \<and> length m = sz))"

lemma pools_made:
  assumes "num \<le> 10 ^ 9" and "\<forall>n. can_open n" and "0 < sz" and "num \<le> int nodes"
    and fresh: "kernel_fresh (nat num) k"
  shows "\<exists>qp k1 qc k2. shm_create_segments can_open nodes num sz True k = Inr (qp, k1) \<and>
    shm_create_segments can_open nodes num sz False k1 = Inr (qc, k2) \<and> pools_ready (nat num) (nat sz) qp qc k2"
proof -
  from shm_create_segments_ok [OF assms(1-4), of True k] obtain qp k1 where
    p: "shm_create_segments can_open nodes num sz True k = Inr (qp, k1)" "steque_invar qp"
      "steque_items qp = rev (List.map (segment_of True) [0 ..< nat num])" by (elim exE conjE) (rule that)
  from shm_create_segments_ok [OF assms(1-4), of False k1] obtain qc k2 where
    c: "shm_create_segments can_open nodes num sz False k1 = Inr (qc, k2)" "steque_invar qc"
      "steque_items qc = rev (List.map (segment_of False) [0 ..< nat num])" by (elim exE conjE) (rule that)
  have n: "0 + nat num \<le> 10 ^ 9" using assms(1) by simp
  note e1 = create_segments_chans [OF n p(1) [unfolded shm_create_segments_def]]
  note e2 = create_segments_chans [OF n c(1) [unfolded shm_create_segments_def]]
  have names: "c2p_name g \<in> queue_names g" "p2c_name g \<in> queue_names g" for g
    by (simp_all add: c2p_name_def p2c_name_def queue_names_def)
  have "chan k2 d []" if "g < nat num" "d \<in> queue_names g" for g d
  proof -
    have "chan k1 d []" using e1 fresh that by (auto simp: kernel_fresh_def)
    with e2 show ?thesis by blast
  qed
  moreover have "chan k2 ctrl_name []" using e1 e2 fresh unfolding kernel_fresh_def by blast
  moreover have "\<exists>m. ipc_shm k2 (mem_name g) = Some m \<and> length m = nat sz" if "g < nat num" for g
    using e2 that by auto
  ultimately have "pools_ready (nat num) (nat sz) qp qc k2"
    using p(2,3) c(2,3) names by (simp add: pools_ready_def)
  with p(1) c(1) show ?thesis by blast
qed

section \<open>Good tables, and the start of the system\<close>

definition catalog_of :: "item_t list \<times> file_env \<Rightarrow> catalog" where
  "catalog_of = (\<lambda>(items, f) nm. map_option (\<lambda>fd. (fd, fdata f fd)) (map_of (table_entries items) nm))"

text \<open>The daemon's table is loaded, and its files are not empty and below 2 GiB.\<close>

definition content_good :: "item_t list \<times> file_env \<Rightarrow> bool" where
  "content_good = (\<lambda>(items, f).
     table_ok items \<and> distinct (List.map fst (table_entries items)) \<and> disk_ok f \<and>
     (\<forall>(nm, fd) \<in> set (table_entries items). fd \<noteq> -1 \<and> fdata f fd \<noteq> [] \<and> length (fdata f fd) < 2 ^ 31))"

definition start_world :: "('c \<Rightarrow> string) \<Rightarrow> ('c \<Rightarrow> bool) \<Rightarrow> item_t list \<times> file_env \<Rightarrow> ctrl_msg \<Rightarrow> 'c world" where
  "start_world wire ready content ctl =
     \<lparr>wd_wire = wire, wd_ready = ready, wd_cat = catalog_of content, wd_ctl = ctl,
      wd_size = nat (ctl_segment_size ctl), wd_num = nat (ctl_num_segments ctl)\<rparr>"

lemma content_cache_all:
  assumes "content_good content" and "pools_ready n sz qp qc k"
    and "0 < ctl_num_segments ctl" and "ctl_segment_size ctl = int sz" and "0 < sz" and "sz < 2 ^ 31"
  shows "cache_all ctl sz n (catalog_of content) qc content"
proof -
  obtain items f where c: "content = (items, f)" by fastforce
  have "fd \<noteq> -1 \<and> D \<noteq> [] \<and> length D < 2 ^ 31" if "catalog_of content nm = Some (fd, D)" for nm fd D
  proof -
    from that have "map_of (table_entries items) nm = Some fd" "D = fdata f fd" by (auto simp: catalog_of_def c)
    with assms(1) show ?thesis by (auto simp: content_good_def c dest: map_of_SomeD)
  qed
  then show ?thesis
    using assms by (auto simp: cache_all_def c content_good_def pools_ready_def catalog_of_def)
qed

lemma system_start_ok:
  assumes "content_good content" and "pools_ready (nat num) (nat sz) qp qc k"
    and "ctl = \<lparr>ctl_segment_size = sz, ctl_num_segments = num\<rparr>" and "0 < num" and "0 < sz" and "sz < 2 ^ 31"
  shows "system_ok (start_world wire ready content ctl) reqs (system_start 1 reqs qp qc content k c0)"
proof -
  let ?W = "start_world wire ready content ctl" and ?s = "system_start 1 reqs qp qc content k c0"
  have W: "wd_num ?W = nat num" "wd_size ?W = nat sz" "wd_ctl ?W = ctl" "wd_cat ?W = catalog_of content"
    using assms(3) by (simp_all add: start_world_def)
  have items: "steque_items qp = rev (List.map proxy_seg [0 ..< nat num])" "steque_invar qp"
    using assms(2) by (simp_all add: pools_ready_def)
  have T: "transfers_of ?s = Map.empty"
    by (rule ext) (simp add: transfers_of_def system_start_def seg_start_def entry_def)
  have "seg_ok (mset (steque_items qp)) (seg_start qp (List.map length reqs))"
    using items assms(4) by (intro seg_start_ok) simp_all
  moreover have "mset (steque_items qp) = pool_segments ?W" by (simp add: items(1) pool_segments_def W)
  moreover have "job_ok ?W (reqs ! i) (gp_threads (sy_pool ?s) ! i) (sy_jobs ?s ! i)" if "i < length reqs" for i
    using that by (simp add: job_ok_def system_start_def seg_start_def)
  moreover have "transfers_ok ?W Map.empty None k CX_Wait qc content"
  proof -
    have "cache_all (wd_ctl ?W) (wd_size ?W) (wd_num ?W) (wd_cat ?W) qc content"
      unfolding W using content_cache_all [OF assms(1,2), of ctl] assms(3-6) by simp
    moreover have "tail ?W k CX_Wait"
      using assms(2) by (intro tail.idle) (simp add: p2c_clear_def pools_ready_def W)
    then have "own_ok ?W Map.empty None k CX_Wait qc content" by (simp add: own_ok_def)
    moreover have "ctrl_ok Map.empty None k"
      using assms(2) by (auto simp: ctrl_ok_def pools_ready_def asked_by_def intro!: exI [of _ "[]"])
    moreover have "waits_ok ?W Map.empty None k" "queues_ok ?W k" "table_wf ?W Map.empty"
      using assms(2) by (simp_all add: waits_ok_def queues_ok_def table_wf_def pools_ready_def W)
    ultimately show ?thesis by (simp add: transfers_ok_def)
  qed
  then have "\<exists>own C. sy_workers ?s = [C] \<and>
      transfers_ok ?W (transfers_of ?s) own (sy_ipc ?s) C (sy_cpool ?s) (sy_content ?s)"
    unfolding T by (intro exI [of _ None] exI [of _ CX_Wait]) (simp add: system_start_def)
  ultimately show ?thesis
    unfolding system_ok_def by (intro conjI) (simp_all add: system_start_def seg_start_def)
qed

lemma system_start_weight:
  assumes "pools_ready n sz qp qc k"
  shows "system_weight W (system_start 1 reqs qp qc content k c0) =
    (\<Sum>qs \<leftarrow> reqs. \<Sum>q \<leftarrow> qs. 6 * length (file_of (wd_cat W) (rq_name q)) + 15)"
proof -
  have "ctrl_weight cat k = 0" for cat using assms by (simp add: ctrl_weight_def chan_def pools_ready_def)
  moreover have "(\<Sum>i < length reqs. todo_weight cat (reqs ! i)) = (\<Sum>qs \<leftarrow> reqs. todo_weight cat qs)" for cat
    by (simp add: sum_list_sum_nth atLeast0LessThan)
  moreover have "(\<Sum>qs \<leftarrow> reqs. \<Sum>q \<leftarrow> qs. 6 * length (file_of cat (rq_name q)) + 15) =
      10 * sum_list (List.map length reqs) + (\<Sum>qs \<leftarrow> reqs. todo_weight cat qs)" for cat
  proof (induction reqs)
    case (Cons qs reqs)
    have "(\<Sum>q \<leftarrow> qs. 6 * length (file_of cat (rq_name q)) + 15) = 10 * length qs + todo_weight cat qs"
      by (induction qs) (simp_all add: todo_weight_def)
    with Cons show ?case by simp
  qed simp
  ultimately show ?thesis
    using total_weight_idle [of "List.map length reqs"]
    by (simp add: system_weight_def system_start_def seg_start_def job_weight_def entry_def)
qed

lemma system_answers:
  assumes "system_ok W reqs s" and "i < length reqs"
  shows "\<exists>n \<le> length (reqs ! i). list_all2 (answered (wd_wire W) (wd_cat W)) (take n (reqs ! i)) (jb_done (sy_jobs s ! i)) \<and>
    (gp_threads (sy_pool s) ! i = G_Idle 0 \<longrightarrow> n = length (reqs ! i))"
proof -
  from system_okD(4) [OF assms] obtain d where
    "reqs ! i = d @ jb_todo (sy_jobs s ! i)" "list_all2 (answered (wd_wire W) (wd_cat W)) d (jb_done (sy_jobs s ! i))"
    "length (jb_todo (sy_jobs s ! i)) = left (gp_threads (sy_pool s) ! i)" by (auto simp: job_ok_def)
  then show ?thesis by (intro exI [of _ "length d"]) auto
qed

text \<open>From pools that are ready every schedule runs, and taking turns answers everything.\<close>

lemma serving_runs:
  assumes "gfs_api api wire ready" and "\<forall>qs \<in> set reqs. \<forall>q \<in> set qs. rq_ok ready q" and "content_good content"
    and "pools_ready (nat num) (nat sz) qp qc k" and "ctl = \<lparr>ctl_segment_size = sz, ctl_num_segments = num\<rparr>"
    and "0 < num" and "0 < sz" and "sz < 2 ^ 31"
  shows "\<exists>s. run_system api ctl sched (system_start 1 reqs qp qc content k c0) = Inr s \<and>
    (\<forall>i < length reqs. \<exists>n \<le> length (reqs ! i).
       list_all2 (answered wire (catalog_of content)) (take n (reqs ! i)) (jb_done (sy_jobs s ! i)))"
proof -
  let ?W = "start_world wire ready content ctl"
  have W: "wd_wire ?W = wire" "wd_ready ?W = ready" "wd_ctl ?W = ctl" "wd_cat ?W = catalog_of content"
    by (simp_all add: start_world_def)
  have sys: "schedule_system (system_act api ctl) (system_ok ?W reqs) (system_weight ?W) system_turn
      (\<lambda>s. system_ended s \<and> system_ok ?W reqs s)"
    using system_system [of api ?W reqs] assms(1,2) by (simp add: W)
  from schedule_system.run_good [OF sys system_start_ok [OF assms(3-8)], of sched c0] obtain s where
    s: "run_system api ctl sched (system_start 1 reqs qp qc content k c0) = Inr s" "system_ok ?W reqs s" by blast
  from system_answers [OF s(2)] have "\<forall>i < length reqs. \<exists>n \<le> length (reqs ! i).
       list_all2 (answered wire (catalog_of content)) (take n (reqs ! i)) (jb_done (sy_jobs s ! i))"
    unfolding W by blast
  with s(1) show ?thesis by blast
qed

lemma serving_ends:
  assumes "gfs_api api wire ready" and "\<forall>qs \<in> set reqs. \<forall>q \<in> set qs. rq_ok ready q" and "content_good content"
    and "pools_ready (nat num) (nat sz) qp qc k" and "ctl = \<lparr>ctl_segment_size = sz, ctl_num_segments = num\<rparr>"
    and "0 < num" and "0 < sz" and "sz < 2 ^ 31"
    and "(\<Sum>qs \<leftarrow> reqs. \<Sum>q \<leftarrow> qs. 6 * length (file_of (catalog_of content) (rq_name q)) + 15) \<le> rounds"
  shows "\<exists>s. run_system api ctl (concat (replicate rounds (system_turn (system_start 1 reqs qp qc content k c0))))
      (system_start 1 reqs qp qc content k c0) = Inr s \<and> sy_workers s = [CX_Wait] \<and>
    list_all2 (\<lambda>qs b. list_all2 (answered wire (catalog_of content)) qs (jb_done b)) reqs (sy_jobs s)"
proof -
  let ?W = "start_world wire ready content ctl" and ?s0 = "system_start 1 reqs qp qc content k c0"
  have W: "wd_wire ?W = wire" "wd_ready ?W = ready" "wd_ctl ?W = ctl" "wd_cat ?W = catalog_of content"
    by (simp_all add: start_world_def)
  have sys: "schedule_system (system_act api ctl) (system_ok ?W reqs) (system_weight ?W) system_turn
      (\<lambda>s. system_ended s \<and> system_ok ?W reqs s)"
    using system_system [of api ?W reqs] assms(1,2) by (simp add: W)
  have "system_weight ?W ?s0 \<le> rounds" unfolding system_start_weight [OF assms(4)] W by (rule assms(9))
  with schedule_system.fair_ends [OF sys system_start_ok [OF assms(3-8)], of c0 rounds] obtain s where
    s: "run_system api ctl (concat (replicate rounds (system_turn ?s0))) ?s0 = Inr s" "system_ok ?W reqs s"
      "system_ended s" by auto
  have "list_all2 (answered wire (catalog_of content)) (reqs ! i) (jb_done (sy_jobs s ! i))" if i: "i < length reqs" for i
  proof -
    have "gp_threads (sy_pool s) ! i = G_Idle 0"
      using s(3) system_okD(2) [OF s(2)] i by (simp add: system_ended_def all_returned_def)
    with system_answers [OF s(2) i] show ?thesis by (auto simp: W)
  qed
  then have "list_all2 (\<lambda>qs b. list_all2 (answered wire (catalog_of content)) qs (jb_done b)) reqs (sy_jobs s)"
    using system_okD(3) [OF s(2)] by (simp add: list_all2_conv_all_nth)
  moreover have "sy_workers s = [CX_Wait]" using s(3) by (simp add: system_ended_def)
  ultimately show ?thesis using s(1) by blast
qed

section \<open>Two threads, three requests, two segments of three bytes\<close>

definition sample_web :: "string \<Rightarrow> gfcontext web_request" where
  "sample_web nm = \<lparr>rq_path = nm @ replicate 128 NUL, rq_raw = sample_raw, rq_junk = 7,
     rq_ctx = gfcontext_create False (new_conn [] [])\<rparr>"

definition sample_reqs :: "gfcontext web_request list list" where
  "sample_reqs = [[sample_web ''/a'', sample_web ''/c''], [sample_web ''/b'']]"

definition sample_store :: "item_t list \<times> file_env" where
  "sample_store = (sample_table, sample_env\<lparr>fdata := (\<lambda>fd. if fd = 4 then ''contents'' else ''bb'')\<rparr>)"

definition sample_kernel :: "thread_packet ipc" where
  "sample_kernel = \<lparr>ipc_queues = [ctrl_name \<mapsto> no_msgs], ipc_shm = Map.empty\<rparr>"

lemma sample_web_name: "NUL \<notin> set nm \<Longrightarrow> rq_name (sample_web nm) = nm"
  by (induction nm) (auto simp: rq_name_def sample_web_def)

lemma sample_reqs_ok: "\<forall>qs \<in> set sample_reqs. \<forall>q \<in> set qs. rq_ok ctx_ready q"
  using sample_ready by (simp add: sample_reqs_def rq_ok_def sample_web_name) (simp add: sample_web_def)

lemma sample_store_good: "content_good sample_store"
  by (simp add: content_good_def sample_store_def sample_table_ok sample_env_def disk_ok_def)

lemma sample_kernel_fresh: "kernel_fresh (nat 2) sample_kernel"
proof -
  have "chan sample_kernel ctrl_name []" by (simp add: chan_def sample_kernel_def no_msgs_def)
  moreover have "ctrl_name \<notin> queue_names g" for g
    using names_distinct(5,6) by (simp add: queue_names_def flip: c2p_name_def p2c_name_def)
  ultimately show ?thesis by (auto simp: kernel_fresh_def sample_kernel_def)
qed

lemma sample_replies:
  "reply (catalog_of sample_store) ''/a'' = (8, header_line ''OK'' 8 @ ''contents'')"
  "reply (catalog_of sample_store) ''/b'' = (2, header_line ''OK'' 2 @ ''bb'')"
  "reply (catalog_of sample_store) ''/c'' =
     (int (length (header_line ''FILE_NOT_FOUND'' 0)), header_line ''FILE_NOT_FOUND'' 0)"
  "(\<Sum>qs \<leftarrow> sample_reqs. \<Sum>q \<leftarrow> qs. 6 * length (file_of (catalog_of sample_store) (rq_name q)) + 15) = 105"
  by (simp_all add: reply_def catalog_of_def sample_store_def sample_table_ok sample_reqs_def sample_web_name file_of_def
      flip: numeral_2_eq_2)

lemma all_less_two: "(\<forall>i < Suc (Suc 0). P i) = (P 0 \<and> P 1)" by (auto simp: All_less_Suc)

lemma sample_wire: "tx (ctx_conn (rq_ctx (sample_web nm))) = []"
  by (simp add: sample_web_def gfcontext_create_def new_conn_def)

section \<open>The proxy and the daemon serve every client\<close>

text \<open>
  Property C4. The proxy and the cache daemon serve every client: with one worker in the daemon, any number
  of proxy threads and of segments, any requests and any interleaving, no step goes wrong, and each
  answered request of each thread was sent exactly the header and the file of the daemon's table for its
  path, or exactly the \<open>FILE_NOT_FOUND\<close> header, with the right result of the handler.
\<close>

theorem proxy_cache_serves:
  assumes "gfs_api api wire ready" and "\<forall>qs \<in> set reqs. \<forall>q \<in> set qs. rq_ok ready q" and "content_good content"
    and "0 < num" and "num \<le> 10 ^ 9" and "num \<le> int nodes" and "0 < sz" and "sz < 2 ^ 31" and "\<forall>n. can_open n"
    and "kernel_fresh (nat num) k" and "ctl = \<lparr>ctl_segment_size = sz, ctl_num_segments = num\<rparr>"
  shows "\<exists>qp k1 qc k2 s. shm_create_segments can_open nodes num sz True k = Inr (qp, k1) \<and>
    shm_create_segments can_open nodes num sz False k1 = Inr (qc, k2) \<and>
    run_system api ctl sched (system_start 1 reqs qp qc content k2 c0) = Inr s \<and>
    (\<forall>i < length reqs. \<exists>n \<le> length (reqs ! i).
       list_all2 (answered wire (catalog_of content)) (take n (reqs ! i)) (jb_done (sy_jobs s ! i)))"
proof -
  from pools_made [OF assms(5,9,7,6,10)] obtain qp k1 qc k2 where
    p: "shm_create_segments can_open nodes num sz True k = Inr (qp, k1)"
      "shm_create_segments can_open nodes num sz False k1 = Inr (qc, k2)" "pools_ready (nat num) (nat sz) qp qc k2"
    by (elim exE conjE) (rule that)
  from serving_runs [OF assms(1-3) p(3) assms(11,4,7,8), of sched c0] p(1,2) show ?thesis by blast
qed

theorem proxy_cache_serves_witness:
  "\<exists>qp k1 qc k2 s. shm_create_segments (\<lambda>n. True) 10 2 3 True sample_kernel = Inr (qp, k1) \<and>
    shm_create_segments (\<lambda>n. True) 10 2 3 False k1 = Inr (qc, k2) \<and>
    run_system gflib_calls \<lparr>ctl_segment_size = 3, ctl_num_segments = 2\<rparr>
      (concat (replicate 50 [Thread 1 0, Worker 0, Thread 0 1, Worker 0]))
      (system_start 1 sample_reqs qp qc sample_store k2 (rq_ctx (sample_web []))) = Inr s \<and>
    (\<exists>n \<le> 1. list_all2 (\<lambda>q (r, x). r = 2 \<and> tx (ctx_conn x) = header_line ''OK'' 2 @ ''bb'')
       (take n [sample_web ''/b'']) (jb_done (sy_jobs s ! 1)))"
proof -
  have "\<exists>qp k1 qc k2 s. shm_create_segments (\<lambda>n. True) 10 2 3 True sample_kernel = Inr (qp, k1) \<and>
    shm_create_segments (\<lambda>n. True) 10 2 3 False k1 = Inr (qc, k2) \<and>
    run_system gflib_calls \<lparr>ctl_segment_size = 3, ctl_num_segments = 2\<rparr>
      (concat (replicate 50 [Thread 1 0, Worker 0, Thread 0 1, Worker 0]))
      (system_start 1 sample_reqs qp qc sample_store k2 (rq_ctx (sample_web []))) = Inr s \<and>
    (\<forall>i < length sample_reqs. \<exists>n \<le> length (sample_reqs ! i).
       list_all2 (answered (\<lambda>x. tx (ctx_conn x)) (catalog_of sample_store))
         (take n (sample_reqs ! i)) (jb_done (sy_jobs s ! i)))"
    by (rule proxy_cache_serves [OF gl.gfs_api_axioms sample_reqs_ok sample_store_good])
      (use sample_kernel_fresh in simp_all)
  then obtain qp k1 qc k2 s n where
    s: "shm_create_segments (\<lambda>n. True) 10 2 3 True sample_kernel = Inr (qp, k1)"
      "shm_create_segments (\<lambda>n. True) 10 2 3 False k1 = Inr (qc, k2)"
      "run_system gflib_calls \<lparr>ctl_segment_size = 3, ctl_num_segments = 2\<rparr>
        (concat (replicate 50 [Thread 1 0, Worker 0, Thread 0 1, Worker 0]))
        (system_start 1 sample_reqs qp qc sample_store k2 (rq_ctx (sample_web []))) = Inr s" and
    n: "n \<le> 1" "list_all2 (answered (\<lambda>x. tx (ctx_conn x)) (catalog_of sample_store))
         (take n [sample_web ''/b'']) (jb_done (sy_jobs s ! 1))"
    by (auto simp: sample_reqs_def all_less_two)
  from n(1) have "n = 0 \<or> n = 1" by auto
  then have "list_all2 (\<lambda>q (r, x). r = 2 \<and> tx (ctx_conn x) = header_line ''OK'' 2 @ ''bb'')
       (take n [sample_web ''/b'']) (jb_done (sy_jobs s ! 1))"
    using n(2) by (auto simp: list_all2_Cons1 answered_def sample_replies sample_web_name sample_wire)
  with s n(1) show ?thesis by blast
qed

text \<open>
  Further fact. And it answers all of them: after taking turns fifteen times per request and six times per
  byte of the requested files every thread has all its answers and the worker waits for requests again.
\<close>

theorem proxy_cache_answers_all:
  assumes "gfs_api api wire ready" and "\<forall>qs \<in> set reqs. \<forall>q \<in> set qs. rq_ok ready q" and "content_good content"
    and "0 < num" and "num \<le> 10 ^ 9" and "num \<le> int nodes" and "0 < sz" and "sz < 2 ^ 31" and "\<forall>n. can_open n"
    and "kernel_fresh (nat num) k" and "ctl = \<lparr>ctl_segment_size = sz, ctl_num_segments = num\<rparr>"
    and "(\<Sum>qs \<leftarrow> reqs. \<Sum>q \<leftarrow> qs. 6 * length (file_of (catalog_of content) (rq_name q)) + 15) \<le> rounds"
  shows "\<exists>qp k1 qc k2 s. shm_create_segments can_open nodes num sz True k = Inr (qp, k1) \<and>
    shm_create_segments can_open nodes num sz False k1 = Inr (qc, k2) \<and>
    run_system api ctl (concat (replicate rounds (system_turn (system_start 1 reqs qp qc content k2 c0))))
      (system_start 1 reqs qp qc content k2 c0) = Inr s \<and> sy_workers s = [CX_Wait] \<and>
    list_all2 (\<lambda>qs b. list_all2 (answered wire (catalog_of content)) qs (jb_done b)) reqs (sy_jobs s)"
proof -
  from pools_made [OF assms(5,9,7,6,10)] obtain qp k1 qc k2 where
    p: "shm_create_segments can_open nodes num sz True k = Inr (qp, k1)"
      "shm_create_segments can_open nodes num sz False k1 = Inr (qc, k2)" "pools_ready (nat num) (nat sz) qp qc k2"
    by (elim exE conjE) (rule that)
  from serving_ends [OF assms(1-3) p(3) assms(11,4,7,8,12), of c0] p(1,2) show ?thesis by blast
qed

theorem proxy_cache_answers_all_witness:
  "\<exists>qp k1 qc k2 s. shm_create_segments (\<lambda>n. True) 10 2 3 True sample_kernel = Inr (qp, k1) \<and>
    shm_create_segments (\<lambda>n. True) 10 2 3 False k1 = Inr (qc, k2) \<and>
    run_system gflib_calls \<lparr>ctl_segment_size = 3, ctl_num_segments = 2\<rparr>
      (concat (replicate 105 (system_turn (system_start 1 sample_reqs qp qc sample_store k2 (rq_ctx (sample_web []))))))
      (system_start 1 sample_reqs qp qc sample_store k2 (rq_ctx (sample_web []))) = Inr s \<and>
    sy_workers s = [CX_Wait] \<and>
    List.map (\<lambda>b. List.map (\<lambda>(r, x). tx (ctx_conn x)) (jb_done b)) (sy_jobs s) =
      [[header_line ''OK'' 8 @ ''contents'', header_line ''FILE_NOT_FOUND'' 0], [header_line ''OK'' 2 @ ''bb'']]"
proof -
  have "\<exists>qp k1 qc k2 s. shm_create_segments (\<lambda>n. True) 10 2 3 True sample_kernel = Inr (qp, k1) \<and>
    shm_create_segments (\<lambda>n. True) 10 2 3 False k1 = Inr (qc, k2) \<and>
    run_system gflib_calls \<lparr>ctl_segment_size = 3, ctl_num_segments = 2\<rparr>
      (concat (replicate 105 (system_turn (system_start 1 sample_reqs qp qc sample_store k2 (rq_ctx (sample_web []))))))
      (system_start 1 sample_reqs qp qc sample_store k2 (rq_ctx (sample_web []))) = Inr s \<and>
    sy_workers s = [CX_Wait] \<and>
    list_all2 (\<lambda>qs b. list_all2 (answered (\<lambda>x. tx (ctx_conn x)) (catalog_of sample_store)) qs (jb_done b))
      sample_reqs (sy_jobs s)"
    by (rule proxy_cache_answers_all [OF gl.gfs_api_axioms sample_reqs_ok sample_store_good])
      (use sample_kernel_fresh sample_replies(4) in simp_all)
  moreover have "List.map (\<lambda>b. List.map (\<lambda>(r, x). tx (ctx_conn x)) (jb_done b)) js =
      [[header_line ''OK'' 8 @ ''contents'', header_line ''FILE_NOT_FOUND'' 0], [header_line ''OK'' 2 @ ''bb'']]"
    if "list_all2 (\<lambda>qs b. list_all2 (answered (\<lambda>x. tx (ctx_conn x)) (catalog_of sample_store)) qs (jb_done b))
      sample_reqs js" for js
    using that by (auto simp: sample_reqs_def list_all2_Cons1 answered_def sample_replies(1-3) sample_web_name sample_wire)
  ultimately show ?thesis by blast
qed

end
