(* ===== verification/Curl_Handler.thy ===== *)
theory Curl_Handler
  imports Handler
begin

text \<open>
  The proxy's handler that fetches a file from the web, \<open>project3/handle_with_curl.c\<close> (its function
  is called \<open>handle_with_file\<close> like the one of \<open>handle_with_file.c\<close>; here it has the name of its
  file). libcurl is a parameter: \<open>'h\<close> is the type of its handles with all they know of the network.
\<close>

section \<open>The library\<close>

text \<open>
  The calls of libcurl: \<open>curl_easy_init\<close> with the options of \<open>init_curl\<close> for a URL, \<open>CURLOPT_NOBODY\<close>
  set to 0, \<open>curl_easy_perform\<close> with the lumps of data it gives to the write callback and its code, and
  the two queries, the content length with a code of its own. The length is a \<open>double\<close> that libcurl sets
  to -1 or to a number of bytes; it is an integer here.
\<close>

record 'h curl_lib =
  curl_open :: "string \<Rightarrow> 'h"
  curl_body :: "'h \<Rightarrow> 'h"
  curl_perform :: "'h \<Rightarrow> string list \<times> int \<times> 'h"
  curl_length :: "'h \<Rightarrow> int \<times> int"
  curl_response :: "'h \<Rightarrow> int"

section \<open>The write callback\<close>

record mem_data_t =
  md_memory :: string
  md_size :: nat

text \<open>
  \<open>realloc\<close> fails beyond \<open>avail\<close> bytes; what it adds to the memory is arbitrary, here \<open>NUL\<close>s that are
  all overwritten.
\<close>

definition write_callback :: "nat \<Rightarrow> string \<Rightarrow> mem_data_t \<Rightarrow> mem_data_t result" where
  "write_callback avail data m =
     (let n = md_size m + length data + 1
      in if avail < n then Inl (Exit (-1))
         else bind_res (mem_put (take n (md_memory m) @ replicate (n - length (md_memory m)) NUL)
                          (md_size m) data) (\<lambda>m1.
              bind_res (mem_put m1 (md_size m + length data) [NUL]) (\<lambda>m2.
              Inr \<lparr>md_memory = m2, md_size = md_size m + length data\<rparr>)))"

primrec write_lumps :: "nat \<Rightarrow> string list \<Rightarrow> mem_data_t \<Rightarrow> mem_data_t result" where
  "write_lumps avail [] m = Inr m"
| "write_lumps avail (d # ds) m = bind_res (write_callback avail d m) (write_lumps avail ds)"

section \<open>The handler\<close>

text \<open>
  \<open>gfs_send\<close> of the whole lump; its result goes through an \<open>int\<close>, and is compared as a \<open>size_t\<close>.
\<close>

definition send_lump :: "'c gfs_calls \<Rightarrow> 'c \<Rightarrow> mem_data_t \<Rightarrow> (int \<times> 'c) result" where
  "send_lump api c m =
     bind_res (mem_slice (md_memory m) 0 (md_size m)) (\<lambda>bs.
       let (n, c1) = api_send api c bs; write_len = int_of_ssize n
       in if size_t_of write_len \<noteq> md_size m then Inl (Exit (-1)) else Inr (write_len, c1))"

text \<open>The loop performs the transfer again until enough bytes are counted; \<open>None\<close> if it never ends.\<close>

partial_function (option) curl_loop ::
  "'h curl_lib \<Rightarrow> 'c gfs_calls \<Rightarrow> nat \<Rightarrow> int \<Rightarrow> int \<Rightarrow> mem_data_t \<Rightarrow> 'h \<Rightarrow> 'c \<Rightarrow> (int \<times> 'c) result option" where
  "curl_loop lib api avail filesize bytes_transferred lump h c =
     (if bytes_transferred < filesize then
        (case curl_perform lib h of
           (lumps, res, h1) \<Rightarrow>
             (case write_lumps avail lumps lump of
                Inl e \<Rightarrow> Some (Inl e)
              | Inr lump1 \<Rightarrow>
                  if res \<noteq> 0 then Some (Inr (1, c))
                  else
                    (case bind_res (send_lump api c lump1) (\<lambda>(write_len, c1).
                            bind_res (int_add bytes_transferred write_len) (\<lambda>t. Inr (t, c1))) of
                       Inl e \<Rightarrow> Some (Inl e)
                     | Inr (t, c1) \<Rightarrow> curl_loop lib api avail filesize t lump1 h1 c1)))
      else Some (Inr (bytes_transferred, c)))"

definition handle_with_curl ::
  "'h curl_lib \<Rightarrow> 'c gfs_calls \<Rightarrow> nat \<Rightarrow> char \<Rightarrow> 'c \<Rightarrow> string option \<Rightarrow> string \<Rightarrow> (int \<times> 'c) result option" where
  "handle_with_curl lib api avail junk c fpath server =
     (case fpath of
        None \<Rightarrow> Some (Inl Null_Deref)
      | Some p \<Rightarrow>
          (case curl_perform lib (curl_open lib (server @ p)) of
             (lumps, code, h) \<Rightarrow>
               (case write_lumps avail lumps \<lparr>md_memory = [junk], md_size = 0\<rparr> of
                  Inl e \<Rightarrow> Some (Inl e)
                | Inr lump \<Rightarrow>
                    let (res, filesize) = curl_length lib h; http_resp_code = curl_response lib h
                    in if res \<noteq> 0 then Some (api_sendheader api c S_GF_FILE_NOT_FOUND 0)
                       else if http_resp_code = 404 \<or> http_resp_code = 403
                       then Some (api_sendheader api c S_GF_FILE_NOT_FOUND (size_t_of http_resp_code))
                       else if http_resp_code \<noteq> 200 then Some (Inr (1, c))
                       else if filesize < 0 \<or> 2 ^ 64 \<le> filesize then Some (Inl Bad_Conversion)
                       else (case api_sendheader api c S_GF_OK (nat filesize) of
                               Inl e \<Rightarrow> Some (Inl e)
                             | Inr (k, c1) \<Rightarrow>
                                 curl_loop lib api avail filesize 0 lump (curl_body lib h) c1))))"

section \<open>The memory of the lump\<close>

definition lump_holds :: "mem_data_t \<Rightarrow> string \<Rightarrow> bool" where
  "lump_holds m bs \<longleftrightarrow> md_size m = length bs \<and> mem_slice (md_memory m) 0 (md_size m) = Inr bs"

lemma write_callback_holds:
  assumes "lump_holds m bs" and "length bs + length d < avail"
  shows "\<exists>m'. write_callback avail d m = Inr m' \<and> lump_holds m' (bs @ d)"
proof -
  let ?n = "md_size m + length d + 1"
  let ?mem = "take ?n (md_memory m) @ replicate (?n - length (md_memory m)) NUL"
  from assms have sz: "md_size m = length bs" "length bs \<le> length (md_memory m)"
    and bs: "take (length bs) (md_memory m) = bs"
    by (auto simp: lump_holds_def mem_slice_def split: if_splits)
  have len: "length ?mem = ?n" by simp
  have tk: "take (length bs) ?mem = bs" using sz bs by (simp add: take_append min_def)
  have p1: "mem_put ?mem (md_size m) d = Inr (bs @ d @ drop (length bs + length d) ?mem)"
    using len sz(1) tk by (simp add: mem_put_def)
  have "length (drop (length bs + length d) ?mem) = 1" using len sz(1) by simp
  then have p2: "mem_put (bs @ d @ drop (length bs + length d) ?mem) (md_size m + length d) [NUL] =
      Inr (bs @ d @ [NUL])"
    using sz(1) by (simp add: mem_put_def)
  have "write_callback avail d m = Inr \<lparr>md_memory = bs @ d @ [NUL], md_size = length bs + length d\<rparr>"
    using p1 p2 sz(1) assms(2) by (simp add: write_callback_def Let_def)
  then show ?thesis by (simp add: lump_holds_def mem_slice_def)
qed

lemma write_lumps_holds:
  assumes "lump_holds m bs" and "length bs + length (concat ds) < avail"
  shows "\<exists>m'. write_lumps avail ds m = Inr m' \<and> lump_holds m' (bs @ concat ds)"
  using assms
proof (induction ds arbitrary: m bs)
  case (Cons d ds)
  from write_callback_holds [OF Cons.prems(1), of d avail] Cons.prems(2) obtain m1 where
    m1: "write_callback avail d m = Inr m1" "lump_holds m1 (bs @ d)" by auto
  from Cons.IH [OF m1(2)] Cons.prems(2) m1(1) show ?case by auto
qed simp

lemma empty_lump_holds: "lump_holds \<lparr>md_memory = [junk], md_size = 0\<rparr> []"
  by (simp add: lump_holds_def mem_slice_def)


section \<open>One transfer\<close>

context gfs_api begin

lemma send_all:
  assumes "ready c"
  shows "\<exists>c'. api_send api c bs = (int (length bs), c') \<and> ready c' \<and> wire c' = wire c @ bs"
  using send_ready [OF assms, of bs] send_law [of c bs] by fastforce

lemma send_header_all:
  assumes "ready c" and "gfs_strstatus st = Inr s" and "n < 2 ^ 64"
  shows "\<exists>c'. api_sendheader api c st n = Inr (int (length (header_line s n)), c') \<and> ready c' \<and>
    wire c' = wire c @ header_line s n"
  using header_ready [OF assms] header_law [OF assms(2,3), of c] by fastforce

lemma send_lump_all:
  assumes "ready c" and "lump_holds m bs" and "length bs < 2 ^ 31"
  shows "\<exists>c'. send_lump api c m = Inr (int (length bs), c') \<and> ready c' \<and> wire c' = wire c @ bs"
  using send_all [OF assms(1), of bs] assms(2) size_t_of_nat [OF assms(3)] int_of_ssize_nat [OF assms(3)]
  by (auto simp: send_lump_def lump_holds_def)

lemma curl_round:
  assumes c: "ready c" and m: "lump_holds lump bs" and p: "curl_perform lib h = (ds, 0, h1)"
    and avail: "length (bs @ concat ds) < avail"
    and more: "int n < filesize" and small: "n + length (bs @ concat ds) < 2 ^ 31"
  shows "\<exists>c' lump'. curl_loop lib api avail filesize (int n) lump h c =
      curl_loop lib api avail filesize (int (n + length (bs @ concat ds))) lump' h1 c' \<and>
    ready c' \<and> wire c' = wire c @ bs @ concat ds \<and> lump_holds lump' (bs @ concat ds)"
proof -
  from write_lumps_holds [OF m, of ds avail] avail obtain lump' where
    l: "write_lumps avail ds lump = Inr lump'" "lump_holds lump' (bs @ concat ds)" by auto
  from send_lump_all [OF c l(2)] small obtain c' where
    s: "send_lump api c lump' = Inr (int (length (bs @ concat ds)), c')" "ready c'"
      "wire c' = wire c @ bs @ concat ds" by auto
  have "curl_loop lib api avail filesize (int n) lump h c =
      curl_loop lib api avail filesize (int (n + length (bs @ concat ds))) lump' h1 c'"
    using more p l(1) s(1) int_add_nat [OF small]
    by (subst curl_loop.simps) (simp del: length_append)
  with l s show ?thesis by blast
qed

lemma curl_start:
  assumes c: "ready c" and p: "curl_perform lib (curl_open lib (server @ fpath)) = ([], code, h)"
    and len: "curl_length lib h = (0, int n)" and resp: "curl_response lib h = 200" and n: "n < 2 ^ 31"
  shows "\<exists>c' lump. handle_with_curl lib api avail junk c (Some fpath) server =
      curl_loop lib api avail (int n) (int 0) lump (curl_body lib h) c' \<and>
    ready c' \<and> wire c' = wire c @ header_line ''OK'' n \<and> lump_holds lump []"
proof -
  have "gfs_strstatus S_GF_OK = Inr ''OK''" by (simp add: gfs_strstatus_def response_status_def)
  moreover have "n < 2 ^ 64" using n by simp
  ultimately obtain c' where
    s: "api_sendheader api c S_GF_OK n = Inr (int (length (header_line ''OK'' n)), c')" "ready c'"
      "wire c' = wire c @ header_line ''OK'' n"
    using send_header_all [OF c] by blast
  have "\<not> (2 ^ 64 :: int) \<le> int n" using n by simp
  then have "handle_with_curl lib api avail junk c (Some fpath) server =
      curl_loop lib api avail (int n) 0 \<lparr>md_memory = [junk], md_size = 0\<rparr> (curl_body lib h) c'"
    using p len resp s(1) by (simp add: handle_with_curl_def)
  with s(2,3) empty_lump_holds [of junk] show ?thesis by auto
qed

text \<open>A transfer that succeeds without data is repeated for ever.\<close>

lemma curl_loop_idle:
  assumes "curl_loop lib api' avail filesize sofar lump h c = Some r"
    and "api' = api" and "ready c" and "lump_holds lump []" and "curl_perform lib h = ([], 0, h)"
    and "sofar < filesize" and "0 \<le> sofar" and "sofar \<le> int_max"
  shows False
  using assms
proof (induction rule: curl_loop.raw_induct [rotated, consumes 1])
  case (1 loop lib api' avail filesize sofar lump h c r)
  from send_lump_all [OF 1(4,5)] obtain c' where
    s: "send_lump api c lump = Inr (0, c')" "ready c'" by auto
  have "int_add sofar 0 = Inr sofar" using 1(8,9) by (simp add: int_add_def int_max_def)
  then have "loop lib api' avail filesize sofar lump h c' = Some r"
    using 1(2,3,6,7) s(1) by simp
  from 1(1) [OF this 1(3) s(2) 1(5-9)] show ?case .
qed

end

lemma curl_file:
  assumes "gfs_api api wire ready" and "ready c"
    and "curl_perform lib (curl_open lib (server @ fpath)) = ([], code, h)"
    and "curl_length lib h = (0, int (length D))" and "curl_response lib h = 200"
    and "curl_perform lib (curl_body lib h) = (ds, 0, h1)" and "concat ds = D"
    and "length D < 2 ^ 31" and "length D < avail"
  shows "\<exists>c'. handle_with_curl lib api avail junk c (Some fpath) server = Some (Inr (int (length D), c')) \<and>
    wire c' = wire c @ header_line ''OK'' (length D) @ D"
proof -
  from gfs_api.curl_start [OF assms(1-5,8), of avail junk] obtain c1 lump where
    s: "handle_with_curl lib api avail junk c (Some fpath) server =
        curl_loop lib api avail (int (length D)) (int 0) lump (curl_body lib h) c1" "ready c1"
      "wire c1 = wire c @ header_line ''OK'' (length D)" "lump_holds lump []" by blast
  show ?thesis
  proof (cases "D = []")
    case True
    with s show ?thesis by (auto simp: curl_loop.simps [of lib api avail 0])
  next
    case False
    with gfs_api.curl_round [OF assms(1) s(2,4) assms(6), of avail 0 "int (length D)"] assms(7-9)
    obtain c2 lump2 where
      "curl_loop lib api avail (int (length D)) (int 0) lump (curl_body lib h) c1 =
        curl_loop lib api avail (int (length D)) (int (length D)) lump2 h1 c2"
      "wire c2 = wire c1 @ D" by auto
    with s show ?thesis by (auto simp: curl_loop.simps [of lib api avail _ "int (length D)"])
  qed
qed

section \<open>Properties\<close>

text \<open>
  Property C28. The proxy serves a file of the web completely: if the site answers the probe with 200
  and the length of the file, and the transfer then gives the file in whatever lumps, the client gets
  the header with this length and exactly the bytes of the file, and the handler returns their number.
\<close>

theorem curl_serves:
  assumes "gfs_api api wire ready" and "ready c"
    and "curl_perform lib (curl_open lib (server @ fpath)) = ([], code, h)"
    and "curl_length lib h = (0, int (length D))" and "curl_response lib h = 200"
    and "curl_perform lib (curl_body lib h) = (ds, 0, h1)" and "concat ds = D"
    and "length D < 2 ^ 31" and "length D < avail"
  shows "\<exists>c'. handle_with_curl lib api avail junk c (Some fpath) server = Some (Inr (int (length D), c')) \<and>
    wire c' = wire c @ header_line ''OK'' (length D) @ D"
  by (rule curl_file [OF assms])

text \<open>A site with one file, given in two lumps; the handle counts the calls.\<close>

definition sample_site :: "string \<Rightarrow> nat curl_lib" where
  "sample_site u =
     \<lparr>curl_open = (\<lambda>url. if url = u then 0 else 9), curl_body = (\<lambda>h. h + 1),
      curl_perform = (\<lambda>h. (if h = 0 then [] else [''con'', ''tents''], 0, h + 1)),
      curl_length = (\<lambda>h. (0, 8)), curl_response = (\<lambda>h. 200)\<rparr>"

theorem curl_serves_witness:
  "\<exists>c'. handle_with_curl (sample_site ''host/a'') gflib_calls 100 NUL
      (gfcontext_create False (new_conn [] [])) (Some ''/a'') ''host'' = Some (Inr (8, c')) \<and>
    tx (ctx_conn c') = header_line ''OK'' (length ''contents'') @ ''contents''"
  using curl_serves [OF gl.gfs_api_axioms sample_ready, of "sample_site ''host/a''" "''host''" "''/a''" 0 1
      "''contents''" "[''con'', ''tents'']" 3 100 NUL]
  by (simp add: sample_site_def gfcontext_create_def new_conn_def)

text \<open>
  Further fact. The handler repeats data: the size of the lump is never set back, so when a transfer
  gives fewer bytes than the probe announced, the next round sends the first ones again and counts
  them twice; the client gets the file three times over and the handler reports success.
\<close>

theorem curl_repeats:
  assumes "gfs_api api wire ready" and "ready c"
    and "curl_perform lib (curl_open lib (server @ fpath)) = ([], code, h)"
    and "curl_length lib h = (0, int n)" and "curl_response lib h = 200"
    and "curl_perform lib (curl_body lib h) = ([D], 0, h1)" and "curl_perform lib h1 = ([D], 0, h2)"
    and "length D < n" and "n \<le> 3 * length D" and "3 * length D < 2 ^ 31" and "2 * length D < avail"
  shows "\<exists>c'. handle_with_curl lib api avail junk c (Some fpath) server =
      Some (Inr (int (3 * length D), c')) \<and>
    wire c' = wire c @ header_line ''OK'' n @ D @ D @ D"
proof -
  have n: "n < 2 ^ 31" using assms(9,10) by linarith
  from gfs_api.curl_start [OF assms(1-5) n, of avail junk] obtain c1 lump where
    s: "handle_with_curl lib api avail junk c (Some fpath) server =
        curl_loop lib api avail (int n) (int 0) lump (curl_body lib h) c1" "ready c1"
      "wire c1 = wire c @ header_line ''OK'' n" "lump_holds lump []" by blast
  from gfs_api.curl_round [OF assms(1) s(2,4) assms(6), of avail 0 "int n"] assms(8-11)
  obtain c2 lump2 where
    t: "curl_loop lib api avail (int n) (int 0) lump (curl_body lib h) c1 =
        curl_loop lib api avail (int n) (int (length D)) lump2 h1 c2"
      "ready c2" "wire c2 = wire c1 @ D" "lump_holds lump2 D" by auto
  from gfs_api.curl_round [OF assms(1) t(2,4) assms(7), of avail "length D" "int n"] assms(8-11)
  obtain c3 lump3 where
    "curl_loop lib api avail (int n) (int (length D)) lump2 h1 c2 =
        curl_loop lib api avail (int n) (int (3 * length D)) lump3 h2 c3"
      "wire c3 = wire c2 @ D @ D" by (auto simp: algebra_simps)
  with s t assms(9) show ?thesis by (auto simp: curl_loop.simps [of lib api avail _ "3 * int (length D)"])
qed

theorem curl_repeats_witness:
  "\<exists>c'. handle_with_curl ((sample_site ''host/a'')\<lparr>curl_perform := \<lambda>h. (if h = 0 then [] else [''abcd''], 0, h + 1)\<rparr>)
      gflib_calls 100 NUL (gfcontext_create False (new_conn [] [])) (Some ''/a'') ''host'' = Some (Inr (12, c')) \<and>
    tx (ctx_conn c') = header_line ''OK'' 8 @ ''abcdabcdabcd''"
  using curl_repeats [OF gl.gfs_api_axioms sample_ready,
      of "(sample_site ''host/a'')\<lparr>curl_perform := \<lambda>h. (if h = 0 then [] else [''abcd''], 0, h + 1)\<rparr>"
        "''host''" "''/a''" 0 1 8 "''abcd''" 3 4 100 NUL]
  by (simp add: sample_site_def gfcontext_create_def new_conn_def)

text \<open>
  Further fact. A transfer that keeps succeeding without data while the probe announced some makes the
  handler loop for ever.
\<close>

theorem curl_forever:
  assumes "gfs_api api wire ready" and "ready c"
    and "curl_perform lib (curl_open lib (server @ fpath)) = ([], code, h)"
    and "curl_length lib h = (0, int n)" and "curl_response lib h = 200" and "0 < n" and "n < 2 ^ 31"
    and "curl_perform lib (curl_body lib h) = ([], 0, curl_body lib h)"
  shows "handle_with_curl lib api avail junk c (Some fpath) server = None"
proof -
  from gfs_api.curl_start [OF assms(1-5,7), of avail junk] obtain c1 lump where
    s: "handle_with_curl lib api avail junk c (Some fpath) server =
        curl_loop lib api avail (int n) (int 0) lump (curl_body lib h) c1" "ready c1"
      "lump_holds lump []" by blast
  from gfs_api.curl_loop_idle [OF assms(1) _ refl s(2,3) assms(8), of avail "int n" 0] assms(6)
  have "curl_loop lib api avail (int n) 0 lump (curl_body lib h) c1 \<noteq> Some r" for r
    by (auto simp: int_max_def)
  then have "curl_loop lib api avail (int n) 0 lump (curl_body lib h) c1 = None"
    by (cases "curl_loop lib api avail (int n) 0 lump (curl_body lib h) c1") auto
  with s(1) show ?thesis by simp
qed

text \<open>
  Further fact. What the handler does with the other answers: if the length is not known to libcurl at
  all, or with a code of 403 or 404, the client gets \<open>FILE_NOT_FOUND\<close>, in the second case with the code
  as the length of a file that does not follow; another code sends nothing at all and returns 1, and an
  unknown length (-1) is converted to a \<open>size_t\<close>, which is undefined.
\<close>

theorem curl_refusals:
  assumes "gfs_api api wire ready" and "ready c"
    and "curl_perform lib (curl_open lib (server @ fpath)) = ([], code, h)"
    and "curl_length lib h = (res, fsize)" and "curl_response lib h = resp" and "0 \<le> resp" and "resp < 2 ^ 31"
  shows "res \<noteq> 0 \<or> resp \<in> {403, 404} \<Longrightarrow>
      \<exists>k c'. handle_with_curl lib api avail junk c (Some fpath) server = Some (Inr (k, c')) \<and>
        wire c' = wire c @ header_line ''FILE_NOT_FOUND'' (if res \<noteq> 0 then 0 else nat resp)"
    and "res = 0 \<Longrightarrow> resp \<notin> {200, 403, 404} \<Longrightarrow>
      handle_with_curl lib api avail junk c (Some fpath) server = Some (Inr (1, c))"
    and "res = 0 \<Longrightarrow> resp = 200 \<Longrightarrow> fsize = -1 \<Longrightarrow>
      handle_with_curl lib api avail junk c (Some fpath) server = Some (Inl Bad_Conversion)"
proof -
  have st: "gfs_strstatus S_GF_FILE_NOT_FOUND = Inr ''FILE_NOT_FOUND''"
    by (simp add: gfs_strstatus_def response_status_def S_GF_FILE_NOT_FOUND_def S_GF_OK_def)
  show "\<exists>k c'. handle_with_curl lib api avail junk c (Some fpath) server = Some (Inr (k, c')) \<and>
        wire c' = wire c @ header_line ''FILE_NOT_FOUND'' (if res \<noteq> 0 then 0 else nat resp)"
    if "res \<noteq> 0 \<or> resp \<in> {403, 404}"
  proof -
    have sz: "size_t_of resp = nat resp" using assms(6,7) by (simp add: size_t_of_def)
    have "(if res \<noteq> 0 then 0 else nat resp) < 2 ^ 64" using assms(7) by auto
    from gfs_api.send_header_all [OF assms(1,2) st this] that show ?thesis
      using assms(3-5) sz by (auto simp: handle_with_curl_def)
  qed
qed (use assms(3-5) in \<open>auto simp: handle_with_curl_def\<close>)

end
