(* ===== verification/Proxy_Start.thy ===== *)
theory Proxy_Start
  imports Cache_Transfer
begin

text \<open>
  How the proxy (\<open>project3/webproxy.c\<close>) and the cache daemon (\<open>project3/simplecached.c\<close>) start and
  stop: the control queues, the handshake that tells the daemon the number and the size of the
  segments, and the making of the two pools, as two processes in any interleaving.
\<close>

section \<open>The control message in memory\<close>

text \<open>An \<open>int\<close> is four bytes, the least significant first; \<open>ctrl_msg\<close> is two of them.\<close>

definition int_bytes :: "int \<Rightarrow> string" where
  "int_bytes n = [char_of n, char_of (n div 2 ^ 8), char_of (n div 2 ^ 16), char_of (n div 2 ^ 24)]"

definition int_at :: "string \<Rightarrow> nat \<Rightarrow> int" where
  "int_at m i =
     sint (word_of_int (of_char (m ! i) + 2 ^ 8 * of_char (m ! (i + 1)) + 2 ^ 16 * of_char (m ! (i + 2)) +
       2 ^ 24 * of_char (m ! (i + 3))) :: 32 word)"

definition ctrl_bytes :: "ctrl_msg \<Rightarrow> string" where
  "ctrl_bytes c = int_bytes (ctl_segment_size c) @ int_bytes (ctl_num_segments c)"

definition ctrl_at :: "string \<Rightarrow> ctrl_msg" where
  "ctrl_at m = \<lparr>ctl_segment_size = int_at m 0, ctl_num_segments = int_at m 4\<rparr>"

definition int_range :: "int \<Rightarrow> bool" where
  "int_range n \<longleftrightarrow> - (2 ^ 31) \<le> n \<and> n < 2 ^ 31"

lemma int_at_bytes:
  assumes "int_range n"
  shows "int_at (pre @ int_bytes n @ post) (length pre) = n"
proof -
  have nth: "(pre @ int_bytes n @ post) ! length pre = char_of n"
    "(pre @ int_bytes n @ post) ! (length pre + 1) = char_of (n div 2 ^ 8)"
    "(pre @ int_bytes n @ post) ! (length pre + 2) = char_of (n div 2 ^ 16)"
    "(pre @ int_bytes n @ post) ! (length pre + 3) = char_of (n div 2 ^ 24)"
    by (simp_all add: nth_append int_bytes_def)
  have "int_at (pre @ int_bytes n @ post) (length pre) = sint (word_of_int (n mod 2 ^ 32) :: 32 word)"
    unfolding int_at_def nth of_char_of_int bytes_sum ..
  also have "\<dots> = sint (word_of_int n :: 32 word)"
    by (simp only: int_word_sint) (simp add: mod_simps)
  also have "\<dots> = n" using assms by (simp only: int_word_sint) (simp add: int_range_def)
  finally show ?thesis .
qed

lemma ctrl_at_bytes:
  assumes "int_range (ctl_segment_size c)" and "int_range (ctl_num_segments c)"
  shows "ctrl_at (ctrl_bytes c @ rest) = c"
proof -
  have "length (int_bytes n) = 4" for n by (simp add: int_bytes_def)
  with int_at_bytes [OF assms(1), of "[]"] int_at_bytes [OF assms(2), of "int_bytes (ctl_segment_size c)" rest]
  show ?thesis by (simp add: ctrl_at_def ctrl_bytes_def)
qed


section \<open>The two programs up to their pools\<close>

definition proxy_cmq_tx :: string where "proxy_cmq_tx = ''/control_proxy_cache''"
definition proxy_cmq_rx :: string where "proxy_cmq_rx = ''/control_cache_proxy''"
definition cache_cmq_tx :: string where "cache_cmq_tx = ''/control_cache_proxy''"
definition cache_cmq_rx :: string where "cache_cmq_rx = ''/control_proxy_cache''"

datatype proxy_start =
    PS_Open
  | PS_Tell
  | PS_Answer
  | PS_Segments
  | PS_Ready "steque \<times> segment_item sheap"

datatype cache_start =
    CS_Open
  | CS_Hear
  | CS_Tell
  | CS_Segments
  | CS_Ready "steque \<times> segment_item sheap"

text \<open>
  Messages are bytes. Both programs send and receive as many bytes as a \<open>thread_packet\<close> has from and
  to their variable \<open>ctrl\<close>, which has eight: \<open>st_pmem\<close> and \<open>st_cmem\<close> are the memory from \<open>ctrl\<close> on to
  the end of what is mapped, whatever lies behind the variable. The rest of the programs' state is taken
  to lie elsewhere.
\<close>

record startup =
  st_proxy :: proxy_start
  st_cache :: cache_start
  st_ipc :: "string ipc"
  st_pmem :: string
  st_cmem :: string

definition open_control ::
  "(string \<Rightarrow> bool) \<Rightarrow> string \<Rightarrow> string \<Rightarrow> string ipc \<Rightarrow> string ipc result" where
  "open_control can_open txn rxn k =
     bind_res (create_message_queue can_open txn sizeof_thread_packet MAX_MSGS k) (\<lambda>(d1, k1).
     bind_res (create_message_queue can_open rxn sizeof_thread_packet MAX_MSGS k1) (\<lambda>(d2, k2). Inr k2))"

definition tell_control :: "string \<Rightarrow> string \<Rightarrow> string ipc \<Rightarrow> string ipc result option" where
  "tell_control txn mem k =
     (case mem_slice mem 0 sizeof_thread_packet of
        Inl e \<Rightarrow> Some (Inl e)
      | Inr m \<Rightarrow> tx_mq txn m sizeof_thread_packet k)"

definition hear_control :: "string \<Rightarrow> string \<Rightarrow> string ipc \<Rightarrow> (string \<times> string ipc) result option" where
  "hear_control rxn mem k =
     on_msg (rx_mq rxn sizeof_thread_packet k) (\<lambda>(m, k1). bind_res (mem_put mem 0 m) (\<lambda>mem1. Inr (mem1, k1)))"

definition webproxy_start :: "(string \<Rightarrow> bool) \<Rightarrow> nat \<Rightarrow> startup \<Rightarrow> startup result option" where
  "webproxy_start can_open nodes s =
     (case st_proxy s of
        PS_Open \<Rightarrow>
          Some (bind_res (open_control can_open proxy_cmq_tx proxy_cmq_rx (st_ipc s)) (\<lambda>k.
            Inr (s\<lparr>st_ipc := k, st_proxy := PS_Tell\<rparr>)))
      | PS_Tell \<Rightarrow>
          on_msg (tell_control proxy_cmq_tx (st_pmem s) (st_ipc s)) (\<lambda>k.
            Inr (s\<lparr>st_ipc := k, st_proxy := PS_Answer\<rparr>))
      | PS_Answer \<Rightarrow>
          on_msg (hear_control proxy_cmq_rx (st_pmem s) (st_ipc s)) (\<lambda>(mem, k).
            Inr (s\<lparr>st_ipc := k, st_pmem := mem, st_proxy := PS_Segments\<rparr>))
      | PS_Segments \<Rightarrow>
          let ctrl = ctrl_at (st_pmem s)
          in Some (bind_res (shm_create_segments can_open nodes (ctl_num_segments ctrl)
                     (ctl_segment_size ctrl) True (st_ipc s)) (\<lambda>(q, k).
               Inr (s\<lparr>st_ipc := k, st_proxy := PS_Ready q\<rparr>)))
      | PS_Ready q \<Rightarrow> None)"

text \<open>\<open>sync_with_proxy\<close> and what follows in the \<open>main\<close> of the daemon.\<close>

definition sync_with_proxy :: "(string \<Rightarrow> bool) \<Rightarrow> startup \<Rightarrow> startup result option" where
  "sync_with_proxy can_open s =
     (case st_cache s of
        CS_Open \<Rightarrow>
          Some (bind_res (open_control can_open cache_cmq_tx cache_cmq_rx (st_ipc s)) (\<lambda>k.
            Inr (s\<lparr>st_ipc := k, st_cache := CS_Hear\<rparr>)))
      | CS_Hear \<Rightarrow>
          on_msg (hear_control cache_cmq_rx (st_cmem s) (st_ipc s)) (\<lambda>(mem, k).
            Inr (s\<lparr>st_ipc := k, st_cmem := mem, st_cache := CS_Tell\<rparr>))
      | CS_Tell \<Rightarrow>
          on_msg (tell_control cache_cmq_tx (st_cmem s) (st_ipc s)) (\<lambda>k.
            Inr (s\<lparr>st_ipc := k, st_cache := CS_Segments\<rparr>))
      | _ \<Rightarrow> None)"

definition simplecached_start :: "(string \<Rightarrow> bool) \<Rightarrow> nat \<Rightarrow> startup \<Rightarrow> startup result option" where
  "simplecached_start can_open nodes s =
     (case st_cache s of
        CS_Segments \<Rightarrow>
          let ctrl = ctrl_at (st_cmem s)
          in Some (bind_res (shm_create_segments can_open nodes (ctl_num_segments ctrl)
                     (ctl_segment_size ctrl) False (st_ipc s)) (\<lambda>(q, k).
               Inr (s\<lparr>st_ipc := k, st_cache := CS_Ready q\<rparr>)))
      | CS_Ready q \<Rightarrow> None
      | _ \<Rightarrow> sync_with_proxy can_open s)"

definition start_act :: "(string \<Rightarrow> bool) \<Rightarrow> nat \<Rightarrow> process \<Rightarrow> startup \<Rightarrow> startup result option" where
  "start_act can_open nodes t s =
     (case t of Proxy \<Rightarrow> webproxy_start can_open nodes s | Cache \<Rightarrow> simplecached_start can_open nodes s)"

abbreviation run_start :: "(string \<Rightarrow> bool) \<Rightarrow> nat \<Rightarrow> process list \<Rightarrow> startup \<Rightarrow> startup result" where
  "run_start can_open nodes \<equiv> run_sched (start_act can_open nodes)"

text \<open>Before: the proxy has its options in \<open>ctrl\<close>, with other memory behind it.\<close>

definition before_start :: "ctrl_msg \<Rightarrow> string \<Rightarrow> string \<Rightarrow> string ipc \<Rightarrow> startup" where
  "before_start c behind cmem k =
     \<lparr>st_proxy = PS_Open, st_cache = CS_Open, st_ipc = k, st_pmem = ctrl_bytes c @ behind, st_cmem = cmem\<rparr>"

section \<open>The phases of the start\<close>

definition control_queues :: "string ipc \<Rightarrow> string list \<Rightarrow> string list \<Rightarrow> bool" where
  "control_queues k p2c c2p \<longleftrightarrow>
     ipc_queues k proxy_cmq_tx = Some \<lparr>mq_msgsize = sizeof_thread_packet, mq_maxmsg = 10, mq_msgs = p2c\<rparr> \<and>
     ipc_queues k proxy_cmq_rx = Some \<lparr>mq_msgsize = sizeof_thread_packet, mq_maxmsg = 10, mq_msgs = c2p\<rparr>"

lemma cache_names [simp]: "cache_cmq_tx = proxy_cmq_rx" "cache_cmq_rx = proxy_cmq_tx"
  by (simp_all add: proxy_cmq_tx_def proxy_cmq_rx_def cache_cmq_tx_def cache_cmq_rx_def)

lemma control_names [simp]: "proxy_cmq_tx \<noteq> proxy_cmq_rx" "proxy_cmq_rx \<noteq> proxy_cmq_tx"
  by (simp_all add: proxy_cmq_tx_def proxy_cmq_rx_def)

lemma open_control_new:
  assumes "\<forall>n. can_open n" and "ipc_queues k proxy_cmq_tx = None" and "ipc_queues k proxy_cmq_rx = None"
  shows "\<exists>k'. open_control can_open proxy_cmq_tx proxy_cmq_rx k = Inr k' \<and> control_queues k' [] []"
    and "\<exists>k'. open_control can_open proxy_cmq_rx proxy_cmq_tx k = Inr k' \<and> control_queues k' [] []"
  using assms by (auto simp: open_control_def create_message_queue_def control_queues_def)

lemma open_control_old:
  assumes "\<forall>n. can_open n" and "control_queues k p2c c2p"
  shows "open_control can_open proxy_cmq_tx proxy_cmq_rx k = Inr k"
    and "open_control can_open proxy_cmq_rx proxy_cmq_tx k = Inr k"
  using assms by (auto simp: open_control_def create_message_queue_def control_queues_def)

lemma tell_control_ok:
  assumes "control_queues k p2c c2p" and "sizeof_thread_packet \<le> length m"
  shows "length p2c < 10 \<Longrightarrow> \<exists>k'. tell_control proxy_cmq_tx m k = Some (Inr k') \<and>
      control_queues k' (p2c @ [take sizeof_thread_packet m]) c2p"
    and "length c2p < 10 \<Longrightarrow> \<exists>k'. tell_control proxy_cmq_rx m k = Some (Inr k') \<and>
      control_queues k' p2c (c2p @ [take sizeof_thread_packet m])"
  using assms by (auto simp: tell_control_def tx_mq_def mem_slice_def control_queues_def)

lemma hear_control_ok:
  assumes "control_queues k p2c c2p"
  shows "hear_control proxy_cmq_tx m k = (case p2c of [] \<Rightarrow> None | x # xs \<Rightarrow>
      Some (bind_res (mem_put m 0 x) (\<lambda>m1. Inr (m1, k\<lparr>ipc_queues := (ipc_queues k)(proxy_cmq_tx \<mapsto>
        \<lparr>mq_msgsize = sizeof_thread_packet, mq_maxmsg = 10, mq_msgs = xs\<rparr>)\<rparr>))))"
    and "hear_control proxy_cmq_rx m k = (case c2p of [] \<Rightarrow> None | x # xs \<Rightarrow>
      Some (bind_res (mem_put m 0 x) (\<lambda>m1. Inr (m1, k\<lparr>ipc_queues := (ipc_queues k)(proxy_cmq_rx \<mapsto>
        \<lparr>mq_msgsize = sizeof_thread_packet, mq_maxmsg = 10, mq_msgs = xs\<rparr>)\<rparr>))))"
  using assms
  by (auto simp: hear_control_def on_msg_def rx_mq_def control_queues_def split: list.split)

text \<open>Making segments leaves every queue alone that is already there.\<close>

lemma make_segment_keeps:
  assumes "make_segment can_open sz proxy i k = Inr (g, k')"
  shows "ipc_queues k \<subseteq>\<^sub>m ipc_queues k'"
  using assms
  by (auto simp: make_segment_def shm_map_segment_def create_message_queue_def bind_res_eq_Inr Let_def
      map_le_def split: if_splits option.splits)

lemma create_segments_keeps:
  assumes "create_segments can_open sz proxy n i q k = Inr (q', k')"
  shows "ipc_queues k \<subseteq>\<^sub>m ipc_queues k'"
  using assms
proof (induction n arbitrary: i q k)
  case (Suc n)
  then obtain g k1 q1 where g: "make_segment can_open sz proxy i k = Inr (g, k1)"
    "create_segments can_open sz proxy n (Suc i) q1 k1 = Inr (q', k')" by (auto simp: bind_res_eq_Inr)
  from map_le_trans [OF make_segment_keeps [OF g(1)] Suc.IH [OF g(2)]] show ?case .
qed simp

lemma control_queues_keeps:
  assumes "shm_create_segments can_open nodes num sz proxy k = Inr (q, k')" and "control_queues k p2c c2p"
  shows "control_queues k' p2c c2p"
  using create_segments_keeps [OF assms(1) [unfolded shm_create_segments_def]] assms(2)
  by (auto simp: control_queues_def map_le_def dom_def)


text \<open>
  The phases both programs go through together, with the messages on the way to the daemon and to
  the proxy.
\<close>

fun start_phase :: "string \<Rightarrow> proxy_start \<Rightarrow> cache_start \<Rightarrow> string list \<Rightarrow> string list \<Rightarrow> bool" where
  "start_phase m PS_Answer CS_Open p2c c2p \<longleftrightarrow> p2c = [m] \<and> c2p = []"
| "start_phase m PS_Answer CS_Hear p2c c2p \<longleftrightarrow> p2c = [m] \<and> c2p = []"
| "start_phase m PS_Answer CS_Tell p2c c2p \<longleftrightarrow> p2c = [] \<and> c2p = []"
| "start_phase m PS_Answer c p2c c2p \<longleftrightarrow> p2c = [] \<and> c2p = [m]"
| "start_phase m PS_Open c p2c c2p \<longleftrightarrow> (c = CS_Open \<or> c = CS_Hear) \<and> p2c = [] \<and> c2p = []"
| "start_phase m PS_Tell c p2c c2p \<longleftrightarrow> (c = CS_Open \<or> c = CS_Hear) \<and> p2c = [] \<and> c2p = []"
| "start_phase m p c p2c c2p \<longleftrightarrow> c \<noteq> CS_Open \<and> c \<noteq> CS_Hear \<and> c \<noteq> CS_Tell \<and> p2c = [] \<and> c2p = []"

fun heard :: "cache_start \<Rightarrow> bool" where
  "heard CS_Open = False"
| "heard CS_Hear = False"
| "heard c = True"

definition pool_made :: "bool \<Rightarrow> int \<Rightarrow> steque \<times> segment_item sheap \<Rightarrow> string ipc \<Rightarrow> bool" where
  "pool_made proxy num q k \<longleftrightarrow>
     steque_invar q \<and> steque_items q = rev (List.map (segment_of proxy) [0 ..< nat num]) \<and>
     (\<lambda>j. shm_path @ dec_of_nat j) ` {0 ..< nat num} \<subseteq> dom (ipc_shm k) \<and>
     (\<Union>j \<in> {0 ..< nat num}. queue_names j) \<subseteq> dom (ipc_queues k)"

definition start_env :: "(string \<Rightarrow> bool) \<Rightarrow> nat \<Rightarrow> ctrl_msg \<Rightarrow> string \<Rightarrow> string \<Rightarrow> bool" where
  "start_env can_open nodes c pm cm \<longleftrightarrow>
     (\<forall>n. can_open n) \<and> sizeof_thread_packet \<le> length pm \<and> sizeof_thread_packet \<le> length cm \<and>
     ctrl_at pm = c \<and> ctl_num_segments c \<le> 10 ^ 9 \<and> ctl_num_segments c \<le> int nodes \<and>
     0 < ctl_segment_size c"

definition start_ok :: "int \<Rightarrow> string \<Rightarrow> string \<Rightarrow> startup \<Rightarrow> bool" where
  "start_ok num pm cm s \<longleftrightarrow>
     (\<exists>p2c c2p. start_phase (take sizeof_thread_packet pm) (st_proxy s) (st_cache s) p2c c2p \<and>
        (if st_proxy s = PS_Open \<and> st_cache s = CS_Open
         then ipc_queues (st_ipc s) proxy_cmq_tx = None \<and> ipc_queues (st_ipc s) proxy_cmq_rx = None
         else control_queues (st_ipc s) p2c c2p)) \<and>
     st_pmem s = pm \<and>
     st_cmem s = (if heard (st_cache s) then take sizeof_thread_packet pm @ drop sizeof_thread_packet cm else cm) \<and>
     (\<forall>q. st_proxy s = PS_Ready q \<longrightarrow> pool_made True num q (st_ipc s)) \<and>
     (\<forall>q. st_cache s = CS_Ready q \<longrightarrow> pool_made False num q (st_ipc s))"

fun proxy_left :: "proxy_start \<Rightarrow> nat" where
  "proxy_left PS_Open = 4"
| "proxy_left PS_Tell = 3"
| "proxy_left PS_Answer = 2"
| "proxy_left PS_Segments = 1"
| "proxy_left (PS_Ready q) = 0"

fun cache_left :: "cache_start \<Rightarrow> nat" where
  "cache_left CS_Open = 4"
| "cache_left CS_Hear = 3"
| "cache_left CS_Tell = 2"
| "cache_left CS_Segments = 1"
| "cache_left (CS_Ready q) = 0"

definition start_left :: "startup \<Rightarrow> nat" where
  "start_left s = proxy_left (st_proxy s) + cache_left (st_cache s)"

definition start_progress :: "int \<Rightarrow> string \<Rightarrow> string \<Rightarrow> startup \<Rightarrow> startup result \<Rightarrow> bool" where
  "start_progress num pm cm s r \<longleftrightarrow>
     (\<exists>s'. r = Inr s' \<and> start_ok num pm cm s' \<and> start_left s' < start_left s)"

lemma ctrl_at_take: "8 \<le> n \<Longrightarrow> n \<le> length m \<Longrightarrow> ctrl_at (take n m @ x) = ctrl_at m"
  by (simp add: ctrl_at_def int_at_def nth_append)

lemma sizeof_thread_packet_148: "sizeof_thread_packet = 148"
  by (simp add: sizeof_thread_packet_def MAX_REQUEST_LEN_def)

lemma pool_made_mono:
  "pool_made b num q k \<Longrightarrow> dom (ipc_shm k) \<subseteq> dom (ipc_shm k') \<Longrightarrow> dom (ipc_queues k) \<subseteq> dom (ipc_queues k') \<Longrightarrow>
    pool_made b num q k'"
  unfolding pool_made_def by blast

lemma segments_made:
  assumes "start_env can_open nodes c pm cm"
  shows "\<exists>q k'. shm_create_segments can_open nodes (ctl_num_segments c) (ctl_segment_size c) b k = Inr (q, k') \<and>
    pool_made b (ctl_num_segments c) q k' \<and> dom (ipc_shm k) \<subseteq> dom (ipc_shm k') \<and>
    dom (ipc_queues k) \<subseteq> dom (ipc_queues k')"
proof -
  have h: "ctl_num_segments c \<le> 10 ^ 9" "\<forall>n. can_open n" "0 < ctl_segment_size c"
    "ctl_num_segments c \<le> int nodes" using assms by (simp_all add: start_env_def)
  from shm_create_segments_ok [OF h, of b k] obtain q k' where
    "shm_create_segments can_open nodes (ctl_num_segments c) (ctl_segment_size c) b k = Inr (q, k')"
    "steque_invar q" "steque_items q = rev (List.map (segment_of b) [0 ..< nat (ctl_num_segments c)])"
    "dom (ipc_shm k') = dom (ipc_shm k) \<union> (\<lambda>j. shm_path @ dec_of_nat j) ` {0 ..< nat (ctl_num_segments c)}"
    "dom (ipc_queues k') = dom (ipc_queues k) \<union> (\<Union>j \<in> {0 ..< nat (ctl_num_segments c)}. queue_names j)"
    by (elim exE conjE) (rule that)
  then show ?thesis unfolding pool_made_def by blast
qed

lemma start_progressI:
  assumes "start_phase (take sizeof_thread_packet pm) p c p2c c2p" and "control_queues k p2c c2p"
    and "p \<noteq> PS_Open \<or> c \<noteq> CS_Open"
    and "cm' = (if heard c then take sizeof_thread_packet pm @ drop sizeof_thread_packet cm else cm)"
    and "\<And>q. p = PS_Ready q \<Longrightarrow> pool_made True num q k" and "\<And>q. c = CS_Ready q \<Longrightarrow> pool_made False num q k"
    and "proxy_left p + cache_left c < start_left s"
  shows "start_progress num pm cm s
    (Inr \<lparr>st_proxy = p, st_cache = c, st_ipc = k, st_pmem = pm, st_cmem = cm'\<rparr>)"
  unfolding start_progress_def start_ok_def using assms by (auto simp: start_left_def)

lemma start_okE:
  assumes "start_ok num pm cm s"
  obtains p c k cm' p2c c2p where
    "s = \<lparr>st_proxy = p, st_cache = c, st_ipc = k, st_pmem = pm, st_cmem = cm'\<rparr>"
    "start_phase (take sizeof_thread_packet pm) p c p2c c2p"
    "p = PS_Open \<Longrightarrow> c = CS_Open \<Longrightarrow> ipc_queues k proxy_cmq_tx = None"
    "p = PS_Open \<Longrightarrow> c = CS_Open \<Longrightarrow> ipc_queues k proxy_cmq_rx = None"
    "p \<noteq> PS_Open \<or> c \<noteq> CS_Open \<Longrightarrow> control_queues k p2c c2p"
    "cm' = (if heard c then take sizeof_thread_packet pm @ drop sizeof_thread_packet cm else cm)"
    "\<And>q. p = PS_Ready q \<Longrightarrow> pool_made True num q k" "\<And>q. c = CS_Ready q \<Longrightarrow> pool_made False num q k"
proof -
  obtain p c k pm' cm' where s: "s = \<lparr>st_proxy = p, st_cache = c, st_ipc = k, st_pmem = pm', st_cmem = cm'\<rparr>"
    by (cases s)
  from assms obtain p2c c2p where
    ph: "start_phase (take sizeof_thread_packet pm) p c p2c c2p" and
    q: "if p = PS_Open \<and> c = CS_Open then ipc_queues k proxy_cmq_tx = None \<and> ipc_queues k proxy_cmq_rx = None
     else control_queues k p2c c2p"
    unfolding start_ok_def s startup.simps by blast
  from assms have "pm' = pm" and
    cm: "cm' = (if heard c then take sizeof_thread_packet pm @ drop sizeof_thread_packet cm else cm)" and
    r: "\<And>q. p = PS_Ready q \<Longrightarrow> pool_made True num q k" "\<And>q. c = CS_Ready q \<Longrightarrow> pool_made False num q k"
    unfolding start_ok_def s startup.simps by auto
  with s have "s = \<lparr>st_proxy = p, st_cache = c, st_ipc = k, st_pmem = pm, st_cmem = cm'\<rparr>" by simp
  from that [OF this ph _ _ _ cm r] q show thesis by (simp split: if_splits)
qed

lemma proxy_start_keeps:
  assumes env: "start_env can_open nodes ctl pm cm" and ok: "start_ok (ctl_num_segments ctl) pm cm s"
    and step: "webproxy_start can_open nodes s = Some r"
  shows "start_progress (ctl_num_segments ctl) pm cm s r"
  using ok
proof (cases rule: start_okE)
  case (1 p c k cm' p2c c2p)
  have all: "\<forall>n. can_open n" and len: "sizeof_thread_packet \<le> length pm" using env by (simp_all add: start_env_def)
  show ?thesis
  proof (cases p)
    case PS_Open
    then have c: "c = CS_Open \<or> c = CS_Hear" "p2c = []" "c2p = []" using 1(2) by auto
    have "\<exists>k'. open_control can_open proxy_cmq_tx proxy_cmq_rx k = Inr k' \<and> control_queues k' [] []"
      using open_control_new(1) [OF all 1(3,4)] open_control_old(1) [OF all 1(5)] 1(5) c PS_Open
      by (cases "c = CS_Open") auto
    then obtain k' where k': "open_control can_open proxy_cmq_tx proxy_cmq_rx k = Inr k'" "control_queues k' [] []"
      by blast
    have "r = Inr \<lparr>st_proxy = PS_Tell, st_cache = c, st_ipc = k', st_pmem = pm, st_cmem = cm'\<rparr>"
      using step PS_Open k'(1) by (simp add: webproxy_start_def 1(1))
    with c k'(2) 1(6) PS_Open show ?thesis
      by (auto intro!: start_progressI [of _ _ _ "[]" "[]"] simp: start_left_def 1(1))
  next
    case PS_Tell
    then have c: "c = CS_Open \<or> c = CS_Hear" "p2c = []" "c2p = []" using 1(2) by auto
    then have "control_queues k [] []" using 1(5) PS_Tell by simp
    from tell_control_ok(1) [OF this len] obtain k' where
      k': "tell_control proxy_cmq_tx pm k = Some (Inr k')" "control_queues k' [take sizeof_thread_packet pm] []"
      by auto
    have "r = Inr \<lparr>st_proxy = PS_Answer, st_cache = c, st_ipc = k', st_pmem = pm, st_cmem = cm'\<rparr>"
      using step PS_Tell k'(1) by (simp add: webproxy_start_def 1(1) on_msg_def)
    with c k'(2) 1(6) PS_Tell show ?thesis
      by (auto intro!: start_progressI [of _ _ _ "[take sizeof_thread_packet pm]" "[]"] simp: start_left_def 1(1))
  next
    case PS_Answer
    then have q: "control_queues k p2c c2p" using 1(5) by simp
    have "c2p \<noteq> []"
      using step PS_Answer hear_control_ok(2) [OF q, of pm] by (auto simp: webproxy_start_def on_msg_def 1(1))
    then have c: "p2c = []" "c2p = [take sizeof_thread_packet pm]" "c \<noteq> CS_Open" "c \<noteq> CS_Hear" "c \<noteq> CS_Tell"
      using 1(2) PS_Answer by (cases c; simp)+
    let ?k = "k\<lparr>ipc_queues := (ipc_queues k)(proxy_cmq_rx \<mapsto>
        \<lparr>mq_msgsize = sizeof_thread_packet, mq_maxmsg = 10, mq_msgs = []\<rparr>)\<rparr>"
    have "mem_put pm 0 (take sizeof_thread_packet pm) = Inr pm" using len by (simp add: mem_put_def)
    then have r: "r = Inr \<lparr>st_proxy = PS_Segments, st_cache = c, st_ipc = ?k, st_pmem = pm, st_cmem = cm'\<rparr>"
      using step PS_Answer hear_control_ok(2) [OF q, of pm] c(2) by (simp add: webproxy_start_def on_msg_def 1(1))
    have "control_queues ?k [] []" using q c(1) by (simp add: control_queues_def)
    moreover have "pool_made False num qq ?k" if "pool_made False num qq k" for num qq
      by (rule pool_made_mono [OF that]) auto
    ultimately show ?thesis
      unfolding r using c PS_Answer 1(6,8)
      by (intro start_progressI [of _ _ _ "[]" "[]"]) (auto simp: start_left_def 1(1))
  next
    case PS_Segments
    then have c: "p2c = []" "c2p = []" "c \<noteq> CS_Open" "c \<noteq> CS_Hear" "c \<noteq> CS_Tell" using 1(2) by auto
    then have q: "control_queues k [] []" using 1(5) PS_Segments by simp
    from segments_made [OF env, of True k] obtain qq k' where
      k': "shm_create_segments can_open nodes (ctl_num_segments ctl) (ctl_segment_size ctl) True k = Inr (qq, k')"
        "pool_made True (ctl_num_segments ctl) qq k'" "dom (ipc_shm k) \<subseteq> dom (ipc_shm k')"
        "dom (ipc_queues k) \<subseteq> dom (ipc_queues k')" by blast
    have r: "r = Inr \<lparr>st_proxy = PS_Ready qq, st_cache = c, st_ipc = k', st_pmem = pm, st_cmem = cm'\<rparr>"
      using step PS_Segments k'(1) env by (simp add: webproxy_start_def start_env_def Let_def 1(1))
    show ?thesis
      unfolding r using c PS_Segments k'(2) 1(6,8) control_queues_keeps [OF k'(1) q] pool_made_mono [OF _ k'(3,4)]
      by (intro start_progressI [of _ _ _ "[]" "[]"]) (auto simp: start_left_def 1(1))
  next
    case (PS_Ready qq)
    with step show ?thesis by (simp add: webproxy_start_def 1(1))
  qed
qed


lemma cache_start_keeps:
  assumes env: "start_env can_open nodes ctl pm cm" and ok: "start_ok (ctl_num_segments ctl) pm cm s"
    and step: "simplecached_start can_open nodes s = Some r"
  shows "start_progress (ctl_num_segments ctl) pm cm s r"
  using ok
proof (cases rule: start_okE)
  case (1 p c k cm' p2c c2p)
  let ?cm = "take sizeof_thread_packet pm @ drop sizeof_thread_packet cm"
  have all: "\<forall>n. can_open n" and len: "sizeof_thread_packet \<le> length pm" "sizeof_thread_packet \<le> length cm"
    using env by (simp_all add: start_env_def)
  show ?thesis
  proof (cases c)
    case CS_Open
    then have p: "p = PS_Open \<or> p = PS_Tell \<or> p = PS_Answer" using 1(2) by (cases p) auto
    have "\<exists>k' p2c' c2p'. open_control can_open proxy_cmq_rx proxy_cmq_tx k = Inr k' \<and> control_queues k' p2c' c2p' \<and>
        start_phase (take sizeof_thread_packet pm) p CS_Hear p2c' c2p'"
      using open_control_new(2) [OF all 1(3,4)] open_control_old(2) [OF all 1(5)] 1(2,5) p CS_Open
      by (cases "p = PS_Open") auto
    then obtain k' p2c' c2p' where k': "open_control can_open proxy_cmq_rx proxy_cmq_tx k = Inr k'"
      "control_queues k' p2c' c2p'" "start_phase (take sizeof_thread_packet pm) p CS_Hear p2c' c2p'" by blast
    have r: "r = Inr \<lparr>st_proxy = p, st_cache = CS_Hear, st_ipc = k', st_pmem = pm, st_cmem = cm'\<rparr>"
      using step CS_Open k'(1) by (simp add: simplecached_start_def sync_with_proxy_def 1(1))
    show ?thesis
      unfolding r using p CS_Open 1(6) by (intro start_progressI [OF k'(3,2)]) (auto simp: start_left_def 1(1))
  next
    case CS_Hear
    then have q: "control_queues k p2c c2p" using 1(5) by simp
    have "p2c \<noteq> []"
      using step CS_Hear hear_control_ok(1) [OF q, of cm']
      by (auto simp: simplecached_start_def sync_with_proxy_def on_msg_def 1(1))
    then have p: "p = PS_Answer" "p2c = [take sizeof_thread_packet pm]" "c2p = []"
      using 1(2) CS_Hear by (cases p; simp)+
    let ?k = "k\<lparr>ipc_queues := (ipc_queues k)(proxy_cmq_tx \<mapsto>
        \<lparr>mq_msgsize = sizeof_thread_packet, mq_maxmsg = 10, mq_msgs = []\<rparr>)\<rparr>"
    have "mem_put cm 0 (take sizeof_thread_packet pm) = Inr ?cm" using len by (simp add: mem_put_def min_def)
    then have r: "r = Inr \<lparr>st_proxy = p, st_cache = CS_Tell, st_ipc = ?k, st_pmem = pm, st_cmem = ?cm\<rparr>"
      using step CS_Hear hear_control_ok(1) [OF q, of cm'] p(2) 1(6)
      by (simp add: simplecached_start_def sync_with_proxy_def on_msg_def 1(1))
    have "control_queues ?k [] []" using q p(3) by (simp add: control_queues_def)
    then show ?thesis
      unfolding r using p CS_Hear
      by (intro start_progressI [of _ _ _ "[]" "[]"]) (auto simp: start_left_def 1(1))
  next
    case CS_Tell
    then have p: "p = PS_Answer" "p2c = []" "c2p = []" using 1(2) by (cases p; simp)+
    then have "control_queues k [] []" using 1(5) by simp
    from tell_control_ok(2) [OF this, of ?cm] len obtain k' where
      k': "tell_control proxy_cmq_rx ?cm k = Some (Inr k')" "control_queues k' [] [take sizeof_thread_packet pm]"
      by auto
    have r: "r = Inr \<lparr>st_proxy = p, st_cache = CS_Segments, st_ipc = k', st_pmem = pm, st_cmem = ?cm\<rparr>"
      using step CS_Tell k'(1) 1(6) by (simp add: simplecached_start_def sync_with_proxy_def on_msg_def 1(1))
    show ?thesis
      unfolding r using p CS_Tell k'(2)
      by (intro start_progressI [of _ _ _ "[]" "[take sizeof_thread_packet pm]"]) (auto simp: start_left_def 1(1))
  next
    case CS_Segments
    then have p: "start_phase (take sizeof_thread_packet pm) p (CS_Ready qq) p2c c2p" "p \<noteq> PS_Open" for qq
      using 1(2) by (cases p; simp)+
    then have q: "control_queues k p2c c2p" using 1(5) by simp
    from segments_made [OF env, of False k] obtain qq k' where
      k': "shm_create_segments can_open nodes (ctl_num_segments ctl) (ctl_segment_size ctl) False k = Inr (qq, k')"
        "pool_made False (ctl_num_segments ctl) qq k'" "dom (ipc_shm k) \<subseteq> dom (ipc_shm k')"
        "dom (ipc_queues k) \<subseteq> dom (ipc_queues k')" by blast
    have "ctrl_at ?cm = ctl"
      using env ctrl_at_take [of sizeof_thread_packet pm] by (simp add: start_env_def sizeof_thread_packet_148)
    then have r: "r = Inr \<lparr>st_proxy = p, st_cache = CS_Ready qq, st_ipc = k', st_pmem = pm, st_cmem = ?cm\<rparr>"
      using step CS_Segments k'(1) 1(6) by (simp add: simplecached_start_def Let_def 1(1))
    show ?thesis
      unfolding r
      using p(2) CS_Segments k'(2) 1(7) control_queues_keeps [OF k'(1) q] pool_made_mono [OF _ k'(3,4)]
      by (intro start_progressI [OF p(1)]) (auto simp: start_left_def 1(1))
  next
    case (CS_Ready qq)
    with step show ?thesis by (simp add: simplecached_start_def 1(1))
  qed
qed

section \<open>The start as a system\<close>

definition both_ready :: "startup \<Rightarrow> bool" where
  "both_ready s \<longleftrightarrow> start_left s = 0"

lemma both_ready_cases: "both_ready s \<longleftrightarrow> (\<exists>qp qc. st_proxy s = PS_Ready qp \<and> st_cache s = CS_Ready qc)"
  by (cases "st_proxy s"; cases "st_cache s") (simp_all add: both_ready_def start_left_def)

lemma start_enabled:
  assumes env: "start_env can_open nodes ctl pm cm" and ok: "start_ok (ctl_num_segments ctl) pm cm s"
    and left: "\<not> both_ready s"
  shows "webproxy_start can_open nodes s \<noteq> None \<or> simplecached_start can_open nodes s \<noteq> None"
  using ok
proof (cases rule: start_okE)
  case (1 p c k cm' p2c c2p)
  have len: "sizeof_thread_packet \<le> length pm" "sizeof_thread_packet \<le> length cm"
    using env by (simp_all add: start_env_def)
  show ?thesis
  proof (cases p)
    case PS_Open
    then show ?thesis by (simp add: webproxy_start_def 1(1))
  next
    case PS_Tell
    then have "control_queues k [] []" using 1(2,5) by auto
    from tell_control_ok(1) [OF this len(1)] PS_Tell show ?thesis
      by (auto simp: webproxy_start_def on_msg_def 1(1))
  next
    case PS_Answer
    then have q: "control_queues k p2c c2p" using 1(5) by simp
    show ?thesis
    proof (cases c)
      case CS_Open
      then show ?thesis by (simp add: simplecached_start_def sync_with_proxy_def 1(1))
    next
      case CS_Hear
      with PS_Answer 1(2) hear_control_ok(1) [OF q, of cm'] show ?thesis
        by (simp add: simplecached_start_def sync_with_proxy_def on_msg_def 1(1))
    next
      case CS_Tell
      with PS_Answer 1(2) q have "control_queues k [] []" by simp
      from tell_control_ok(2) [OF this, of cm'] CS_Tell len 1(6) show ?thesis
        by (auto simp: simplecached_start_def sync_with_proxy_def on_msg_def 1(1))
    next
      case CS_Segments
      with PS_Answer 1(2) hear_control_ok(2) [OF q, of pm] show ?thesis
        by (simp add: webproxy_start_def on_msg_def 1(1))
    next
      case (CS_Ready qq)
      with PS_Answer 1(2) hear_control_ok(2) [OF q, of pm] show ?thesis
        by (simp add: webproxy_start_def on_msg_def 1(1))
    qed
  next
    case PS_Segments
    then show ?thesis by (simp add: webproxy_start_def Let_def 1(1))
  next
    case (PS_Ready qq)
    then show ?thesis
      using 1(2) left by (cases c) (auto simp: simplecached_start_def Let_def 1(1) both_ready_def start_left_def)
  qed
qed

lemma start_system:
  assumes "start_env can_open nodes ctl pm cm"
  shows "schedule_system (start_act can_open nodes) (start_ok (ctl_num_segments ctl) pm cm) start_left
    (\<lambda>s. [Proxy, Cache]) both_ready"
proof
  show "\<exists>s'. r = Inr s' \<and> start_ok (ctl_num_segments ctl) pm cm s' \<and> start_left s' < start_left s \<and>
      [Proxy, Cache] = [Proxy, Cache]"
    if "start_ok (ctl_num_segments ctl) pm cm s" "start_act can_open nodes t s = Some r" for s t r
    using proxy_start_keeps [OF assms that(1), of r] cache_start_keeps [OF assms that(1), of r] that(2)
    by (cases t) (auto simp: start_act_def start_progress_def)
  show "\<exists>t \<in> set [Proxy, Cache]. start_act can_open nodes t s \<noteq> None"
    if "start_ok (ctl_num_segments ctl) pm cm s" "\<not> both_ready s" for s
    using start_enabled [OF assms that] by (auto simp: start_act_def)
  show "both_ready s'" if "both_ready s" "start_act can_open nodes t s = Some (Inr s')" for s t s'
    using that by (cases t) (auto simp: both_ready_cases start_act_def webproxy_start_def simplecached_start_def)
qed


lemma before_start_ok:
  assumes "int_range (ctl_segment_size ctl)" and "int_range (ctl_num_segments ctl)"
    and "\<forall>n. can_open n" and "140 \<le> length behind" and "148 \<le> length cm"
    and "ctl_num_segments ctl \<le> 10 ^ 9" and "ctl_num_segments ctl \<le> int nodes" and "0 < ctl_segment_size ctl"
    and "ipc_queues k proxy_cmq_tx = None" and "ipc_queues k proxy_cmq_rx = None"
  shows "start_env can_open nodes ctl (ctrl_bytes ctl @ behind) cm"
    and "start_ok (ctl_num_segments ctl) (ctrl_bytes ctl @ behind) cm (before_start ctl behind cm k)"
    and "start_left (before_start ctl behind cm k) = 8"
  using assms ctrl_at_bytes [OF assms(1,2), of behind]
  by (simp_all add: start_env_def sizeof_thread_packet_148 ctrl_bytes_def int_bytes_def start_ok_def
      before_start_def start_left_def)

lemma ready_pools:
  assumes "start_env can_open nodes ctl pm cm" and "start_ok (ctl_num_segments ctl) pm cm s"
    and "st_proxy s = PS_Ready qp" and "st_cache s = CS_Ready qc"
  shows "st_cmem s = take 148 pm @ drop 148 cm" and "ctrl_at (st_cmem s) = ctl"
    and "steque_items qp = rev (List.map (segment_of True) [0 ..< nat (ctl_num_segments ctl)])"
    and "steque_items qc = rev (List.map (segment_of False) [0 ..< nat (ctl_num_segments ctl)])"
proof -
  show cm: "st_cmem s = take 148 pm @ drop 148 cm"
    using assms(2-4) by (simp add: start_ok_def sizeof_thread_packet_148)
  show "ctrl_at (st_cmem s) = ctl"
    unfolding cm using assms(1) ctrl_at_take [of 148 pm] by (simp add: start_env_def sizeof_thread_packet_148)
qed (use assms(2-4) in \<open>simp_all add: start_ok_def pool_made_def\<close>)

section \<open>Stopping\<close>

text \<open>
  The daemon insists that the control queues are there; the proxy's signal handler (signals 2 and 15)
  removes them and cleans its pool, whose pointer is null until the pool has been made.
\<close>

definition clean_control_mq :: "string \<Rightarrow> string \<Rightarrow> 'm ipc \<Rightarrow> 'm ipc result" where
  "clean_control_mq txn rxn k =
     (if ipc_queues k txn = None then Inl (Exit (-1))
      else let k1 = mq_unlink txn k
           in if ipc_queues k1 rxn = None then Inl (Exit (-1)) else Inr (mq_unlink rxn k1))"

definition sig_handler ::
  "int \<Rightarrow> (steque \<times> segment_item sheap) option \<Rightarrow> 'm ipc \<Rightarrow> (int option \<times> 'm ipc) result" where
  "sig_handler signo segment_q k =
     (if signo = 2 \<or> signo = 15 then
        (let k1 = mq_unlink proxy_cmq_rx (mq_unlink proxy_cmq_tx k)
         in case segment_q of
              None \<Rightarrow> Inl Null_Deref
            | Some q \<Rightarrow> bind_res (shm_clean_segments q k1) (\<lambda>(q2, k2). Inr (Some signo, k2)))
      else Inr (None, k))"

section \<open>Properties\<close>

text \<open>
  Property C10. Proxy and daemon agree: whatever the order in which the two programs take their first
  steps, no step fails, and once both are ready the daemon knows the proxy's number and size of segments
  and the pools match: the same indices and memory at the same places, with crossed queues. To get
  there the daemon lets the proxy overwrite the 140 bytes behind its control message. These are taken to
  hold nothing else; in \<open>simplecached.c\<close> the queue of segments and the two descriptors of the control
  queues are declared there.
\<close>

theorem startup_agrees:
  assumes "int_range (ctl_segment_size ctl)" and "int_range (ctl_num_segments ctl)"
    and "\<forall>n. can_open n" and "140 \<le> length behind" and "148 \<le> length cm"
    and "ctl_num_segments ctl \<le> 10 ^ 9" and "ctl_num_segments ctl \<le> int nodes" and "0 < ctl_segment_size ctl"
    and "ipc_queues k proxy_cmq_tx = None" and "ipc_queues k proxy_cmq_rx = None"
  shows "\<exists>s. run_start can_open nodes sched (before_start ctl behind cm k) = Inr s \<and>
    (\<forall>qp qc. st_proxy s = PS_Ready qp \<and> st_cache s = CS_Ready qc \<longrightarrow>
       ctrl_at (st_cmem s) = ctl \<and> st_cmem s = ctrl_bytes ctl @ take 140 behind @ drop 148 cm \<and>
       length (steque_items qp) = nat (ctl_num_segments ctl) \<and>
       length (steque_items qc) = nat (ctl_num_segments ctl) \<and>
       (\<forall>j < nat (ctl_num_segments ctl). let a = steque_items qp ! j; b = steque_items qc ! j in
          seg_index a = seg_index b \<and> seg_ptr a = seg_ptr b \<and>
          mq_data_tx a = mq_data_rx b \<and> mq_data_rx a = mq_data_tx b))"
proof -
  note b = before_start_ok [OF assms]
  from schedule_system.run_good [OF start_system [OF b(1)] b(2), of sched] obtain s where
    s: "run_start can_open nodes sched (before_start ctl behind cm k) = Inr s"
      "start_ok (ctl_num_segments ctl) (ctrl_bytes ctl @ behind) cm s" by blast
  have len: "length (ctrl_bytes ctl) = 8"
    by (simp add: ctrl_bytes_def int_bytes_def)
  have cross: "seg_index (segment_of True i) = seg_index (segment_of False i)"
    "seg_ptr (segment_of True i) = seg_ptr (segment_of False i)"
    "mq_data_tx (segment_of True i) = mq_data_rx (segment_of False i)"
    "mq_data_rx (segment_of True i) = mq_data_tx (segment_of False i)" for i
    by (simp_all add: segment_of_def Let_def)
  show ?thesis
    using s(1) ready_pools [OF b(1) s(2)] by (intro exI [of _ s]) (auto simp: len rev_nth cross Let_def)
qed

text \<open>
  Further fact. The start ends: after eight turns of both programs they are ready.
\<close>

theorem startup_ends:
  assumes "int_range (ctl_segment_size ctl)" and "int_range (ctl_num_segments ctl)"
    and "\<forall>n. can_open n" and "140 \<le> length behind" and "148 \<le> length cm"
    and "ctl_num_segments ctl \<le> 10 ^ 9" and "ctl_num_segments ctl \<le> int nodes" and "0 < ctl_segment_size ctl"
    and "ipc_queues k proxy_cmq_tx = None" and "ipc_queues k proxy_cmq_rx = None"
  shows "\<exists>s qp qc. run_start can_open nodes (concat (replicate 8 [Proxy, Cache]))
      (before_start ctl behind cm k) = Inr s \<and> st_proxy s = PS_Ready qp \<and> st_cache s = CS_Ready qc"
proof -
  note b = before_start_ok [OF assms]
  from schedule_system.fair_ends [OF start_system [OF b(1)] b(2), of 8] b(3) show ?thesis
    unfolding both_ready_cases by auto
qed

definition no_queues :: "string ipc" where
  "no_queues = \<lparr>ipc_queues = Map.empty, ipc_shm = Map.empty\<rparr>"

theorem startup_agrees_witness:
  "\<exists>s. run_start (\<lambda>n. True) 10 [Cache, Proxy, Proxy, Cache]
      (before_start \<lparr>ctl_segment_size = 1024, ctl_num_segments = 3\<rparr> (replicate 140 NUL) (replicate 148 NUL) no_queues) =
      Inr s"
  using startup_agrees [of "\<lparr>ctl_segment_size = 1024, ctl_num_segments = 3\<rparr>" "\<lambda>n. True" "replicate 140 NUL"
      "replicate 148 NUL" 10 no_queues "[Cache, Proxy, Proxy, Cache]"]
  by (simp add: int_range_def no_queues_def) blast

text \<open>
  Further fact. The handshake reads and writes behind its variables: with fewer than 140 bytes of
  memory behind the proxy's control message its first message already reads out of bounds.
\<close>

theorem handshake_overrun:
  assumes "\<forall>n. can_open n" and "length behind < 140"
  shows "run_start can_open nodes [Proxy, Proxy] (before_start ctl behind cm k) = Inl Out_Of_Bounds"
  using assms
  by (auto simp: start_act_def webproxy_start_def before_start_def open_control_def create_message_queue_def
      tell_control_def on_msg_def mem_slice_def sizeof_thread_packet_148 ctrl_bytes_def int_bytes_def
      split: option.split)

text \<open>
  Further fact. Who stops second fails: after the signal handler of the proxy has removed the
  control queues, the daemon's cleaning exits at its first assertion; and a signal that reaches the
  proxy before its pool is made dereferences a null pointer.
\<close>

theorem stop_order:
  shows "sig_handler 2 (Some q) k = Inr (r, k2) \<Longrightarrow> ipc_queues k2 proxy_cmq_rx = None \<Longrightarrow>
      clean_control_mq cache_cmq_tx cache_cmq_rx k2 = Inl (Exit (-1))"
    and "sig_handler 2 None k = Inl Null_Deref"
  by (simp_all add: clean_control_mq_def sig_handler_def)

end
