(* ===== verification/Options.thy ===== *)
theory Options
  imports C_Prelude
begin

text \<open>
  The command line: \<open>getopt\<close> and \<open>getopt_long\<close> of the C library as the programs use them, as the
  list of all options that the calls return with their arguments. Words that are not options are
  skipped, as the library moves them to the end.
\<close>

section \<open>Short options\<close>

text \<open>The option string: a letter, followed by a colon if the option takes an argument.\<close>

fun short_of :: "string \<Rightarrow> char \<Rightarrow> bool option" where
  "short_of [] c = None"
| "short_of [a] c = (if c = a \<and> c \<noteq> CHR '':'' then Some False else None)"
| "short_of (a # b # os) c =
     (if b = CHR '':'' then (if c = a \<and> c \<noteq> CHR '':'' then Some True else short_of os c)
      else if c = a \<and> c \<noteq> CHR '':'' then Some False else short_of (b # os) c)"

text \<open>
  A word of option letters \<open>-abc\<close>: an option with an argument takes the rest of the word or the next
  word; an unknown letter and a missing argument give a question mark.
\<close>

fun cluster :: "string \<Rightarrow> string \<Rightarrow> string list \<Rightarrow> (char \<times> string) list \<times> string list" where
  "cluster os [] as = ([], as)"
| "cluster os (c # cs) as =
     (case short_of os c of
        None \<Rightarrow> (let (es, r) = cluster os cs as in ((CHR ''?'', []) # es, r))
      | Some False \<Rightarrow> (let (es, r) = cluster os cs as in ((c, []) # es, r))
      | Some True \<Rightarrow>
          if cs \<noteq> [] then ([(c, cs)], as)
          else case as of [] \<Rightarrow> ([(CHR ''?'', [])], []) | a # bs \<Rightarrow> ([(c, a)], bs))"

section \<open>Long options\<close>

text \<open>
  An entry of the table: the name, whether it takes an argument, and the letter it stands for. A name
  may be cut short as long as only one entry fits.
\<close>

type_synonym long_opt = "string \<times> bool \<times> char"

definition long_match :: "long_opt list \<Rightarrow> string \<Rightarrow> long_opt option" where
  "long_match tbl name =
     (case filter (\<lambda>(n, arg, v). n = name) tbl of
        e # es \<Rightarrow> Some e
      | [] \<Rightarrow>
          (case filter (\<lambda>(n, arg, v). take (length name) n = name) tbl of
             [e] \<Rightarrow> Some e
           | _ \<Rightarrow> None))"

definition long_option :: "long_opt list \<Rightarrow> string \<Rightarrow> string list \<Rightarrow> (char \<times> string) \<times> string list" where
  "long_option tbl s as =
     (let name = takeWhile (\<lambda>c. c \<noteq> CHR ''='') s; rest = drop (length name) s
      in case long_match tbl name of
           None \<Rightarrow> ((CHR ''?'', []), as)
         | Some (n, arg, v) \<Rightarrow>
             if \<not> arg then (if rest = [] then ((v, []), as) else ((CHR ''?'', []), as))
             else if rest \<noteq> [] then ((v, tl rest), as)
             else case as of [] \<Rightarrow> ((CHR ''?'', []), []) | a # bs \<Rightarrow> ((v, a), bs))"

section \<open>All options\<close>

lemma cluster_length: "cluster os cs as = (es, r) \<Longrightarrow> length r \<le> length as"
  by (induction os cs as arbitrary: es r rule: cluster.induct)
    (fastforce split: option.splits bool.splits if_splits list.splits prod.splits)+

lemma long_option_length: "long_option tbl s as = (e, r) \<Longrightarrow> length r \<le> length as"
  by (auto simp: long_option_def Let_def split: option.splits if_splits list.splits)

text \<open>Without a table of long options two dashes are letters of a word like others.\<close>

function getopts :: "string \<Rightarrow> long_opt list option \<Rightarrow> string list \<Rightarrow> (char \<times> string) list" where
  "getopts os tbl [] = []"
| "getopts os tbl (a # as) =
     (if a = ''--'' then []
      else if length a < 2 \<or> hd a \<noteq> CHR ''-'' then getopts os tbl as
      else if tbl \<noteq> None \<and> a ! 1 = CHR ''-'' then
        (case long_option (the tbl) (drop 2 a) as of (e, r) \<Rightarrow> e # getopts os tbl r)
      else (case cluster os (tl a) as of (es, r) \<Rightarrow> es @ getopts os tbl r))"
  by pat_completeness auto
termination
  by (relation "measure (\<lambda>(os, tbl, as). length as)")
    (auto dest!: cluster_length [OF sym] long_option_length [OF sym] simp: less_Suc_eq_le)

declare getopts.simps(2) [simp del]

text \<open>Which letters can come out.\<close>

lemma cluster_letters:
  "cluster os cs as = (es, r) \<Longrightarrow> e \<in> set es \<Longrightarrow> fst e = CHR ''?'' \<or> short_of os (fst e) \<noteq> None"
  by (induction os cs as arbitrary: es r rule: cluster.induct)
    (fastforce split: option.splits bool.splits if_splits list.splits prod.splits)+

lemma long_match_in: "long_match tbl name = Some e \<Longrightarrow> e \<in> set tbl"
  by (auto simp: long_match_def filter_eq_Cons_iff split: list.splits)

lemma long_option_letter:
  "long_option tbl s as = (e, r) \<Longrightarrow> fst e = CHR ''?'' \<or> fst e \<in> (\<lambda>(n, arg, v). v) ` set tbl"
  by (force simp: long_option_def Let_def split: option.splits if_splits list.splits dest!: long_match_in)

lemma getopts_letters:
  assumes "e \<in> set (getopts os tbl args)"
  shows "fst e = CHR ''?'' \<or> short_of os (fst e) \<noteq> None \<or>
    (\<exists>t. tbl = Some t \<and> fst e \<in> (\<lambda>(n, arg, v). v) ` set t)"
  using assms
proof (induction os tbl args rule: getopts.induct)
  case (2 os tbl a as)
  obtain e1 r1 where l: "long_option (the tbl) (drop 2 a) as = (e1, r1)" by fastforce
  obtain es r2 where c: "cluster os (tl a) as = (es, r2)" by fastforce
  have "fst e = CHR ''?'' \<or> fst e \<in> (\<lambda>(n, arg, v). v) ` set (the tbl)" if "e = e1"
    using long_option_letter [OF l] that by simp
  moreover have "fst e = CHR ''?'' \<or> short_of os (fst e) \<noteq> None" if "e \<in> set es"
    using cluster_letters [OF c that] .
  ultimately show ?case
    using 2 l c by (auto simp: getopts.simps(2) [of os tbl] split: if_splits)
qed simp

end
