(* ===== verification/Server_Main.thy ===== *)
theory Server_Main
  imports Options Getfile_Transfer Mtgf_Handler
begin

text \<open>
  The programs around the two server libraries: \<open>project1/ud923-project1-gflib/gfserver_main.c\<close> and
  \<open>project1/ud923-project1-mtgf/gfserver_main.c\<close>, from the command line to the clients that are served.
\<close>

section \<open>Options\<close>

record server_opts =
  so_port :: "16 word"
  so_content :: string
  so_threads :: int

definition server_defaults :: server_opts where
  "server_defaults = \<lparr>so_port = 8888, so_content = ''content.txt'', so_threads = 1\<rparr>"

text \<open>Both programs give \<open>getopt\<close> the same string of options, without \<open>c\<close>.\<close>

definition server_optstring :: string where
  "server_optstring = ''p:t:s:h''"

primrec gflib_server_opts :: "(char \<times> string) list \<Rightarrow> server_opts \<Rightarrow> server_opts result" where
  "gflib_server_opts [] opts = Inr opts"
| "gflib_server_opts (e # es) opts =
     (let c = fst e; optarg = snd e
      in if c = CHR ''p'' then gflib_server_opts es (opts\<lparr>so_port := word_of_int (atoi optarg)\<rparr>)
         else if c = CHR ''c'' then gflib_server_opts es (opts\<lparr>so_content := optarg\<rparr>)
         else if c = CHR ''h'' then Inl (Exit 0)
         else Inl (Exit 1))"

primrec mtgf_server_opts :: "(char \<times> string) list \<Rightarrow> server_opts \<Rightarrow> server_opts result" where
  "mtgf_server_opts [] opts = Inr opts"
| "mtgf_server_opts (e # es) opts =
     (let c = fst e; optarg = snd e
      in if c = CHR ''p'' then mtgf_server_opts es (opts\<lparr>so_port := word_of_int (atoi optarg)\<rparr>)
         else if c = CHR ''t'' then
           mtgf_server_opts es (opts\<lparr>so_threads := (if atoi optarg < 1 then 1 else atoi optarg)\<rparr>)
         else if c = CHR ''c'' then mtgf_server_opts es (opts\<lparr>so_content := optarg\<rparr>)
         else if c = CHR ''h'' then Inl (Exit 0)
         else Inl (Exit 1))"

section \<open>The programs\<close>

text \<open>
  \<open>files\<close> gives the content files by name, \<open>open_fd\<close> the descriptors of the files they name, \<open>cs\<close> the
  connections that come in; the handler's argument is null.
\<close>

definition gfserver_main ::
  "(string \<Rightarrow> string option) \<Rightarrow> (string \<Rightarrow> int) \<Rightarrow> listen_env \<Rightarrow> string list \<Rightarrow> conn list \<Rightarrow> file_env \<Rightarrow>
     ((unit, item_t list \<times> file_env) gfserver \<times> conn list \<times> bool \<times> item_t list \<times> file_env) result" where
  "gfserver_main files open_fd env args cs f =
     bind_res (gflib_server_opts (getopts server_optstring None args) server_defaults) (\<lambda>opts.
     bind_res (content_init open_fd (files (so_content opts))) (\<lambda>items.
     let gfs = gfserver_set_handlerarg (gfserver_set_handler (gfserver_set_maxpending
                 (gfserver_set_port (gfserver_create ()) (so_port opts)) 100) handler_get) ()
     in bind_res (gfserver_serve env gfs cs (items, f)) (\<lambda>r. Inr (gfs, r))))"

text \<open>The other program starts the workers first; its library calls \<open>handler_get\<close> for the requests.\<close>

definition mtgf_gfserver_main ::
  "'c gfs_calls \<Rightarrow> nat \<Rightarrow> (string \<Rightarrow> string option) \<Rightarrow> (string \<Rightarrow> int) \<Rightarrow> string list \<Rightarrow>
   ('c \<times> string option) list \<Rightarrow> owner list \<Rightarrow> file_env \<Rightarrow> 'c srv_pool result" where
  "mtgf_gfserver_main api nodes files open_fd args reqs sched f =
     bind_res (mtgf_server_opts (getopts server_optstring None args) server_defaults) (\<lambda>opts.
     bind_res (content_init open_fd (files (so_content opts))) (\<lambda>items.
     srv_run api sched (handler_init (nat (so_threads opts)) nodes (items, f) reqs)))"

section \<open>Serving a list of clients\<close>

definition asks_for :: "(string \<rightharpoonup> string) \<Rightarrow> string \<times> input \<Rightarrow> bool" where
  "asks_for file r \<longleftrightarrow> fst r \<noteq> [] \<and> SP \<notin> set (fst r) \<and> NUL \<notin> set (fst r) \<and> length (fst r) \<le> 265 \<and>
     stalled (snd r) \<and> (\<exists>D. file (fst r) = Some D \<and> length D < 2 ^ 31)"

definition client_conn :: "string \<times> input \<Rightarrow> conn" where
  "client_conn r = new_conn (Chunk (request_line (fst r)) # snd r) []"

definition file_response :: "(string \<rightharpoonup> string) \<Rightarrow> string \<times> input \<Rightarrow> string" where
  "file_response file r = header_line ''OK'' (length (the (file (fst r)))) @ the (file (fst r))"

lemma serve_all:
  assumes "gfs_handler s = Some handler_get" and "table_ok items"
    and "distinct (List.map fst (table_entries items))" and "disk_ok f"
    and "file = (\<lambda>p. map_option (fdata f) (map_of (table_entries items) p))"
    and "\<forall>r \<in> set reqs. asks_for file r"
  shows "\<exists>ds f'. serve_loop s False (List.map client_conn reqs) (items, f) = Inr (ds, False, items, f') \<and>
    List.map tx ds = List.map (file_response file) reqs"
  using assms(4-6)
proof (induction reqs arbitrary: f)
  case (Cons r reqs)
  from Cons.prems(2,3) obtain fd where
    r: "fst r \<noteq> []" "SP \<notin> set (fst r)" "NUL \<notin> set (fst r)" "length (fst r) \<le> 265" "stalled (snd r)"
      "map_of (table_entries items) (fst r) = Some fd" "length (fdata f fd) < 2 ^ 31"
    by (auto simp: asks_for_def)
  from serve_file [OF assms(1) r(5,1-4) assms(2,3) r(6) Cons.prems(1) r(7)] obtain x f1 where
    x: "serve_one s False (client_conn r) (items, f) = Inr (x, items, f1)"
      "tx (ctx_conn x) = file_response file r" "fdata f1 = fdata f" "disk_ok f1" "\<not> ctx_listener_shut x"
    using Cons.prems(2) r(6) by (auto simp: client_conn_def file_response_def)
  have "file = (\<lambda>p. map_option (fdata f1) (map_of (table_entries items) p))" using Cons.prems(2) x(3) by simp
  from Cons.IH [OF x(4) this] Cons.prems(3) obtain ds f' where
    "serve_loop s False (List.map client_conn reqs) (items, f1) = Inr (ds, False, items, f')"
    "List.map tx ds = List.map (file_response file) reqs" by auto
  with x show ?case by auto
qed simp

text \<open>An option that the string does not name is never seen, so it never takes effect.\<close>

lemma no_c_option: "e \<in> set (getopts server_optstring None args) \<Longrightarrow> fst e \<noteq> CHR ''c''"
  using getopts_letters [of e server_optstring None args] by (auto simp: server_optstring_def)

lemma gflib_keeps_content:
  "\<forall>e \<in> set es. fst e \<noteq> CHR ''c'' \<Longrightarrow> gflib_server_opts es opts = Inr opts' \<Longrightarrow>
    so_content opts' = so_content opts"
  by (induction es arbitrary: opts) (auto simp: Let_def split: if_splits)

lemma mtgf_keeps_content:
  "\<forall>e \<in> set es. fst e \<noteq> CHR ''c'' \<Longrightarrow> mtgf_server_opts es opts = Inr opts' \<Longrightarrow>
    so_content opts' = so_content opts"
  by (induction es arbitrary: opts) (auto simp: Let_def split: if_splits)

section \<open>Properties\<close>

text \<open>
  Property C6. The server program works as a whole: started with any command line it accepts and a
  content file, it listens on the port of its options with 100 pending connections and gives each of
  any number of clients in turn the header and the bytes of the file its content file names for the
  path the client asks for.
\<close>

theorem gfserver_main_serves:
  assumes "gflib_server_opts (getopts server_optstring None args) server_defaults = Inr opts"
    and "files (so_content opts) = Some (concat (List.map file_line es))"
    and "\<forall>e \<in> set es. entry_ok open_fd e" and "length es < 2 ^ 29" and "distinct (List.map fst es)"
    and "le_socket env" and "le_bind env" and "le_listen env" and "disk_ok f"
    and "file = (\<lambda>p. map_option (\<lambda>n. fdata f (open_fd n)) (map_of es p))"
    and "\<forall>r \<in> set reqs. asks_for file r"
  shows "\<exists>gfs ds e. gfserver_main files open_fd env args (List.map client_conn reqs) f = Inr (gfs, ds, False, e) \<and>
    gfs_port gfs = so_port opts \<and> gfs_max_npending gfs = 100 \<and>
    List.map tx ds = List.map (file_response file) reqs"
proof -
  from content_loaded [OF assms(3-5)] obtain items where
    t: "content_init open_fd (Some (concat (List.map file_line es))) = Inr items" "table_ok items"
      "distinct (List.map fst (table_entries items))"
      "\<forall>k. map_of (table_entries items) k = map_option open_fd (map_of es k)" by (elim exE conjE) (rule that)
  define gfs :: "(unit, item_t list \<times> file_env) gfserver" where
    "gfs = gfserver_set_handlerarg (gfserver_set_handler (gfserver_set_maxpending
       (gfserver_set_port (gfserver_create ()) (so_port opts)) 100) handler_get) ()"
  have g: "gfs_handler gfs = Some handler_get" "gfs_port gfs = so_port opts" "gfs_max_npending gfs = 100"
    "gfs_status gfs = S_GF_OK"
    by (simp_all add: gfs_def gfserver_set_handlerarg_def gfserver_set_handler_def gfserver_set_maxpending_def
        gfserver_set_port_def gfserver_create_def)
  have "file = (\<lambda>p. map_option (fdata f) (map_of (table_entries items) p))"
    using t(4) by (simp add: assms(10) option.map_comp comp_def)
  from serve_all [OF g(1) t(2,3) assms(9) this assms(11)] obtain ds f' where
    s: "serve_loop gfs False (List.map client_conn reqs) (items, f) = Inr (ds, False, items, f')"
      "List.map tx ds = List.map (file_response file) reqs" by blast
  have "gfserver_serve env gfs (List.map client_conn reqs) (items, f) = Inr (ds, False, items, f')"
    using s(1) assms(6-8) g(4)
    by (simp add: gfserver_serve_def initialize_socket_def S_GF_OK_def S_GF_ERROR_def)
  with assms(1,2) t(1) g(2,3) s(2) show ?thesis
    by (auto simp: gfserver_main_def gfs_def)
qed

definition all_ok :: listen_env where
  "all_ok = \<lparr>le_socket = True, le_bind = True, le_listen = True\<rparr>"

theorem gfserver_main_serves_witness:
  "\<exists>gfs ds e. gfserver_main (\<lambda>n. Some (concat (List.map file_line sample_files))) sample_open all_ok [''-p'', dec_of_nat 9000]
      (List.map client_conn [(''/a'', [Sock_error]), (''/b'', [])]) sample_env = Inr (gfs, ds, False, e) \<and>
    gfs_port gfs = 9000 \<and>
    List.map tx ds = [header_line ''OK'' (length ''contents'') @ ''contents'', header_line ''OK'' 0]"
proof -
  have o: "gflib_server_opts (getopts server_optstring None [''-p'', dec_of_nat 9000]) server_defaults =
      Inr (server_defaults\<lparr>so_port := 9000\<rparr>)"
    using atoi_dec [of 9000 "[]"]
    by (simp add: getopts.simps(2) server_optstring_def server_defaults_def)
  let ?reqs = "[(''/a'', [Sock_error]), (''/b'', [])] :: (string \<times> input) list"
  let ?file = "\<lambda>p. map_option (\<lambda>n. fdata sample_env (sample_open n)) (map_of sample_files p)"
  have asks: "\<forall>r \<in> set ?reqs. asks_for ?file r"
    by (simp add: asks_for_def sample_files_def)
      (simp add: sample_open_def sample_env_def)
  have "distinct (List.map fst sample_files)" "length sample_files < 2 ^ 29"
    by (simp_all add: sample_files_def)
  from gfserver_main_serves [where files = "\<lambda>n. Some (concat (List.map file_line sample_files))" and env = all_ok,
      OF o refl sample_files_ok this(2,1) _ _ _ sample_env_facts(2) refl asks]
  obtain gfs ds e where
    g: "gfserver_main (\<lambda>n. Some (concat (List.map file_line sample_files))) sample_open all_ok [''-p'', dec_of_nat 9000]
      (List.map client_conn ?reqs) sample_env = Inr (gfs, ds, False, e)" "gfs_port gfs = 9000"
    "List.map tx ds = List.map (file_response ?file) ?reqs"
    by (auto simp: all_ok_def)
  have "List.map (file_response ?file) ?reqs = [header_line ''OK'' (length ''contents'') @ ''contents'', header_line ''OK'' 0]"
    by (simp add: file_response_def sample_files_def) (simp add: sample_open_def sample_env_def)
  with g show ?thesis by metis
qed

text \<open>
  Further fact. The option \<open>-c\<close> that the usage text of both server programs offers does not exist: it is
  missing from the string given to \<open>getopt\<close>, so every command line that does not end the program leaves
  the content file at \<open>content.txt\<close>, and one with \<open>-c\<close> ends it.
\<close>

theorem server_content_fixed:
  shows "(\<forall>opts. gflib_server_opts (getopts server_optstring None args) server_defaults = Inr opts \<longrightarrow>
      so_content opts = ''content.txt'') \<and>
    (\<forall>opts. mtgf_server_opts (getopts server_optstring None args) server_defaults = Inr opts \<longrightarrow>
      so_content opts = ''content.txt'' \<and> 1 \<le> so_threads opts) \<and>
    gflib_server_opts (getopts server_optstring None (''-c'' # name # args)) server_defaults = Inl (Exit 1) \<and>
    mtgf_server_opts (getopts server_optstring None (''-c'' # name # args)) server_defaults = Inl (Exit 1)"
proof -
  have threads: "1 \<le> so_threads opts'" if "mtgf_server_opts es opts = Inr opts'" "1 \<le> so_threads opts" for es opts opts'
    using that by (induction es arbitrary: opts) (auto simp: Let_def split: if_splits)
  have c: "getopts server_optstring None (''-c'' # name # args) =
      (CHR ''?'', []) # getopts server_optstring None (name # args)"
    by (simp add: getopts.simps(2) [of _ _ "''-c''"] server_optstring_def)
  have "so_content server_defaults = ''content.txt''" "1 \<le> so_threads server_defaults"
    by (simp_all add: server_defaults_def)
  note d = this
  have no_c: "\<forall>e \<in> set (getopts server_optstring None args). fst e \<noteq> CHR ''c''"
    using no_c_option by blast
  have "so_content opts = ''content.txt''"
    if "gflib_server_opts (getopts server_optstring None args) server_defaults = Inr opts" for opts
    using gflib_keeps_content [OF no_c that] d(1) by simp
  moreover have "so_content opts = ''content.txt'' \<and> 1 \<le> so_threads opts"
    if "mtgf_server_opts (getopts server_optstring None args) server_defaults = Inr opts" for opts
    using mtgf_keeps_content [OF no_c that] threads [OF that d(2)] d(1) by simp
  moreover have "gflib_server_opts (getopts server_optstring None (''-c'' # name # args)) server_defaults = Inl (Exit 1)"
    "mtgf_server_opts (getopts server_optstring None (''-c'' # name # args)) server_defaults = Inl (Exit 1)"
    unfolding c by simp_all
  ultimately show ?thesis by blast
qed

theorem server_content_fixed_witness:
  "mtgf_server_opts (getopts server_optstring None [''-c'', ''x'']) server_defaults = Inl (Exit 1)"
  using server_content_fixed [of "[]" "''x''"] by simp

end
