(* ===== verification/Client_Main.thy ===== *)
theory Client_Main
  imports Options Mtgf_Download Minify Proxy_Start
begin

text \<open>
  The command lines of the other programs: the two download clients
  (\<open>project1/*/gfclient_download.c\<close>), the image client (\<open>project4/minifyjpeg_main.c\<close>), the proxy
  (\<open>project3/webproxy.c\<close>) and the cache daemon (\<open>project3/simplecached.c\<close>), and the programs from there.
\<close>

definition int_mul :: "int \<Rightarrow> int \<Rightarrow> int result" where
  "int_mul a b = (if - int_max - 1 \<le> a * b \<and> a * b \<le> int_max then Inr (a * b) else Inl Signed_Overflow)"

section \<open>The download clients\<close>

record client_opts =
  co_server :: string
  co_port :: "16 word"
  co_workload :: string
  co_nrequests :: int
  co_nthreads :: int

definition client_defaults :: client_opts where
  "client_defaults =
     \<lparr>co_server = ''localhost'', co_port = 8888, co_workload = ''workload.txt'', co_nrequests = 1, co_nthreads = 1\<rparr>"

definition client_long :: "long_opt list" where
  "client_long =
     [(''server'', True, CHR ''s''), (''port'', True, CHR ''p''), (''workload-path'', True, CHR ''w''),
      (''nthreads'', True, CHR ''t''), (''nrequests'', True, CHR ''n''), (''help'', False, CHR ''h'')]"

primrec gflib_client_opts :: "(char \<times> string) list \<Rightarrow> client_opts \<Rightarrow> client_opts result" where
  "gflib_client_opts [] opts = Inr opts"
| "gflib_client_opts (e # es) opts =
     (let c = fst e; optarg = snd e
      in if c = CHR ''s'' then gflib_client_opts es (opts\<lparr>co_server := optarg\<rparr>)
         else if c = CHR ''p'' then gflib_client_opts es (opts\<lparr>co_port := word_of_int (atoi optarg)\<rparr>)
         else if c = CHR ''w'' then gflib_client_opts es (opts\<lparr>co_workload := optarg\<rparr>)
         else if c = CHR ''n'' then gflib_client_opts es (opts\<lparr>co_nrequests := atoi optarg\<rparr>)
         else if c = CHR ''t'' then
           (if atoi optarg \<noteq> 1 then Inl (Exit 0)
            else gflib_client_opts es (opts\<lparr>co_nthreads := atoi optarg\<rparr>))
         else if c = CHR ''h'' then Inl (Exit 0)
         else Inl (Exit 1))"

primrec mtgf_client_opts :: "(char \<times> string) list \<Rightarrow> client_opts \<Rightarrow> client_opts result" where
  "mtgf_client_opts [] opts = Inr opts"
| "mtgf_client_opts (e # es) opts =
     (let c = fst e; optarg = snd e
      in if c = CHR ''s'' then mtgf_client_opts es (opts\<lparr>co_server := optarg\<rparr>)
         else if c = CHR ''p'' then mtgf_client_opts es (opts\<lparr>co_port := word_of_int (atoi optarg)\<rparr>)
         else if c = CHR ''w'' then mtgf_client_opts es (opts\<lparr>co_workload := optarg\<rparr>)
         else if c = CHR ''n'' then mtgf_client_opts es (opts\<lparr>co_nrequests := atoi optarg\<rparr>)
         else if c = CHR ''t'' then
           mtgf_client_opts es (opts\<lparr>co_nthreads := (if atoi optarg < 1 then 1 else atoi optarg)\<rparr>)
         else if c = CHR ''h'' then Inl (Exit 0)
         else Inl (Exit 1))"

definition client_args :: "string list \<Rightarrow> (char \<times> string) list" where
  "client_args = getopts ''s:p:w:n:t:h'' (Some client_long)"

text \<open>\<open>files\<close> gives the workload files by name, \<open>nets i\<close> what the network does for request \<open>i\<close>.\<close>

definition gflib_download_main ::
  "(string \<Rightarrow> bool) \<Rightarrow> (string \<Rightarrow> bool) \<Rightarrow> ('h, string) gfcrequest \<Rightarrow> (nat \<Rightarrow> net_env) \<Rightarrow>
   (string \<Rightarrow> string option) \<Rightarrow> string list \<Rightarrow> dl_state \<Rightarrow> (workload \<times> dl_state) result" where
  "gflib_download_main mk op mem nets files args st =
     bind_res (gflib_client_opts (client_args args) client_defaults) (\<lambda>opts.
     bind_res (workload_init (dl_heap st) workload_start (files (co_workload opts))) (\<lambda>(r, h, w).
       if r \<noteq> 0 then Inl (Exit 1)
       else bind_res (int_mul (co_nrequests opts) (co_nthreads opts)) (\<lambda>n.
            download_loop mk op (Static (co_server opts)) (co_port opts) mem (List.map nets [0 ..< nat n])
              w (st\<lparr>dl_heap := h\<rparr>))))"

definition mtgf_download_main ::
  "(string \<Rightarrow> bool) \<Rightarrow> (string \<Rightarrow> bool) \<Rightarrow>
   (string \<Rightarrow> 16 word \<Rightarrow> nat \<Rightarrow> string \<Rightarrow> int \<times> gfstatus_t \<times> string) \<Rightarrow>
   (nat \<Rightarrow> string \<Rightarrow> gfc_report result) \<Rightarrow> nat \<Rightarrow>
   (string \<Rightarrow> string option) \<Rightarrow> string list \<Rightarrow> owner list \<Rightarrow> mt_env \<Rightarrow>
   (string, dl_stage, mt_env) pool result" where
  "mtgf_download_main mk op fetch after nodes files args sched e =
     bind_res (mtgf_client_opts (client_args args) client_defaults) (\<lambda>opts.
     bind_res (workload_init no_strings workload_start (files (co_workload opts))) (\<lambda>(r, h, w).
       if r \<noteq> 0 then Inl (Exit 1)
       else bind_res (int_mul (co_nrequests opts) (co_nthreads opts)) (\<lambda>n.
            mt_main mk op (fetch (co_server opts) (co_port opts)) after nodes (files (co_workload opts))
              (nat (co_nthreads opts)) (nat (co_nrequests opts)) sched e)))"

section \<open>The image client\<close>

record image_opts =
  io_server :: string
  io_workload :: string
  io_nthreads :: int

definition image_long :: "long_opt list" where
  "image_long =
     [(''server'', True, CHR ''s''), (''workload'', True, CHR ''w''), (''nthreads'', True, CHR ''t''),
      (''help'', False, CHR ''h'')]"

primrec minify_opts :: "(char \<times> string) list \<Rightarrow> image_opts \<Rightarrow> image_opts result" where
  "minify_opts [] opts = Inr opts"
| "minify_opts (e # es) opts =
     (let c = fst e; optarg = snd e
      in if c = CHR ''s'' then minify_opts es (opts\<lparr>io_server := optarg\<rparr>)
         else if c = CHR ''w'' then minify_opts es (opts\<lparr>io_workload := optarg\<rparr>)
         else if c = CHR ''t'' then minify_opts es (opts\<lparr>io_nthreads := atoi optarg\<rparr>)
         else if c = CHR ''h'' then Inl (Exit 0)
         else Inl (Exit 1))"

definition image_client_main ::
  "(string \<Rightarrow> string \<Rightarrow> string option) \<Rightarrow> (string \<Rightarrow> bool) \<Rightarrow> (string \<Rightarrow> bool) \<Rightarrow> string \<Rightarrow> nat \<Rightarrow>
   string list \<Rightarrow> owner list \<Rightarrow> files \<Rightarrow> (string \<times> string, string option, files) pool result" where
  "image_client_main rpc created writable mem nodes args sched fs =
     bind_res (minify_opts (getopts ''s:w:t:h'' (Some image_long) args)
         \<lparr>io_server = ''localhost'', io_workload = ''workload.txt'', io_nthreads = 1\<rparr>) (\<lambda>opts.
     minify_main (rpc (io_server opts)) writable mem nodes (fs (io_workload opts)) (created (io_server opts))
       (nat (io_nthreads opts)) sched fs)"

section \<open>Proxy and daemon\<close>

record proxy_opts =
  po_segments :: int
  po_size :: int
  po_port :: "16 word"
  po_threads :: "16 word"
  po_server :: string

definition proxy_defaults :: proxy_opts where
  "proxy_defaults =
     \<lparr>po_segments = 10, po_size = 1024, po_port = 8888, po_threads = 1,
      po_server = ''s3.amazonaws.com/content.udacity-data.com''\<rparr>"

definition proxy_long :: "long_opt list" where
  "proxy_long =
     [(''nsegments'', True, CHR ''n''), (''segsize'', True, CHR ''z''), (''port'', True, CHR ''p''),
      (''thread-count'', True, CHR ''t''), (''server'', True, CHR ''s''), (''help'', False, CHR ''h'')]"

primrec webproxy_opts :: "(char \<times> string) list \<Rightarrow> proxy_opts \<Rightarrow> proxy_opts result" where
  "webproxy_opts [] opts = Inr opts"
| "webproxy_opts (e # es) opts =
     (let c = fst e; optarg = snd e
      in if c = CHR ''n'' then webproxy_opts es (opts\<lparr>po_segments := atoi optarg\<rparr>)
         else if c = CHR ''z'' then webproxy_opts es (opts\<lparr>po_size := atoi optarg\<rparr>)
         else if c = CHR ''p'' then webproxy_opts es (opts\<lparr>po_port := word_of_int (atoi optarg)\<rparr>)
         else if c = CHR ''t'' then webproxy_opts es (opts\<lparr>po_threads := word_of_int (atoi optarg)\<rparr>)
         else if c = CHR ''s'' then webproxy_opts es (opts\<lparr>po_server := optarg\<rparr>)
         else if c = CHR ''h'' then Inl (Exit 0)
         else Inl (Exit 1))"

record daemon_opts =
  do_threads :: int
  do_cachedir :: string

definition daemon_long :: "long_opt list" where
  "daemon_long =
     [(''nthreads'', True, CHR ''t''), (''cachedir'', True, CHR ''c''), (''help'', False, CHR ''h'')]"

primrec simplecached_opts :: "(char \<times> string) list \<Rightarrow> daemon_opts \<Rightarrow> daemon_opts result" where
  "simplecached_opts [] opts = Inr opts"
| "simplecached_opts (e # es) opts =
     (let c = fst e; optarg = snd e
      in if c = CHR ''t'' then simplecached_opts es (opts\<lparr>do_threads := atoi optarg\<rparr>)
         else if c = CHR ''c'' then simplecached_opts es (opts\<lparr>do_cachedir := optarg\<rparr>)
         else if c = CHR ''h'' then Inl (Exit 0)
         else Inl (Exit 1))"

section \<open>All downloads of a run\<close>

text \<open>
  What a server that works sends: the header and the file, the header within the first read and the
  rest cut in any way; or \<open>FILE_NOT_FOUND\<close>.
\<close>

definition serves :: "net_env \<Rightarrow> string \<Rightarrow> string option \<Rightarrow> bool" where
  "serves net host file \<longleftrightarrow> reachable net host \<and>
     (case file of
        None \<Rightarrow> \<exists>rest es. rx (connection net) = Chunk (''GETFILE'' @ SP # ''FILE_NOT_FOUND'' @ SP # rest) # es \<and>
          length (''GETFILE'' @ SP # ''FILE_NOT_FOUND'' @ SP # rest) \<le> RDBUFSIZE
      | Some D \<Rightarrow> D \<noteq> [] \<and> length D < 2 ^ 31 \<and>
          (\<exists>c0 es. rx (connection net) = Chunk (ok_header (length D) 0 @ c0) # es \<and>
             length (ok_header (length D) 0 @ c0) \<le> RDBUFSIZE \<and> c0 @ pending es = D))"

definition local_name :: "string \<Rightarrow> int \<Rightarrow> string" where
  "local_name req counter = tl req @ ''-'' @ pad6 counter"

lemma local_name_distinct:
  assumes "0 \<le> c1" and "0 \<le> c2" and "c1 \<noteq> c2"
  shows "local_name r1 c1 \<noteq> local_name r2 c2"
proof
  assume "local_name r1 c1 = local_name r2 c2"
  then have "tl r1 @ CHR ''-'' # pad6 c1 = tl r2 @ CHR ''-'' # pad6 c2" by (simp add: local_name_def)
  then have "pad6 c1 = pad6 c2" by (rule suffix_digits_eq) (auto dest: pad6_digits)
  with pad6_inj assms show False by blast
qed

lemma download_served:
  fixes mem :: "('h, string) gfcrequest"
  assumes "heap_ok (dl_heap st)" and "deref (dl_heap st) p = Inr s" and "path_word s" and "0 \<le> dl_counter st"
    and "dl_counter st < int_max" and "\<forall>d. mk d" and "\<forall>d. op d" and "serves net host answer"
  shows "\<exists>st'. download_request mk op (Static host) pt mem net p st = Inr st' \<and>
    heap_grows (dl_heap st) (dl_heap st') \<and> dl_counter st' = dl_counter st + 1 \<and>
    dl_files st' = (dl_files st)(local_name s (dl_counter st) := answer)"
proof -
  have s: "NUL \<notin> set s" "s \<noteq> []" "length s \<le> 256" using assms(3) by (auto simp: path_word_def)
  have r: "reachable net host" using assms(8) by (simp add: serves_def)
  from download_request_run [OF assms(1,2) s assms(4,5) r(1), of op mk pt mem] assms(6,7)
  obtain g :: "('h, string) gfcrequest" and h1 where
    g: "gfc_fresh g writecb" "rx (sock g) = rx (connection net)" "write_arg g = []" "heap_grows (dl_heap st) h1" and
    run: "download_request mk op (Static host) pt mem net p st =
      bind_res (process_response g) (\<lambda>(r, g').
        Inr \<lparr>dl_heap = h1,
             dl_files = (dl_files st)(tl s @ ''-'' @ pad6 (dl_counter st) :=
               (if r < 0 \<or> gfc_get_status g' \<noteq> GF_OK then None else Some (write_arg g'))),
             dl_mkdirs = dl_mkdirs st @ List.map (\<lambda>j. take j (tl s @ ''-'' @ pad6 (dl_counter st)))
               (slashes (tl s @ ''-'' @ pad6 (dl_counter st)) 1),
             dl_counter = dl_counter st + 1\<rparr>)" by blast
  have "\<exists>r g'. process_response g = Inr (r, g') \<and>
    (if r < 0 \<or> gfc_get_status g' \<noteq> GF_OK then None else Some (write_arg g')) = answer"
  proof (cases answer)
    case None
    with assms(8) obtain rest es where
      e: "rx (connection net) = Chunk (''GETFILE'' @ SP # ''FILE_NOT_FOUND'' @ SP # rest) # es"
        "length (''GETFILE'' @ SP # ''FILE_NOT_FOUND'' @ SP # rest) \<le> RDBUFSIZE" by (auto simp: serves_def)
    from status_response [OF g(1) _ e(2), of es GF_FILE_NOT_FOUND] g(2) e(1) obtain g' where
      "process_response g = Inr (0, g')" "status g' = GF_FILE_NOT_FOUND" by auto
    with None show ?thesis by (intro exI [of _ 0] exI [of _ g']) (simp add: gfc_get_status_def)
  next
    case (Some D)
    with assms(8) obtain c0 es where d: "D \<noteq> []" "length D < 2 ^ 31"
      "rx (connection net) = Chunk (ok_header (length D) 0 @ c0) # es"
      "length (ok_header (length D) 0 @ c0) \<le> RDBUFSIZE" "c0 @ pending es = D" by (auto simp: serves_def)
    have "length (dec_of_nat (length D)) \<le> 10" using length_dec_of_nat [of "length D" 9] d(2) by simp
    then have hb: "length (ok_header (length D) 0) < RDBUFSIZE" by (simp add: ok_header_def RDBUFSIZE_def)
    have "length c0 + length (pending es) = length D" using arg_cong [OF d(5), of length] by simp
    with ok_response [OF g(1) _ _ hb, of c0 es] g(2) d obtain g' chunks where
      "process_response g = Inr (0, g')" "status g' = GF_OK" "concat chunks = D"
      "write_arg g' = fold writecb chunks (write_arg g)" by auto
    with g(3) Some show ?thesis by (simp add: fold_writecb gfc_get_status_def)
  qed
  with run g(4) show ?thesis by (auto simp: local_name_def)
qed

lemma download_loop_files:
  fixes mem :: "('h, string) gfcrequest"
  assumes "heap_ok (dl_heap st)" and "get_paths (length jobs) w = Inr (ps, w')"
    and "List.map (deref (dl_heap st)) ps = List.map (Inr \<circ> fst) jobs" and "\<forall>j \<in> set jobs. path_word (fst j)"
    and "0 \<le> dl_counter st" and "dl_counter st + int (length jobs) \<le> int_max"
    and "\<forall>d. mk d" and "\<forall>d. op d" and "list_all2 (\<lambda>net j. serves net host (snd j)) nets jobs"
  shows "\<exists>st'. download_loop mk op (Static host) pt mem nets w st = Inr (w', st') \<and>
    (\<forall>i < length jobs. dl_files st' (local_name (fst (jobs ! i)) (dl_counter st + int i)) = snd (jobs ! i)) \<and>
    (\<forall>nm. (\<forall>i < length jobs. nm \<noteq> local_name (fst (jobs ! i)) (dl_counter st + int i)) \<longrightarrow>
       dl_files st' nm = dl_files st nm)"
  using assms
proof (induction jobs arbitrary: nets w ps st)
  case Nil
  then show ?case by simp
next
  case (Cons j jobs)
  from Cons.prems(9) obtain net nets' where nets: "nets = net # nets'" "serves net host (snd j)"
    "list_all2 (\<lambda>net j. serves net host (snd j)) nets' jobs" by (auto simp: list_all2_Cons2)
  from Cons.prems(2) obtain p w1 ps1 where p: "workload_get_path 0 w = Inr (p, w1)"
    "get_paths (length jobs) w1 = Inr (ps1, w')" "ps = p # ps1" by (auto simp: bind_res_eq_Inr)
  have d: "deref (dl_heap st) p = Inr (fst j)" "List.map (deref (dl_heap st)) ps1 = List.map (Inr \<circ> fst) jobs"
    using Cons.prems(3) p(3) by simp_all
  have cnt: "dl_counter st < int_max" using Cons.prems(6) by simp
  from download_served [OF Cons.prems(1) d(1) _ Cons.prems(5) cnt Cons.prems(7,8) nets(2), of pt mem] Cons.prems(4)
  obtain st1 where
    st1: "download_request mk op (Static host) pt mem net p st = Inr st1" "heap_grows (dl_heap st) (dl_heap st1)"
      "dl_counter st1 = dl_counter st + 1" "dl_files st1 = (dl_files st)(local_name (fst j) (dl_counter st) := snd j)"
    by auto
  have "List.map (deref (dl_heap st1)) ps1 = List.map (Inr \<circ> fst) jobs"
    using d(2) heap_grows_deref [OF st1(2) Cons.prems(1)]
    by (simp add: list_eq_iff_nth_eq)
  note dd = this
  have hk: "heap_ok (dl_heap st1)" using st1(2) by (simp add: heap_grows_def)
  have pw: "\<forall>j \<in> set jobs. path_word (fst j)" and c0: "0 \<le> dl_counter st1"
    and c1: "dl_counter st1 + int (length jobs) \<le> int_max"
    using Cons.prems(4-6) st1(3) by simp_all
  from Cons.IH [OF hk p(2) dd pw c0 c1 Cons.prems(7,8) nets(3)] obtain st' where
    ih: "download_loop mk op (Static host) pt mem nets' w1 st1 = Inr (w', st')"
      "\<forall>i < length jobs. dl_files st' (local_name (fst (jobs ! i)) (dl_counter st1 + int i)) = snd (jobs ! i)"
      "\<forall>nm. (\<forall>i < length jobs. nm \<noteq> local_name (fst (jobs ! i)) (dl_counter st1 + int i)) \<longrightarrow>
         dl_files st' nm = dl_files st1 nm"
    by (elim exE conjE) (rule that)
  have first: "dl_files st' (local_name (fst j) (dl_counter st)) = snd j"
  proof -
    have "local_name (fst j) (dl_counter st) \<noteq> local_name (fst (jobs ! i)) (dl_counter st1 + int i)" for i
      using Cons.prems(5) st1(3) by (intro local_name_distinct) auto
    with ih(3) st1(4) show ?thesis by simp
  qed
  have shift: "dl_counter st1 + int i = dl_counter st + int (Suc i)" for i using st1(3) by simp
  have "\<forall>i < length (j # jobs). dl_files st' (local_name (fst ((j # jobs) ! i)) (dl_counter st + int i)) =
      snd ((j # jobs) ! i)"
    using first ih(2) unfolding shift by (auto simp: less_Suc_eq_0_disj)
  moreover have "dl_files st' nm = dl_files st nm"
    if "\<forall>i < length (j # jobs). nm \<noteq> local_name (fst ((j # jobs) ! i)) (dl_counter st + int i)" for nm
  proof -
    have "nm \<noteq> local_name (fst j) (dl_counter st)" using that by (auto dest: spec [of _ 0])
    moreover have "\<forall>i < length jobs. nm \<noteq> local_name (fst (jobs ! i)) (dl_counter st1 + int i)"
      unfolding shift using that by (auto dest: spec [of _ "Suc _"])
    ultimately show ?thesis using ih(3) st1(4) by simp
  qed
  ultimately show ?case using p(1) st1(1) ih(1) by (auto simp: nets(1))
qed

lemma gflib_one_thread:
  "gflib_client_opts es opts = Inr opts' \<Longrightarrow> co_nthreads opts = 1 \<Longrightarrow> co_nthreads opts' = 1"
  by (induction es arbitrary: opts) (auto simp: Let_def split: if_splits)

lemma download_main_run:
  fixes mem :: "('h, string) gfcrequest"
  assumes "gflib_client_opts (client_args args) client_defaults = Inr opts" and "co_nrequests opts = int n"
    and "files (co_workload opts) = Some (workload_file ws)" and "\<forall>w \<in> set ws. path_word w" and "ws \<noteq> []"
    and "length ws \<le> 100" and "heap_ok (dl_heap st)" and "dl_counter st = 0" and "n < 2 ^ 31"
    and "\<forall>d. mk d" and "\<forall>d. op d" and "\<forall>i < n. serves (nets i) (co_server opts) (D i)"
  shows "\<exists>w st'. gflib_download_main mk op mem nets files args st = Inr (w, st') \<and>
    (\<forall>i < n. dl_files st' (local_name (ws ! (Suc i mod length ws)) (int i)) = D i)"
proof -
  from workload_loaded [OF assms(4-7,9)] obtain h w ps w' where
    l: "workload_init (dl_heap st) workload_start (Some (workload_file ws)) = Inr (0, h, w)"
      "get_paths n w = Inr (ps, w')" "heap_grows (dl_heap st) h"
      "List.map (deref h) ps = List.map (\<lambda>i. Inr (ws ! (Suc i mod length ws))) [0 ..< n]"
    by (elim exE conjE) (rule that)
  define jobs where "jobs = List.map (\<lambda>i. (ws ! (Suc i mod length ws), D i)) [0 ..< n]"
  have jobs: "length jobs = n" "List.map (deref h) ps = List.map (Inr \<circ> fst) jobs"
    using l(4) by (simp_all add: jobs_def comp_def)
  have "Suc i mod length ws < length ws" for i using assms(5) by simp
  then have pw: "\<forall>j \<in> set jobs. path_word (fst j)" using assms(4) by (auto simp: jobs_def)
  let ?st = "st\<lparr>dl_heap := h\<rparr>"
  have "list_all2 (\<lambda>net j. serves net (co_server opts) (snd j)) (List.map nets [0 ..< n]) jobs"
    using assms(12) by (simp add: jobs_def list_all2_conv_all_nth)
  moreover have "heap_ok (dl_heap ?st)" using l(3) by (simp add: heap_grows_def)
  moreover have "get_paths (length jobs) w = Inr (ps, w')" using l(2) jobs(1) by simp
  ultimately obtain st' where
    st': "download_loop mk op (Static (co_server opts)) (co_port opts) mem (List.map nets [0 ..< n]) w ?st = Inr (w', st')"
      "\<forall>i < length jobs. dl_files st' (local_name (fst (jobs ! i)) (dl_counter ?st + int i)) = snd (jobs ! i)"
    using download_loop_files [of ?st jobs w ps w' mk op "co_server opts" "List.map nets [0 ..< n]" "co_port opts" mem]
      jobs pw assms(8-11) by (auto simp: int_max_def)
  have "co_nthreads opts = 1" using gflib_one_thread [OF assms(1)] by (simp add: client_defaults_def)
  then have "int_mul (co_nrequests opts) (co_nthreads opts) = Inr (int n)"
    using assms(2,9) by (simp add: int_mul_def int_max_def)
  then have "gflib_download_main mk op mem nets files args st = Inr (w', st')"
    using assms(1,3) l(1) st'(1) by (simp add: gflib_download_main_def)
  moreover have "\<forall>i < n. dl_files st' (local_name (ws ! (Suc i mod length ws)) (int i)) = D i"
    using st'(2) jobs(1) assms(8) by (simp add: jobs_def)
  ultimately show ?thesis by blast
qed

section \<open>Properties\<close>

text \<open>
  Property C7. The download client works as a whole: with any command line it accepts and a workload of
  one to 100 words, if the server answers each of its \<open>n\<close> requests with a file or \<open>FILE_NOT_FOUND\<close>, the program
  ends without an error and the \<open>i\<close>-th file is in the local file of the \<open>i\<close>-th request (there is none if it was
  refused), the words of the workload taken round robin; no later download overwrites an earlier one.
\<close>

theorem gflib_download_main_gets_all:
  fixes mem :: "('h, string) gfcrequest"
  assumes "gflib_client_opts (client_args args) client_defaults = Inr opts" and "co_nrequests opts = int n"
    and "files (co_workload opts) = Some (workload_file ws)" and "\<forall>w \<in> set ws. path_word w" and "ws \<noteq> []"
    and "length ws \<le> 100" and "heap_ok (dl_heap st)" and "dl_counter st = 0" and "n < 2 ^ 31"
    and "\<forall>d. mk d" and "\<forall>d. op d" and "\<forall>i < n. serves (nets i) (co_server opts) (D i)"
  shows "\<exists>w st'. gflib_download_main mk op mem nets files args st = Inr (w, st') \<and>
    (\<forall>i < n. dl_files st' (local_name (ws ! (Suc i mod length ws)) (int i)) = D i)"
  by (rule download_main_run [where nets = nets and files = files and mk = mk and op = op and D = D, OF assms])

definition sample_site_net :: "nat \<Rightarrow> net_env" where
  "sample_site_net i = sample_net (ok_header (length ''contents'') 0 @ ''con'') [Chunk ''tents'']"

definition fresh_dl :: dl_state where
  "fresh_dl = \<lparr>dl_heap = no_strings, dl_files = Map.empty, dl_mkdirs = [], dl_counter = 0\<rparr>"

lemma sample_serves: "serves (sample_site_net i) ''localhost'' (Some ''contents'')"
proof -
  have "length (ok_header (length ''contents'') 0 @ ''con'') \<le> RDBUFSIZE"
    by (simp add: ok_header_def dec_of_nat.simps RDBUFSIZE_def)
  then show ?thesis
    by (auto simp: serves_def sample_site_net_def sample_net_def reachable_def new_conn_def
        intro!: exI [of _ "''con''"] exI [of _ "[Chunk ''tents'']"])
qed

theorem gflib_download_main_gets_all_witness:
  "\<exists>w st'. gflib_download_main (\<lambda>d. True) (\<lambda>f. True) raw_request sample_site_net
      (\<lambda>n. Some (workload_file [''/a'', ''/b''])) [''--nr'', dec_of_nat 2] fresh_dl = Inr (w, st') \<and>
    dl_files st' (local_name ''/b'' 0) = Some ''contents''"
proof -
  have o: "gflib_client_opts (client_args [''--nr'', dec_of_nat 2]) client_defaults =
      Inr (client_defaults\<lparr>co_nrequests := int 2\<rparr>)"
    using atoi_dec [of 2 "[]"]
    by (simp add: client_args_def getopts.simps(2) long_option_def long_match_def client_long_def Let_def)
  have "\<exists>w st'. gflib_download_main (\<lambda>d. True) (\<lambda>f. True) raw_request sample_site_net
      (\<lambda>n. Some (workload_file [''/a'', ''/b''])) [''--nr'', dec_of_nat 2] fresh_dl = Inr (w, st') \<and>
      (\<forall>i < 2. dl_files st' (local_name ([''/a'', ''/b''] ! (Suc i mod length [''/a'', ''/b''])) (int i)) =
        Some ''contents'')"
    by (rule gflib_download_main_gets_all [OF o _ _ sample_words_ok])
      (use sample_serves in \<open>simp_all add: fresh_dl_def client_defaults_def no_strings_ok\<close>)
  then obtain w st' where "gflib_download_main (\<lambda>d. True) (\<lambda>f. True) raw_request sample_site_net
      (\<lambda>n. Some (workload_file [''/a'', ''/b''])) [''--nr'', dec_of_nat 2] fresh_dl = Inr (w, st')"
    "\<forall>i < 2. dl_files st' (local_name ([''/a'', ''/b''] ! (Suc i mod length [''/a'', ''/b''])) (int i)) =
        Some ''contents''" by (elim exE conjE) (rule that)
  moreover from this(2) have "dl_files st' (local_name ''/b'' 0) = Some ''contents''"
    by (auto dest: spec [of _ 0])
  ultimately show ?thesis by blast
qed

text \<open>
  Property C34. The port survives the command line: printed in decimal and given as \<open>-p 80\<close>, \<open>-p80\<close>,
  \<open>--port=80\<close> or \<open>--port 80\<close>, it becomes the port of the download clients, modulo 65536, and no other
  option changes.
\<close>

theorem client_port_option:
  assumes "n < 2 ^ 31" and "d = dec_of_nat n"
    and "args \<in> {[''-p'', d], [''-p'' @ d], [''--port='' @ d], [''--port'', d]}"
  shows "\<exists>opts. gflib_client_opts (client_args args) client_defaults = Inr opts \<and>
    mtgf_client_opts (client_args args) client_defaults = Inr opts \<and>
    unat (co_port opts) = n mod 65536 \<and> opts = client_defaults\<lparr>co_port := co_port opts\<rparr>"
proof -
  have d: "d \<noteq> []" unfolding assms(2) by (subst dec_of_nat.simps) simp
  have at: "atoi d = int n" using atoi_dec [OF assms(1), of "[]"] assms(2) by simp
  have "client_args args = [(CHR ''p'', d)]"
    using assms(3) d
    by (auto simp: client_args_def getopts.simps(2) long_option_def long_match_def client_long_def Let_def)
  then show ?thesis by (simp add: at unat_of_nat take_bit_eq_mod)
qed

theorem client_port_option_witness:
  "\<exists>opts. gflib_client_opts (client_args [''--port='' @ dec_of_nat 9000]) client_defaults = Inr opts \<and>
    unat (co_port opts) = 9000"
  using client_port_option [of 9000 "dec_of_nat 9000" "[''--port='' @ dec_of_nat 9000]"] by auto

end
