(* ===== verification/Proxy_Main.thy ===== *)
theory Proxy_Main
  imports Proxy_Cache_Correct Proxy_Start Client_Main
begin

text \<open>
  The rest of \<open>project3/webproxy.c\<close>, its use of the server library (an object file, whose functions are
  parameters here with what \<open>project3/gfserver.h\<close> documents), and the proxy and the daemon from their
  command lines to the last answer.
\<close>

section \<open>The server library\<close>

text \<open>The options of \<open>gfserver_setopt\<close>; the program has one handler and one argument to register.\<close>

datatype worker_func = Handle_With_Cache
datatype worker_arg = Segment_Queue

datatype gfserver_option =
    GFS_PORT "16 word"
  | GFS_MAXNPENDING int
  | GFS_WORKER_FUNC worker_func
  | GFS_WORKER_ARG nat worker_arg

record 's server_lib =
  gfserver_init :: "nat \<Rightarrow> 's"
  gfserver_setopt :: "'s \<Rightarrow> gfserver_option \<Rightarrow> 's"

text \<open>The settings of a server, and that the library keeps them as documented.\<close>

record settings =
  sv_threads :: nat
  sv_port :: "16 word"
  sv_pending :: int
  sv_func :: "worker_func option"
  sv_args :: "nat \<Rightarrow> worker_arg option"

primrec with_option :: "gfserver_option \<Rightarrow> settings \<Rightarrow> settings" where
  "with_option (GFS_PORT p) v = v\<lparr>sv_port := p\<rparr>"
| "with_option (GFS_MAXNPENDING n) v = v\<lparr>sv_pending := n\<rparr>"
| "with_option (GFS_WORKER_FUNC f) v = v\<lparr>sv_func := Some f\<rparr>"
| "with_option (GFS_WORKER_ARG i a) v = v\<lparr>sv_args := (sv_args v)(i := Some a)\<rparr>"

definition keeps_settings :: "'s server_lib \<Rightarrow> ('s \<Rightarrow> settings) \<Rightarrow> bool" where
  "keeps_settings lib view \<longleftrightarrow>
     (\<forall>n. sv_threads (view (gfserver_init lib n)) = n) \<and>
     (\<forall>s opt. view (gfserver_setopt lib s opt) = with_option opt (view s))"

section \<open>The main function of the proxy after the pool is made\<close>

definition webproxy_server :: "'s server_lib \<Rightarrow> proxy_opts \<Rightarrow> 's" where
  "webproxy_server lib po =
     (let n = unat (po_threads po);
          g1 = gfserver_init lib n;
          g2 = gfserver_setopt lib g1 (GFS_PORT (po_port po));
          g3 = gfserver_setopt lib g2 (GFS_MAXNPENDING 10);
          g4 = gfserver_setopt lib g3 (GFS_WORKER_FUNC Handle_With_Cache)
      in foldl (\<lambda>g i. gfserver_setopt lib g (GFS_WORKER_ARG i Segment_Queue)) g4 [0 ..< n])"

text \<open>
  After \<open>gfserver_serve\<close>: the control queues are removed, then the number of segments is taken for the
  address of the queue to clean.
\<close>

definition webproxy_end :: "int \<Rightarrow> 'm ipc \<Rightarrow> unit result" where
  "webproxy_end num_segments k =
     (let k1 = mq_unlink proxy_cmq_rx (mq_unlink proxy_cmq_tx k)
      in if num_segments = 0 then Inl Null_Deref else Inl Bad_Deref)"

text \<open>
  What the threads of a server do: thread \<open>i\<close> calls the handler with its argument for each of its
  requests; without the pool it has a null pointer for a queue.
\<close>

definition worker_requests :: "settings \<Rightarrow> (nat \<Rightarrow> 'a list) \<Rightarrow> 'a list list result" where
  "worker_requests v reqs =
     (if sv_func v = None \<or> (\<exists>i < sv_threads v. reqs i \<noteq> [] \<and> sv_args v i = None) then Inl Null_Deref
      else Inr (List.map reqs [0 ..< sv_threads v]))"

lemma args_set:
  assumes "keeps_settings lib view"
  shows "view (foldl (\<lambda>g i. gfserver_setopt lib g (GFS_WORKER_ARG i Segment_Queue)) g [0 ..< n]) =
    (view g)\<lparr>sv_args := (\<lambda>i. if i < n then Some Segment_Queue else sv_args (view g) i)\<rparr>"
proof (induction n)
  case (Suc n)
  with assms show ?case by (auto simp: keeps_settings_def less_Suc_eq fun_eq_iff)
qed simp

lemma webproxy_server_settings:
  assumes "keeps_settings lib view"
  shows "sv_threads (view (webproxy_server lib po)) = unat (po_threads po)"
    and "sv_port (view (webproxy_server lib po)) = po_port po"
    and "sv_pending (view (webproxy_server lib po)) = 10"
    and "sv_func (view (webproxy_server lib po)) = Some Handle_With_Cache"
    and "i < unat (po_threads po) \<Longrightarrow> sv_args (view (webproxy_server lib po)) i = Some Segment_Queue"
  using assms by (simp_all add: webproxy_server_def Let_def args_set [OF assms] keeps_settings_def)

section \<open>From bytes to packets\<close>

text \<open>
  The control queues carry a \<open>ctrl_msg\<close> first and packets later; both are bytes. A packet is its path and
  five integers.
\<close>

definition packet_at :: "string \<Rightarrow> thread_packet" where
  "packet_at m =
     \<lparr>requested_file = take MAX_REQUEST_LEN m, file_size = int_at m 128, chunk_size = int_at m 132,
      segment_size = int_at m 136, cache_hit = int_at m 140, segment_index = int_at m 144\<rparr>"

definition packet_ipc :: "string ipc \<Rightarrow> thread_packet ipc" where
  "packet_ipc k =
     \<lparr>ipc_queues = (\<lambda>d. map_option (\<lambda>q. \<lparr>mq_msgsize = mq_msgsize q, mq_maxmsg = mq_maxmsg q,
                             mq_msgs = List.map packet_at (mq_msgs q)\<rparr>) (ipc_queues k d)),
      ipc_shm = ipc_shm k\<rparr>"

lemma packet_ipc_empty: "chan k d [] \<Longrightarrow> chan (packet_ipc k) d []"
  by (simp add: chan_def packet_ipc_def)

section \<open>Both programs\<close>

text \<open>
  The proxy with its command line \<open>pargs\<close> and the daemon with \<open>dargs\<close>, started in the order
  \<open>sched0\<close>; when both are ready (else \<open>None\<close>) the threads of the server and the workers of the daemon
  run as \<open>sched\<close> says.
\<close>

definition web_cache_run ::
  "(string \<Rightarrow> bool) \<Rightarrow> nat \<Rightarrow> (string \<Rightarrow> int) \<Rightarrow> (string \<Rightarrow> string option) \<Rightarrow> 's server_lib \<Rightarrow> ('s \<Rightarrow> settings) \<Rightarrow>
   'c gfs_calls \<Rightarrow> string list \<Rightarrow> string list \<Rightarrow> process list \<Rightarrow> string \<Rightarrow> string \<Rightarrow> string ipc \<Rightarrow> file_env \<Rightarrow>
   (nat \<Rightarrow> 'c web_request list) \<Rightarrow> 'c \<Rightarrow> actor list \<Rightarrow> ('s \<times> 'c proxy_cache) option result" where
  "web_cache_run can_open nodes open_fd files lib view api pargs dargs sched0 behind cm k f reqs c0 sched =
     bind_res (webproxy_opts (getopts ''n:z:p:t:s:h'' (Some proxy_long) pargs) proxy_defaults) (\<lambda>po.
     bind_res (simplecached_opts (getopts ''t:c:h'' (Some daemon_long) dargs)
         \<lparr>do_threads = 1, do_cachedir = ''locals.txt''\<rparr>) (\<lambda>dopts.
     bind_res (simplecache_init open_fd (files (do_cachedir dopts))) (\<lambda>items.
     bind_res (run_start can_open nodes sched0
         (before_start \<lparr>ctl_segment_size = po_size po, ctl_num_segments = po_segments po\<rparr> behind cm k)) (\<lambda>s.
     case (st_proxy s, st_cache s) of
       (PS_Ready qp, CS_Ready qc) \<Rightarrow>
         (let gfs = webproxy_server lib po
          in bind_res (worker_requests (view gfs) reqs) (\<lambda>rs.
             bind_res (run_system api (ctrl_at (st_cmem s)) sched
               (system_start (nat (do_threads dopts)) rs qp qc (items, f) (packet_ipc (st_ipc s)) c0)) (\<lambda>w.
             Inr (Some (gfs, w)))))
     | _ \<Rightarrow> Inr None))))"

section \<open>The pools after the start\<close>

definition same_segments :: "'m ipc \<Rightarrow> 'm ipc \<Rightarrow> bool" where
  "same_segments k k' \<longleftrightarrow> ipc_shm k' = ipc_shm k \<and> (\<forall>g. \<forall>d \<in> queue_names g. ipc_queues k' d = ipc_queues k d)"

lemma control_not_segment: "proxy_cmq_tx \<notin> queue_names g" "proxy_cmq_rx \<notin> queue_names g"
  by (auto simp: proxy_cmq_tx_def proxy_cmq_rx_def queue_names_def cache_prefix_def proxy_prefix_def)

lemma control_frames:
  assumes "d \<in> {proxy_cmq_tx, proxy_cmq_rx}"
  shows "create_message_queue can_open d n m k = Inr (d', k') \<Longrightarrow> same_segments k k'"
    and "tx_mq d x n k = Some (Inr k') \<Longrightarrow> same_segments k k'"
    and "rx_mq d n k = Some (Inr (x, k')) \<Longrightarrow> same_segments k k'"
  using assms control_not_segment
  by (auto simp: same_segments_def create_message_queue_def tx_mq_def rx_mq_def split: if_splits option.splits list.splits)

lemma same_segments_trans: "same_segments k k1 \<Longrightarrow> same_segments k1 k2 \<Longrightarrow> same_segments k k2"
  by (simp add: same_segments_def)

lemma control_steps:
  assumes "{a, b} \<subseteq> {proxy_cmq_tx, proxy_cmq_rx}"
  shows "open_control can_open a b k = Inr k' \<Longrightarrow> same_segments k k'"
    and "tell_control a mem k = Some (Inr k') \<Longrightarrow> same_segments k k'"
    and "hear_control a mem k = Some (Inr (mem', k')) \<Longrightarrow> same_segments k k'"
  using assms
  by (auto simp: open_control_def tell_control_def hear_control_def bind_res_eq_Inr on_msg_def
      split: sum.splits intro: control_frames same_segments_trans)

text \<open>What one step of the start does to the segments and their queues.\<close>

lemma start_effect:
  assumes "start_act can_open nodes t s = Some (Inr s')"
  shows "same_segments (st_ipc s) (st_ipc s') \<and>
      (\<forall>q. st_proxy s' = PS_Ready q \<longrightarrow> st_proxy s = PS_Ready q) \<and>
      (\<forall>q. st_cache s' = CS_Ready q \<longrightarrow> st_cache s = CS_Ready q) \<or>
    (\<exists>b c q. shm_create_segments can_open nodes (ctl_num_segments c) (ctl_segment_size c) b (st_ipc s) = Inr (q, st_ipc s') \<and>
      (c = ctrl_at (st_pmem s) \<or> st_cache s = CS_Segments \<and> c = ctrl_at (st_cmem s)))"
proof (cases t)
  case Proxy
  with assms have "webproxy_start can_open nodes s = Some (Inr s')" by (simp add: start_act_def)
  then show ?thesis
    using control_steps [of proxy_cmq_tx proxy_cmq_rx] control_steps(3) [of proxy_cmq_rx proxy_cmq_tx]
    by (cases "st_proxy s") (fastforce simp: webproxy_start_def bind_res_eq_Inr on_msg_def Let_def)+
next
  case Cache
  with assms have "simplecached_start can_open nodes s = Some (Inr s')" by (simp add: start_act_def)
  then show ?thesis
    using control_steps [of proxy_cmq_rx proxy_cmq_tx] control_steps(3) [of proxy_cmq_tx proxy_cmq_rx]
    by (cases "st_cache s") (fastforce simp: simplecached_start_def sync_with_proxy_def bind_res_eq_Inr on_msg_def Let_def)+
qed

text \<open>
  The queues of the segments are new or empty, and once a pool is made they are there, as is the
  memory of the right size.
\<close>

definition segments_new :: "nat \<Rightarrow> nat \<Rightarrow> bool \<Rightarrow> 'm ipc \<Rightarrow> bool" where
  "segments_new n sz made k \<longleftrightarrow>
     (\<forall>g < n. \<forall>d \<in> queue_names g. ipc_queues k d = None \<and> \<not> made \<or> chan k d []) \<and>
     (made \<longrightarrow> (\<forall>g < n. \<exists>m. ipc_shm k (mem_name g) = Some m \<and> length m = sz))"

definition some_ready :: "startup \<Rightarrow> bool" where
  "some_ready s \<longleftrightarrow> (\<exists>q. st_proxy s = PS_Ready q) \<or> (\<exists>q. st_cache s = CS_Ready q)"

lemma segments_new_same:
  assumes "segments_new n sz made k" and "same_segments k k'"
  shows "segments_new n sz made k'"
  using assms unfolding segments_new_def same_segments_def chan_def by simp

lemma segments_new_made:
  assumes "segments_new (nat num) (nat sz) made k" and "num \<le> 10 ^ 9"
    and "shm_create_segments can_open nodes num sz b k = Inr (q, k')"
  shows "segments_new (nat num) (nat sz) made' k'"
proof -
  have n: "0 + nat num \<le> 10 ^ 9" using assms(2) by simp
  note e = create_segments_chans [OF n assms(3) [unfolded shm_create_segments_def]]
  have "chan k' d []" if "g < nat num" "d \<in> queue_names g" for g d
  proof -
    have r: "g \<in> {0 ..< 0 + nat num}" using that(1) by simp
    have "ipc_queues k d = None \<or> chan k d []" using assms(1) that by (auto simp: segments_new_def)
    moreover have "ipc_queues k d = None \<longrightarrow> chan k' d []" using e r that(2) by blast
    ultimately show ?thesis using e by blast
  qed
  with e show ?thesis by (auto simp: segments_new_def)
qed

lemma segments_new_weaken: "segments_new n sz made k \<Longrightarrow> (made' \<Longrightarrow> made) \<Longrightarrow> segments_new n sz made' k"
  by (auto simp: segments_new_def)

lemma start_segments_new:
  assumes env: "start_env can_open nodes ctl pm cm"
    and run: "run_start can_open nodes sched s = Inr s'"
    and ok: "start_ok (ctl_num_segments ctl) pm cm s"
    and new: "segments_new (nat (ctl_num_segments ctl)) (nat (ctl_segment_size ctl)) (some_ready s) (st_ipc s)"
  shows "segments_new (nat (ctl_num_segments ctl)) (nat (ctl_segment_size ctl)) (some_ready s') (st_ipc s')"
proof -
  let ?new = "\<lambda>s. segments_new (nat (ctl_num_segments ctl)) (nat (ctl_segment_size ctl)) (some_ready s) (st_ipc s)"
  let ?ok = "start_ok (ctl_num_segments ctl) pm cm"
  have "?ok s' \<and> ?new s'"
  proof (rule run_sched_invariant [OF run])
    show "?ok s \<and> ?new s" using ok new by blast
    fix t x y
    assume x: "?ok x \<and> ?new x" and act: "start_act can_open nodes t x = Some (Inr y)"
    from schedule_system.step_law [OF start_system [OF env] _ act] x have "?ok y" by auto
    moreover have mem: "ctrl_at (st_pmem x) = ctl" "st_cache x = CS_Segments \<Longrightarrow> ctrl_at (st_cmem x) = ctl"
      using x env ctrl_at_take [of sizeof_thread_packet pm]
      by (auto simp: start_ok_def start_env_def sizeof_thread_packet_148)
    have num: "ctl_num_segments ctl \<le> 10 ^ 9" using env by (simp add: start_env_def)
    from start_effect [OF act] have "?new y"
    proof
      assume "same_segments (st_ipc x) (st_ipc y) \<and>
        (\<forall>q. st_proxy y = PS_Ready q \<longrightarrow> st_proxy x = PS_Ready q) \<and>
        (\<forall>q. st_cache y = CS_Ready q \<longrightarrow> st_cache x = CS_Ready q)"
      moreover from this have "some_ready y \<Longrightarrow> some_ready x" unfolding some_ready_def by blast
      ultimately show ?thesis using x segments_new_same segments_new_weaken by blast
    next
      assume "\<exists>b c q. shm_create_segments can_open nodes (ctl_num_segments c) (ctl_segment_size c) b (st_ipc x) =
          Inr (q, st_ipc y) \<and> (c = ctrl_at (st_pmem x) \<or> st_cache x = CS_Segments \<and> c = ctrl_at (st_cmem x))"
      with mem obtain b q where
        "shm_create_segments can_open nodes (ctl_num_segments ctl) (ctl_segment_size ctl) b (st_ipc x) = Inr (q, st_ipc y)"
        by metis
      from segments_new_made [OF _ num this] x show ?thesis by blast
    qed
    ultimately show "?ok y \<and> ?new y" by blast
  qed
  then show ?thesis ..
qed

lemma start_pools_ready:
  assumes "start_env can_open nodes ctl pm cm" and "start_ok (ctl_num_segments ctl) pm cm s"
    and "segments_new (nat (ctl_num_segments ctl)) (nat (ctl_segment_size ctl)) (some_ready s) (st_ipc s)"
    and "st_proxy s = PS_Ready qp" and "st_cache s = CS_Ready qc"
  shows "pools_ready (nat (ctl_num_segments ctl)) (nat (ctl_segment_size ctl)) qp qc (packet_ipc (st_ipc s))"
proof -
  have "chan (st_ipc s) proxy_cmq_tx []" using assms(2,4,5) by (auto simp: start_ok_def control_queues_def chan_def)
  moreover have "ctrl_name = proxy_cmq_tx" by (simp add: ctrl_name_def proxy_cmq_tx_def)
  moreover have "some_ready s" using assms(4) by (auto simp: some_ready_def)
  moreover have "c2p_name g \<in> queue_names g" "p2c_name g \<in> queue_names g" for g
    by (simp_all add: c2p_name_def p2c_name_def queue_names_def)
  moreover have "ipc_shm (packet_ipc k) = ipc_shm k" for k by (simp add: packet_ipc_def)
  ultimately show ?thesis
    using assms(2-5) unfolding pools_ready_def segments_new_def
    by (auto simp: start_ok_def pool_made_def intro!: packet_ipc_empty)
qed

section \<open>From the command lines to the answers\<close>

text \<open>The files of the daemon by name, and the answer to a request of the web: result and bytes.\<close>

definition cache_files :: "(string \<Rightarrow> int) \<Rightarrow> (string \<times> string) list \<Rightarrow> file_env \<Rightarrow> string \<Rightarrow> string option" where
  "cache_files open_fd es f p = map_option (\<lambda>n. fdata f (open_fd n)) (map_of es p)"

definition web_answered ::
  "('c \<Rightarrow> string) \<Rightarrow> (string \<Rightarrow> string option) \<Rightarrow> 'c web_request \<Rightarrow> int \<times> 'c \<Rightarrow> bool" where
  "web_answered wire file q rc \<longleftrightarrow>
     fst rc = fst (file_reply (file (rq_name q))) \<and>
     wire (snd rc) = wire (rq_ctx q) @ snd (file_reply (file (rq_name q)))"

text \<open>What both programs need: the options, the daemon's files, memory and names, a kernel without their queues.\<close>

definition web_setting ::
  "(string \<Rightarrow> bool) \<Rightarrow> nat \<Rightarrow> (string \<Rightarrow> int) \<Rightarrow> (string \<times> string) list \<Rightarrow> file_env \<Rightarrow> proxy_opts \<Rightarrow> string \<Rightarrow> string \<Rightarrow>
     string ipc \<Rightarrow> bool" where
  "web_setting can_open nodes open_fd es f po behind cm k \<longleftrightarrow>
     (\<forall>e \<in> set es. entry_ok open_fd e) \<and> length es < 2 ^ 29 \<and> distinct (List.map fst es) \<and> disk_ok f \<and>
     (\<forall>(p, n) \<in> set es. fdata f (open_fd n) \<noteq> [] \<and> length (fdata f (open_fd n)) < 2 ^ 31) \<and>
     0 < po_segments po \<and> po_segments po \<le> 10 ^ 9 \<and> po_segments po \<le> int nodes \<and>
     0 < po_size po \<and> po_size po < 2 ^ 31 \<and> (\<forall>n. can_open n) \<and> 140 \<le> length behind \<and> 148 \<le> length cm \<and>
     ipc_queues k proxy_cmq_tx = None \<and> ipc_queues k proxy_cmq_rx = None \<and>
     (\<forall>g < nat (po_segments po). \<forall>d \<in> queue_names g. ipc_queues k d = None)"

lemma daemon_table:
  assumes "web_setting can_open nodes open_fd es f po behind cm k"
  shows "\<exists>items. simplecache_init open_fd (Some (concat (List.map file_line es))) = Inr items \<and>
    content_good (items, f) \<and> answered wire (catalog_of (items, f)) = web_answered wire (cache_files open_fd es f) \<and>
    file_of (catalog_of (items, f)) = (\<lambda>p. case cache_files open_fd es f p of None \<Rightarrow> [] | Some D \<Rightarrow> D)"
proof -
  have es: "\<forall>e \<in> set es. entry_ok open_fd e" "length es < 2 ^ 29" "distinct (List.map fst es)" "disk_ok f"
    "\<forall>(p, n) \<in> set es. fdata f (open_fd n) \<noteq> [] \<and> length (fdata f (open_fd n)) < 2 ^ 31"
    using assms by (simp_all add: web_setting_def)
  from content_loaded [OF es(1-3)] obtain items where
    t: "content_init open_fd (Some (concat (List.map file_line es))) = Inr items" "table_ok items"
      "mset (table_entries items) = mset (List.map (\<lambda>(k, p). (k, open_fd p)) es)"
      "distinct (List.map fst (table_entries items))"
      "\<forall>k. map_of (table_entries items) k = map_option open_fd (map_of es k)" by (elim exE conjE) (rule that)
  have "simplecache_init = content_init" by (intro ext) (simp add: simplecache_init_def content_init_def)
  moreover have "0 \<le> open_fd n" if "(p, n) \<in> set es" for p n using es(1) that by (auto simp: entry_ok_def)
  then have "\<forall>(nm, fd) \<in> set (table_entries items). fd \<noteq> -1 \<and> fdata f fd \<noteq> [] \<and> length (fdata f fd) < 2 ^ 31"
    using es(5) by (fastforce simp: mset_eq_setD [OF t(3)])
  then have "content_good (items, f)" using t(2,4) es(4) by (simp add: content_good_def)
  moreover have cat: "catalog_of (items, f) p = map_option (\<lambda>n. (open_fd n, fdata f (open_fd n))) (map_of es p)" for p
    using t(5) by (simp add: catalog_of_def option.map_comp comp_def)
  then have "reply (catalog_of (items, f)) p = file_reply (cache_files open_fd es f p)" for p
    by (simp add: reply_def file_reply_def cache_files_def split: option.splits)
  then have "answered wire (catalog_of (items, f)) = web_answered wire (cache_files open_fd es f)"
    by (intro ext) (simp add: answered_def web_answered_def)
  moreover from cat have "file_of (catalog_of (items, f)) = (\<lambda>p. case cache_files open_fd es f p of None \<Rightarrow> [] | Some D \<Rightarrow> D)"
    by (intro ext) (simp add: file_of_def cache_files_def split: option.splits)
  ultimately show ?thesis using t(1) by auto
qed

lemma server_threads:
  assumes "keeps_settings lib view"
  shows "worker_requests (view (webproxy_server lib po)) reqs = Inr (List.map reqs [0 ..< unat (po_threads po)])"
  using webproxy_server_settings [OF assms, where po = po] by (simp add: worker_requests_def)

text \<open>The start, in any order of the two programs, and the pools it leaves.\<close>

lemma web_start:
  assumes "web_setting can_open nodes open_fd es f po behind cm k" and "int_range (po_size po)" and "int_range (po_segments po)"
  defines "ctl \<equiv> \<lparr>ctl_segment_size = po_size po, ctl_num_segments = po_segments po\<rparr>"
  shows "\<exists>s. run_start can_open nodes sched (before_start ctl behind cm k) = Inr s \<and>
    (\<forall>qp qc. st_proxy s = PS_Ready qp \<and> st_cache s = CS_Ready qc \<longrightarrow> ctrl_at (st_cmem s) = ctl \<and>
       pools_ready (nat (po_segments po)) (nat (po_size po)) qp qc (packet_ipc (st_ipc s)))"
    and "\<exists>s qp qc. run_start can_open nodes (concat (replicate 8 [Proxy, Cache])) (before_start ctl behind cm k) = Inr s \<and>
      st_proxy s = PS_Ready qp \<and> st_cache s = CS_Ready qc"
proof -
  have num: "ctl_num_segments ctl = po_segments po" "ctl_segment_size ctl = po_size po" by (simp_all add: ctl_def)
  have b: "start_env can_open nodes ctl (ctrl_bytes ctl @ behind) cm"
    "start_ok (ctl_num_segments ctl) (ctrl_bytes ctl @ behind) cm (before_start ctl behind cm k)"
    "start_left (before_start ctl behind cm k) = 8"
    by (rule before_start_ok [where k = k and can_open = can_open and nodes = nodes and cm = cm]; use assms(1-3) in \<open>simp add: num web_setting_def\<close>)+
  have new: "segments_new (nat (ctl_num_segments ctl)) (nat (ctl_segment_size ctl)) (some_ready (before_start ctl behind cm k))
      (st_ipc (before_start ctl behind cm k))"
    using assms(1) by (simp add: segments_new_def some_ready_def before_start_def web_setting_def num)
  from schedule_system.run_good [OF start_system [OF b(1)] b(2), of sched] obtain s where
    s: "run_start can_open nodes sched (before_start ctl behind cm k) = Inr s"
      "start_ok (ctl_num_segments ctl) (ctrl_bytes ctl @ behind) cm s" by blast
  show "\<exists>s. run_start can_open nodes sched (before_start ctl behind cm k) = Inr s \<and>
    (\<forall>qp qc. st_proxy s = PS_Ready qp \<and> st_cache s = CS_Ready qc \<longrightarrow> ctrl_at (st_cmem s) = ctl \<and>
       pools_ready (nat (po_segments po)) (nat (po_size po)) qp qc (packet_ipc (st_ipc s)))"
    using s(1) ready_pools(2) [OF b(1) s(2)] start_pools_ready [OF b(1) s(2) start_segments_new [OF b(1) s(1) b(2) new]]
    unfolding num by blast
  from schedule_system.fair_ends [OF start_system [OF b(1)] b(2), of 8] b(3) obtain s' where
    "run_start can_open nodes (concat (replicate 8 [Proxy, Cache])) (before_start ctl behind cm k) = Inr s'" "both_ready s'"
    by auto
  then show "\<exists>s qp qc. run_start can_open nodes (concat (replicate 8 [Proxy, Cache])) (before_start ctl behind cm k) = Inr s \<and>
      st_proxy s = PS_Ready qp \<and> st_cache s = CS_Ready qc"
    unfolding both_ready_cases by blast
qed

lemma setting_ranges:
  "web_setting can_open nodes open_fd es f po behind cm k \<Longrightarrow> int_range (po_size po) \<and> int_range (po_segments po)"
  by (simp add: web_setting_def int_range_def)

text \<open>
  Property C3. The proxy with its cache as a whole is safe, with one worker in the daemon (its default) and
  options of the proxy that ask for a positive number of segments, at most \<open>10 ^ 9\<close>, of a positive size:
  in a setting as \<open>web_setting\<close> describes it (files of the daemon that are there and not empty, names that
  can be made, no queues left by an earlier run, and no other state in the memory behind \<open>ctrl\<close>, where the
  handshake writes), for any order of the first steps of the two programs and any interleaving afterwards,
  no step goes wrong; the server listens on the port of the options with a pending limit of 10 and one
  thread per requested thread, each with the handler and the pool, and whatever a thread has answered is
  exactly the header and the file that the daemon's table names for the path, or \<open>FILE_NOT_FOUND\<close>.
\<close>

theorem web_cache_safe:
  assumes "webproxy_opts (getopts ''n:z:p:t:s:h'' (Some proxy_long) pargs) proxy_defaults = Inr po"
    and "simplecached_opts (getopts ''t:c:h'' (Some daemon_long) dargs) \<lparr>do_threads = 1, do_cachedir = ''locals.txt''\<rparr> =
      Inr \<lparr>do_threads = 1, do_cachedir = dir\<rparr>"
    and "files dir = Some (concat (List.map file_line es))"
    and "web_setting can_open nodes open_fd es f po behind cm k"
    and "keeps_settings lib view" and "gfs_api api wire ready"
    and "\<forall>i < unat (po_threads po). \<forall>q \<in> set (reqs i). rq_ok ready q"
  shows "\<exists>r. web_cache_run can_open nodes open_fd files lib view api pargs dargs sched0 behind cm k f reqs c0 sched = Inr r \<and>
    (\<forall>gfs w. r = Some (gfs, w) \<longrightarrow>
       sv_port (view gfs) = po_port po \<and> sv_pending (view gfs) = 10 \<and> sv_threads (view gfs) = unat (po_threads po) \<and>
       (\<forall>i < unat (po_threads po). \<exists>n \<le> length (reqs i).
          list_all2 (web_answered wire (cache_files open_fd es f)) (take n (reqs i)) (jb_done (sy_jobs w ! i))))"
proof -
  let ?rs = "List.map reqs [0 ..< unat (po_threads po)]" and ?gfs = "webproxy_server lib po"
  let ?ctl = "\<lparr>ctl_segment_size = po_size po, ctl_num_segments = po_segments po\<rparr>"
  from daemon_table [OF assms(4), of wire] obtain items where
    t: "simplecache_init open_fd (Some (concat (List.map file_line es))) = Inr items" "content_good (items, f)"
      "answered wire (catalog_of (items, f)) = web_answered wire (cache_files open_fd es f)" by blast
  from web_start(1) [OF assms(4)] setting_ranges [OF assms(4)] obtain s where
    s: "run_start can_open nodes sched0 (before_start ?ctl behind cm k) = Inr s"
      "\<And>qp qc. st_proxy s = PS_Ready qp \<Longrightarrow> st_cache s = CS_Ready qc \<Longrightarrow> ctrl_at (st_cmem s) = ?ctl \<and>
         pools_ready (nat (po_segments po)) (nat (po_size po)) qp qc (packet_ipc (st_ipc s))" by blast
  note run = assms(1-3) t(1) s(1) server_threads [OF assms(5), where po = po and reqs = reqs]
  show ?thesis
  proof (cases "\<exists>qp qc. st_proxy s = PS_Ready qp \<and> st_cache s = CS_Ready qc")
    case True
    then obtain qp qc where q: "st_proxy s = PS_Ready qp" "st_cache s = CS_Ready qc" by blast
    have reqs: "\<forall>qs \<in> set ?rs. \<forall>q \<in> set qs. rq_ok ready q" using assms(7) by auto
    have sz: "0 < po_segments po" "0 < po_size po" "po_size po < 2 ^ 31" using assms(4) by (simp_all add: web_setting_def)
    from serving_runs [OF assms(6) reqs t(2) s(2) [OF q, THEN conjunct2] refl sz, of sched c0] obtain w where
      w: "run_system api ?ctl sched (system_start 1 ?rs qp qc (items, f) (packet_ipc (st_ipc s)) c0) = Inr w"
        "\<forall>i < unat (po_threads po). \<exists>n \<le> length (reqs i).
          list_all2 (web_answered wire (cache_files open_fd es f)) (take n (reqs i)) (jb_done (sy_jobs w ! i))"
      unfolding t(3) by auto
    with run q s(2) [OF q] webproxy_server_settings(1-3) [OF assms(5), where po = po] show ?thesis
      by (simp add: web_cache_run_def Let_def)
  next
    case False
    with run show ?thesis
      by (cases "st_proxy s"; cases "st_cache s") (auto simp: web_cache_run_def Let_def)
  qed
qed

lemma web_run_answers:
  assumes "webproxy_opts (getopts ''n:z:p:t:s:h'' (Some proxy_long) pargs) proxy_defaults = Inr po"
    and "simplecached_opts (getopts ''t:c:h'' (Some daemon_long) dargs) \<lparr>do_threads = 1, do_cachedir = ''locals.txt''\<rparr> =
      Inr \<lparr>do_threads = 1, do_cachedir = dir\<rparr>"
    and "files dir = Some (concat (List.map file_line es))"
    and "web_setting can_open nodes open_fd es f po behind cm k"
    and "keeps_settings lib view" and "gfs_api api wire ready"
    and "\<forall>i < unat (po_threads po). \<forall>q \<in> set (reqs i). rq_ok ready q"
    and "(\<Sum>i \<leftarrow> [0 ..< unat (po_threads po)]. \<Sum>q \<leftarrow> reqs i.
      6 * length (case cache_files open_fd es f (rq_name q) of None \<Rightarrow> [] | Some D \<Rightarrow> D) + 15) \<le> rounds"
    and "sched = concat (replicate rounds (List.map (\<lambda>i. Thread i 0) [0 ..< unat (po_threads po)] @ [actor.Worker 0]))"
  shows "\<exists>gfs w. web_cache_run can_open nodes open_fd files lib view api pargs dargs (concat (replicate 8 [Proxy, Cache]))
      behind cm k f reqs c0 sched = Inr (Some (gfs, w)) \<and>
    list_all2 (\<lambda>i b. list_all2 (web_answered wire (cache_files open_fd es f)) (reqs i) (jb_done b))
      [0 ..< unat (po_threads po)] (sy_jobs w)"
proof -
  let ?rs = "List.map reqs [0 ..< unat (po_threads po)]" and ?gfs = "webproxy_server lib po"
  let ?ctl = "\<lparr>ctl_segment_size = po_size po, ctl_num_segments = po_segments po\<rparr>"
  from daemon_table [OF assms(4), of wire] obtain items where
    t: "simplecache_init open_fd (Some (concat (List.map file_line es))) = Inr items" "content_good (items, f)"
      "answered wire (catalog_of (items, f)) = web_answered wire (cache_files open_fd es f)"
      "file_of (catalog_of (items, f)) = (\<lambda>p. case cache_files open_fd es f p of None \<Rightarrow> [] | Some D \<Rightarrow> D)" by blast
  from web_start(2) [OF assms(4)] setting_ranges [OF assms(4)] obtain s qp qc where
    s: "run_start can_open nodes (concat (replicate 8 [Proxy, Cache])) (before_start ?ctl behind cm k) = Inr s"
      "st_proxy s = PS_Ready qp" "st_cache s = CS_Ready qc" by blast
  from web_start(1) [OF assms(4)] setting_ranges [OF assms(4)] obtain s1 where
    s1: "run_start can_open nodes (concat (replicate 8 [Proxy, Cache])) (before_start ?ctl behind cm k) = Inr s1"
      "\<And>qp qc. st_proxy s1 = PS_Ready qp \<Longrightarrow> st_cache s1 = CS_Ready qc \<Longrightarrow> ctrl_at (st_cmem s1) = ?ctl \<and>
         pools_ready (nat (po_segments po)) (nat (po_size po)) qp qc (packet_ipc (st_ipc s1))" by blast
  moreover have "s1 = s" using s(1) s1(1) by simp
  ultimately have p: "ctrl_at (st_cmem s) = ?ctl"
    "pools_ready (nat (po_segments po)) (nat (po_size po)) qp qc (packet_ipc (st_ipc s))"
    using s(2,3) by blast+
  let ?w0 = "system_start 1 ?rs qp qc (items, f) (packet_ipc (st_ipc s)) c0"
  have reqs: "\<forall>qs \<in> set ?rs. \<forall>q \<in> set qs. rq_ok ready q" using assms(7) by auto
  have sz: "0 < po_segments po" "0 < po_size po" "po_size po < 2 ^ 31" using assms(4) by (simp_all add: web_setting_def)
  have "(\<Sum>qs \<leftarrow> ?rs. \<Sum>q \<leftarrow> qs. 6 * length (file_of (catalog_of (items, f)) (rq_name q)) + 15) \<le> rounds"
    using assms(8) by (simp add: t(4) comp_def)
  moreover have "system_turn ?w0 = List.map (\<lambda>i. Thread i 0) [0 ..< unat (po_threads po)] @ [actor.Worker 0]"
    by (simp add: system_turn_def system_start_def)
  ultimately obtain w where
    w: "run_system api ?ctl sched ?w0 = Inr w"
      "list_all2 (\<lambda>qs b. list_all2 (web_answered wire (cache_files open_fd es f)) qs (jb_done b)) ?rs (sy_jobs w)"
    using serving_ends [OF assms(6) reqs t(2) p(2) refl sz, of rounds c0] unfolding t(3) assms(9) by auto
  with assms(1-3) t(1) s p(1) server_threads [OF assms(5), where po = po and reqs = reqs] show ?thesis
    by (simp add: web_cache_run_def Let_def list_all2_map1)
qed

text \<open>
  Property C2. And it answers everything, in the same setting with one worker in the daemon: started in turns,
  after eight rounds of the start and then fifteen rounds per request and six per byte asked for, every
  request of every thread has its answer.
\<close>

theorem web_cache_answers:
  assumes "webproxy_opts (getopts ''n:z:p:t:s:h'' (Some proxy_long) pargs) proxy_defaults = Inr po"
    and "simplecached_opts (getopts ''t:c:h'' (Some daemon_long) dargs) \<lparr>do_threads = 1, do_cachedir = ''locals.txt''\<rparr> =
      Inr \<lparr>do_threads = 1, do_cachedir = dir\<rparr>"
    and "files dir = Some (concat (List.map file_line es))"
    and "web_setting can_open nodes open_fd es f po behind cm k"
    and "keeps_settings lib view" and "gfs_api api wire ready"
    and "\<forall>i < unat (po_threads po). \<forall>q \<in> set (reqs i). rq_ok ready q"
    and "(\<Sum>i \<leftarrow> [0 ..< unat (po_threads po)]. \<Sum>q \<leftarrow> reqs i.
      6 * length (case cache_files open_fd es f (rq_name q) of None \<Rightarrow> [] | Some D \<Rightarrow> D) + 15) \<le> rounds"
    and "sched = concat (replicate rounds (List.map (\<lambda>i. Thread i 0) [0 ..< unat (po_threads po)] @ [actor.Worker 0]))"
  shows "\<exists>gfs w. web_cache_run can_open nodes open_fd files lib view api pargs dargs (concat (replicate 8 [Proxy, Cache]))
      behind cm k f reqs c0 sched = Inr (Some (gfs, w)) \<and>
    list_all2 (\<lambda>i b. list_all2 (web_answered wire (cache_files open_fd es f)) (reqs i) (jb_done b))
      [0 ..< unat (po_threads po)] (sy_jobs w)"
  by (rule web_run_answers [where can_open = can_open and open_fd = open_fd and files = files and lib = lib and view = view and
        wire = wire and ready = ready and reqs = reqs, OF assms])

section \<open>Two threads, two segments, two files\<close>

definition sample_server :: "settings server_lib" where
  "sample_server =
     \<lparr>gfserver_init = (\<lambda>n. \<lparr>sv_threads = n, sv_port = 0, sv_pending = 0, sv_func = None, sv_args = (\<lambda>i. None)\<rparr>),
      gfserver_setopt = (\<lambda>s opt. with_option opt s)\<rparr>"

definition sample_pargs :: "string list" where
  "sample_pargs = [''-n'', dec_of_nat 2, ''-z'', dec_of_nat 3, ''-t'', dec_of_nat 2]"

definition sample_po :: proxy_opts where
  "sample_po = proxy_defaults\<lparr>po_segments := 2, po_size := 3, po_threads := 2\<rparr>"

definition sample_todo :: "nat \<Rightarrow> gfcontext web_request list" where
  "sample_todo i = (if i = 0 then [sample_web ''/a'', sample_web ''/c''] else [sample_web ''/b''])"

lemma sample_options:
  "webproxy_opts (getopts ''n:z:p:t:s:h'' (Some proxy_long) sample_pargs) proxy_defaults = Inr sample_po"
  "simplecached_opts (getopts ''t:c:h'' (Some daemon_long) []) \<lparr>do_threads = 1, do_cachedir = ''locals.txt''\<rparr> =
    Inr \<lparr>do_threads = 1, do_cachedir = ''locals.txt''\<rparr>"
  using atoi_dec [of 2 "[]"] atoi_dec [of 3 "[]"]
  by (simp_all add: getopts.simps(2) sample_pargs_def sample_po_def)

lemma sample_keeps: "keeps_settings sample_server (\<lambda>s. s)"
  by (simp add: keeps_settings_def sample_server_def)

lemma sample_setting:
  "web_setting (\<lambda>n. True) 10 sample_open sample_files (snd sample_store) sample_po (replicate 140 NUL) (replicate 148 NUL) no_queues"
  using sample_files_ok
  by (simp add: web_setting_def sample_po_def no_queues_def sample_store_def sample_env_def disk_ok_def sample_files_def sample_open_def)

lemma sample_todo_ok: "\<forall>i < unat (po_threads sample_po). \<forall>q \<in> set (sample_todo i). rq_ok ctx_ready q"
  using sample_reqs_ok by (simp add: sample_todo_def sample_reqs_def)

text \<open>What the three requests are answered.\<close>

lemma sample_web_replies:
  "web_answered (\<lambda>x. tx (ctx_conn x)) (cache_files sample_open sample_files (snd sample_store)) (sample_web ''/a'') (r, c) \<Longrightarrow>
    tx (ctx_conn c) = header_line ''OK'' 8 @ ''contents''"
  "web_answered (\<lambda>x. tx (ctx_conn x)) (cache_files sample_open sample_files (snd sample_store)) (sample_web ''/b'') (r, c) \<Longrightarrow>
    tx (ctx_conn c) = header_line ''OK'' 2 @ ''bb''"
  "web_answered (\<lambda>x. tx (ctx_conn x)) (cache_files sample_open sample_files (snd sample_store)) (sample_web ''/c'') (r, c) \<Longrightarrow>
    tx (ctx_conn c) = header_line ''FILE_NOT_FOUND'' 0"
  by (simp_all add: web_answered_def file_reply_def cache_files_def sample_web_name sample_wire sample_files_def
      sample_open_def sample_store_def eval_nat_numeral)

lemma sample_rounds:
  "(\<Sum>i \<leftarrow> [0 ..< unat (po_threads sample_po)]. \<Sum>q \<leftarrow> sample_todo i.
      6 * length (case cache_files sample_open sample_files (snd sample_store) (rq_name q) of None \<Rightarrow> [] | Some D \<Rightarrow> D) + 15) \<le> 105"
proof -
  have "[0 ..< unat (po_threads sample_po)] = [0, 1]" by (simp add: sample_po_def upt_rec)
  then show ?thesis
    by (simp add: sample_todo_def sample_web_name cache_files_def sample_files_def sample_open_def sample_store_def)
qed

theorem web_cache_safe_witness:
  "\<exists>r. web_cache_run (\<lambda>n. True) 10 sample_open (\<lambda>n. Some (concat (List.map file_line sample_files))) sample_server (\<lambda>s. s)
      gflib_calls sample_pargs [] [Cache, Proxy, Cache, Proxy, Cache, Proxy] (replicate 140 NUL) (replicate 148 NUL) no_queues
      (snd sample_store) sample_todo (rq_ctx (sample_web [])) [Thread 0 0] = Inr r \<and>
    (\<forall>gfs w. r = Some (gfs, w) \<longrightarrow> sv_port gfs = 8888 \<and> sv_threads gfs = 2)"
proof -
  have o: "unat (po_threads sample_po) = 2" "po_port sample_po = 8888"
    by (simp_all add: sample_po_def proxy_defaults_def)
  from web_cache_safe [OF sample_options, of "\<lambda>n. Some (concat (List.map file_line sample_files))" sample_files,
      OF refl sample_setting sample_keeps gl.gfs_api_axioms sample_todo_ok,
      of "[Cache, Proxy, Cache, Proxy, Cache, Proxy]" "rq_ctx (sample_web [])" "[Thread 0 0]"]
  show ?thesis unfolding o by blast
qed

theorem web_cache_answers_witness:
  "\<exists>gfs w. web_cache_run (\<lambda>n. True) 10 sample_open (\<lambda>n. Some (concat (List.map file_line sample_files))) sample_server (\<lambda>s. s)
      gflib_calls sample_pargs [] (concat (replicate 8 [Proxy, Cache])) (replicate 140 NUL) (replicate 148 NUL) no_queues
      (snd sample_store) sample_todo (rq_ctx (sample_web []))
      (concat (replicate 105 (List.map (\<lambda>i. Thread i 0) [0 ..< 2] @ [actor.Worker 0]))) = Inr (Some (gfs, w)) \<and>
    List.map (\<lambda>b. List.map (\<lambda>(r, x). tx (ctx_conn x)) (jb_done b)) (sy_jobs w) =
      [[header_line ''OK'' 8 @ ''contents'', header_line ''FILE_NOT_FOUND'' 0], [header_line ''OK'' 2 @ ''bb'']]"
proof -
  have o: "unat (po_threads sample_po) = 2" by (simp add: sample_po_def)
  have two: "[0 ..< 2] = [0, 1 :: nat]" by (simp add: upt_rec)
  from web_cache_answers [OF sample_options, of "\<lambda>n. Some (concat (List.map file_line sample_files))" sample_files,
      OF refl sample_setting sample_keeps gl.gfs_api_axioms sample_todo_ok sample_rounds refl, of "rq_ctx (sample_web [])"]
  obtain gfs w where
    w: "web_cache_run (\<lambda>n. True) 10 sample_open (\<lambda>n. Some (concat (List.map file_line sample_files))) sample_server (\<lambda>s. s)
      gflib_calls sample_pargs [] (concat (replicate 8 [Proxy, Cache])) (replicate 140 NUL) (replicate 148 NUL) no_queues
      (snd sample_store) sample_todo (rq_ctx (sample_web []))
      (concat (replicate 105 (List.map (\<lambda>i. Thread i 0) [0 ..< 2] @ [actor.Worker 0]))) = Inr (Some (gfs, w))" and
    a: "list_all2 (\<lambda>i b. list_all2 (web_answered (\<lambda>x. tx (ctx_conn x)) (cache_files sample_open sample_files (snd sample_store)))
        (sample_todo i) (jb_done b)) [0, 1] (sy_jobs w)"
    unfolding o two by blast
  have "List.map (\<lambda>b. List.map (\<lambda>(r, x). tx (ctx_conn x)) (jb_done b)) (sy_jobs w) =
      [[header_line ''OK'' 8 @ ''contents'', header_line ''FILE_NOT_FOUND'' 0], [header_line ''OK'' 2 @ ''bb'']]"
    using a by (auto simp: sample_todo_def list_all2_Cons1 dest!: sample_web_replies)
  with w show ?thesis by (intro exI [of _ gfs] exI [of _ w] conjI)
qed

end
