(* ===== verification/Web_Clients.thy ===== *)
theory Web_Clients
  imports Proxy_Main Curl_Handler "HOL-Library.Sublist"
begin

text \<open>
  The download client of \<open>project1\<close> behind the proxy of \<open>project3\<close>: what the proxy's threads put on the
  wire for its requests is what the client program stores.
\<close>

section \<open>Answers in pieces\<close>

text \<open>A connection that brings the bytes in any pieces, the end of the header within the first read.\<close>

definition delivers :: "net_env \<Rightarrow> string \<Rightarrow> string \<Rightarrow> bool" where
  "delivers net host bytes \<longleftrightarrow> reachable net host \<and>
     (case rx (connection net) of
        Chunk c # es \<Rightarrow> c @ pending es = bytes \<and> sublist CRLF2 c \<and> length c \<le> RDBUFSIZE
      | _ \<Rightarrow> False)"

lemma header_first:
  assumes "c @ rest = H @ CRLF2 @ D" and "sublist CRLF2 c" and "CHR 0x0D \<notin> set H"
  shows "\<exists>c0. c = H @ CRLF2 @ c0 \<and> c0 @ rest = D"
proof -
  from assms(2) obtain h b where c: "c = h @ CRLF2 @ b" by (auto simp: sublist_def)
  have "length H \<le> length h"
  proof (rule ccontr)
    assume "\<not> length H \<le> length h"
    then have len: "length h < length H" by simp
    have eq: "h @ CRLF2 @ b @ rest = H @ CRLF2 @ D" using assms(1) by (simp add: c)
    have "(h @ CRLF2 @ b @ rest) ! length h = CR" by (simp add: nth_append)
    moreover have "(H @ CRLF2 @ D) ! length h = H ! length h" using len by (simp add: nth_append)
    ultimately have "H ! length h = CR" unfolding eq by simp
    with len assms(3) show False by (metis nth_mem)
  qed
  then have "length (H @ CRLF2) \<le> length c" by (simp add: c)
  moreover from this have "take (length (H @ CRLF2)) c = H @ CRLF2"
    using arg_cong [OF assms(1), of "take (length (H @ CRLF2))"] by simp
  ultimately have e: "c = (H @ CRLF2) @ drop (length (H @ CRLF2)) c" by (metis append_take_drop_id)
  have "(H @ CRLF2) @ drop (length (H @ CRLF2)) c @ rest = (H @ CRLF2) @ D"
    using assms(1) e by (metis append.assoc)
  then have "drop (length (H @ CRLF2)) c @ rest = D" by (simp only: same_append_eq)
  with e show ?thesis by (metis append.assoc)
qed

lemma dec_of_nat_no_CR: "CHR 0x0D \<notin> set (dec_of_nat n)"
  using dec_of_nat_isdigit [of CR n] by (auto simp: isdigit_def)

lemma reply_serves:
  assumes "delivers net host (snd (file_reply answer))"
    and "\<And>D. answer = Some D \<Longrightarrow> D \<noteq> [] \<and> length D < 2 ^ 31"
  shows "serves net host answer"
proof -
  from assms(1) obtain c es where c: "reachable net host" "rx (connection net) = Chunk c # es"
    "c @ pending es = snd (file_reply answer)" "sublist CRLF2 c" "length c \<le> RDBUFSIZE"
    by (auto simp: delivers_def split: list.splits sock_event.splits)
  show ?thesis
  proof (cases answer)
    case None
    have "c @ pending es = (''GETFILE FILE_NOT_FOUND '' @ dec_of_nat 0) @ CRLF2 @ []"
      using c(3) None by (simp add: file_reply_def header_line_def)
    from header_first [OF this c(4)] dec_of_nat_no_CR [of 0]
    have "c = ''GETFILE'' @ SP # ''FILE_NOT_FOUND'' @ SP # (dec_of_nat 0 @ CRLF2)" by simp
    with c(1,2,5) None show ?thesis by (auto simp: serves_def)
  next
    case (Some D)
    have "c @ pending es = (''GETFILE OK '' @ dec_of_nat (length D)) @ CRLF2 @ D"
      using c(3) Some by (simp add: file_reply_def header_line_def)
    from header_first [OF this c(4)] dec_of_nat_no_CR obtain c0 where
      "c = ok_header (length D) 0 @ c0" "c0 @ pending es = D" by (auto simp: ok_header_def)
    with c(1,2,5) Some assms(2) show ?thesis by (auto simp: serves_def)
  qed
qed

section \<open>Properties\<close>

text \<open>
  Property C1. The programs together: the download client of \<open>project1\<close> in front of the proxy with its cache
  daemon. With command lines that the three programs accept, one worker in the daemon and a setting as
  \<open>web_setting\<close> describes it (no other state in the memory behind \<open>ctrl\<close>, among others), after the bounded number of rounds every request of
  every proxy thread has its answer, and if the connections of the client bring what the threads that took its
  requests put on the wire, in any pieces with the header in the first read, then the client ends without an
  error, each of its local files has exactly the bytes of the file that the daemon's table names for the path,
  and there is no local file for a path that the table does not have.
\<close>

theorem web_download_end_to_end:
  fixes mem :: "('h, string) gfcrequest"
  assumes "webproxy_opts (getopts ''n:z:p:t:s:h'' (Some proxy_long) pargs) proxy_defaults = Inr po"
    and "simplecached_opts (getopts ''t:c:h'' (Some daemon_long) dargs) \<lparr>do_threads = 1, do_cachedir = ''locals.txt''\<rparr> =
      Inr \<lparr>do_threads = 1, do_cachedir = dir\<rparr>"
    and "files dir = Some (concat (List.map file_line es))"
    and "web_setting can_open nodes open_fd es f po behind cm k"
    and "keeps_settings lib view" and "gfs_api api wire ready"
    and "\<forall>i < unat (po_threads po). \<forall>q \<in> set (reqs i). rq_ok ready q"
    and "(\<Sum>i \<leftarrow> [0 ..< unat (po_threads po)]. \<Sum>q \<leftarrow> reqs i.
      6 * length (case cache_files open_fd es f (rq_name q) of None \<Rightarrow> [] | Some D \<Rightarrow> D) + 15) \<le> rounds"
    and "sched = concat (replicate rounds (List.map (\<lambda>i. Thread i 0) [0 ..< unat (po_threads po)] @ [actor.Worker 0]))"
    and "gflib_client_opts (client_args args) client_defaults = Inr opts" and "co_nrequests opts = int n"
    and "wfiles (co_workload opts) = Some (workload_file ws)" and "\<forall>w \<in> set ws. path_word w" and "ws \<noteq> []"
    and "length ws \<le> 100" and "heap_ok (dl_heap st)" and "dl_counter st = 0" and "n < 2 ^ 31"
    and "\<forall>d. mk d" and "\<forall>d. op d"
    and "\<forall>j < n. thr j < unat (po_threads po) \<and> pos j < length (reqs (thr j)) \<and>
      rq_name (reqs (thr j) ! pos j) = ws ! (Suc j mod length ws) \<and> wire (rq_ctx (reqs (thr j) ! pos j)) = []"
  shows "\<exists>gfs w. web_cache_run can_open nodes open_fd files lib view api pargs dargs (concat (replicate 8 [Proxy, Cache]))
      behind cm k f reqs c0 sched = Inr (Some (gfs, w)) \<and>
    (\<forall>nets. (\<forall>j < n. delivers (nets j) (co_server opts) (wire (snd (jb_done (sy_jobs w ! thr j) ! pos j)))) \<longrightarrow>
      (\<exists>wl st'. gflib_download_main mk op mem nets wfiles args st = Inr (wl, st') \<and>
        (\<forall>j < n. dl_files st' (local_name (ws ! (Suc j mod length ws)) (int j)) =
          cache_files open_fd es f (ws ! (Suc j mod length ws)))))"
proof -
  let ?file = "cache_files open_fd es f" and ?w = "\<lambda>j. ws ! (Suc j mod length ws)"
  from web_run_answers [where can_open = can_open and open_fd = open_fd and files = files and lib = lib and view = view and
      wire = wire and ready = ready and reqs = reqs, OF assms(1-9)]
  obtain gfs w where
    run: "web_cache_run can_open nodes open_fd files lib view api pargs dargs (concat (replicate 8 [Proxy, Cache]))
      behind cm k f reqs c0 sched = Inr (Some (gfs, w))" and
    all: "list_all2 (\<lambda>i b. list_all2 (web_answered wire ?file) (reqs i) (jb_done b)) [0 ..< unat (po_threads po)] (sy_jobs w)"
    by blast
  have wire: "wire (snd (jb_done (sy_jobs w ! thr j) ! pos j)) = snd (file_reply (?file (?w j)))" if "j < n" for j
  proof -
    from assms(21) that have j: "thr j < unat (po_threads po)" "pos j < length (reqs (thr j))"
      "rq_name (reqs (thr j) ! pos j) = ?w j" "wire (rq_ctx (reqs (thr j) ! pos j)) = []" by blast+
    from list_all2_nthD [OF all, of "thr j"] j(1)
    have "list_all2 (web_answered wire ?file) (reqs (thr j)) (jb_done (sy_jobs w ! thr j))" by simp
    from list_all2_nthD [OF this j(2)] j(3,4) show ?thesis by (simp add: web_answered_def)
  qed
  have good: "D \<noteq> [] \<and> length D < 2 ^ 31" if "?file p = Some D" for p D
    using that assms(4) by (auto simp: cache_files_def web_setting_def dest!: map_of_SomeD)
  have "\<exists>wl st'. gflib_download_main mk op mem nets wfiles args st = Inr (wl, st') \<and>
      (\<forall>j < n. dl_files st' (local_name (?w j) (int j)) = ?file (?w j))"
    if "\<forall>j < n. delivers (nets j) (co_server opts) (wire (snd (jb_done (sy_jobs w ! thr j) ! pos j)))" for nets
  proof (rule download_main_run [where nets = nets and files = wfiles and mk = mk and op = op and D = "\<lambda>j. ?file (?w j)", OF assms(10-20)])
    show "\<forall>j < n. serves (nets j) (co_server opts) (?file (?w j))"
    proof (intro allI impI)
      fix j assume "j < n"
      with that wire have "delivers (nets j) (co_server opts) (snd (file_reply (?file (?w j))))" by simp
      then show "serves (nets j) (co_server opts) (?file (?w j))" by (rule reply_serves) (rule good)
    qed
  qed
  with run show ?thesis by blast
qed

section \<open>Three downloads through the proxy\<close>

definition sample_paths :: "string list" where
  "sample_paths = [''/a'', ''/b'', ''/c'']"

lemma sample_paths_ok: "\<forall>w \<in> set sample_paths. path_word w"
  by (simp add: sample_paths_def path_word_def isspace_def less_eq_char_def)

text \<open>Which thread of the proxy takes the client's requests for \<open>/b\<close>, \<open>/c\<close> and \<open>/a\<close>, and when.\<close>

definition sample_thr :: "nat \<Rightarrow> nat" where "sample_thr j = (if j = 0 then 1 else 0)"
definition sample_pos :: "nat \<Rightarrow> nat" where "sample_pos j = (if j = 1 then 1 else 0)"

lemma sample_links:
  "\<forall>j < 3. sample_thr j < unat (po_threads sample_po) \<and> sample_pos j < length (sample_todo (sample_thr j)) \<and>
    rq_name (sample_todo (sample_thr j) ! sample_pos j) = sample_paths ! (Suc j mod length sample_paths) \<and>
    tx (ctx_conn (rq_ctx (sample_todo (sample_thr j) ! sample_pos j))) = []"
proof (intro allI impI)
  fix j :: nat assume "j < 3"
  then consider "j = 0" | "j = 1" | "j = 2" by linarith
  then show "sample_thr j < unat (po_threads sample_po) \<and> sample_pos j < length (sample_todo (sample_thr j)) \<and>
    rq_name (sample_todo (sample_thr j) ! sample_pos j) = sample_paths ! (Suc j mod length sample_paths) \<and>
    tx (ctx_conn (rq_ctx (sample_todo (sample_thr j) ! sample_pos j))) = []"
    by cases (simp_all add: sample_thr_def sample_pos_def sample_todo_def sample_web_name sample_wire sample_paths_def sample_po_def)
qed

lemma sample_client:
  "gflib_client_opts (client_args [''--nr'', dec_of_nat 3]) client_defaults = Inr (client_defaults\<lparr>co_nrequests := int 3\<rparr>)"
  using atoi_dec [of 3 "[]"]
  by (simp add: client_args_def getopts.simps(2) long_option_def long_match_def client_long_def Let_def)

lemma sample_delivers:
  assumes "bytes = header_line st n @ D" and "length bytes \<le> RDBUFSIZE" 
  shows "delivers (sample_net bytes []) host bytes"
proof -
  have "bytes = (''GETFILE '' @ st @ '' '' @ dec_of_nat n) @ CRLF2 @ D" by (simp add: assms(1) header_line_def)
  then have "sublist CRLF2 bytes" unfolding sublist_def by blast
  with assms(2) reachable_sample_net show ?thesis by (simp add: delivers_def sample_net_def new_conn_def)
qed

lemma sample_side:
  "co_nrequests (client_defaults\<lparr>co_nrequests := int 3\<rparr>) = int 3" "sample_paths \<noteq> []" "length sample_paths \<le> 100"
  "heap_ok (dl_heap fresh_dl)" "dl_counter fresh_dl = 0" "(3 :: nat) < 2 ^ 31" "\<forall>d :: string. True"
  "co_server (client_defaults\<lparr>co_nrequests := int 3\<rparr>) = ''localhost''"
  by (simp_all add: sample_paths_def fresh_dl_def client_defaults_def no_strings_ok)

lemma sample_bytes:
  assumes "bytes \<in> {header_line ''OK'' 8 @ ''contents'', header_line ''OK'' 2 @ ''bb'', header_line ''FILE_NOT_FOUND'' 0}"
  shows "delivers (sample_net bytes []) host bytes"
proof -
  have "length (dec_of_nat 8) = 1" "length (dec_of_nat 2) = 1" "length (dec_of_nat 0) = 1" by (simp_all add: dec_of_nat.simps)
  then show ?thesis using assms sample_delivers [of bytes "''OK''" 8 "''contents''" host] 
    sample_delivers [of bytes "''OK''" 2 "''bb''" host] sample_delivers [of bytes "''FILE_NOT_FOUND''" 0 "[]" host]
    by (auto simp: header_line_def RDBUFSIZE_def)
qed

theorem web_download_end_to_end_witness:
  "\<exists>gfs w wl st'. web_cache_run (\<lambda>n. True) 10 sample_open (\<lambda>n. Some (concat (List.map file_line sample_files))) sample_server (\<lambda>s. s)
      gflib_calls sample_pargs [] (concat (replicate 8 [Proxy, Cache])) (replicate 140 NUL) (replicate 148 NUL) no_queues
      (snd sample_store) sample_todo (rq_ctx (sample_web []))
      (concat (replicate 105 (List.map (\<lambda>i. Thread i 0) [0 ..< 2] @ [actor.Worker 0]))) = Inr (Some (gfs, w)) \<and>
    gflib_download_main (\<lambda>d. True) (\<lambda>d. True) raw_request
      (\<lambda>j. sample_net (tx (ctx_conn (snd (jb_done (sy_jobs w ! sample_thr j) ! sample_pos j)))) [])
      (\<lambda>n. Some (workload_file sample_paths)) [''--nr'', dec_of_nat 3] fresh_dl = Inr (wl, st') \<and>
    dl_files st' (local_name ''/b'' 0) = Some ''bb'' \<and> dl_files st' (local_name ''/c'' 1) = None \<and>
    dl_files st' (local_name ''/a'' 2) = Some ''contents''"
proof -
  let ?files = "\<lambda>n :: string. Some (concat (List.map file_line sample_files))" and ?wire = "\<lambda>x. tx (ctx_conn x)"
  let ?run = "web_cache_run (\<lambda>n. True) 10 sample_open ?files sample_server (\<lambda>s. s)
      gflib_calls sample_pargs [] (concat (replicate 8 [Proxy, Cache])) (replicate 140 NUL) (replicate 148 NUL) no_queues
      (snd sample_store) sample_todo (rq_ctx (sample_web []))
      (concat (replicate 105 (List.map (\<lambda>i. Thread i 0) [0 ..< 2] @ [actor.Worker 0])))"
  let ?net = "\<lambda>w j. sample_net (?wire (snd (jb_done (sy_jobs w ! sample_thr j) ! sample_pos j))) []"
  let ?file = "cache_files sample_open sample_files (snd sample_store)"
  have o: "unat (po_threads sample_po) = 2" by (simp add: sample_po_def)
  have two: "[0 ..< 2] = [0, 1 :: nat]" by (simp add: upt_rec)
  from web_run_answers [OF sample_options, of ?files sample_files,
      OF refl sample_setting sample_keeps gl.gfs_api_axioms sample_todo_ok sample_rounds refl, of "rq_ctx (sample_web [])"]
  obtain gfs w where w: "?run = Inr (Some (gfs, w))" and
    a: "list_all2 (\<lambda>i b. list_all2 (web_answered ?wire ?file) (sample_todo i) (jb_done b)) [0, 1] (sy_jobs w)"
    unfolding o two by blast
  have net: "delivers (?net w j) host (?wire (snd (jb_done (sy_jobs w ! sample_thr j) ! sample_pos j)))" if j: "j < 3" for j host
  proof (rule sample_bytes)
    consider "j = 0" | "j = 1" | "j = 2" using j by linarith
    then show "?wire (snd (jb_done (sy_jobs w ! sample_thr j) ! sample_pos j)) \<in>
      {header_line ''OK'' 8 @ ''contents'', header_line ''OK'' 2 @ ''bb'', header_line ''FILE_NOT_FOUND'' 0}"
      using a by cases (auto simp: sample_thr_def sample_pos_def sample_todo_def list_all2_Cons1 dest!: sample_web_replies)
  qed
  from web_download_end_to_end [where n = 3 and thr = sample_thr and pos = sample_pos and ws = sample_paths and
      wfiles = "\<lambda>n. Some (workload_file sample_paths)" and st = fresh_dl and mk = "\<lambda>d. True" and op = "\<lambda>d. True" and mem = raw_request,
      OF sample_options, of ?files sample_files,
      OF refl sample_setting sample_keeps gl.gfs_api_axioms sample_todo_ok sample_rounds refl sample_client sample_side(1)
        refl sample_paths_ok sample_side(2-7,7) sample_links, of "rq_ctx (sample_web [])"]
  obtain gfs' w' where w': "?run = Inr (Some (gfs', w'))" and
    all: "\<forall>nets. (\<forall>j < 3. delivers (nets j) ''localhost'' (?wire (snd (jb_done (sy_jobs w' ! sample_thr j) ! sample_pos j)))) \<longrightarrow>
      (\<exists>wl st'. gflib_download_main (\<lambda>d. True) (\<lambda>d. True) raw_request nets (\<lambda>n. Some (workload_file sample_paths))
          [''--nr'', dec_of_nat 3] fresh_dl = Inr (wl, st') \<and>
        (\<forall>j < 3. dl_files st' (local_name (sample_paths ! (Suc j mod length sample_paths)) (int j)) =
          ?file (sample_paths ! (Suc j mod length sample_paths))))"
    unfolding o two sample_side(8) by blast
  have "w' = w" using w w' by simp
  have "\<exists>wl st'. gflib_download_main (\<lambda>d. True) (\<lambda>d. True) raw_request (?net w)
      (\<lambda>n. Some (workload_file sample_paths)) [''--nr'', dec_of_nat 3] fresh_dl = Inr (wl, st') \<and>
    (\<forall>j < 3. dl_files st' (local_name (sample_paths ! (Suc j mod length sample_paths)) (int j)) =
      ?file (sample_paths ! (Suc j mod length sample_paths)))"
    using spec [OF all, of "?net w", unfolded \<open>w' = w\<close>] net by (elim mp) (intro allI impI)
  then obtain wl st' where "gflib_download_main (\<lambda>d. True) (\<lambda>d. True) raw_request (?net w)
      (\<lambda>n. Some (workload_file sample_paths)) [''--nr'', dec_of_nat 3] fresh_dl = Inr (wl, st')"
    and f: "\<forall>j < 3. dl_files st' (local_name (sample_paths ! (Suc j mod length sample_paths)) (int j)) =
      ?file (sample_paths ! (Suc j mod length sample_paths))" by (elim exE conjE) (rule that)
  moreover have "dl_files st' (local_name ''/b'' 0) = Some ''bb''" "dl_files st' (local_name ''/c'' 1) = None"
    "dl_files st' (local_name ''/a'' 2) = Some ''contents''"
    using spec [OF f, of 0] spec [OF f, of 1] spec [OF f, of 2]
    by (simp_all add: sample_paths_def cache_files_def sample_files_def sample_open_def sample_store_def)
  ultimately show ?thesis using w by blast
qed

section \<open>Whichever handler answers\<close>

text \<open>
  Property C32. The handlers can stand in for each other: for one and the same file the worker of the multithreaded server,
  the proxy's handler of local files and its handler over curl return the same number and send the same bytes through
  any server library, and a pass of the download client that gets them, in any pieces, stores exactly the file.
\<close>

theorem handlers_interchangeable:
  fixes mem :: "('h, string) gfcrequest"
  assumes "gfs_api api wire ready" and "ready c" and "wire c = []" and "disk_ok f" and "D \<noteq> []" and "length D < 2 ^ 31"
    and "table_ok items" and "NUL \<notin> set k" and "distinct (List.map fst (table_entries items))"
    and "map_of (table_entries items) k = Some fd" and "fdata f fd = D"
    and "open_file (data_dir @ k) = Opened fd'" and "fdata f fd' = D" and "NUL \<notin> set data_dir" and "length data_dir + length k < 4096"
    and "curl_perform lib (curl_open lib (site @ k)) = ([], code, h)" and "curl_length lib h = (0, int (length D))"
    and "curl_response lib h = 200" and "curl_perform lib (curl_body lib h) = (ds, 0, h1)" and "concat ds = D" and "length D < avail"
  shows "\<exists>c1 f1 c2 f2 c3. handler_perform api c (Some k) (items, f) = Inr (int (length D), c1, items, f1) \<and>
    handle_with_file api open_file c (Some k) data_dir f = Inr (int (length D), c2, f2) \<and>
    handle_with_curl lib api avail junk c (Some k) site = Some (Inr (int (length D), c3)) \<and>
    wire c1 = wire c2 \<and> wire c2 = wire c3 \<and>
    (\<forall>net host st p mk op pt. delivers net host (wire c3) \<and> heap_ok (dl_heap st) \<and> deref (dl_heap st) p = Inr k \<and> path_word k \<and>
       0 \<le> dl_counter st \<and> dl_counter st < int_max \<and> (\<forall>d. mk d) \<and> (\<forall>d. op d) \<longrightarrow>
       (\<exists>st'. download_request mk op (Static host) pt mem net p st = Inr st' \<and>
         dl_files st' = (dl_files st)(local_name k (dl_counter st) \<mapsto> D)))"
proof -
  have len: "length (fdata f fd) < 2 ^ 64" "length (fdata f fd') < 2 ^ 64" using assms(6,11,13) by simp_all
  from gfs_api.perform_serves [OF assms(1,7-10,2,4) len(1)] obtain c1 f1 where
    w1: "handler_perform api c (Some k) (items, f) = Inr (int (length D), c1, items, f1)" "wire c1 = header_line ''OK'' (length D) @ D"
    using assms(3,11) by auto
  from gfs_api.file_serves [where open_file = open_file and data_dir = data_dir and p = k, OF assms(1,12) _ _ assms(2,4) len(2)]
    assms(8,14,15) obtain c2 f2 where
    w2: "handle_with_file api open_file c (Some k) data_dir f = Inr (int (length D), c2, f2)" "wire c2 = header_line ''OK'' (length D) @ D"
    using assms(3,13) by auto
  from curl_file [OF assms(1,2,16-20,6,21), of junk] obtain c3 where
    w3: "handle_with_curl lib api avail junk c (Some k) site = Some (Inr (int (length D), c3))" "wire c3 = header_line ''OK'' (length D) @ D"
    using assms(3) by auto
  have "\<exists>st'. download_request mk op (Static host) pt mem net p st = Inr st' \<and>
      dl_files st' = (dl_files st)(local_name k (dl_counter st) \<mapsto> D)"
    if d: "delivers net host (wire c3)" and st: "heap_ok (dl_heap st)" "deref (dl_heap st) p = Inr k" "path_word k" "0 \<le> dl_counter st"
      "dl_counter st < int_max" "\<forall>d. mk d" "\<forall>d. op d" for net host st p mk op pt
  proof -
    have "serves net host (Some D)" using d w3(2) assms(5,6) by (intro reply_serves) (simp_all add: file_reply_def)
    from download_served [OF st this, of pt mem] show ?thesis by blast
  qed
  with w1 w2 w3 show ?thesis by auto
qed

definition sample_get_a :: dl_state where
  "sample_get_a = sample_dl\<lparr>dl_heap := snd (strdup no_strings ''/a'')\<rparr>"

lemma sample_get_a_facts:
  "heap_ok (dl_heap sample_get_a)" "deref (dl_heap sample_get_a) (Heap 0) = Inr ''/a''" "dl_counter sample_get_a = 7" "path_word ''/a''"
  using heap_grows_strdup [OF no_strings_ok, of "''/a''"]
  by (simp_all add: sample_get_a_def sample_dl_facts heap_grows_def path_word_def isspace_def less_eq_char_def)
    (simp add: strdup_def no_strings_def)

theorem handlers_interchangeable_witness:
  "\<exists>c2 f2 c3 st'. handle_with_file gflib_calls (\<lambda>s. Opened 4) (gfcontext_create False (new_conn [] [])) (Some ''/a'') ''/srv'' sample_env =
      Inr (8, c2, f2) \<and>
    handle_with_curl (sample_site ''host/a'') gflib_calls 100 NUL (gfcontext_create False (new_conn [] [])) (Some ''/a'') ''host'' =
      Some (Inr (8, c3)) \<and> tx (ctx_conn c2) = tx (ctx_conn c3) \<and>
    download_request (\<lambda>d. True) (\<lambda>d. True) (Static ''h'') 80 raw_request (sample_net (tx (ctx_conn c3)) []) (Heap 0) sample_get_a = Inr st' \<and>
    dl_files st' (local_name ''/a'' 7) = Some ''contents''"
proof -
  let ?c = "gfcontext_create False (new_conn [] [])" and ?f = sample_env and ?D = "''contents''"
  have c: "tx (ctx_conn ?c) = []" by (simp add: gfcontext_create_def new_conn_def)
  have f: "disk_ok ?f" "fdata ?f 4 = ?D" by (simp_all add: sample_env_def disk_ok_def)
  have t: "table_ok sample_table" "distinct (List.map fst (table_entries sample_table))" "map_of (table_entries sample_table) ''/a'' = Some 4"
    using sample_table_ok by simp_all
  have site: "curl_perform (sample_site ''host/a'') (curl_open (sample_site ''host/a'') (''host'' @ ''/a'')) = ([], 0, 1)"
    "curl_length (sample_site ''host/a'') 1 = (0, int (length ?D))" "curl_response (sample_site ''host/a'') 1 = 200"
    "curl_perform (sample_site ''host/a'') (curl_body (sample_site ''host/a'') 1) = ([''con'', ''tents''], 0, 3)"
    by (simp_all add: sample_site_def)
  have D: "?D \<noteq> []" "length ?D < 2 ^ 31" "NUL \<notin> set ''/a''" "NUL \<notin> set ''/srv''" "length ''/srv'' + length ''/a'' < 4096"
    "concat [''con'', ''tents''] = ?D" "length ?D < 100" "int (length ?D) = 8" by simp_all
  from handlers_interchangeable [where mem = raw_request and junk = NUL and open_file = "\<lambda>s. Opened 4",
      OF gl.gfs_api_axioms sample_ready c f(1) D(1,2) t(1) D(3) t(2,3) f(2) refl f(2) D(4,5) site D(6,7)]
  obtain c2 f2 c3 where
    h: "handle_with_file gflib_calls (\<lambda>s. Opened 4) ?c (Some ''/a'') ''/srv'' ?f = Inr (8, c2, f2)"
      "handle_with_curl (sample_site ''host/a'') gflib_calls 100 NUL ?c (Some ''/a'') ''host'' = Some (Inr (8, c3))"
      "tx (ctx_conn c2) = tx (ctx_conn c3)" and
    all: "\<forall>net host st p mk op pt. delivers net host (tx (ctx_conn c3)) \<and> heap_ok (dl_heap st) \<and> deref (dl_heap st) p = Inr ''/a'' \<and>
       path_word ''/a'' \<and> 0 \<le> dl_counter st \<and> dl_counter st < int_max \<and> (\<forall>d. mk d) \<and> (\<forall>d. op d) \<longrightarrow>
       (\<exists>st'. download_request mk op (Static host) pt raw_request net p st = Inr st' \<and>
         dl_files st' = (dl_files st)(local_name ''/a'' (dl_counter st) \<mapsto> ?D))"
    unfolding D(8) by blast
  from curl_file [OF gl.gfs_api_axioms sample_ready site D(6,2,7), of NUL] obtain c' where
    x: "handle_with_curl (sample_site ''host/a'') gflib_calls 100 NUL ?c (Some ''/a'') ''host'' = Some (Inr (8, c'))"
      "tx (ctx_conn c') = header_line ''OK'' (length ?D) @ ?D" unfolding c D(8) by auto
  have "length ?D = 8" by simp
  with x h(2) have "tx (ctx_conn c3) = header_line ''OK'' 8 @ ?D" by (simp only: option.inject sum.inject prod.inject)
  then have "delivers (sample_net (tx (ctx_conn c3)) []) ''h'' (tx (ctx_conn c3))" by (intro sample_bytes) simp
  moreover note sample_get_a_facts
  moreover have "0 \<le> dl_counter sample_get_a" "dl_counter sample_get_a < int_max" by (simp_all add: sample_get_a_facts int_max_def)
  ultimately have "\<exists>st'. download_request (\<lambda>d. True) (\<lambda>d. True) (Static ''h'') 80 raw_request (sample_net (tx (ctx_conn c3)) []) (Heap 0)
      sample_get_a = Inr st' \<and> dl_files st' = (dl_files sample_get_a)(local_name ''/a'' (dl_counter sample_get_a) \<mapsto> ?D)"
    by (intro all [rule_format]) simp
  then obtain st' where
    "download_request (\<lambda>d. True) (\<lambda>d. True) (Static ''h'') 80 raw_request (sample_net (tx (ctx_conn c3)) []) (Heap 0) sample_get_a = Inr st'"
    "dl_files st' = (dl_files sample_get_a)(local_name ''/a'' 7 \<mapsto> ?D)" unfolding sample_get_a_facts(3) by blast
  with h show ?thesis by (intro exI [of _ c2] exI [of _ f2] exI [of _ c3] exI [of _ st']) simp
qed

end
