(* ===== verification/Proxy_Race.thy ===== *)
theory Proxy_Race
  imports Proxy_Cache_Correct
begin

text \<open>
  Why the theorems of \<open>Proxy_Cache_Correct\<close> ask for one worker in the daemon: with two (its option
  \<open>-t\<close>) a transfer can take the acknowledgement that belongs to the one before. The proxy hands a
  segment to its next request as soon as it has sent the last acknowledgement, which the worker of the
  finished transfer need not have received.
\<close>

text \<open>
  One thread asks for a short file and then for a longer one, over one segment of three bytes: worker 0
  serves the short file up to its last wait; worker 1 then takes the acknowledgement it waits for, and
  worker 0 that of the longer file, whose length makes it read past the end of the short one.
\<close>

definition race_sched :: "actor list" where
  "race_sched = replicate 5 (Thread 0 0) @ replicate 6 (Worker 0) @ replicate 15 (Thread 0 0) @ replicate 6 (Worker 1) @
     replicate 5 (Thread 0 0) @ replicate 2 (Worker 0)"

definition race_run :: "gfcontext proxy_cache result" where
  "race_run =
     bind_res (shm_create_segments (\<lambda>n. True) 10 1 3 True sample_kernel) (\<lambda>(qp, k1).
     bind_res (shm_create_segments (\<lambda>n. True) 10 1 3 False k1) (\<lambda>(qc, k2).
     run_system gflib_calls \<lparr>ctl_segment_size = 3, ctl_num_segments = 1\<rparr> race_sched
      (system_start 2 [[sample_web ''/b'', sample_web ''/a'']] qp qc sample_store k2 (rq_ctx (sample_web [])))))"

lemma race_ends: "case race_run of Inl e \<Rightarrow> e = Exit (- 1) | Inr s \<Rightarrow> False"
  by code_simp

text \<open>
  Property C25. Two workers break the daemon where one does not. From one start of the pools, with two
  requests of one thread for files of the table: with two workers there is an interleaving in which
  the daemon exits with -1 at an assertion in the middle of a transfer; with one worker every
  interleaving runs without an error, and the requests it has answered are the first ones of the
  thread, each with exactly its file.
\<close>

theorem two_workers_break:
  "\<exists>qp k1 qc k2. shm_create_segments (\<lambda>n. True) 10 1 3 True sample_kernel = Inr (qp, k1) \<and>
    shm_create_segments (\<lambda>n. True) 10 1 3 False k1 = Inr (qc, k2) \<and>
    (\<exists>sched. run_system gflib_calls \<lparr>ctl_segment_size = 3, ctl_num_segments = 1\<rparr> sched
      (system_start 2 [[sample_web ''/b'', sample_web ''/a'']] qp qc sample_store k2 (rq_ctx (sample_web []))) =
        Inl (Exit (- 1))) \<and>
    (\<forall>sched. \<exists>s n. run_system gflib_calls \<lparr>ctl_segment_size = 3, ctl_num_segments = 1\<rparr> sched
      (system_start 1 [[sample_web ''/b'', sample_web ''/a'']] qp qc sample_store k2 (rq_ctx (sample_web []))) = Inr s \<and>
      list_all2 (answered (\<lambda>x. tx (ctx_conn x)) (catalog_of sample_store))
        (take n [sample_web ''/b'', sample_web ''/a'']) (jb_done (sy_jobs s ! 0)))"
proof -
  have "kernel_fresh n k \<Longrightarrow> m \<le> n \<Longrightarrow> kernel_fresh m k" for m n k
    unfolding kernel_fresh_def by (meson less_le_trans)
  from this [OF sample_kernel_fresh] have fresh: "kernel_fresh (nat 1) sample_kernel" by simp
  from pools_made [of 1 "\<lambda>n. True" 3 10, OF _ _ _ _ fresh] obtain qp k1 qc k2 where
    p: "shm_create_segments (\<lambda>n. True) 10 1 3 True sample_kernel = Inr (qp, k1)"
      "shm_create_segments (\<lambda>n. True) 10 1 3 False k1 = Inr (qc, k2)" "pools_ready (nat 1) (nat 3) qp qc k2"
    by auto
  have two: "run_system gflib_calls \<lparr>ctl_segment_size = 3, ctl_num_segments = 1\<rparr> race_sched
      (system_start 2 [[sample_web ''/b'', sample_web ''/a'']] qp qc sample_store k2 (rq_ctx (sample_web []))) =
        Inl (Exit (- 1))"
    using race_ends p(1,2) by (simp add: race_run_def split: sum.splits)
  have ok: "\<forall>qs \<in> set [[sample_web ''/b'', sample_web ''/a'']]. \<forall>q \<in> set qs. rq_ok ctx_ready q"
    using sample_reqs_ok by (simp add: sample_reqs_def)
  have one: "\<exists>s n. run_system gflib_calls \<lparr>ctl_segment_size = 3, ctl_num_segments = 1\<rparr> sched
      (system_start 1 [[sample_web ''/b'', sample_web ''/a'']] qp qc sample_store k2 (rq_ctx (sample_web []))) = Inr s \<and>
      list_all2 (answered (\<lambda>x. tx (ctx_conn x)) (catalog_of sample_store))
        (take n [sample_web ''/b'', sample_web ''/a'']) (jb_done (sy_jobs s ! 0))" for sched
  proof -
    have lim: "(0 :: int) < 1" "(0 :: int) < 3" "(3 :: int) < 2 ^ 31" by simp_all
    show ?thesis
      using serving_runs [OF gl.gfs_api_axioms ok sample_store_good p(3) refl lim, of sched "rq_ctx (sample_web [])"]
      by fastforce
  qed
  from p(1,2) two one show ?thesis by blast
qed

end
