(* ===== verification/Shm_Demo.thy ===== *)
theory Shm_Demo
  imports Schedule
begin

text \<open>
  \<open>project3/shm_demo.c\<close>: two processes share a block of memory that holds a message, a flag, a mutex and
  a condition variable; the producer waits until the consumer has set the flag.
\<close>

section \<open>The block and the two processes\<close>

datatype who = Producer | Consumer

text \<open>The mutex is \<open>None\<close> before it is initialised, else free or held.\<close>

record blob_t =
  bl_buffer :: string
  bl_done :: int
  bl_mutex :: "who option option"
  bl_cv :: bool

definition zero_blob :: blob_t where
  "zero_blob = \<lparr>bl_buffer = replicate 4096 NUL, bl_done = 0, bl_mutex = None, bl_cv = False\<rparr>"

datatype producer_pc =
    DP_Open | DP_Size | DP_Map | DP_Clear | DP_Message | DP_Mutex | DP_Cond
  | DP_Lock | DP_Test | DP_Sleep | DP_Woken | DP_Unlock | DP_Unlink | DP_Return int

datatype consumer_pc =
    DC_Open | DC_Map | DC_Print | DC_Lock | DC_Done | DC_Signal | DC_Unlock | DC_Return int

text \<open>The segments by name (\<open>Some None\<close> is one of size 0), and what the consumer prints.\<close>

record shm_demo =
  sd_segs :: "string \<rightharpoonup> blob_t option"
  sd_producer :: producer_pc
  sd_consumer :: consumer_pc
  sd_printed :: "string list"

definition shm_name :: string where "shm_name = ''/salty''"
definition unlinked_name :: string where "unlinked_name = ''/shm_scratch''"

definition on_blob :: "shm_demo \<Rightarrow> (blob_t \<Rightarrow> 'a result option) \<Rightarrow> 'a result option" where
  "on_blob s f = (case sd_segs s shm_name of Some (Some b) \<Rightarrow> f b | _ \<Rightarrow> Some (Inl Bad_Deref))"

definition put_blob :: "shm_demo \<Rightarrow> blob_t \<Rightarrow> shm_demo" where
  "put_blob s b = s\<lparr>sd_segs := (sd_segs s)(shm_name \<mapsto> Some b)\<rparr>"

definition open_shm :: "shm_demo \<Rightarrow> shm_demo" where
  "open_shm s = (if sd_segs s shm_name = None then s\<lparr>sd_segs := (sd_segs s)(shm_name \<mapsto> None)\<rparr> else s)"

text \<open>Locking waits while the other process holds the mutex; a mutex that was never initialised is not one.\<close>

definition blob_lock :: "who \<Rightarrow> blob_t \<Rightarrow> blob_t result option" where
  "blob_lock w b =
     (case bl_mutex b of
        None \<Rightarrow> Some (Inl Bad_Deref)
      | Some None \<Rightarrow> Some (Inr (b\<lparr>bl_mutex := Some (Some w)\<rparr>))
      | Some (Some v) \<Rightarrow> None)"

definition blob_unlock :: "who \<Rightarrow> blob_t \<Rightarrow> blob_t result" where
  "blob_unlock w b = (if bl_mutex b = Some (Some w) then Inr (b\<lparr>bl_mutex := Some None\<rparr>) else Inl Bad_Unlock)"

text \<open>The branch without arguments; \<open>can_map\<close> says whether \<open>mmap\<close> succeeds.\<close>

definition producer_step :: "bool \<Rightarrow> shm_demo \<Rightarrow> shm_demo result option" where
  "producer_step can_map s =
     (case sd_producer s of
        DP_Open \<Rightarrow> Some (Inr ((open_shm s)\<lparr>sd_producer := DP_Size\<rparr>))
      | DP_Size \<Rightarrow>
          Some (Inr ((case sd_segs s shm_name of Some None \<Rightarrow> put_blob s zero_blob | _ \<Rightarrow> s)\<lparr>sd_producer := DP_Map\<rparr>))
      | DP_Map \<Rightarrow> Some (Inr (s\<lparr>sd_producer := if can_map then DP_Clear else DP_Return (-1)\<rparr>))
      | DP_Clear \<Rightarrow> on_blob s (\<lambda>b. Some (Inr ((put_blob s (b\<lparr>bl_done := 0\<rparr>))\<lparr>sd_producer := DP_Message\<rparr>)))
      | DP_Message \<Rightarrow> on_blob s (\<lambda>b. Some (bind_res (mem_put (bl_buffer b) 0 (cstr ''LTB #3'')) (\<lambda>m.
            Inr ((put_blob s (b\<lparr>bl_buffer := m\<rparr>))\<lparr>sd_producer := DP_Mutex\<rparr>))))
      | DP_Mutex \<Rightarrow> on_blob s (\<lambda>b. Some (Inr ((put_blob s (b\<lparr>bl_mutex := Some None\<rparr>))\<lparr>sd_producer := DP_Cond\<rparr>)))
      | DP_Cond \<Rightarrow> on_blob s (\<lambda>b. Some (Inr ((put_blob s (b\<lparr>bl_cv := True\<rparr>))\<lparr>sd_producer := DP_Lock\<rparr>)))
      | DP_Lock \<Rightarrow> on_blob s (\<lambda>b. map_option (\<lambda>r. bind_res r (\<lambda>b1. Inr ((put_blob s b1)\<lparr>sd_producer := DP_Test\<rparr>)))
            (blob_lock Producer b))
      | DP_Test \<Rightarrow> on_blob s (\<lambda>b. Some (
            if bl_done b = 0 then
              (if \<not> bl_cv b then Inl Bad_Deref
               else bind_res (blob_unlock Producer b) (\<lambda>b1. Inr ((put_blob s b1)\<lparr>sd_producer := DP_Sleep\<rparr>)))
            else Inr (s\<lparr>sd_producer := DP_Unlock\<rparr>)))
      | DP_Sleep \<Rightarrow> None
      | DP_Woken \<Rightarrow> on_blob s (\<lambda>b. map_option (\<lambda>r. bind_res r (\<lambda>b1. Inr ((put_blob s b1)\<lparr>sd_producer := DP_Test\<rparr>)))
            (blob_lock Producer b))
      | DP_Unlock \<Rightarrow> on_blob s (\<lambda>b. Some (bind_res (blob_unlock Producer b) (\<lambda>b1.
            Inr ((put_blob s b1)\<lparr>sd_producer := DP_Unlink\<rparr>))))
      | DP_Unlink \<Rightarrow> Some (Inr (s\<lparr>sd_segs := (sd_segs s)(unlinked_name := None), sd_producer := DP_Return 0\<rparr>))
      | DP_Return r \<Rightarrow> None)"

text \<open>The branch with arguments: it opens the segment like the producer, but never gives it a size.\<close>

definition consumer_step :: "bool \<Rightarrow> shm_demo \<Rightarrow> shm_demo result option" where
  "consumer_step can_map s =
     (case sd_consumer s of
        DC_Open \<Rightarrow> Some (Inr ((open_shm s)\<lparr>sd_consumer := DC_Map\<rparr>))
      | DC_Map \<Rightarrow> Some (Inr (s\<lparr>sd_consumer := if can_map then DC_Print else DC_Return (-1)\<rparr>))
      | DC_Print \<Rightarrow> on_blob s (\<lambda>b. Some (bind_res (scan_nul (bl_buffer b)) (\<lambda>m.
            Inr (s\<lparr>sd_printed := sd_printed s @ [m], sd_consumer := DC_Lock\<rparr>))))
      | DC_Lock \<Rightarrow> on_blob s (\<lambda>b. map_option (\<lambda>r. bind_res r (\<lambda>b1. Inr ((put_blob s b1)\<lparr>sd_consumer := DC_Done\<rparr>)))
            (blob_lock Consumer b))
      | DC_Done \<Rightarrow> on_blob s (\<lambda>b. Some (Inr ((put_blob s (b\<lparr>bl_done := 1\<rparr>))\<lparr>sd_consumer := DC_Signal\<rparr>)))
      | DC_Signal \<Rightarrow> on_blob s (\<lambda>b. Some (
            if \<not> bl_cv b then Inl Bad_Deref
            else Inr (s\<lparr>sd_producer := (if sd_producer s = DP_Sleep then DP_Woken else sd_producer s),
                        sd_consumer := DC_Unlock\<rparr>)))
      | DC_Unlock \<Rightarrow> on_blob s (\<lambda>b. Some (bind_res (blob_unlock Consumer b) (\<lambda>b1.
            Inr ((put_blob s b1)\<lparr>sd_consumer := DC_Return 0\<rparr>))))
      | DC_Return r \<Rightarrow> None)"

definition demo_act :: "bool \<Rightarrow> who \<Rightarrow> shm_demo \<Rightarrow> shm_demo result option" where
  "demo_act can_map w s = (case w of Producer \<Rightarrow> producer_step can_map s | Consumer \<Rightarrow> consumer_step can_map s)"

abbreviation run_demo :: "bool \<Rightarrow> who list \<Rightarrow> shm_demo \<Rightarrow> shm_demo result" where
  "run_demo can_map \<equiv> run_sched (demo_act can_map)"

definition demo_start :: "(string \<rightharpoonup> blob_t option) \<Rightarrow> shm_demo" where
  "demo_start segs = \<lparr>sd_segs = segs, sd_producer = DP_Open, sd_consumer = DC_Open, sd_printed = []\<rparr>"

section \<open>The handshake\<close>

text \<open>Where the processes can be once the producer has prepared the block.\<close>

fun holds :: "who \<Rightarrow> shm_demo \<Rightarrow> bool" where
  "holds Producer s = (sd_producer s \<in> {DP_Test, DP_Unlock})"
| "holds Consumer s = (sd_consumer s \<in> {DC_Done, DC_Signal, DC_Unlock})"

definition told :: "shm_demo \<Rightarrow> bool" where
  "told s \<longleftrightarrow> sd_consumer s \<in> {DC_Signal, DC_Unlock, DC_Return 0}"

definition signalled :: "shm_demo \<Rightarrow> bool" where
  "signalled s \<longleftrightarrow> sd_consumer s \<in> {DC_Unlock, DC_Return 0}"

definition printed :: "shm_demo \<Rightarrow> bool" where
  "printed s \<longleftrightarrow> sd_consumer s \<notin> {DC_Open, DC_Map, DC_Print}"

definition demo_ok :: "shm_demo \<Rightarrow> bool" where
  "demo_ok s \<longleftrightarrow>
     (\<exists>b rest. sd_segs s shm_name = Some (Some b) \<and> bl_buffer b = ''LTB #3'' @ NUL # rest \<and> bl_cv b \<and>
        bl_done b = (if told s then 1 else 0) \<and>
        (\<exists>m. bl_mutex b = Some m \<and> (\<forall>w. m = Some w \<longleftrightarrow> holds w s))) \<and>
     sd_producer s \<in> {DP_Lock, DP_Test, DP_Sleep, DP_Woken, DP_Unlock, DP_Unlink, DP_Return 0} \<and>
     (sd_producer s = DP_Sleep \<longrightarrow> \<not> signalled s) \<and>
     (sd_producer s \<in> {DP_Woken, DP_Unlock, DP_Unlink, DP_Return 0} \<longrightarrow> told s) \<and>
     (\<forall>r. sd_consumer s = DC_Return r \<longrightarrow> r = 0) \<and>
     sd_printed s = (if printed s then [''LTB #3''] else [])"

fun producer_left :: "producer_pc \<Rightarrow> bool \<Rightarrow> nat" where
  "producer_left DP_Lock t = 8"
| "producer_left DP_Test t = (if t then 4 else 7)"
| "producer_left DP_Sleep t = 6"
| "producer_left DP_Woken t = 5"
| "producer_left DP_Unlock t = 3"
| "producer_left DP_Unlink t = 2"
| "producer_left x t = 0"

fun consumer_left :: "consumer_pc \<Rightarrow> nat" where
  "consumer_left DC_Open = 7"
| "consumer_left DC_Map = 6"
| "consumer_left DC_Print = 5"
| "consumer_left DC_Lock = 4"
| "consumer_left DC_Done = 3"
| "consumer_left DC_Signal = 2"
| "consumer_left DC_Unlock = 1"
| "consumer_left (DC_Return r) = 0"

definition demo_left :: "shm_demo \<Rightarrow> nat" where
  "demo_left s = producer_left (sd_producer s) (told s) + consumer_left (sd_consumer s)"

definition demo_ended :: "shm_demo \<Rightarrow> bool" where
  "demo_ended s \<longleftrightarrow> sd_producer s = DP_Return 0 \<and> sd_consumer s = DC_Return 0"

lemmas demo_defs = demo_ok_def demo_left_def told_def signalled_def printed_def put_blob_def on_blob_def
  blob_lock_def blob_unlock_def

lemma names_differ [simp]: "shm_name \<noteq> unlinked_name" "unlinked_name \<noteq> shm_name"
  by (simp_all add: shm_name_def unlinked_name_def)

lemma all_who: "(\<forall>w. P w) \<longleftrightarrow> P Producer \<and> P Consumer"
  by (metis who.exhaust)

lemma producer_keeps:
  assumes "demo_ok s" and "producer_step True s = Some r"
  shows "case r of Inl e \<Rightarrow> False | Inr s' \<Rightarrow> demo_ok s' \<and> demo_left s' < demo_left s"
proof -
  obtain segs p c out where s: "s = \<lparr>sd_segs = segs, sd_producer = p, sd_consumer = c, sd_printed = out\<rparr>" by (cases s)
  show ?thesis
    using assms unfolding s by (cases p; cases c) (auto simp: producer_step_def demo_defs all_who split: option.splits if_splits)
qed

lemma consumer_keeps:
  assumes "demo_ok s" and "consumer_step True s = Some r"
  shows "case r of Inl e \<Rightarrow> False | Inr s' \<Rightarrow> demo_ok s' \<and> demo_left s' < demo_left s"
proof -
  obtain segs p c out where s: "s = \<lparr>sd_segs = segs, sd_producer = p, sd_consumer = c, sd_printed = out\<rparr>" by (cases s)
  show ?thesis
    using assms unfolding s
    by (cases c; cases p) (auto simp: consumer_step_def open_shm_def demo_defs all_who split: option.splits if_splits)
qed

interpretation dm: schedule_system "demo_act True" demo_ok demo_left "\<lambda>s. [Producer, Consumer]" demo_ended
proof
  fix s t r
  assume "demo_ok s" and "demo_act True t s = Some r"
  then have "case r of Inl e \<Rightarrow> False | Inr s' \<Rightarrow> demo_ok s' \<and> demo_left s' < demo_left s"
    by (cases t) (simp_all add: demo_act_def producer_keeps consumer_keeps)
  then show "\<exists>s'. r = Inr s' \<and> demo_ok s' \<and> demo_left s' < demo_left s \<and> [Producer, Consumer] = [Producer, Consumer]"
    by (cases r) auto
next
  fix s
  assume ok: "demo_ok s" and "\<not> demo_ended s"
  obtain segs p c out where s: "s = \<lparr>sd_segs = segs, sd_producer = p, sd_consumer = c, sd_printed = out\<rparr>" by (cases s)
  have "producer_step True s \<noteq> None \<or> consumer_step True s \<noteq> None"
    using ok \<open>\<not> demo_ended s\<close> unfolding s
    by (cases p; cases c) (auto simp: producer_step_def consumer_step_def demo_ended_def demo_defs all_who split: option.splits)
  then show "\<exists>t \<in> set [Producer, Consumer]. demo_act True t s \<noteq> None" by (auto simp: demo_act_def)
next
  fix s t s'
  assume "demo_ended s" and "demo_act True t s = Some (Inr s')"
  then show "demo_ended s'"
    by (cases t) (simp_all add: demo_act_def demo_ended_def producer_step_def consumer_step_def)
qed

text \<open>The producer's preparation, on no segment, an empty one or one that an earlier run has left.\<close>

lemma demo_prepared:
  assumes "\<And>b. segs shm_name = Some (Some b) \<Longrightarrow> length (bl_buffer b) = 4096"
  shows "\<exists>s. run_demo True (replicate 7 Producer @ sched) (demo_start segs) = run_demo True sched s \<and> demo_ok s \<and> demo_left s = 15"
proof -
  define b where "b = (case segs shm_name of Some (Some b) \<Rightarrow> b | _ \<Rightarrow> zero_blob)"
  have len: "length (bl_buffer b) = 4096" using assms by (simp add: b_def zero_blob_def split: option.splits)
  define b1 where "b1 = b\<lparr>bl_done := 0, bl_buffer := cstr ''LTB #3'' @ drop 7 (bl_buffer b), bl_mutex := Some None, bl_cv := True\<rparr>"
  let ?s = "\<lparr>sd_segs = segs(shm_name \<mapsto> Some b1), sd_producer = DP_Lock, sd_consumer = DC_Open, sd_printed = []\<rparr>"
  have "run_demo True (replicate 7 Producer @ sched) (demo_start segs) = run_demo True sched ?s"
    using len
    by (cases "segs shm_name"; cases "the (segs shm_name)")
      (simp_all add: eval_nat_numeral demo_start_def demo_act_def producer_step_def open_shm_def on_blob_def put_blob_def
        mem_put_def b1_def b_def cstr_def)
  moreover have "demo_ok ?s" by (simp add: demo_defs all_who b1_def cstr_def)
  moreover have "demo_left ?s = 15" by (simp add: demo_left_def)
  ultimately show ?thesis by blast
qed

section \<open>Properties\<close>

text \<open>
  Further fact. Once the producer has prepared the block, every interleaving is right: the consumer prints the
  message, and the producer does not return before the consumer has set the flag.
\<close>

theorem demo_handshake:
  assumes "\<And>b. segs shm_name = Some (Some b) \<Longrightarrow> length (bl_buffer b) = 4096"
  shows "\<exists>s. run_demo True (replicate 7 Producer @ sched) (demo_start segs) = Inr s \<and>
    (sd_consumer s = DC_Return r \<longrightarrow> r = 0 \<and> sd_printed s = [''LTB #3'']) \<and>
    (sd_producer s = DP_Return r \<longrightarrow> r = 0 \<and> told s)"
proof -
  from demo_prepared [of segs sched] assms obtain s0 where
    s0: "run_demo True (replicate 7 Producer @ sched) (demo_start segs) = run_demo True sched s0" "demo_ok s0" by auto
  from dm.run_good [OF s0(2), of sched] obtain s where "run_demo True sched s0 = Inr s" "demo_ok s" by blast
  with s0(1) show ?thesis by (auto simp: demo_ok_def printed_def)
qed

theorem demo_handshake_witness:
  "\<exists>s. run_demo True (replicate 7 Producer @ [Consumer, Producer]) (demo_start Map.empty) = Inr s"
  using demo_handshake [of Map.empty "[Consumer, Producer]"] by auto

text \<open>
  Further fact. The two processes end when they take turns; the segment is still there, because the producer
  removes another name.
\<close>

theorem demo_ends:
  assumes "\<And>b. segs shm_name = Some (Some b) \<Longrightarrow> length (bl_buffer b) = 4096"
  shows "\<exists>s. run_demo True (replicate 7 Producer @ concat (replicate 15 [Producer, Consumer])) (demo_start segs) = Inr s \<and>
    sd_producer s = DP_Return 0 \<and> sd_consumer s = DC_Return 0 \<and> sd_printed s = [''LTB #3''] \<and> sd_segs s shm_name \<noteq> None"
proof -
  from demo_prepared [of segs "concat (replicate 15 [Producer, Consumer])"] assms obtain s0 where
    s0: "run_demo True (replicate 7 Producer @ concat (replicate 15 [Producer, Consumer])) (demo_start segs) =
      run_demo True (concat (replicate 15 [Producer, Consumer])) s0" "demo_ok s0" "demo_left s0 = 15" by blast
  from dm.fair_ends [OF s0(2), of 15] s0(3) obtain s where
    "run_demo True (concat (replicate 15 [Producer, Consumer])) s0 = Inr s" "demo_ok s" "demo_ended s" by auto
  with s0(1) show ?thesis by (auto simp: demo_ok_def printed_def demo_ended_def)
qed

theorem demo_ends_witness:
  "\<exists>s. run_demo True (replicate 7 Producer @ concat (replicate 15 [Producer, Consumer])) (demo_start Map.empty) = Inr s \<and>
    sd_segs s shm_name \<noteq> None"
  using demo_ends [of Map.empty] by auto

text \<open>
  Further fact. A consumer that comes first opens an empty segment and reads memory that is not there; and when
  an earlier run has left the segment, it answers the old message, after which the producer clears the
  flag and waits for ever.
\<close>

theorem demo_early_consumer:
  shows "run_demo True [Consumer, Consumer, Consumer] (demo_start Map.empty) = Inl Bad_Deref"
    and "\<exists>s. run_demo True (replicate 7 Consumer @ replicate 9 Producer)
        (demo_start [shm_name \<mapsto> Some \<lparr>bl_buffer = cstr ''LTB #3'' @ replicate 4089 NUL, bl_done = 1, bl_mutex = Some None, bl_cv = True\<rparr>]) =
          Inr s \<and> sd_consumer s = DC_Return 0 \<and> sd_producer s = DP_Sleep \<and> (\<forall>sched. run_demo True sched s = Inr s)"
proof -
  show "run_demo True [Consumer, Consumer, Consumer] (demo_start Map.empty) = Inl Bad_Deref"
    by (simp add: demo_start_def demo_act_def consumer_step_def open_shm_def on_blob_def)
  let ?b = "\<lparr>bl_buffer = cstr ''LTB #3'' @ replicate 4089 NUL, bl_done = 0, bl_mutex = Some None, bl_cv = True\<rparr>"
  let ?s = "\<lparr>sd_segs = [shm_name \<mapsto> Some ?b], sd_producer = DP_Sleep, sd_consumer = DC_Return 0, sd_printed = [''LTB #3'']\<rparr>"
  have seven: "replicate 7 x = [x, x, x, x, x, x, x]" "replicate 9 x = [x, x, x, x, x, x, x, x, x]" for x :: who
    by (simp_all add: eval_nat_numeral)
  have "run_demo True (replicate 7 Consumer @ replicate 9 Producer)
      (demo_start [shm_name \<mapsto> Some \<lparr>bl_buffer = cstr ''LTB #3'' @ rest, bl_done = 1, bl_mutex = Some None, bl_cv = True\<rparr>]) =
    Inr \<lparr>sd_segs = [shm_name \<mapsto> Some \<lparr>bl_buffer = cstr ''LTB #3'' @ rest, bl_done = 0, bl_mutex = Some None, bl_cv = True\<rparr>],
      sd_producer = DP_Sleep, sd_consumer = DC_Return 0, sd_printed = [''LTB #3'']\<rparr>" for rest
    by (simp add: seven demo_start_def demo_act_def consumer_step_def producer_step_def open_shm_def on_blob_def
        put_blob_def blob_lock_def blob_unlock_def mem_put_def cstr_def)
  then have "run_demo True (replicate 7 Consumer @ replicate 9 Producer)
      (demo_start [shm_name \<mapsto> Some (?b\<lparr>bl_done := 1\<rparr>)]) = Inr ?s" by simp
  moreover have "run_demo True sched ?s = Inr ?s" for sched
    by (induction sched) (auto simp: demo_act_def producer_step_def consumer_step_def split: who.split)
  ultimately show "\<exists>s. run_demo True (replicate 7 Consumer @ replicate 9 Producer)
        (demo_start [shm_name \<mapsto> Some \<lparr>bl_buffer = cstr ''LTB #3'' @ replicate 4089 NUL, bl_done = 1, bl_mutex = Some None, bl_cv = True\<rparr>]) =
          Inr s \<and> sd_consumer s = DC_Return 0 \<and> sd_producer s = DP_Sleep \<and> (\<forall>sched. run_demo True sched s = Inr s)"
    by (intro exI [of _ ?s]) simp
qed

end
