(* ===== verification/Simple_Curl.thy ===== *)
theory Simple_Curl
  imports Curl_Handler
begin

text \<open>
  \<open>project3/simplecurl.c\<close>: asks for the length of a page, then fetches it into memory and prints both; over
  the libcurl of \<open>Curl_Handler\<close>.
\<close>

record memory_struct =
  ms_memory :: "string option"
  ms_size :: nat

text \<open>
  The callback returns the number of bytes it has taken; without memory it returns 0, with the old
  pointer lost.
\<close>

definition WriteMemoryCallback :: "nat \<Rightarrow> string \<Rightarrow> memory_struct \<Rightarrow> (nat \<times> memory_struct) result" where
  "WriteMemoryCallback avail data m =
     (let n = ms_size m + length data + 1; old = (case ms_memory m of None \<Rightarrow> [] | Some p \<Rightarrow> p)
      in if avail < n then Inr (0, m\<lparr>ms_memory := None\<rparr>)
         else bind_res (mem_put (take n old @ replicate (n - length old) NUL) (ms_size m) data) (\<lambda>m1.
              bind_res (mem_put m1 (ms_size m + length data) [NUL]) (\<lambda>m2.
              Inr (length data, \<lparr>ms_memory = Some m2, ms_size = ms_size m + length data\<rparr>))))"

text \<open>libcurl gives the callback one lump after the other and stops when one is not taken as a whole.\<close>

primrec take_lumps :: "nat \<Rightarrow> string list \<Rightarrow> memory_struct \<Rightarrow> (bool \<times> memory_struct) result" where
  "take_lumps avail [] m = Inr (True, m)"
| "take_lumps avail (d # ds) m =
     bind_res (WriteMemoryCallback avail d m) (\<lambda>(n, m1).
       if n = length d then take_lumps avail ds m1 else Inr (False, m1))"

definition CURLE_WRITE_ERROR :: int where "CURLE_WRITE_ERROR = 23"

definition perform :: "'h curl_lib \<Rightarrow> nat \<Rightarrow> 'h \<Rightarrow> memory_struct \<Rightarrow> (int \<times> 'h \<times> memory_struct) result" where
  "perform lib avail h m =
     (case curl_perform lib h of (lumps, code, h1) \<Rightarrow>
        bind_res (take_lumps avail lumps m) (\<lambda>(ok, m1). Inr (if ok then code else CURLE_WRITE_ERROR, h1, m1)))"

text \<open>What the program prints. The first code is overwritten by that of the query for the length.\<close>

datatype printout = Filesize int | Failed int | Separator | Retrieved nat | Data string

definition simplecurl_main :: "'h curl_lib \<Rightarrow> nat \<Rightarrow> char \<Rightarrow> string \<Rightarrow> printout list result" where
  "simplecurl_main lib avail junk url =
     bind_res (perform lib avail (curl_open lib url) \<lparr>ms_memory = Some [junk], ms_size = 0\<rparr>) (\<lambda>(code, h, m).
     let (res, filesize) = curl_length lib h;
         first = (if res \<noteq> 0 then Failed res else Filesize filesize)
     in bind_res (perform lib avail (curl_body lib h) m) (\<lambda>(res2, h2, m2).
        if res2 \<noteq> 0 then Inr [first, Separator, Failed res2]
        else (case ms_memory m2 of
                None \<Rightarrow> Inl Null_Deref
              | Some mem \<Rightarrow> bind_res (scan_nul mem) (\<lambda>text.
                  Inr [first, Separator, Retrieved (ms_size m2), Data text]))))"

section \<open>The memory as that of the other callback\<close>

lemma take_lumps_write:
  "write_lumps avail ds m = Inr m' \<Longrightarrow>
    take_lumps avail ds \<lparr>ms_memory = Some (md_memory m), ms_size = md_size m\<rparr> =
      Inr (True, \<lparr>ms_memory = Some (md_memory m'), ms_size = md_size m'\<rparr>)"
proof (induction ds arbitrary: m)
  case (Cons d ds)
  from Cons.prems obtain m1 where m1: "write_callback avail d m = Inr m1" "write_lumps avail ds m1 = Inr m'"
    by (auto simp: bind_res_eq_Inr)
  then have "WriteMemoryCallback avail d \<lparr>ms_memory = Some (md_memory m), ms_size = md_size m\<rparr> =
      Inr (length d, \<lparr>ms_memory = Some (md_memory m1), ms_size = md_size m1\<rparr>)"
    by (auto simp: WriteMemoryCallback_def write_callback_def Let_def bind_res_eq_Inr split: if_splits)
  with Cons.IH [OF m1(2)] show ?case by simp
qed simp

text \<open>After data has come, the byte behind it is the terminator.\<close>

lemma write_lumps_ended:
  assumes "write_lumps avail ds m = Inr m'" and "ds \<noteq> []"
  shows "\<exists>rest. md_memory m' = take (md_size m') (md_memory m') @ NUL # rest \<and> md_size m' < length (md_memory m')"
  using assms
proof (induction ds arbitrary: m)
  case (Cons d ds)
  from Cons.prems obtain m1 where m1: "write_callback avail d m = Inr m1" "write_lumps avail ds m1 = Inr m'"
    by (auto simp: bind_res_eq_Inr)
  show ?case
  proof (cases "ds = []")
    case True
    with m1 have w: "write_callback avail d m = Inr m'" by simp
    then obtain a where "mem_put a (md_size m') [NUL] = Inr (md_memory m')"
      by (auto simp: write_callback_def Let_def bind_res_eq_Inr split: if_splits)
    then have a: "md_memory m' = take (md_size m') a @ NUL # drop (Suc (md_size m')) a" "md_size m' < length a"
      by (auto simp: mem_put_def split: if_splits)
    have "length (md_memory m') = length a" using a by simp
    moreover have "take (md_size m') (md_memory m') = take (md_size m') a" using a(2) by (simp add: a(1))
    ultimately show ?thesis using a by metis
  next
    case False
    with Cons.IH [OF m1(2)] show ?thesis by blast
  qed
qed simp

section \<open>Properties\<close>

text \<open>
  Further fact. The program prints the length the site announces and the page it then gives, however it is cut
  (up to a zero byte in it).
\<close>

theorem simplecurl_prints:
  assumes "curl_perform lib (curl_open lib url) = ([], code, h)" and "curl_length lib h = (0, n)"
    and "curl_perform lib (curl_body lib h) = (lumps, 0, h2)" and "lumps \<noteq> []" and "length (concat lumps) < avail"
  shows "simplecurl_main lib avail junk url =
    Inr [Filesize n, Separator, Retrieved (length (concat lumps)), Data (takeWhile (\<lambda>c. c \<noteq> NUL) (concat lumps))]"
proof -
  let ?m = "\<lparr>md_memory = [junk], md_size = 0\<rparr>"
  have "lump_holds ?m []" by (simp add: lump_holds_def mem_slice_def)
  from write_lumps_holds [OF this, of lumps avail] assms(5) obtain m' where
    m': "write_lumps avail lumps ?m = Inr m'" "lump_holds m' (concat lumps)" by auto
  from write_lumps_ended [OF m'(1) assms(4)] obtain rest where r: "md_memory m' = take (md_size m') (md_memory m') @ NUL # rest"
    by blast
  have t: "take (md_size m') (md_memory m') = concat lumps" "md_size m' = length (concat lumps)"
    using m'(2) by (auto simp: lump_holds_def mem_slice_def split: if_splits)
  have "scan_nul (xs @ NUL # rest) = Inr (takeWhile (\<lambda>c. c \<noteq> NUL) xs)" for xs by (induction xs) auto
  then have "scan_nul (md_memory m') = Inr (takeWhile (\<lambda>c. c \<noteq> NUL) (concat lumps))" using r t(1) by metis
  then show ?thesis
    using assms(1-3) take_lumps_write [OF m'(1)] t(2) by (simp add: simplecurl_main_def perform_def Let_def)
qed

theorem simplecurl_prints_witness:
  "\<exists>lib :: nat curl_lib. simplecurl_main lib 100 NUL ''url'' =
     Inr [Filesize 4, Separator, Retrieved (length (concat [''ab'', ''cd''])), Data ''abcd'']"
proof -
  let ?lib = "\<lparr>curl_open = (\<lambda>u. 0), curl_body = Suc, curl_perform = (\<lambda>h. (if h = 0 then [] else [''ab'', ''cd''], 0, h)),
    curl_length = (\<lambda>h. (0, 4)), curl_response = (\<lambda>h. 200)\<rparr> :: nat curl_lib"
  show ?thesis
    using simplecurl_prints [of ?lib "''url''" 0 0 4 "[''ab'', ''cd'']" 1 100 NUL] by (intro exI [of _ ?lib]) simp
qed

text \<open>
  Further fact. An empty page makes it read memory that was never written: the byte of the first \<open>malloc\<close>
  is not a terminator.
\<close>

theorem simplecurl_empty_page:
  assumes "curl_perform lib (curl_open lib url) = ([], code, h)" and "curl_perform lib (curl_body lib h) = ([], 0, h2)"
    and "junk \<noteq> NUL"
  shows "simplecurl_main lib avail junk url = Inl Out_Of_Bounds"
  using assms by (simp add: simplecurl_main_def perform_def Let_def split: prod.splits)

theorem simplecurl_empty_page_witness:
  "\<exists>lib :: nat curl_lib. simplecurl_main lib 100 (CHR ''x'') ''url'' = Inl Out_Of_Bounds"
proof -
  let ?lib = "\<lparr>curl_open = (\<lambda>u. 0), curl_body = Suc, curl_perform = (\<lambda>h. ([], 0, h)),
    curl_length = (\<lambda>h. (0, 0)), curl_response = (\<lambda>h. 200)\<rparr> :: nat curl_lib"
  show ?thesis
    using simplecurl_empty_page [of ?lib "''url''" 0 0 1 "CHR ''x''" 100] by (intro exI [of _ ?lib]) simp
qed

end
