(* ===== verification/Get_Num.thy ===== *)
theory Get_Num
  imports Options
begin

text \<open>
  Numbers on command lines: \<open>project3/get_num.c\<close>, which accepts a word only if all of it is a number in
  the range and the base its flags ask for. The other programs use \<open>atoi\<close>, which accepts anything.
\<close>

section \<open>\<open>strtol\<close>\<close>

text \<open>The digits up to base 36; anything else counts as 36.\<close>

definition digit_of :: "char \<Rightarrow> int" where
  "digit_of c =
     (if isdigit c then byte_val c - 48
      else if CHR ''a'' \<le> c \<and> c \<le> CHR ''z'' then byte_val c - 87
      else if CHR ''A'' \<le> c \<and> c \<le> CHR ''Z'' then byte_val c - 55
      else 36)"

definition val_in :: "int \<Rightarrow> string \<Rightarrow> int" where
  "val_in b s = foldl (\<lambda>a c. b * a + digit_of c) 0 s"

definition split_sign :: "string \<Rightarrow> bool \<times> string" where
  "split_sign s =
     (case s of
        [] \<Rightarrow> (False, [])
      | c # cs \<Rightarrow> if c = CHR ''-'' then (True, cs) else if c = CHR ''+'' then (False, cs) else (False, s))"

definition hex_prefix :: "string \<Rightarrow> bool" where
  "hex_prefix s \<longleftrightarrow> 3 \<le> length s \<and> s ! 0 = CHR ''0'' \<and> (s ! 1 = CHR ''x'' \<or> s ! 1 = CHR ''X'') \<and> digit_of (s ! 2) < 16"

text \<open>The base that the digits have and where they start, for base 0 by their first characters.\<close>

definition split_base :: "int \<Rightarrow> string \<Rightarrow> int \<times> string" where
  "split_base base s =
     (if (base = 0 \<or> base = 16) \<and> hex_prefix s then (16, drop 2 s)
      else if base = 0 then (if s \<noteq> [] \<and> hd s = CHR ''0'' then (8, s) else (10, s))
      else (base, s))"

text \<open>The value, what follows the number (the whole string if there is none), and whether it was out of range.\<close>

definition strtol :: "string \<Rightarrow> int \<Rightarrow> int \<times> string \<times> bool" where
  "strtol s base =
     (case split_sign (dropWhile isspace s) of
        (neg, t) \<Rightarrow>
          (case split_base base t of
             (b, u) \<Rightarrow>
               let ds = takeWhile (\<lambda>c. digit_of c < b) u;
                   v = (if neg then - val_in b ds else val_in b ds)
               in if ds = [] then (0, s, False)
                  else (clamp_long v, dropWhile (\<lambda>c. digit_of c < b) u, clamp_long v \<noteq> v)))"

section \<open>The functions of \<open>get_num.c\<close>\<close>

unbundle bit_operations_syntax

definition GN_NONNEG :: int where "GN_NONNEG = 1"
definition GN_GT_0 :: int where "GN_GT_0 = 2"
definition GN_ANY_BASE :: int where "GN_ANY_BASE = 64"
definition GN_BASE_8 :: int where "GN_BASE_8 = 128"
definition GN_BASE_16 :: int where "GN_BASE_16 = 256"

text \<open>\<open>gnFail\<close> prints what is wrong and exits.\<close>

definition gnFail :: "'a result" where
  "gnFail = Inl (Exit 1)"

definition base_of :: "int \<Rightarrow> int" where
  "base_of flags =
     (if flags AND GN_ANY_BASE \<noteq> 0 then 0 else if flags AND GN_BASE_8 \<noteq> 0 then 8
      else if flags AND GN_BASE_16 \<noteq> 0 then 16 else 10)"

definition getNum :: "string option \<Rightarrow> int \<Rightarrow> int result" where
  "getNum arg flags =
     (case arg of
        None \<Rightarrow> gnFail
      | Some s \<Rightarrow>
          if s = [] then gnFail
          else (case strtol s (base_of flags) of
             (res, endptr, errno) \<Rightarrow>
               if errno then gnFail
               else if endptr \<noteq> [] then gnFail
               else if flags AND GN_NONNEG \<noteq> 0 \<and> res < 0 then gnFail
               else if flags AND GN_GT_0 \<noteq> 0 \<and> res \<le> 0 then gnFail
               else Inr res))"

definition getLong :: "string option \<Rightarrow> int \<Rightarrow> int result" where
  "getLong arg flags = getNum arg flags"

definition getInt :: "string option \<Rightarrow> int \<Rightarrow> int result" where
  "getInt arg flags =
     bind_res (getNum arg flags) (\<lambda>res.
       if int_max < res \<or> res < - int_max - 1 then gnFail else Inr res)"

section \<open>Numbers in any base\<close>

definition char_in :: "nat \<Rightarrow> char" where
  "char_in d = (if d < 10 then digit_char d else char_of (87 + d))"

function digits_in :: "nat \<Rightarrow> nat \<Rightarrow> string" where
  "digits_in b n = (if n < b \<or> b < 2 then [char_in n] else digits_in b (n div b) @ [char_in (n mod b)])"
  by pat_completeness auto
termination by (relation "measure snd") auto

declare digits_in.simps [simp del]

lemma digit_of_char_in:
  assumes "d < 36"
  shows "digit_of (char_in d) = int d"
proof (cases "d < 10")
  case True
  then show ?thesis using digit_char_facts [OF True] by (simp add: digit_of_def char_in_def digit_val_def)
next
  case False
  then have v: "(of_char (char_of (87 + d)) :: nat) = 87 + d" using assms by simp
  have c: "char_in d = char_of (87 + d)" using False by (simp add: char_in_def)
  have "\<not> isdigit (char_in d)" "CHR ''a'' \<le> char_in d" "char_in d \<le> CHR ''z''"
    using False assms v by (auto simp: isdigit_def less_eq_char_def c)
  then show ?thesis using v by (simp add: digit_of_def byte_val_def c)
qed

lemma char_in_plain:
  assumes "d < 36"
  shows "\<not> isspace (char_in d)" and "char_in d \<noteq> CHR ''-''" and "char_in d \<noteq> CHR ''+''"
proof -
  have "digit_of c \<noteq> int d" if "isspace c \<or> c = CHR ''-'' \<or> c = CHR ''+''" for c
    using that assms by (auto simp: digit_of_def isspace_def isdigit_def less_eq_char_def)
  then show "\<not> isspace (char_in d)" and "char_in d \<noteq> CHR ''-''" and "char_in d \<noteq> CHR ''+''"
    using digit_of_char_in [OF assms] by blast+
qed

lemma val_in_snoc [simp]: "val_in b (s @ [c]) = b * val_in b s + digit_of c"
  by (simp add: val_in_def)

lemma val_in_digits:
  assumes "2 \<le> b" and "b \<le> 36"
  shows "val_in (int b) (digits_in b n) = int n"
  using assms
proof (induction b n rule: digits_in.induct)
  case (1 b n)
  show ?case
  proof (cases "n < b")
    case True
    with 1 show ?thesis by (subst digits_in.simps) (simp add: val_in_def digit_of_char_in)
  next
    case False
    have "n mod b < 36" using "1.prems" by (meson less_le_trans mod_less_divisor not_numeral_le_zero not_le)
    then have "digit_of (char_in (n mod b)) = int (n mod b)" by (rule digit_of_char_in)
    moreover have "val_in (int b) (digits_in b (n div b)) = int (n div b)" using False 1 by simp
    ultimately show ?thesis
      using False "1.prems" by (subst digits_in.simps) (simp flip: of_nat_mult of_nat_add)
  qed
qed

lemma digits_in_chars:
  assumes "2 \<le> b" and "c \<in> set (digits_in b n)"
  shows "\<exists>d < b. c = char_in d"
  using assms
proof (induction b n rule: digits_in.induct)
  case (1 b n)
  show ?case
  proof (cases "n < b")
    case True
    with 1 show ?thesis by (subst (asm) (2) digits_in.simps) auto
  next
    case False
    with "1.prems" have "c \<in> set (digits_in b (n div b)) \<or> c = char_in (n mod b)"
      by (subst (asm) digits_in.simps) auto
    moreover have "n mod b < b" using "1.prems"(1) by simp
    moreover have "\<exists>d < b. c = char_in d" if "c \<in> set (digits_in b (n div b))"
      using "1.IH" False "1.prems"(1) that by auto
    ultimately show ?thesis by blast
  qed
qed

lemma digits_in_nonempty [simp]: "digits_in b n \<noteq> []"
  by (subst digits_in.simps) simp


section \<open>Scanning a printed number\<close>

text \<open>A number as its sign and its digits.\<close>

definition signed_in :: "nat \<Rightarrow> int \<Rightarrow> string" where
  "signed_in b n = (if n < 0 then CHR ''-'' # digits_in b (nat (- n)) else digits_in b (nat n))"

lemma digit_scan:
  assumes "2 \<le> b" and "b \<le> 36"
  shows "takeWhile (\<lambda>c. digit_of c < int b) (digits_in b n) = digits_in b n"
    and "dropWhile (\<lambda>c. digit_of c < int b) (digits_in b n) = []"
proof -
  have "\<forall>c \<in> set (digits_in b n). digit_of c < int b"
    using digits_in_chars [OF assms(1)] digit_of_char_in assms(2) by fastforce
  then show "takeWhile (\<lambda>c. digit_of c < int b) (digits_in b n) = digits_in b n"
    "dropWhile (\<lambda>c. digit_of c < int b) (digits_in b n) = []" by simp_all
qed

lemma no_hex_prefix:
  assumes "2 \<le> b" and "b \<le> 16"
  shows "\<not> hex_prefix (digits_in b n)"
proof
  assume h: "hex_prefix (digits_in b n)"
  then have "digits_in b n ! 1 \<in> set (digits_in b n)" by (simp add: hex_prefix_def)
  then obtain d where d: "d < b" "digits_in b n ! 1 = char_in d" using digits_in_chars [OF assms(1)] by blast
  have "digit_of (CHR ''x'') = 33" "digit_of (CHR ''X'') = 33"
    by (simp_all add: digit_of_def isdigit_def less_eq_char_def byte_val_def)
  with h d have "digit_of (char_in d) = 33" by (auto simp: hex_prefix_def)
  with digit_of_char_in [of d] d(1) assms(2) show False by simp
qed

lemma strtol_signed:
  assumes "2 \<le> b" and "b \<le> 16" and "- (2 ^ 63) \<le> n" and "n < 2 ^ 63"
  shows "strtol (signed_in b n) (int b) = (n, [], False)"
proof -
  let ?d = "digits_in b (nat \<bar>n\<bar>)"
  have "b \<le> 36" using assms(2) by simp
  note scan = digit_scan [OF assms(1) this, of "nat \<bar>n\<bar>"]
  obtain c cs where c: "?d = c # cs" by (cases ?d) auto
  then obtain d where "d < b" "c = char_in d" using digits_in_chars [OF assms(1), of c "nat \<bar>n\<bar>"] by auto
  then have plain: "\<not> isspace c" "c \<noteq> CHR ''-''" "c \<noteq> CHR ''+''" using char_in_plain [of d] assms(2) by auto
  have "dropWhile isspace (signed_in b n) = signed_in b n"
    using plain c by (auto simp: signed_in_def isspace_def less_eq_char_def)
  moreover have "split_sign (signed_in b n) = (n < 0, ?d)"
    using plain c by (auto simp: signed_in_def split_sign_def abs_if split: if_splits)
  moreover have "split_base (int b) ?d = (int b, ?d)"
    using no_hex_prefix [OF assms(1,2)] assms(1) by (simp add: split_base_def)
  moreover have "val_in (int b) ?d = \<bar>n\<bar>" using val_in_digits [of b "nat \<bar>n\<bar>"] assms(1,2) by simp
  moreover have "clamp_long n = n" using assms(3,4) by (simp add: clamp_long_def)
  moreover have "(if n < 0 then - \<bar>n\<bar> else \<bar>n\<bar>) = n" by simp
  ultimately show ?thesis
    by (simp only: strtol_def prod.case Let_def scan digits_in_nonempty if_False) simp
qed

section \<open>What is a number\<close>

text \<open>The words that are numbers in the base and the sign that the flags ask for, with their values.\<close>

lemma digit_plain:
  assumes "digit_of c < 36"
  shows "\<not> isspace c" and "c \<noteq> CHR ''-''" and "c \<noteq> CHR ''+''"
  using assms by (auto simp: digit_of_def isspace_def isdigit_def less_eq_char_def split: if_splits)

lemma sign_plain: "\<not> isspace CHR ''-''" "\<not> isspace CHR ''+''"
  by (simp_all add: isspace_def less_eq_char_def)

lemma base_of_cases: "base_of flags \<in> {0, 8, 16, 10}"
  by (simp add: base_of_def)

lemma split_base_prefixed:
  assumes "prefix \<in> {[], ''0x'', ''0X''}" and "ds \<noteq> []" and "\<forall>c \<in> set ds. digit_of c < b" and "prefix \<noteq> [] \<longrightarrow> b = 16"
    and "b = (if base \<noteq> 0 then base else if prefix \<noteq> [] then 16 else if hd ds = CHR ''0'' then 8 else 10)" and "base \<in> {0, 8, 16, 10}"
  shows "split_base base (prefix @ ds) = (b, ds)"
proof (cases "prefix = []")
  case True
  have "b \<le> 16" using assms(5,6) by (auto split: if_splits)
  have "\<not> hex_prefix ds"
  proof
    assume h: "hex_prefix ds"
    then have "ds ! 1 \<in> set ds" by (simp add: hex_prefix_def)
    with assms(3) \<open>b \<le> 16\<close> have "digit_of (ds ! 1) < 16" by fastforce
    with h show False by (auto simp: hex_prefix_def digit_of_def isdigit_def less_eq_char_def byte_val_def)
  qed
  with True assms(2,5) show ?thesis by (auto simp: split_base_def)
next
  case False
  obtain c cs where ds: "ds = c # cs" using assms(2) by (cases ds) auto
  have "hex_prefix (prefix @ ds)" using False assms(1,3,4) by (auto simp: hex_prefix_def ds)
  moreover have "base = 0 \<or> base = 16" using False assms(4,5) by (auto split: if_splits)
  ultimately show ?thesis using False assms(1,4) by (auto simp: split_base_def)
qed

lemma strtol_number:
  assumes "\<forall>c \<in> set space. isspace c" and "sign \<in> {[], ''-'', ''+''}" and "prefix \<in> {[], ''0x'', ''0X''}" and "ds \<noteq> []"
    and "\<forall>c \<in> set ds. digit_of c < b" and "prefix \<noteq> [] \<longrightarrow> b = 16"
    and "b = (if base \<noteq> 0 then base else if prefix \<noteq> [] then 16 else if hd ds = CHR ''0'' then 8 else 10)" and "base \<in> {0, 8, 16, 10}"
    and "r = (if sign = ''-'' then - val_in b ds else val_in b ds)"
  shows "strtol (space @ sign @ prefix @ ds) base = (clamp_long r, [], clamp_long r \<noteq> r)"
proof -
  obtain c cs where t: "prefix @ ds = c # cs" using assms(4) by (cases "prefix @ ds") auto
  have "b \<le> 16" using assms(7,8) by (auto split: if_splits)
  have "digit_of c < 36"
  proof (cases "prefix = []")
    case True
    with t assms(5) \<open>b \<le> 16\<close> show ?thesis by auto
  next
    case False
    then have "c = CHR ''0''" using t assms(3) by auto
    then show ?thesis by (simp add: digit_of_def isdigit_def byte_val_def less_eq_char_def)
  qed
  note c = digit_plain [OF this]
  have "dropWhile isspace (space @ sign @ prefix @ ds) = sign @ prefix @ ds"
  proof -
    have "\<not> isspace (hd (sign @ prefix @ ds))" "sign @ prefix @ ds \<noteq> []"
      using assms(2) c(1) sign_plain by (auto simp: t)
    then have "dropWhile isspace (sign @ prefix @ ds) = sign @ prefix @ ds" by (cases "sign @ prefix @ ds") simp_all
    with assms(1) show ?thesis by (simp add: dropWhile_append2)
  qed
  moreover have "split_sign (sign @ prefix @ ds) = (sign = ''-'', prefix @ ds)"
    using assms(2) c by (auto simp: t split_sign_def)
  moreover have "takeWhile (\<lambda>c. digit_of c < b) ds = ds" "dropWhile (\<lambda>c. digit_of c < b) ds = []"
    using assms(5) by simp_all
  ultimately show ?thesis
    using split_base_prefixed [OF assms(3-8)] assms(4,9) by (simp only: strtol_def prod.case Let_def if_False)
qed

section \<open>Properties\<close>

lemma number_accepted:
  assumes "arg = Some (space @ sign @ prefix @ ds)" and "\<forall>c \<in> set space. isspace c"
    and "sign \<in> {[], ''-'', ''+''}" and "prefix \<in> {[], ''0x'', ''0X''}" and "ds \<noteq> []" and "\<forall>c \<in> set ds. digit_of c < b"
    and "prefix \<noteq> [] \<longrightarrow> b = 16"
    and "b = (if base_of flags \<noteq> 0 then base_of flags else if prefix \<noteq> [] then 16 else if hd ds = CHR ''0'' then 8 else 10)"
    and "r = (if sign = ''-'' then - val_in b ds else val_in b ds)" and "- int_max - 1 \<le> r" and "r \<le> int_max"
    and "flags AND GN_NONNEG \<noteq> 0 \<longrightarrow> 0 \<le> r" and "flags AND GN_GT_0 \<noteq> 0 \<longrightarrow> 0 < r"
  shows "getInt arg flags = Inr r"
proof -
  have "clamp_long r = r" using assms(10,11) by (simp add: clamp_long_def int_max_def)
  then have "strtol (space @ sign @ prefix @ ds) (base_of flags) = (r, [], False)"
    unfolding strtol_number [OF assms(2-8) base_of_cases assms(9)] by simp
  then show ?thesis using assms(1,5,10-13) by (simp add: getInt_def getNum_def) auto
qed

text \<open>
  Property C27. Numbers are read back: every \<open>int\<close> that the flags allow, printed in the base they ask for
  (octal, hexadecimal or decimal, with a sign when it is negative), is what \<open>getInt\<close> returns.
\<close>

theorem get_int_round_trip:
  assumes "b \<in> {8, 10, 16}" and "base_of flags = int b" and "- int_max - 1 \<le> n" and "n \<le> int_max"
    and "flags AND GN_NONNEG = 0 \<or> 0 \<le> n" and "flags AND GN_GT_0 = 0 \<or> 0 < n"
  shows "getInt (Some (signed_in b n)) flags = Inr n"
proof -
  have "strtol (signed_in b n) (int b) = (n, [], False)"
    using assms(1,3,4) by (intro strtol_signed) (auto simp: int_max_def)
  moreover have "signed_in b n \<noteq> []" by (simp add: signed_in_def)
  ultimately show ?thesis using assms(2-6) by (auto simp: getInt_def getNum_def)
qed

theorem get_int_round_trip_witness:
  "getInt (Some (signed_in 8 420)) (GN_BASE_8 + GN_GT_0) = Inr 420"
  by (rule get_int_round_trip) (simp_all add: base_of_def GN_ANY_BASE_def GN_BASE_8_def GN_GT_0_def GN_NONNEG_def int_max_def)

lemma accepted_form:
  assumes "getInt arg flags = Inr r"
  shows "- int_max - 1 \<le> r \<and> r \<le> int_max \<and> (flags AND GN_NONNEG \<noteq> 0 \<longrightarrow> 0 \<le> r) \<and> (flags AND GN_GT_0 \<noteq> 0 \<longrightarrow> 0 < r) \<and>
    (\<exists>space sign prefix ds b. arg = Some (space @ sign @ prefix @ ds) \<and> (\<forall>c \<in> set space. isspace c) \<and>
       sign \<in> {[], ''-'', ''+''} \<and> prefix \<in> {[], ''0x'', ''0X''} \<and> ds \<noteq> [] \<and> (\<forall>c \<in> set ds. digit_of c < b) \<and>
       (prefix \<noteq> [] \<longrightarrow> b = 16) \<and>
       b = (if base_of flags \<noteq> 0 then base_of flags else if prefix \<noteq> [] then 16 else if hd ds = CHR ''0'' then 8 else 10) \<and>
       r = (if sign = ''-'' then - val_in b ds else val_in b ds))"
proof -
  from assms obtain s endptr where s: "arg = Some s" "s \<noteq> []" "strtol s (base_of flags) = (r, [], False)"
    and f: "flags AND GN_NONNEG \<noteq> 0 \<longrightarrow> 0 \<le> r" "flags AND GN_GT_0 \<noteq> 0 \<longrightarrow> 0 < r" "- int_max - 1 \<le> r" "r \<le> int_max"
    by (auto simp: getInt_def getNum_def gnFail_def bind_res_eq_Inr split: option.splits if_splits prod.splits)
  obtain neg t where n: "split_sign (dropWhile isspace s) = (neg, t)" by fastforce
  obtain b u where b: "split_base (base_of flags) t = (b, u)" by fastforce
  let ?ds = "takeWhile (\<lambda>c. digit_of c < b) u" and ?rest = "dropWhile (\<lambda>c. digit_of c < b) u"
  let ?v = "if neg then - val_in b ?ds else val_in b ?ds"
  have st: "strtol s (base_of flags) = (if ?ds = [] then (0, s, False) else (clamp_long ?v, ?rest, clamp_long ?v \<noteq> ?v))"
    using n b by (simp add: strtol_def Let_def)
  have ds: "?ds \<noteq> []" using st s by (metis prod.inject)
  then have "?rest = []" "r = ?v" using st s(3) by (simp_all only: if_False prod.inject) metis
  then have "?ds = u" by (metis append_Nil2 takeWhile_dropWhile_id)
  with ds \<open>r = ?v\<close> have u: "u \<noteq> []" "?ds = u" "r = (if neg then - val_in b u else val_in b u)" by metis+
  have sign: "dropWhile isspace s = (if neg then ''-'' else if dropWhile isspace s = t then [] else ''+'') @ t"
    using n by (auto simp: split_sign_def split: list.splits if_splits)
  have t: "\<exists>prefix \<in> {[], ''0x'', ''0X''}. t = prefix @ u \<and> (prefix \<noteq> [] \<longrightarrow> b = 16) \<and>
    b = (if base_of flags \<noteq> 0 then base_of flags else if prefix \<noteq> [] then 16 else if hd u = CHR ''0'' then 8 else 10)"
  proof (cases "(base_of flags = 0 \<or> base_of flags = 16) \<and> hex_prefix t")
    case True
    then have "b = 16" "u = drop 2 t" using b by (simp_all add: split_base_def)
    moreover from True obtain x rest where "t = CHR ''0'' # x # rest" "x = CHR ''x'' \<or> x = CHR ''X''"
      by (cases t rule: list.exhaust; cases "tl t" rule: list.exhaust) (auto simp: hex_prefix_def)
    ultimately show ?thesis using True by auto
  next
    case False
    then show ?thesis using b u(1) by (auto simp: split_base_def split: if_splits)
  qed
  then obtain prefix where p: "prefix \<in> {[], ''0x'', ''0X''}" "t = prefix @ u" "prefix \<noteq> [] \<longrightarrow> b = 16"
    "b = (if base_of flags \<noteq> 0 then base_of flags else if prefix \<noteq> [] then 16 else if hd u = CHR ''0'' then 8 else 10)" by blast
  define sgn where "sgn = (if neg then ''-'' else if dropWhile isspace s = t then [] else ''+'')"
  have "s = takeWhile isspace s @ sgn @ prefix @ u" using sign p(2) takeWhile_dropWhile_id [of isspace s] by (simp add: sgn_def)
  moreover have "\<forall>c \<in> set (takeWhile isspace s). isspace c" by (meson set_takeWhileD)
  moreover have "sgn \<in> {[], ''-'', ''+''}" "neg \<longleftrightarrow> sgn = ''-''" by (auto simp: sgn_def)
  moreover have "\<forall>c \<in> set u. digit_of c < b" using u(2) by (simp add: takeWhile_eq_all_conv)
  ultimately have "\<exists>space sign prefix ds b. arg = Some (space @ sign @ prefix @ ds) \<and> (\<forall>c \<in> set space. isspace c) \<and>
       sign \<in> {[], ''-'', ''+''} \<and> prefix \<in> {[], ''0x'', ''0X''} \<and> ds \<noteq> [] \<and> (\<forall>c \<in> set ds. digit_of c < b) \<and>
       (prefix \<noteq> [] \<longrightarrow> b = 16) \<and>
       b = (if base_of flags \<noteq> 0 then base_of flags else if prefix \<noteq> [] then 16 else if hd ds = CHR ''0'' then 8 else 10) \<and>
       r = (if sign = ''-'' then - val_in b ds else val_in b ds)"
    using s(1) u(1,3) p(1,3,4)
    by (intro exI [of _ "takeWhile isspace s"] exI [of _ sgn] exI [of _ prefix] exI [of _ u] exI [of _ b] conjI) simp_all
  with f show ?thesis by simp
qed

text \<open>
  Property C26. Exactly the numbers are accepted: \<open>getInt\<close> returns a value if and only if its whole argument is
  white space, a sign and digits (with \<open>0x\<close> where the base allows it) of exactly this value, which fits an
  \<open>int\<close> and has the sign the flags ask for; for everything else it ends the program.
\<close>

theorem get_int_spec:
  "getInt arg flags = Inr r \<longleftrightarrow>
    - int_max - 1 \<le> r \<and> r \<le> int_max \<and> (flags AND GN_NONNEG \<noteq> 0 \<longrightarrow> 0 \<le> r) \<and> (flags AND GN_GT_0 \<noteq> 0 \<longrightarrow> 0 < r) \<and>
    (\<exists>space sign prefix ds b. arg = Some (space @ sign @ prefix @ ds) \<and> (\<forall>c \<in> set space. isspace c) \<and>
       sign \<in> {[], ''-'', ''+''} \<and> prefix \<in> {[], ''0x'', ''0X''} \<and> ds \<noteq> [] \<and> (\<forall>c \<in> set ds. digit_of c < b) \<and>
       (prefix \<noteq> [] \<longrightarrow> b = 16) \<and>
       b = (if base_of flags \<noteq> 0 then base_of flags else if prefix \<noteq> [] then 16 else if hd ds = CHR ''0'' then 8 else 10) \<and>
       r = (if sign = ''-'' then - val_in b ds else val_in b ds))"
  by (rule iffI [OF accepted_form], assumption, elim conjE exE) (rule number_accepted, assumption+)

theorem get_int_spec_witness: "getInt (Some '' +0x1F'') (GN_ANY_BASE + GN_GT_0) = Inr 31"
proof (rule iffD2 [OF get_int_spec], intro conjI exI)
  show "Some '' +0x1F'' = Some ('' '' @ ''+'' @ ''0x'' @ ''1F'')" by simp
  show "\<forall>c \<in> set '' ''. isspace c" "\<forall>c \<in> set ''1F''. digit_of c < 16" by code_simp+
  show "31 = (if ''+'' = ''-'' then - val_in 16 ''1F'' else val_in 16 ''1F'')" by code_simp
  show "(16 :: int) = (if base_of (GN_ANY_BASE + GN_GT_0) \<noteq> 0 then base_of (GN_ANY_BASE + GN_GT_0) else if ''0x'' \<noteq> [] then 16
      else if hd ''1F'' = CHR ''0'' then 8 else 10)" by (simp add: base_of_def GN_ANY_BASE_def GN_GT_0_def)
qed (simp_all add: GN_ANY_BASE_def GN_GT_0_def GN_NONNEG_def int_max_def)

text \<open>
  Further fact. On what \<open>getInt\<close> accepts as a decimal number, the \<open>atoi\<close> of the other programs gives
  the same value.
\<close>

theorem get_int_atoi:
  assumes "getInt (Some s) flags = Inr r" and "base_of flags = 10"
  shows "atoi s = r"
proof -
  have d: "digit_of c < 10 \<longleftrightarrow> isdigit c" for c
    by (auto simp: digit_of_def isdigit_def byte_val_def less_eq_char_def)
  have v: "val_in 10 ds = dec_val ds" if "\<forall>c \<in> set ds. isdigit c" for ds
    using that by (induction ds rule: rev_induct) (simp_all add: val_in_def dec_val_def digit_of_def digit_val_def)
  obtain neg t where n: "split_sign (dropWhile isspace s) = (neg, t)" by fastforce
  have b: "split_base 10 t = (10, t)" by (simp add: split_base_def)
  let ?ds = "takeWhile isdigit t"
  have "strtol s 10 = (r, [], False)" and r: "- int_max - 1 \<le> r" "r \<le> int_max" "s \<noteq> []"
    using assms by (auto simp: getInt_def getNum_def gnFail_def bind_res_eq_Inr split: if_splits prod.splits)
  then have "?ds \<noteq> []" "clamp_long (if neg then - dec_val ?ds else dec_val ?ds) = r"
    using v [of ?ds] set_takeWhileD [of _ isdigit t]
    by (auto simp: strtol_def n b d Let_def split: if_splits)
  moreover have "strtol10 s = clamp_long (if neg then - dec_val ?ds else dec_val ?ds)"
  proof (cases "dropWhile isspace s")
    case Nil
    with n show ?thesis by (simp only: strtol10_def split_sign_def list.case prod.inject) (auto simp: clamp_long_def dec_val_def)
  next
    case (Cons c cs)
    consider "c = CHR ''-''" "neg" "t = cs" | "c = CHR ''+''" "\<not> neg" "t = cs"
      | "c \<noteq> CHR ''-''" "c \<noteq> CHR ''+''" "\<not> neg" "t = c # cs"
      using n Cons by (auto simp: split_sign_def split: if_splits)
    then show ?thesis by cases (simp_all only: strtol10_def Cons list.case if_True if_False, simp_all)
  qed
  ultimately have "strtol10 s = r" by simp
  then show ?thesis using r by (simp add: atoi_def int_max_def) (simp add: int_word_sint)
qed

theorem get_int_atoi_witness: "atoi '' -42'' = - 42"
proof (rule get_int_atoi)
  show "getInt (Some '' -42'') 0 = Inr (- 42)" "base_of 0 = 10"
    by (simp_all add: getInt_def getNum_def strtol_def base_of_def GN_ANY_BASE_def GN_BASE_8_def GN_BASE_16_def
        GN_NONNEG_def GN_GT_0_def split_sign_def split_base_def isspace_def less_eq_char_def val_in_def digit_of_def
        isdigit_def byte_val_def clamp_long_def int_max_def)
qed

end
