(* ===== verification/Daemon_Main.thy ===== *)
theory Daemon_Main
  imports Proxy_Main
begin

text \<open>
  The rest of the daemon's \<open>main\<close> (\<open>project3/simplecached.c\<close>): the threads it starts, its end, and its signal
  handler. What its threads do is in \<open>Proxy_Cache\<close>, what happens before in \<open>Proxy_Start\<close>.
\<close>

section \<open>The threads\<close>

definition MAX_LEN :: nat where "MAX_LEN = 256"

record thread_info =
  thread_num :: int
  thread_id :: nat
  thread_name :: string

text \<open>The name that \<open>snprintf\<close> leaves in the buffer, cut to its size.\<close>

definition print_name :: "nat \<Rightarrow> string result" where
  "print_name i =
     bind_res (mem_put (replicate MAX_LEN NUL) 0 (cstr (take (MAX_LEN - 1) (''thread_'' @ dec_of_nat i)))) (\<lambda>name.
     cstr_at name 0)"

text \<open>The loop of \<open>init_threads\<close> for \<open>n\<close> further threads; \<open>create i\<close> is the id that \<open>pthread_create\<close> gives, if any.\<close>

primrec start_threads :: "(nat \<Rightarrow> nat option) \<Rightarrow> nat \<Rightarrow> nat \<Rightarrow> thread_info list result" where
  "start_threads create 0 i = Inr []"
| "start_threads create (Suc n) i =
     bind_res (print_name i) (\<lambda>name.
     case create i of
       None \<Rightarrow> Inl (Exit (-1))
     | Some t \<Rightarrow> bind_res (start_threads create n (Suc i)) (\<lambda>infos.
         Inr (\<lparr>thread_num = int i, thread_id = t, thread_name = name\<rparr> # infos)))"

definition init_threads :: "(nat \<Rightarrow> nat option) \<Rightarrow> int \<Rightarrow> thread_info list result" where
  "init_threads create num_threads = start_threads create (nat num_threads) 0"

section \<open>The end and the signal handler\<close>

text \<open>\<open>shm_clean_segments\<close> is called without its argument and follows whatever is in its place.\<close>

definition simplecached_end :: "'m ipc \<Rightarrow> unit result" where
  "simplecached_end k = bind_res (clean_control_mq cache_cmq_tx cache_cmq_rx k) (\<lambda>k1. Inl Bad_Deref)"

text \<open>
  After the pool has been made: the threads are started and joined. \<open>perform_task\<close> does not return, so
  \<open>main\<close> only gets past the joins when there are none.
\<close>

definition simplecached_serve :: "(nat \<Rightarrow> nat option) \<Rightarrow> int \<Rightarrow> 'm ipc \<Rightarrow> thread_info list result" where
  "simplecached_serve create nthreads k =
     bind_res (init_threads create nthreads) (\<lambda>tinfo.
     if tinfo = [] then bind_res (simplecached_end k) (\<lambda>u. Inr []) else Inr tinfo)"

definition cache_sig_handler :: "int \<Rightarrow> 'm ipc \<Rightarrow> 'm ipc result" where
  "cache_sig_handler signo k = (if signo = 2 \<or> signo = 15 then Inl (Exit signo) else Inr k)"

lemma print_name_fits:
  assumes "i < 10 ^ Suc 9"
  shows "print_name i = Inr (''thread_'' @ dec_of_nat i)"
proof -
  have "length (dec_of_nat i) \<le> 10" using length_dec_of_nat [OF assms] by simp
  then show ?thesis
    by (simp add: print_name_def MAX_LEN_def cstr_def mem_put_def cstr_at_def)
qed

lemma start_threads_all:
  assumes "\<forall>j < i + n. create j \<noteq> None" and "i + n \<le> 10 ^ Suc 9"
  shows "start_threads create n i =
    Inr (List.map (\<lambda>j. \<lparr>thread_num = int j, thread_id = the (create j), thread_name = ''thread_'' @ dec_of_nat j\<rparr>) [i ..< i + n])"
  using assms
proof (induction n arbitrary: i)
  case (Suc n)
  from Suc.prems have "print_name i = Inr (''thread_'' @ dec_of_nat i)" by (intro print_name_fits) simp
  moreover from Suc.prems(1) obtain t where "create i = Some t" by (auto dest: spec [of _ i])
  moreover have "[i ..< i + Suc n] = i # [Suc i ..< Suc i + n]" by (simp add: upt_rec)
  moreover have "start_threads create n (Suc i) = Inr (List.map (\<lambda>j. \<lparr>thread_num = int j, thread_id = the (create j),
      thread_name = ''thread_'' @ dec_of_nat j\<rparr>) [Suc i ..< Suc i + n])"
    using Suc.prems by (intro Suc.IH) simp_all
  ultimately show ?case by simp
qed simp

section \<open>Properties\<close>

text \<open>
  Further fact. The daemon starts as many workers as its option says, each with its own name, and then serves for ever.
\<close>

theorem daemon_workers:
  assumes "simplecached_opts (getopts ''t:c:h'' (Some daemon_long) [''-t'', dec_of_nat n])
      \<lparr>do_threads = 1, do_cachedir = ''locals.txt''\<rparr> = Inr opts"
    and "0 < n" and "n \<le> 10 ^ 9" and "\<forall>i < n. create i \<noteq> None"
  shows "\<exists>infos. simplecached_serve create (do_threads opts) k = Inr infos \<and> length infos = n \<and>
    (\<forall>i < n. thread_num (infos ! i) = int i \<and> thread_name (infos ! i) = ''thread_'' @ dec_of_nat i \<and>
      create i = Some (thread_id (infos ! i))) \<and>
    distinct (List.map thread_name infos)"
proof -
  have "atoi (dec_of_nat n) = int n" using atoi_dec [of n "[]"] assms(3) by simp
  then have "do_threads opts = int n" using assms(1) by (simp add: getopts.simps(2)) (auto simp: Let_def)
  moreover have "start_threads create n 0 = Inr (List.map (\<lambda>j. \<lparr>thread_num = int j, thread_id = the (create j),
      thread_name = ''thread_'' @ dec_of_nat j\<rparr>) [0 ..< 0 + n])"
    using assms(3,4) by (intro start_threads_all) simp_all
  ultimately show ?thesis
    using assms(2,4) dec_of_nat_inj by (auto simp: simplecached_serve_def init_threads_def distinct_map comp_def inj_on_def)
qed

text \<open>
  Further fact. An argument of \<open>-t\<close> that is not a positive number is not refused: the daemon makes its handshake,
  removes the control queues at once and follows a pointer that was never given.
\<close>

theorem daemon_without_workers:
  assumes "nthreads \<le> 0" and "ipc_queues k cache_cmq_tx \<noteq> None" and "ipc_queues k cache_cmq_rx \<noteq> None"
  shows "simplecached_serve create nthreads k = Inl Bad_Deref"
  using assms
  by (auto simp: simplecached_serve_def init_threads_def simplecached_end_def clean_control_mq_def mq_unlink_def
      cache_cmq_tx_def cache_cmq_rx_def)

theorem daemon_workers_witness:
  "\<exists>infos. simplecached_serve Some 3 no_queues = Inr infos \<and> List.map thread_name infos ! 2 = ''thread_'' @ dec_of_nat 2"
proof -
  have o: "simplecached_opts (getopts ''t:c:h'' (Some daemon_long) [''-t'', dec_of_nat 3])
      \<lparr>do_threads = 1, do_cachedir = ''locals.txt''\<rparr> = Inr \<lparr>do_threads = 3, do_cachedir = ''locals.txt''\<rparr>"
    using atoi_dec [of 3 "[]"] by (simp add: getopts.simps(2) Let_def)
  from daemon_workers [OF o, of Some no_queues] show ?thesis by auto
qed

theorem daemon_without_workers_witness:
  "simplecached_serve Some (atoi ''many'') (snd (projr (create_message_queue (\<lambda>n. True) cache_cmq_rx 148 20
    (snd (projr (create_message_queue (\<lambda>n. True) cache_cmq_tx 148 20 no_queues)))))) = Inl Bad_Deref"
proof (rule daemon_without_workers)
  show "atoi ''many'' \<le> 0"
    by (simp add: atoi_def strtol10_def isspace_def isdigit_def less_eq_char_def clamp_long_def dec_val_def)
qed (simp_all add: create_message_queue_def no_queues_def cache_cmq_rx_def cache_cmq_tx_def)

end
