(* ===== verification/Mq_Tool.thy ===== *)
theory Mq_Tool
  imports Options Shm_Channel Get_Num
begin

text \<open>
  The command \<open>mq\<close> (\<open>project3/mq.c\<close>), which opens a message queue or creates it. Its header \<open>tlpi_hdr.h\<close> is not
  in the repository: \<open>errExit\<close>, which does not return, is a parameter, as the error it ends with.
\<close>

section \<open>Operands\<close>

text \<open>The words that \<open>getopt\<close> leaves behind the options, for an option string without long options.\<close>

function operands :: "string \<Rightarrow> string list \<Rightarrow> string list" where
  "operands os [] = []"
| "operands os (a # as) =
     (if a = ''--'' then as
      else if length a < 2 \<or> hd a \<noteq> CHR ''-'' then a # operands os as
      else operands os (snd (cluster os (tl a) as)))"
  by pat_completeness auto
termination
  by (relation "measure (\<lambda>(os, as). length as)")
    (auto simp: less_Suc_eq_le intro: cluster_length [OF prod.collapse [symmetric]])

declare operands.simps(2) [simp del]

section \<open>The kernel\<close>

definition O_RDWR :: int where "O_RDWR = 2"
definition O_CREAT :: int where "O_CREAT = 64"
definition O_EXCL :: int where "O_EXCL = 128"

text \<open>The names it opens, the sizes it allows, and the sizes of a queue made without attributes.\<close>

record mq_kernel =
  kn_open :: "string \<Rightarrow> bool"
  kn_allows :: "int \<Rightarrow> int \<Rightarrow> bool"
  kn_default :: "nat \<times> nat"

unbundle bit_operations_syntax

text \<open>\<open>mq_open\<close> with the attributes maximal number of messages and message size; \<open>None\<close> if it fails.\<close>

definition mq_open :: "mq_kernel \<Rightarrow> string \<Rightarrow> int \<Rightarrow> (int \<times> int) option \<Rightarrow> 'm ipc \<Rightarrow> 'm ipc option" where
  "mq_open kn name flags attrp k =
     (if \<not> kn_open kn name then None
      else case ipc_queues k name of
             Some q \<Rightarrow> if flags AND O_CREAT \<noteq> 0 \<and> flags AND O_EXCL \<noteq> 0 then None else Some k
           | None \<Rightarrow>
               if flags AND O_CREAT = 0 then None
               else (case attrp of
                       None \<Rightarrow> Some (k\<lparr>ipc_queues := (ipc_queues k)(name \<mapsto>
                         \<lparr>mq_msgsize = snd (kn_default kn), mq_maxmsg = fst (kn_default kn), mq_msgs = []\<rparr>)\<rparr>)
                     | Some (maxmsg, msgsize) \<Rightarrow>
                         if maxmsg \<le> 0 \<or> msgsize \<le> 0 \<or> \<not> kn_allows kn maxmsg msgsize then None
                         else Some (k\<lparr>ipc_queues := (ipc_queues k)(name \<mapsto>
                           \<lparr>mq_msgsize = nat msgsize, mq_maxmsg = nat maxmsg, mq_msgs = []\<rparr>)\<rparr>)))"

section \<open>The command\<close>

definition usageError :: "'a result" where
  "usageError = Inl (Exit 1)"

record mq_opts =
  mo_flags :: int
  mo_maxmsg :: int
  mo_msgsize :: int
  mo_attrp :: bool

primrec mq_options :: "(char \<times> string) list \<Rightarrow> mq_opts \<Rightarrow> mq_opts result" where
  "mq_options [] mo = Inr mo"
| "mq_options (e # es) mo =
     (let opt = fst e; optarg = snd e
      in if opt = CHR ''c'' then mq_options es (mo\<lparr>mo_flags := mo_flags mo OR O_CREAT\<rparr>)
         else if opt = CHR ''m'' then mq_options es (mo\<lparr>mo_maxmsg := atoi optarg, mo_attrp := True\<rparr>)
         else if opt = CHR ''s'' then mq_options es (mo\<lparr>mo_msgsize := atoi optarg, mo_attrp := True\<rparr>)
         else if opt = CHR ''x'' then mq_options es (mo\<lparr>mo_flags := mo_flags mo OR O_EXCL\<rparr>)
         else usageError)"

definition mq_defaults :: mq_opts where
  "mq_defaults = \<lparr>mo_flags = O_RDWR, mo_maxmsg = 50, mo_msgsize = 2048, mo_attrp = False\<rparr>"

text \<open>The permissions that are printed, and the queues after the program.\<close>

definition mq_main :: "c_error \<Rightarrow> mq_kernel \<Rightarrow> string list \<Rightarrow> 'm ipc \<Rightarrow> (int \<times> 'm ipc) result" where
  "mq_main errExit kn args k =
     bind_res (mq_options (getopts ''cm:s:x'' None args) mq_defaults) (\<lambda>mo.
     case operands ''cm:s:x'' args of
       [] \<Rightarrow> usageError
     | name # rest \<Rightarrow>
         bind_res (case rest of [] \<Rightarrow> Inr 384 | p # ps \<Rightarrow> getInt (Some p) GN_BASE_8) (\<lambda>perms.
         case mq_open kn name (mo_flags mo) (if mo_attrp mo then Some (mo_maxmsg mo, mo_msgsize mo) else None) k of
           None \<Rightarrow> Inl errExit
         | Some k1 \<Rightarrow> Inr (perms, k1)))"

section \<open>What the options set\<close>

lemma or_bits:
  "(x OR 64) AND 64 \<noteq> (0 :: int)" "(x OR 128) AND 64 = (x :: int) AND 64"
  "(x OR 128) AND 128 \<noteq> (0 :: int)" "(x OR 64) AND 128 = (x :: int) AND 128"
  by (simp_all add: bit.conj_disj_distrib2 or_eq_0_iff)

lemma mq_options_flags:
  assumes "mq_options es mo = Inr mo'"
  shows "mo_flags mo' AND O_CREAT \<noteq> 0 \<longleftrightarrow> mo_flags mo AND O_CREAT \<noteq> 0 \<or> CHR ''c'' \<in> fst ` set es"
    and "mo_flags mo' AND O_EXCL \<noteq> 0 \<longleftrightarrow> mo_flags mo AND O_EXCL \<noteq> 0 \<or> CHR ''x'' \<in> fst ` set es"
  using assms
  by (induction es arbitrary: mo)
    (auto simp: Let_def usageError_def O_CREAT_def O_EXCL_def or_bits split: if_splits)

lemma mq_defaults_flags: "mo_flags mq_defaults AND O_CREAT = 0" "mo_flags mq_defaults AND O_EXCL = 0"
  by (simp_all add: mq_defaults_def O_RDWR_def O_CREAT_def O_EXCL_def)

lemma mq_open_frame:
  assumes "mq_open kn name flags attrp k = Some k'"
  shows "kn_open kn name" and "ipc_shm k' = ipc_shm k" and "d \<noteq> name \<Longrightarrow> ipc_queues k' d = ipc_queues k d"
    and "ipc_queues k' name \<noteq> None"
    and "ipc_queues k name = Some q \<Longrightarrow> ipc_queues k' name = Some q \<and> (flags AND O_CREAT = 0 \<or> flags AND O_EXCL = 0)"
    and "ipc_queues k name = None \<Longrightarrow> flags AND O_CREAT \<noteq> 0"
  using assms by (auto simp: mq_open_def split: if_splits option.splits)

lemma digits_in_octal: "\<exists>c cs. digits_in 8 p = c # cs \<and> c \<noteq> CHR ''-''"
proof -
  obtain c cs where c: "digits_in 8 p = c # cs" by (cases "digits_in 8 p") auto
  then have "c \<in> set (digits_in 8 p)" by simp
  from digits_in_chars [OF _ this] obtain d where "d < 8" "c = char_in d" by auto
  with char_in_plain(2) [of d] c show ?thesis by simp
qed

lemma octal_perms: "p < 2 ^ 31 \<Longrightarrow> getInt (Some (digits_in 8 p)) GN_BASE_8 = Inr (int p)"
  using strtol_signed [of 8 "int p"]
  by (simp add: getInt_def getNum_def signed_in_def base_of_def GN_ANY_BASE_def GN_BASE_8_def GN_NONNEG_def GN_GT_0_def int_max_def)

section \<open>Properties\<close>

text \<open>
  Further fact. The sizes and permissions of the command line become those of the queue: printed in decimal and in octal,
  before or behind the name, they are read back and a new queue is made with them.
\<close>

theorem mq_creates:
  assumes "m < 2 ^ 31" and "s < 2 ^ 31" and "p < 2 ^ 31" and "0 < m" and "0 < s"
    and "name \<noteq> []" and "hd name \<noteq> CHR ''-''" and "kn_open kn name" and "kn_allows kn (int m) (int s)"
    and "ipc_queues k name = None"
    and "args \<in> {[''-c'', ''-m'', dec_of_nat m, ''-s'', dec_of_nat s, name, digits_in 8 p],
      [name, ''-cm'' @ dec_of_nat m, digits_in 8 p, ''-s'' @ dec_of_nat s]}"
  shows "mq_main e kn args k = Inr (int p, k\<lparr>ipc_queues := (ipc_queues k)(name \<mapsto>
    \<lparr>mq_msgsize = s, mq_maxmsg = m, mq_msgs = []\<rparr>)\<rparr>)"
proof -
  have at: "atoi (dec_of_nat m) = int m" "atoi (dec_of_nat s) = int s"
    using atoi_dec [OF assms(1), of "[]"] atoi_dec [OF assms(2), of "[]"] by simp_all
  obtain c cs where oct: "digits_in 8 p = c # cs" "c \<noteq> CHR ''-''" using digits_in_octal by blast
  obtain a as where nm: "name = a # as" "a \<noteq> CHR ''-''" using assms(6,7) by (cases name) auto
  have "getopts ''cm:s:x'' None args = [(CHR ''c'', []), (CHR ''m'', dec_of_nat m), (CHR ''s'', dec_of_nat s)]"
    using assms(11) oct nm by (auto simp: getopts.simps(2))
  moreover have "operands ''cm:s:x'' args = [name, digits_in 8 p]"
    using assms(11) oct nm by (auto simp: operands.simps(2))
  moreover have "(2 OR 64 :: int) AND 64 \<noteq> 0" by simp
  ultimately show ?thesis
    using assms(4,5,8-10) at octal_perms [OF assms(3)]
    by (simp add: mq_main_def mq_defaults_def mq_open_def O_RDWR_def O_CREAT_def)
qed

text \<open>
  Property C40. Whatever the command line, a run that ends well leaves every other queue, and a queue that was there already,
  with its messages, as it was; it makes one only with \<open>-c\<close>, and with \<open>-cx\<close> it only ends well if there was none.
\<close>

theorem mq_safe:
  assumes "mq_main e kn args k = Inr (perms, k')" and "opts = fst ` set (getopts ''cm:s:x'' None args)"
  shows "\<exists>name rest. operands ''cm:s:x'' args = name # rest \<and> kn_open kn name \<and>
    (\<forall>d. d \<noteq> name \<longrightarrow> ipc_queues k' d = ipc_queues k d) \<and> ipc_shm k' = ipc_shm k \<and> ipc_queues k' name \<noteq> None \<and>
    (\<forall>q. ipc_queues k name = Some q \<longrightarrow> ipc_queues k' name = Some q \<and> \<not> {CHR ''c'', CHR ''x''} \<subseteq> opts) \<and>
    (ipc_queues k name = None \<longrightarrow> CHR ''c'' \<in> opts)"
proof -
  from assms(1) obtain mo name rest where m: "mq_options (getopts ''cm:s:x'' None args) mq_defaults = Inr mo"
    "operands ''cm:s:x'' args = name # rest"
    by (cases "operands ''cm:s:x'' args") (auto simp: mq_main_def bind_res_eq_Inr usageError_def)
  define attrp where "attrp = (if mo_attrp mo then Some (mo_maxmsg mo, mo_msgsize mo) else None)"
  from assms(1) have op: "mq_open kn name (mo_flags mo) attrp k = Some k'"
    by (simp add: mq_main_def m bind_res_eq_Inr flip: attrp_def) (auto split: option.splits)
  note flags = mq_options_flags [OF m(1)] mq_defaults_flags
  show ?thesis
    using m(2) mq_open_frame [OF op] flags assms(2) by (intro exI [of _ name] exI [of _ rest]) auto
qed

definition sample_kernel :: mq_kernel where
  "sample_kernel = \<lparr>kn_open = (\<lambda>n. hd n = CHR ''/''), kn_allows = (\<lambda>m s. m \<le> 10 \<and> s \<le> 8192), kn_default = (10, 8192)\<rparr>"

theorem mq_creates_witness:
  "mq_main (Exit 1) sample_kernel [''/q'', ''-cm'' @ dec_of_nat 8, digits_in 8 420, ''-s'' @ dec_of_nat 64]
      \<lparr>ipc_queues = Map.empty, ipc_shm = Map.empty\<rparr> =
    Inr (420, \<lparr>ipc_queues = [''/q'' \<mapsto> \<lparr>mq_msgsize = 64, mq_maxmsg = 8, mq_msgs = []\<rparr>], ipc_shm = Map.empty\<rparr>)"
  using mq_creates [of 8 64 420 "''/q''" sample_kernel "\<lparr>ipc_queues = Map.empty, ipc_shm = Map.empty\<rparr>"
      "[''/q'', ''-cm'' @ dec_of_nat 8, digits_in 8 420, ''-s'' @ dec_of_nat 64]" "Exit 1"]
  by (simp add: sample_kernel_def)

theorem mq_safe_witness:
  "\<exists>k'. mq_main (Exit 1) sample_kernel [''-c'', ''/q''] \<lparr>ipc_queues = [''/q'' \<mapsto> \<lparr>mq_msgsize = 3, mq_maxmsg = 8, mq_msgs = [''one'']\<rparr>], ipc_shm = Map.empty\<rparr> =
      Inr (384, k') \<and> ipc_queues k' ''/q'' = Some \<lparr>mq_msgsize = 3, mq_maxmsg = 8, mq_msgs = [''one'']\<rparr>"
proof -
  let ?k = "\<lparr>ipc_queues = [''/q'' \<mapsto> \<lparr>mq_msgsize = 3, mq_maxmsg = 8, mq_msgs = [''one'']\<rparr>], ipc_shm = Map.empty\<rparr>"
  have ops: "operands ''cm:s:x'' [''-c'', ''/q''] = [''/q'']" by (simp add: operands.simps(2))
  have run: "mq_main (Exit 1) sample_kernel [''-c'', ''/q''] ?k = Inr (384, ?k)"
    by (simp add: mq_main_def ops getopts.simps(2) mq_defaults_def mq_open_def sample_kernel_def O_RDWR_def O_CREAT_def O_EXCL_def)
  from mq_safe [OF run refl] ops
  have "ipc_queues ?k ''/q'' = Some \<lparr>mq_msgsize = 3, mq_maxmsg = 8, mq_msgs = [''one'']\<rparr>" by auto
  with run show ?thesis by blast
qed

end
