(* ===== verification/Old_Xdr.thy ===== *)
theory Old_Xdr
  imports Image_Rpc
begin

text \<open>
  An earlier interface of the image server that is left in the repository (\<open>project4/minifyjpeg1.c\<close>): images as
  pointers to \<open>char\<close>. Its structs are not there any more; the fields are those the routines name.
\<close>

section \<open>Pointers in XDR\<close>

text \<open>A signed character is sent as a signed integer, of which the reader takes the last byte.\<close>

definition u32_of_char :: "char \<Rightarrow> u32" where
  "u32_of_char c = (let v = of_char c in word_of_int (if v < 128 then v else v - 256))"

definition char_of_u32 :: "u32 \<Rightarrow> char" where
  "char_of_u32 w = char_of (uint w)"

text \<open>The memory at the pointer is the string of the characters from there on.\<close>

definition xdr_char :: "XDR \<Rightarrow> string \<Rightarrow> (bool \<times> XDR \<times> string) result" where
  "xdr_char s m =
     (case m of
        [] \<Rightarrow> Inl Out_Of_Bounds
      | c # cs \<Rightarrow>
          (case xdr_u_int s (u32_of_char c) of
             (ok, s1, w) \<Rightarrow> Inr (ok, s1, if ok \<and> x_op s = XDR_DECODE then char_of_u32 w # cs else m)))"

definition xdr_int :: "XDR \<Rightarrow> u32 \<Rightarrow> (bool \<times> XDR \<times> u32) result" where
  "xdr_int s w = Inr (xdr_u_int s w)"

text \<open>
  An optional object: whether there is one, and then the object; reading allocates it, filled with zeros, unless the
  pointer already has memory, and freeing ends with a null pointer.
\<close>

definition xdr_pointer ::
  "bool \<Rightarrow> 'a \<Rightarrow> (XDR \<Rightarrow> 'a \<Rightarrow> (bool \<times> XDR \<times> 'a) result) \<Rightarrow> XDR \<Rightarrow> 'a option \<Rightarrow> (bool \<times> XDR \<times> 'a option) result" where
  "xdr_pointer alloc zero proc s p =
     (case xdr_u_int s (if p \<noteq> None then 1 else 0) of
        (ok, s1, more_data) \<Rightarrow>
          if \<not> ok then Inr (False, s1, p)
          else if more_data = 0 then Inr (True, s1, None)
          else (case p of
                  None \<Rightarrow>
                    if \<not> alloc then Inr (False, s1, None)
                    else bind_res (proc s1 zero) (\<lambda>(ok2, s2, v). Inr (ok2, s2, Some v))
                | Some m \<Rightarrow>
                    bind_res (proc s1 m) (\<lambda>(ok2, s2, v).
                    Inr (ok2, s2, if x_op s = XDR_FREE then None else Some v))))"

section \<open>The two routines\<close>

record in_pointer =
  ip_arg1 :: "string option"
  ip_arg2 :: "string option"

record minimize_image_1_argument =
  mi_arg1 :: in_pointer
  mi_arg2 :: u32
  mi_arg3 :: "u32 option"

definition xdr_in_pointer :: "bool \<Rightarrow> XDR \<Rightarrow> in_pointer \<Rightarrow> (bool \<times> XDR \<times> in_pointer) result" where
  "xdr_in_pointer alloc s obj =
     bind_res (xdr_pointer alloc [NUL] xdr_char s (ip_arg1 obj)) (\<lambda>(ok1, s1, p1).
     if \<not> ok1 then Inr (False, s1, obj\<lparr>ip_arg1 := p1\<rparr>)
     else bind_res (xdr_pointer alloc [NUL] xdr_char s1 (ip_arg2 obj)) (\<lambda>(ok2, s2, p2).
       if \<not> ok2 then Inr (False, s2, obj\<lparr>ip_arg1 := p1, ip_arg2 := p2\<rparr>)
       else Inr (True, s2, obj\<lparr>ip_arg1 := p1, ip_arg2 := p2\<rparr>)))"

definition xdr_minimize_image_1_argument ::
  "bool \<Rightarrow> XDR \<Rightarrow> minimize_image_1_argument \<Rightarrow> (bool \<times> XDR \<times> minimize_image_1_argument) result" where
  "xdr_minimize_image_1_argument alloc s obj =
     bind_res (xdr_in_pointer alloc s (mi_arg1 obj)) (\<lambda>(ok1, s1, a1).
     if \<not> ok1 then Inr (False, s1, obj\<lparr>mi_arg1 := a1\<rparr>)
     else bind_res (xdr_int s1 (mi_arg2 obj)) (\<lambda>(ok2, s2, a2).
       if \<not> ok2 then Inr (False, s2, obj\<lparr>mi_arg1 := a1, mi_arg2 := a2\<rparr>)
       else bind_res (xdr_pointer alloc 0 xdr_int s2 (mi_arg3 obj)) (\<lambda>(ok3, s3, a3).
         if \<not> ok3 then Inr (False, s3, obj\<lparr>mi_arg1 := a1, mi_arg2 := a2, mi_arg3 := a3\<rparr>)
         else Inr (True, s3, obj\<lparr>mi_arg1 := a1, mi_arg2 := a2, mi_arg3 := a3\<rparr>))))"

section \<open>What the routines write and read\<close>

lemma char_round_trip [simp]: "char_of_u32 (u32_of_char c) = c"
proof -
  have "uint (word_of_int v :: u32) mod 256 = v mod 256" for v
    by (simp add: uint_word_of_int take_bit_eq_mod mod_mod_cancel)
  moreover have "(of_char c - 256) mod (256 :: int) = of_char c"
    using mod_add_self2 [of "of_char c - 256 :: int" 256] by simp
  ultimately have "uint (u32_of_char c) mod 256 = of_char c" by (simp add: u32_of_char_def Let_def)
  then show ?thesis using char_of_mod_256 [of "uint (u32_of_char c)"] by (simp add: char_of_u32_def)
qed

definition pointer_bytes :: "('a \<Rightarrow> string) \<Rightarrow> 'a option \<Rightarrow> string" where
  "pointer_bytes f p = (case p of None \<Rightarrow> u32_bytes 0 | Some v \<Rightarrow> u32_bytes 1 @ f v)"

abbreviation first_char :: "string \<Rightarrow> string" where "first_char m \<equiv> u32_bytes (u32_of_char (hd m))"

text \<open>What a routine for objects promises, up to a cut that it makes on the way.\<close>

locale xdr_object =
  fixes proc :: "XDR \<Rightarrow> 'a \<Rightarrow> (bool \<times> XDR \<times> 'a) result" and bytes :: "'a \<Rightarrow> string" and cut :: "'a \<Rightarrow> 'a"
    and good :: "'a \<Rightarrow> bool" and zero :: 'a
  assumes writes: "x_op s = XDR_ENCODE \<Longrightarrow> good v \<Longrightarrow> proc s v = Inr (True, s\<lparr>x_out := x_out s @ bytes v\<rparr>, v)"
    and reads: "x_op s = XDR_DECODE \<Longrightarrow> good v \<Longrightarrow> x_in s = bytes v @ rest \<Longrightarrow>
      proc s zero = Inr (True, s\<lparr>x_in := rest\<rparr>, cut v)"
    and leaves: "x_op s = XDR_FREE \<Longrightarrow> good v \<Longrightarrow> proc s v = Inr (True, s, v)"
begin

lemma pointer_writes:
  assumes "x_op s = XDR_ENCODE" and "\<forall>v. p = Some v \<longrightarrow> good v"
  shows "xdr_pointer alloc z proc s p = Inr (True, s\<lparr>x_out := x_out s @ pointer_bytes bytes p\<rparr>, p)"
  using assms by (cases p) (simp_all add: xdr_pointer_def xdr_u_int_def pointer_bytes_def writes)

lemma pointer_reads:
  assumes "x_op s = XDR_DECODE" and "\<forall>v. p = Some v \<longrightarrow> good v" and "x_in s = pointer_bytes bytes p @ rest" and "alloc"
  shows "xdr_pointer alloc zero proc s None = Inr (True, s\<lparr>x_in := rest\<rparr>, map_option cut p)"
  using assms by (cases p) (simp_all add: xdr_pointer_def xdr_u_int_def pointer_bytes_def reads)

lemma pointer_frees:
  assumes "x_op s = XDR_FREE" and "\<forall>v. p = Some v \<longrightarrow> good v"
  shows "xdr_pointer alloc z proc s p = Inr (True, s, None)"
  using assms by (cases p) (simp_all add: xdr_pointer_def xdr_u_int_def leaves)

end

interpretation xc: xdr_object xdr_char first_char "\<lambda>m. [hd m]" "\<lambda>m. m \<noteq> []" "[NUL]"
  by unfold_locales (auto simp: xdr_char_def xdr_u_int_def split: list.splits)

interpretation xi: xdr_object xdr_int u32_bytes "\<lambda>w. w" "\<lambda>w. True" 0
  by unfold_locales (simp_all add: xdr_int_def xdr_u_int_def)

definition null_argument :: minimize_image_1_argument where
  "null_argument = \<lparr>mi_arg1 = \<lparr>ip_arg1 = None, ip_arg2 = None\<rparr>, mi_arg2 = 0, mi_arg3 = None\<rparr>"

section \<open>Properties\<close>

text \<open>
  Further fact. The old interface carries one byte of each image: what is encoded and read back, whatever follows it, has
  the numbers but of what its pointers lead to only the first character; and freeing leaves no pointer.
\<close>

theorem old_interface_first_byte:
  assumes "a = \<lparr>mi_arg1 = \<lparr>ip_arg1 = p1, ip_arg2 = p2\<rparr>, mi_arg2 = n, mi_arg3 = p3\<rparr>" and "p1 \<noteq> Some []" and "p2 \<noteq> Some []"
  shows "\<exists>s. xdr_minimize_image_1_argument True encoding a = Inr (True, s, a) \<and>
    xdr_minimize_image_1_argument True (decoding (x_out s @ rest)) null_argument =
      Inr (True, decoding rest, \<lparr>mi_arg1 = \<lparr>ip_arg1 = map_option (\<lambda>m. [hd m]) p1, ip_arg2 = map_option (\<lambda>m. [hd m]) p2\<rparr>, mi_arg2 = n, mi_arg3 = p3\<rparr>) \<and>
    xdr_minimize_image_1_argument True freeing a = Inr (True, freeing, null_argument\<lparr>mi_arg2 := n\<rparr>)"
proof -
  have g: "\<forall>v. p1 = Some v \<longrightarrow> v \<noteq> []" "\<forall>v. p2 = Some v \<longrightarrow> v \<noteq> []" "\<forall>v. p3 = Some v \<longrightarrow> True" using assms(2,3) by auto
  have e: "xdr_minimize_image_1_argument True encoding a =
      Inr (True, encoding\<lparr>x_out := pointer_bytes first_char p1 @ pointer_bytes first_char p2 @ u32_bytes n @
        pointer_bytes u32_bytes p3\<rparr>, a)"
    using g by (simp add: assms(1) xdr_minimize_image_1_argument_def xdr_in_pointer_def xc.pointer_writes xi.pointer_writes
        xdr_int_def xdr_u_int_def)
  moreover have "xdr_minimize_image_1_argument True (decoding ((pointer_bytes first_char p1 @ pointer_bytes first_char p2 @ u32_bytes n @
        pointer_bytes u32_bytes p3) @ rest)) null_argument =
      Inr (True, decoding rest, \<lparr>mi_arg1 = \<lparr>ip_arg1 = map_option (\<lambda>m. [hd m]) p1, ip_arg2 = map_option (\<lambda>m. [hd m]) p2\<rparr>, mi_arg2 = n, mi_arg3 = p3\<rparr>)"
    using g by (simp add: null_argument_def xdr_minimize_image_1_argument_def xdr_in_pointer_def xc.pointer_reads xi.pointer_reads
        xdr_int_def xdr_u_int_def option.map_ident)
  moreover have "xdr_minimize_image_1_argument True freeing a = Inr (True, freeing, null_argument\<lparr>mi_arg2 := n\<rparr>)"
    using g by (simp add: assms(1) null_argument_def xdr_minimize_image_1_argument_def xdr_in_pointer_def xc.pointer_frees xi.pointer_frees
        xdr_int_def xdr_u_int_def)
  ultimately show ?thesis by simp
qed

theorem old_interface_first_byte_witness:
  "\<exists>s. xdr_minimize_image_1_argument True (decoding s) null_argument =
    Inr (True, decoding [], \<lparr>mi_arg1 = \<lparr>ip_arg1 = Some ''i'', ip_arg2 = None\<rparr>, mi_arg2 = 5, mi_arg3 = Some 7\<rparr>)"
  using old_interface_first_byte [OF refl, of "Some ''image''" None 5 "Some 7" "[]"] by auto

end
