(* ===== verification/Mtgf_Served.thy ===== *)
theory Mtgf_Served
  imports Mtgf_Handler
begin

text \<open>
  What the multithreaded server's pool does for its clients as long as it keeps running: every request is taken by
  one worker, and what a worker has completed was answered with the file.
\<close>

section \<open>One request\<close>

definition content_file :: "item_t list \<Rightarrow> file_env \<Rightarrow> string \<Rightarrow> string option" where
  "content_file items f k = map_option (fdata f) (map_of (table_entries items) k)"

definition serving :: "item_t list \<Rightarrow> file_env \<Rightarrow> bool" where
  "serving items f \<longleftrightarrow> table_ok items \<and> distinct (List.map fst (table_entries items)) \<and> disk_ok f \<and>
     (\<forall>(k, fd) \<in> set (table_entries items). length (fdata f fd) < 2 ^ 64)"

context gfs_api
begin

lemma perform_answers:
  assumes "serving items f" and "NUL \<notin> set k" and "ready c"
  shows "\<exists>c' f'. handler_perform api c (Some k) (items, f) =
      Inr (fst (file_reply (content_file items f k)), c', items, f') \<and>
    wire c' = wire c @ snd (file_reply (content_file items f k)) \<and> fdata f' = fdata f \<and> disk_ok f'"
proof (cases "map_of (table_entries items) k")
  case None
  from assms(1) have t: "table_ok items" "disk_ok f" by (simp_all add: serving_def)
  from header_ready [OF assms(3) gfs_strstatus_known(2), of 0] obtain c' where
    h: "api_sendheader api c S_GF_FILE_NOT_FOUND 0 = Inr (int (length (header_line ''FILE_NOT_FOUND'' 0)), c')" by auto
  with header_law [OF gfs_strstatus_known(2), of 0 c] have "wire c' = wire c @ header_line ''FILE_NOT_FOUND'' 0" by simp
  with h t content_get_absent [OF t(1) assms(2) None, of f] show ?thesis
    by (simp add: handler_perform_def content_file_def file_reply_def None)
next
  case (Some fd)
  from assms(1) have t: "table_ok items" "distinct (List.map fst (table_entries items))" "disk_ok f"
    "length (fdata f fd) < 2 ^ 64" using map_of_SomeD [OF Some] by (auto simp: serving_def)
  from perform_serves [OF t(1) assms(2) t(2) Some assms(3) t(3,4)] obtain c' f' where
    p: "handler_perform api c (Some k) (items, f) = Inr (int (length (fdata f fd)), c', items, f')"
      "wire c' = wire c @ header_line ''OK'' (length (fdata f fd)) @ fdata f fd" by blast
  let ?f = "lseek_set (lseek_set f fd 0) fd (length (fdata f fd))"
  note look = content_get_present [OF t(1) assms(2) t(2) Some]
  from p(1) look obtain n c1 where h: "api_sendheader api c S_GF_OK (length (fdata f fd)) = Inr (n, c1)"
    by (auto simp: handler_perform_def lseek_end_def Let_def bind_res_eq_Inr)
  obtain r z f3 where l: "transfer_loop (\<lambda>g off. pread g fd 80 off) (api_send api) (\<lambda>c. (-1, api_abort api c)) c1 ?f
      (length (fdata f fd)) 0 = (r, z, f3)" by (metis prod_cases3)
  have "transfer_loop (\<lambda>g off. pread g fd 80 off) (api_send api) (\<lambda>c. (-1, api_abort api c)) c1 ?f
      (length (fdata f fd)) 0 = (int (length (fdata f fd)), c', f')"
    using p(1) look h l by (simp add: handler_perform_def lseek_end_def Let_def)
  with l have l: "transfer_loop (\<lambda>g off. pread g fd 80 off) (api_send api) (\<lambda>c. (-1, api_abort api c)) c1 ?f
      (length (fdata f fd)) 0 = (int (length (fdata f fd)), c', f')" by simp
  have "(fdata f' = fdata f \<and> disk_ok f') \<and> (int (length (fdata f fd)) \<noteq> - 1 \<longrightarrow> True)"
  proof (rule transfer_loop_frame [where rd = "\<lambda>g off. pread g fd 80 off" and send = "api_send api" and
        fail = "\<lambda>c. (-1, api_abort api c)" and J = "\<lambda>c. True", OF _ _ _ l])
    show "fdata g1 = fdata f \<and> disk_ok g1"
      if "fdata g = fdata f \<and> disk_ok g" "pread g fd 80 off = (o1, g1)" for g off o1 g1
      using that pread_fdata [OF that(2)] pread_disk_ok [OF _ that(2)] by simp
  qed (use t(3) in simp_all)
  with p show ?thesis by (simp add: content_file_def file_reply_def Some)
qed

end

section \<open>Where each request is\<close>

text \<open>The request a worker has popped and not completed, and those the library still hands over.\<close>

definition in_hand :: "('c \<times> string) srv_worker \<Rightarrow> ('c \<times> string) multiset" where
  "in_hand w = (case w of V_Unlock r \<Rightarrow> {#r#} | V_Work r \<Rightarrow> {#r#} | _ \<Rightarrow> {#})"

lemma in_hand_simps [simp]:
  "in_hand V_Start = {#}" "in_hand V_Test = {#}" "in_hand V_Wait = {#}" "in_hand V_Pop = {#}"
  "in_hand (V_Unlock r) = {#r#}" "in_hand (V_Work r) = {#r#}"
  by (simp_all add: in_hand_def)

definition lib_todo :: "'c srv_boss \<Rightarrow> ('c \<times> string option) list" where
  "lib_todo b = (case b of R_Next rs \<Rightarrow> rs | R_Put r rs \<Rightarrow> (fst r, Some (snd r)) # rs)"

definition taken :: "'c srv_pool \<Rightarrow> ('c \<times> string) multiset" where
  "taken s = mset (steque_items (sp_queue s)) + sum_list (List.map in_hand (sp_workers s)) +
     mset (List.map (\<lambda>(i, r, m, c). r) (sp_served s))"

definition answered_right ::
  "('c \<Rightarrow> string) \<Rightarrow> (string \<Rightarrow> string option) \<Rightarrow> nat \<times> ('c \<times> string) \<times> int \<times> 'c \<Rightarrow> bool" where
  "answered_right wire file = (\<lambda>(i, (c, k), m, c').
     m = fst (file_reply (file k)) \<and> wire c' = wire c @ snd (file_reply (file k)))"

definition srv_good ::
  "('c \<Rightarrow> string) \<Rightarrow> item_t list \<Rightarrow> file_env \<Rightarrow> ('c \<times> string option) list \<Rightarrow> 'c srv_pool \<Rightarrow> bool" where
  "srv_good wire items f reqs s \<longleftrightarrow>
     steque_invar (sp_queue s) \<and> length (lib_todo (sp_boss s)) \<le> steque_capacity (sp_queue s) \<and>
     mset (lib_todo (sp_boss s)) + image_mset (\<lambda>r. (fst r, Some (snd r))) (taken s) = mset reqs \<and>
     (\<exists>g. sp_content s = (items, g) \<and> fdata g = fdata f \<and> disk_ok g) \<and>
     (\<forall>e \<in> set (sp_served s). answered_right wire (content_file items f) e)"

lemma hand_update:
  "i < length ws \<Longrightarrow> sum_list (List.map in_hand (ws[i := w])) + in_hand (ws ! i) =
     sum_list (List.map in_hand ws) + in_hand w"
  by (induction ws arbitrary: i) (auto split: nat.split simp: ac_simps)

lemma hand_same:
  assumes "i < length ws" and "in_hand w = in_hand (ws ! i)"
  shows "sum_list (List.map in_hand (ws[i := w])) = sum_list (List.map in_hand ws)"
  using hand_update [OF assms(1), of w] assms(2) by simp

lemma served_boss:
  assumes "srv_good wire items f reqs s" and "mt_handler_get s = Some (Inr s')"
  shows "srv_good wire items f reqs s'"
proof (cases "sp_boss s")
  case (R_Next rs)
  with assms show ?thesis
    by (auto simp: mt_handler_get_def srv_good_def lib_todo_def taken_def split: list.splits option.splits if_splits)
next
  case (R_Put r rs)
  with assms(2) obtain q where q: "steque_enqueue (sp_queue s) r = Inr q"
    "s' = s\<lparr>sp_queue := q, sp_mutex := None, sp_boss := R_Next rs\<rparr>"
    by (auto simp: mt_handler_get_def bind_res_eq_Inr)
  have i: "steque_invar (sp_queue s)" "0 < steque_capacity (sp_queue s)"
    using assms(1) R_Put by (auto simp: srv_good_def lib_todo_def)
  from sq.enq_InrD [OF i q(1)] q(2) assms(1) R_Put show ?thesis
    by (auto simp: srv_good_def lib_todo_def taken_def ac_simps)
qed

lemma served_moves:
  assumes "srv_good wire items f reqs s" and "i < length (sp_workers s)" and "in_hand w = in_hand (sp_workers s ! i)"
  shows "srv_good wire items f reqs (sp_workers_update (\<lambda>ws. ws[i := w]) s)"
    and "srv_good wire items f reqs (sp_workers_update (\<lambda>ws. ws[i := w]) (s\<lparr>sp_mutex := m\<rparr>))"
  using assms(1) hand_same [OF assms(2,3)] by (simp_all add: srv_good_def taken_def)

context gfs_api
begin

lemma served_worker:
  assumes "srv_good wire items f reqs s" and "i < length (sp_workers s)" and "srv_worker_step api i s = Some (Inr s')"
    and "serving items f" and "\<forall>(c, p) \<in> set reqs. ready c \<and> (\<forall>k. p = Some k \<longrightarrow> NUL \<notin> set k)"
  shows "srv_good wire items f reqs s'"
proof (cases "sp_workers s ! i")
  case V_Pop
  with assms(3) obtain r q where q: "steque_pop (sp_queue s) = Inr (r, q)"
    "s' = s\<lparr>sp_queue := q, sp_workers := (sp_workers s)[i := V_Unlock r]\<rparr>"
    by (auto simp: srv_worker_step_def bind_res_eq_Inr)
  have inv: "steque_invar (sp_queue s)" using assms(1) by (simp add: srv_good_def)
  have "sum_list (List.map in_hand ((sp_workers s)[i := V_Unlock r])) = sum_list (List.map in_hand (sp_workers s)) + {#r#}"
    using hand_update [OF assms(2), of "V_Unlock r"] V_Pop by simp
  with sq.deq_InrD [OF inv q(1)] q(2) assms(1) show ?thesis
    by (auto simp: srv_good_def taken_def ac_simps)
next
  case (V_Work r)
  obtain g where g: "sp_content s = (items, g)" "fdata g = fdata f" "disk_ok g" using assms(1) by (auto simp: srv_good_def)
  have hand: "sum_list (List.map in_hand (sp_workers s)) = sum_list (List.map in_hand ((sp_workers s)[i := V_Test])) + {#r#}"
    using hand_update [OF assms(2), of V_Test] V_Work by simp
  then have "mset reqs = mset (lib_todo (sp_boss s)) + image_mset (\<lambda>r. (fst r, Some (snd r))) (mset (steque_items (sp_queue s)) +
      (sum_list (List.map in_hand ((sp_workers s)[i := V_Test])) + {#r#}) + mset (List.map (\<lambda>(i, r, m, c). r) (sp_served s)))"
    using assms(1) by (simp add: srv_good_def taken_def)
  then have "(fst r, Some (snd r)) \<in># mset reqs" by simp
  then have "(fst r, Some (snd r)) \<in> set reqs" by simp
  then have ok: "ready (fst r)" "NUL \<notin> set (snd r)" using assms(5) by auto
  have same: "content_file items g = content_file items f" "serving items g"
    using g(2,3) assms(4) by (auto simp: content_file_def serving_def)
  from perform_answers [OF same(2) ok(2,1)] obtain c' g' where
    p: "handler_perform api (fst r) (Some (snd r)) (items, g) = Inr (fst (file_reply (content_file items f (snd r))), c', items, g')"
      "wire c' = wire (fst r) @ snd (file_reply (content_file items f (snd r)))" "fdata g' = fdata f" "disk_ok g'"
    unfolding same(1) using g(2) by auto
  define s1 where "s1 = s\<lparr>sp_content := (items, g'), sp_workers := (sp_workers s)[i := V_Test],
      sp_served := sp_served s @ [(i, r, fst (file_reply (content_file items f (snd r))), c')]\<rparr>"
  have "s' = s1"
    using V_Work assms(3) g(1) p(1) by (cases s) (auto simp: srv_worker_step_def s1_def)
  moreover have "taken s1 = taken s" by (simp add: taken_def s1_def hand)
  moreover have "answered_right wire (content_file items f) (i, r, fst (file_reply (content_file items f (snd r))), c')"
    using p(2) by (simp add: answered_right_def case_prod_unfold)
  then have "\<forall>e \<in> set (sp_served s1). answered_right wire (content_file items f) e"
    using assms(1) by (simp add: srv_good_def s1_def)
  moreover have "sp_queue s1 = sp_queue s" "sp_boss s1 = sp_boss s" "sp_content s1 = (items, g')"
    by (simp_all add: s1_def)
  ultimately show ?thesis using p(3,4) assms(1) by (simp add: srv_good_def)
qed (use assms served_moves [OF assms(1,2)] in \<open>auto simp: srv_worker_step_def split: if_splits\<close>)

lemma served_run:
  assumes "srv_run api sched s = Inr s'" and "srv_good wire items f reqs s" and "serving items f"
    and "\<forall>(c, p) \<in> set reqs. ready c \<and> (\<forall>k. p = Some k \<longrightarrow> NUL \<notin> set k)"
  shows "srv_good wire items f reqs s'"
proof (rule run_sched_invariant [OF assms(1)])
  fix t x y
  assume "srv_good wire items f reqs x" and "srv_act api t x = Some (Inr y)"
  then show "srv_good wire items f reqs y"
    using served_boss [of wire items f reqs x y] served_worker [OF _ _ _ assms(3,4), of x _ y]
    by (auto simp: srv_act_def split: owner.splits if_splits)
qed (rule assms(2))

end

section \<open>Properties\<close>

text \<open>
  Property C36. The multithreaded server never mixes its requests up: in every schedule that runs without undefined behaviour
  each worker completes at most one request, no request is served twice or made up, and every completed request
  has been answered with exactly the file that the content table names for its path, or \<open>FILE_NOT_FOUND\<close>.
\<close>

theorem srv_serves_right:
  assumes "gfs_api api wire ready" and "serving items f"
    and "\<forall>(c, p) \<in> set reqs. ready c \<and> (\<forall>k. p = Some k \<longrightarrow> NUL \<notin> set k)"
    and "length reqs \<le> nodes" and "length reqs \<le> nat int_max"
    and "srv_run api sched (handler_init n nodes (items, f) reqs) = Inr s"
  shows "distinct (List.map fst (sp_served s)) \<and> length (sp_served s) \<le> n \<and>
    mset (List.map (\<lambda>(i, (c, k), m, c'). (c, Some k)) (sp_served s)) \<subseteq># mset reqs \<and>
    (\<forall>(i, (c, k), m, c') \<in> set (sp_served s).
       m = fst (file_reply (content_file items f k)) \<and> wire c' = wire c @ snd (file_reply (content_file items f k)))"
proof -
  let ?s0 = "handler_init n nodes (items, f) reqs"
  from srv_inv_run [OF srv_inv_init assms(6)] have inv: "srv_inv s" "length (sp_workers s) = n"
    by (simp_all add: handler_init_def)
  then have d: "distinct (List.map fst (sp_served s))" "\<forall>i \<in> set (List.map fst (sp_served s)). i < n"
    by (auto simp: srv_inv_def has_served_def)
  have none: "sum_list (List.map in_hand (replicate n V_Start)) = {#}" by (induction n) simp_all
  have "srv_good wire items f reqs ?s0"
    using assms(2,4,5) steque_init_invar [where 'a = "'a \<times> string" and n = nodes] none
    by (simp add: srv_good_def handler_init_def lib_todo_def taken_def serving_def)
  from gfs_api.served_run [OF assms(1,6) this assms(2,3)] have g: "srv_good wire items f reqs s" .
  then have "mset reqs = mset (lib_todo (sp_boss s)) + image_mset (\<lambda>r. (fst r, Some (snd r))) (taken s)"
    by (simp add: srv_good_def)
  moreover have "image_mset (\<lambda>r. (fst r, Some (snd r))) (mset (List.map (\<lambda>(i, r, m, c). r) (sp_served s))) =
      mset (List.map (\<lambda>(i, (c, k), m, c'). (c, Some k)) (sp_served s))"
    by (auto simp: image_mset.compositionality comp_def case_prod_unfold)
  ultimately have "mset (List.map (\<lambda>(i, (c, k), m, c'). (c, Some k)) (sp_served s)) \<subseteq># mset reqs"
    by (simp add: taken_def)
  moreover have "length (sp_served s) \<le> n" using d distinct_bounded_length [of "List.map fst (sp_served s)" n] by simp
  ultimately show ?thesis using d(1) g by (auto simp: srv_good_def answered_right_def)
qed

theorem srv_serves_right_witness:
  "\<exists>s. srv_run gflib_calls [Boss, Boss, Worker 0, Worker 0, Worker 0, Worker 0, Worker 0]
      (handler_init 2 5 (sample_table, sample_env) [(gfcontext_create False (new_conn [] []), Some ''/a'')]) = Inr s \<and>
    List.map (\<lambda>(i, r, m, c). tx (ctx_conn c)) (sp_served s) = [header_line ''OK'' 8 @ ''contents'']"
proof -
  let ?c = "gfcontext_create False (new_conn [] [])"
  have sv: "serving sample_table sample_env"
    using sample_table_ok by (simp add: serving_def) (auto simp: sample_env_def disk_ok_def)
  from sample_perform obtain c' f' where
    p: "handler_perform gflib_calls ?c (Some ''/a'') (sample_table, sample_env) = Inr (8, c', sample_table, f')" by blast
  from serve_one_run [OF _ _ p, of 2 5 "[]"] obtain s where
    s: "srv_run gflib_calls [Boss, Boss, Worker 0, Worker 0, Worker 0, Worker 0, Worker 0]
      (handler_init 2 5 (sample_table, sample_env) [(?c, Some ''/a'')]) = Inr s" "sp_served s = [(0, (?c, ''/a''), 8, c')]"
    by auto
  have f: "content_file sample_table sample_env ''/a'' = Some ''contents''"
    using sample_table_ok(2) by (simp add: content_file_def sample_env_def)
  from srv_serves_right [OF gl.gfs_api_axioms sv _ _ _ s(1)] s(2)
  have "tx (ctx_conn c') = tx (ctx_conn ?c) @ snd (file_reply (content_file sample_table sample_env ''/a''))"
    using sample_ready by (simp add: int_max_def)
  moreover have "file_reply (Some ''contents'') = (8, header_line ''OK'' 8 @ ''contents'')"
    by (simp add: file_reply_def eval_nat_numeral)
  moreover have "tx (ctx_conn ?c) = []" by (simp add: gfcontext_create_def new_conn_def)
  ultimately have "tx (ctx_conn c') = header_line ''OK'' 8 @ ''contents''" by (simp add: f)
  then have "List.map (\<lambda>(i, r, m, c). tx (ctx_conn c)) (sp_served s) = [header_line ''OK'' 8 @ ''contents'']"
    by (simp add: s(2))
  with s(1) show ?thesis by (intro exI [of _ s] conjI)
qed

end
