(* ===== verification/Spec2Isabelle.thy ===== *)
theory Spec2Isabelle
  imports Getfile_Transfer Gfclient_Download Image_Rpc Mtgf_Download Mtgf_Handler
    Proxy_Cache_Correct Curl_Handler Proxy_Start Server_Main Client_Main
    Proxy_Main Web_Clients Proxy_Race Shm_Demo Simple_Curl Get_Num
    Daemon_Main Mq_Tool Old_Xdr Mtgf_Served
begin

text \<open>
  A model of the course projects in \<open>src/\<close> (C programs for an operating systems course) and
  the theorems about it.

  The programs. \<open>project1/ud923-project1-gflib\<close> is a file-transfer protocol, GETFILE: a client
  library (\<open>gfclient.c\<close>), a server library (\<open>gfserver.c\<close>), a handler that serves the files of a
  content table (\<open>handler.c\<close>, \<open>content.c\<close>) and a download client that takes its paths from
  a workload (\<open>gfclient_download.c\<close>, \<open>workload.c\<close>). \<open>project1/ud923-project1-mtgf\<close> has a client and
  a server with pools of threads around a shared queue (\<open>steque.c\<close>); the libraries they link
  against are object files there. \<open>project3\<close> is a proxy with the server library in front: it
  serves a request from a local file, from the web, or from a cache daemon (\<open>simplecached.c\<close>,
  \<open>simplecache.c\<close>) that it reaches through message queues and shared memory (\<open>shm_channel.c\<close>,
  \<open>handle_with_cache.c\<close>). \<open>project4\<close> is a parallel client of an image server called by RPC
  (\<open>minifyjpeg_main.c\<close>, \<open>minify_via_rpc.c\<close>) and that server (\<open>minifyjpeg.c\<close>, \<open>magickminify.c\<close>) with
  the stubs between them.

  The theories, each importing the ones it calls:

  \<open>C_Prelude\<close>: results with the error values of the development (exits with their code and the
  undefined behaviours: reads and writes out of bounds, null and dangling pointers, signed overflow,
  division by zero, bad unlocks), C strings in buffers, the C library's string functions and decimal
  numbers.

  \<open>Os_Model\<close>: the heap of strings, connections (the reads a peer's data is cut into, the writes it accepts) and open files
  with the reads the disk gives. Both are data of the model, so a theorem about every connection
  quantifies over it.

  \<open>Steque\<close>: the queue on an explicit store of nodes, its abstraction to a list, and the queue laws as
  the locales \<open>fifo_queue\<close> and \<open>front_queue\<close>, interpreted on the code as \<open>sq\<close> and \<open>dq\<close>. All the
  pools below use only these laws.

  \<open>Content\<close>: \<open>content.c\<close> and its copy \<open>simplecache.c\<close>: loading, sorting and bisection.

  \<open>Gfclient\<close>, \<open>Gfclient_Response\<close>: the client library, function by function, and what its response
  parser delivers for every way the network cuts a response.

  \<open>Gfserver\<close>, \<open>Gfserver_Request\<close>: the server library and its request parser.

  \<open>Handler\<close>: the three handlers that send a file. Their loop is proved once over the locale
  \<open>gfs_api\<close>, the contract of \<open>gfs_sendheader\<close> and \<open>gfs_send\<close>, which \<open>gfserver.c\<close> provides
  (interpretation \<open>gl\<close>).

  \<open>Getfile_Transfer\<close>: client, server and handler together, from the request to the written file.

  \<open>Workload\<close>, \<open>Gfclient_Download\<close>: the workload and the single-threaded download client.

  \<open>Schedule\<close>: concurrent systems. A thread's step is a partial function of the state (\<open>None\<close> if it
  has to wait), a schedule is a list of threads, and the locale \<open>schedule_system\<close> gives, from the
  preservation of an invariant, a weight that every step lowers and the absence of deadlocks, that every
  schedule runs without error and that taking turns ends.

  \<open>Pool\<close>: the boss/worker pool shared by the image client and the download client, with the locale
  \<open>pool_worker\<close> as the contract of one request's work; it is a \<open>schedule_system\<close>.

  \<open>Minify\<close>, \<open>Mtgf_Download\<close>: the two programs that use the pool (interpretations \<open>mp\<close>, \<open>mt\<close>).

  \<open>Image_Rpc\<close>: the RPC stubs with their encoding (both routines interpret the locale \<open>xdr_codec\<close>), the
  dispatcher and main of the image server, its use of ImageMagick, and the client's call; with it the
  server that \<open>Minify\<close> takes as a function is the modelled one.

  \<open>Mtgf_Handler\<close>, \<open>Mtgf_Served\<close>: the server's pool, which does not keep to its mutex, and what holds all the same
  for the requests it completes.

  \<open>Shm_Channel\<close>: message queues, segments and their names.

  \<open>Cache_Transfer\<close>, \<open>Cache_Transfer_Correct\<close>: one transfer between proxy and cache, as two processes.

  \<open>Segment_Pool\<close>: the proxy's pool of segments under a mutex with a condition variable
  (interpretation \<open>gp\<close>).

  \<open>Proxy_Cache\<close>: the proxy's threads and the daemon's workers over the pool, the control queue and the
  segments, every message and memory access a step. \<open>Transfer_Table\<close> and \<open>Proxy_Cache_Correct\<close>: the
  invariant (which transfer owns which segment, what is on each queue, which request the worker serves)
  and, by it, that all requests are answered with their files.

  \<open>Curl_Handler\<close>: the proxy's handler that fetches from the web (\<open>handle_with_curl.c\<close>) with its write
  callback. libcurl is a parameter: the results of its calls and the pieces it hands to the callback.

  \<open>Proxy_Start\<close>: the start of the proxy and of the cache daemon as two processes: the control queues,
  the handshake, the segments each maps, and the cleaning when they stop.

  \<open>Options\<close>: \<open>getopt\<close> and \<open>getopt_long\<close> as the mains use them, and one option loop per program.

  \<open>Server_Main\<close>, \<open>Client_Main\<close>: the main functions, which join the options to the components above.

  \<open>Proxy_Main\<close>: the proxy and the daemon from their command lines through the handshake to the last
  answer. The server library of the proxy is a parameter that keeps the settings it is given.

  \<open>Web_Clients\<close>: the download client of \<open>project1\<close> behind this proxy: the files it stores are the daemon's,
  and whichever of the handlers answers makes no difference.

  \<open>Daemon_Main\<close>: the threads of the daemon, its end and its signal handler.

  \<open>Proxy_Race\<close>: an interleaving with two workers in the daemon that goes wrong.

  \<open>Shm_Demo\<close>, \<open>Simple_Curl\<close>: the demonstrations \<open>shm_demo.c\<close> (interpretation \<open>dm\<close>) and \<open>simplecurl.c\<close>.

  \<open>Get_Num\<close>: the number parser \<open>get_num.c\<close> with \<open>strtol\<close>, and its relation to the \<open>atoi\<close> of the mains.
  \<open>Mq_Tool\<close>: the command \<open>mq.c\<close> that opens or makes a queue, which uses it.

  \<open>Old_Xdr\<close>: \<open>minifyjpeg1.c\<close>, the encoding of an earlier interface (interpretations \<open>xc\<close>, \<open>xi\<close>).

  How definitions relate to the code. A struct is a record, a static variable a field of the
  component's state, a handler or a loop one function with the guards and early returns of the code.
  Unsigned counters and ports are words, an \<open>int\<close> is an integer whose additions test the range of 32
  bits, \<open>ssize_t\<close> results are integers. Definitions have the names of the code's functions;
  a prefix (\<open>gfc_\<close>, \<open>gfs_\<close>) tells equal names of two files apart.

  Bounds. The loops of the parsers recurse on the reads that are left, the transfer loops on the
  bytes that are left, so they end without fuel. \<open>nodes\<close> bounds the nodes \<open>malloc\<close> can give for
  a queue; the theorems ask for as many as there are requests. The rounds in the theorems on
  termination are the weight of the start state: four steps per image, nine per download, ten per
  request for a segment, six per byte of a cached file;
  fifteen per request and six per byte for the whole proxy.

  Findings are stated as theorems where they are behaviour of the model: lost downloads, the race on
  the counter of the local names, the reads of a request after it has been freed, a header that is cut
  and still followed by the file, a request whose first bytes are overwritten, the unlocked pool of the server, two workers of the daemon over one segment, a bad
  image that ends the image server, a daemon without workers, an interface that sends one byte of an image, segments that are never removed, the
  search that does not count, web data sent again, the handshake that overruns its message, options that
  the option string does not know, empty files, split headers, null paths.

  The multithreaded download client reads each request once more after releasing it. What these reads
  give is a parameter, an error where the library has freed the request, as its header says; the theorems
  on the client hold up to such an error.

  Assumed of the layout: the 140 bytes behind the control message of the daemon, which the handshake
  overwrites, are a string of their own that holds no other state of the model, although the queue of
  segments and the descriptors of the control queues are declared there. The theorems on the proxy with
  its cache ask for one worker in the daemon, its default; \<open>Proxy_Race\<close> shows why.

  Not modelled: spurious wake-ups of \<open>pthread_cond_wait\<close> (the code repeats its test), messages on the terminal, signals other than the handlers' own code, socket options,
  permissions and attributes of threads; the code of the image library, of libcurl, of the RPC
  transport and of the server library of \<open>project3\<close>, which is an object file; requests that reach the proxy
  before the daemon is ready (they wait in the control queue); the
  function \<open>errExit\<close> of the header \<open>tlpi_hdr.h\<close>, which is not there; the printing macros of \<open>log.h\<close> and the
  test \<open>magickminify_test.c\<close>.
\<close>

end
